(* ===== verification/Prelude.thy ===== *)
theory Prelude
  imports "HOL-Library.Word" "HOL-Library.Monad_Syntax"
begin

text \<open>
  Shared vocabulary of the development: machine integers, byte slices with Rust's checked
  accessors, big-endian fields, Rust strings as lists of code points, and the clock.
  Every other theory builds on this one.  The collections declared here are the ones the
  component proofs pass to \<open>simp\<close>.
\<close>

unbundle bit_operations_syntax

named_theorems wire_simps \<open>evaluation rules for slices and big-endian fields\<close>
named_theorems wire_defs \<open>unfolding rules of the wire codecs\<close>

section \<open>Machine integers and byte strings\<close>

type_synonym u8 = "8 word"
type_synonym u16 = "16 word"
type_synonym u32 = "32 word"
type_synonym u64 = "64 word"
type_synonym i16 = "16 word"  \<comment> \<open>read with \<open>sint\<close>\<close>
type_synonym bytes = "u8 list"

text \<open>\<open>u16::from_be_bytes\<close> and \<open>u16::to_be_bytes\<close>.\<close>

definition u16_from_be :: "u8 \<Rightarrow> u8 \<Rightarrow> u16" where
  "u16_from_be hi lo = push_bit 8 (ucast hi) OR ucast lo"

definition u16_to_be :: "u16 \<Rightarrow> bytes" where
  "u16_to_be w = [ucast (drop_bit 8 w), ucast w]"

lemma u16_from_to_be [simp, wire_simps]:
  "u16_from_be (ucast (drop_bit 8 w)) (ucast w) = w"
  unfolding u16_from_be_def
  by (rule bit_word_eqI) (auto simp: bit_simps)

lemma u16_to_from_be [simp, wire_simps]: "u16_to_be (u16_from_be hi lo) = [hi, lo]"
proof -
  have "ucast (drop_bit 8 (u16_from_be hi lo)) = hi"
    unfolding u16_from_be_def by (rule bit_word_eqI) (auto simp: bit_simps dest: bit_imp_le_length)
  moreover have "ucast (u16_from_be hi lo) = lo"
    unfolding u16_from_be_def by (rule bit_word_eqI) (auto simp: bit_simps)
  ultimately show ?thesis by (simp add: u16_to_be_def)
qed

lemma length_u16_to_be [simp, wire_simps]: "length (u16_to_be w) = 2"
  by (simp add: u16_to_be_def)

lemma u16_to_be_neq_Nil [simp]: "u16_to_be w \<noteq> []"
  by (simp add: u16_to_be_def)

lemma u16_to_be_nth [simp, wire_simps]:
  "u16_to_be w ! 0 = ucast (drop_bit 8 w)" "u16_to_be w ! Suc 0 = ucast w"
  by (simp_all add: u16_to_be_def)

lemma u16_to_be_inj: "u16_to_be v = u16_to_be w \<longleftrightarrow> v = w"
  by (metis list.inject u16_from_to_be u16_to_be_def)

lemma unat_u8_less: "unat (b :: u8) < 256"
  using unsigned_less[of b] by simp

lemma unat_u16_less: "unat (w :: u16) < 65536"
  using unsigned_less[of w] by simp

lemma unat_eqI: "unat v = unat w \<Longrightarrow> v = w"
  by (rule unsigned_word_eqI)

lemma unat_eqD: "unat w = n \<Longrightarrow> w = word_of_nat n"
  by auto

lemma unat_u16_from_be: "unat (u16_from_be hi lo) = 256 * unat hi + unat lo"
proof -
  have "u16_from_be hi lo = push_bit 8 (ucast hi) + ucast lo"
    unfolding u16_from_be_def
    by (rule disjunctive_add_eq_or [symmetric], rule bit_word_eqI)
       (auto simp: bit_simps dest: bit_imp_le_length)
  also have "\<dots> = word_of_nat (256 * unat hi + unat lo)"
    by (simp add: push_bit_eq_mult unsigned_ucast_eq)
  finally have "unat (u16_from_be hi lo) = take_bit 16 (256 * unat hi + unat lo)"
    by (simp only: unsigned_of_nat) simp
  moreover have "256 * unat hi + unat lo < 2 ^ 16"
    using unat_u8_less[of hi] unat_u8_less[of lo] by simp
  ultimately show ?thesis by (simp only: take_bit_nat_eq_self)
qed

section \<open>Masks\<close>

lemma and_masks_u8:
  "(x :: u8) AND 0x0f = take_bit 4 x" "(x :: u8) AND 0x03 = take_bit 2 x"
  "(x :: u8) AND 0x7f = take_bit 7 x"
  by (simp_all add: take_bit_eq_mask mask_eq_exp_minus_1)

lemma and_mask_10_u16: "(w :: u16) AND 0x3ff = take_bit 10 w"
  by (simp add: take_bit_eq_mask mask_eq_exp_minus_1)

lemma unat_and_masks:
  "unat ((x :: u8) AND 0x0f) = unat x mod 16"
  "unat ((x :: u8) AND 0x03) = unat x mod 4"
  "unat ((x :: u8) AND 0x7f) = unat x mod 128"
  "unat ((w :: u16) AND 0x3ff) = unat w mod 1024"
  by (simp_all only: and_masks_u8 and_mask_10_u16 unsigned_take_bit_eq) (simp_all add: take_bit_eq_mod)

lemma and_nibble_id: "unat (h :: u8) < 16 \<Longrightarrow> h AND 0x0f = h"
  by (rule unat_eqI) (simp only: unat_and_masks mod_less)

text \<open>Two nibbles packed into a byte are read back apart.\<close>

lemma nibbles_pack:
  "drop_bit 4 (push_bit 4 (f AND 0x0f) OR (x AND 0x0f)) = (f :: u8) AND 0x0f"
  "(push_bit 4 (f AND 0x0f) OR (x AND 0x0f)) AND 0x0f = (x :: u8) AND 0x0f"
proof -
  show "drop_bit 4 (push_bit 4 (f AND 0x0f) OR (x AND 0x0f)) = f AND 0x0f"
    unfolding and_masks_u8 by (rule bit_word_eqI) (auto simp: bit_simps)
  show "(push_bit 4 (f AND 0x0f) OR (x AND 0x0f)) AND 0x0f = x AND 0x0f"
    unfolding and_masks_u8 by (rule bit_word_eqI) (auto simp: bit_simps)
qed

text \<open>Bit 7 of a byte as a flag above seven bits.\<close>

lemma bit_80: "bit (0x80 :: u8) n \<longleftrightarrow> n = 7"
proof -
  have "(0x80 :: u8) = 2 ^ 7" by simp
  then have "bit (0x80 :: u8) n = bit (2 ^ 7 :: u8) n" by (rule arg_cong)
  also have "\<dots> \<longleftrightarrow> n = 7" by (auto simp only: bit_exp_iff possible_bit_word) auto
  finally show ?thesis .
qed

lemma bit7_u8:
  "((d :: u8) AND 0x7f) AND 0x80 = 0"
  "(d OR 0x80) AND 0x80 = (0x80 :: u8)"
  "(d OR 0x80) AND 0x7f = d AND 0x7f"
  unfolding and_masks_u8
  by (rule bit_word_eqI, simp only: bit_and_iff bit_or_iff bit_take_bit_iff bit_80, auto)+

lemma and_7f_id: "d < 0x80 \<Longrightarrow> (d :: u8) AND 0x7f = d"
  by (rule unat_eqI) (simp only: unat_and_masks word_less_nat_alt, simp)

lemma and_7f_less: "(d :: u8) AND 0x7f < 0x80"
  by (simp only: word_less_nat_alt unat_and_masks) simp

lemma and_80_0_iff: "(d :: u8) AND 0x80 = 0 \<longleftrightarrow> d < 0x80"
proof
  assume "d AND 0x80 = 0"
  then have "\<not> bit (d AND 0x80) 7" by simp
  then have "\<not> bit d 7" by (simp only: bit_and_iff bit_80) simp
  then have "bit d n \<Longrightarrow> n < 7" for n
    using bit_imp_le_length [of d n] by (cases "n = 7") auto
  then have "d = d AND 0x7f" unfolding and_masks_u8
    by (intro bit_word_eqI) (auto simp: bit_simps)
  then show "d < 0x80" using and_7f_less [of d] by simp
next
  assume "d < 0x80"
  then have "d = d AND 0x7f" by (simp add: and_7f_id)
  then show "d AND 0x80 = 0" using bit7_u8(1) [of d] by simp
qed

lemma or_80_not_less: "\<not> ((d :: u8) OR 0x80 < 0x80)"
  unfolding and_80_0_iff [symmetric] bit7_u8 by simp

lemmas bit7_simps = bit7_u8 and_7f_id and_80_0_iff or_80_not_less and_7f_less

section \<open>Slices with Rust's checked accessors\<close>

text \<open>
  \<open>p.get(i)\<close>, \<open>p.get(..n)\<close>, \<open>p.get(n..)\<close> and \<open>p.get(a..b)\<close>: None where the range does not
  lie inside the slice.
\<close>

definition get_at :: "'a list \<Rightarrow> nat \<Rightarrow> 'a option" where
  "get_at p i = (if i < length p then Some (p ! i) else None)"

definition get_to :: "'a list \<Rightarrow> nat \<Rightarrow> 'a list option" where
  "get_to p n = (if n \<le> length p then Some (take n p) else None)"

definition get_from :: "'a list \<Rightarrow> nat \<Rightarrow> 'a list option" where
  "get_from p n = (if n \<le> length p then Some (drop n p) else None)"

definition get_range :: "'a list \<Rightarrow> nat \<Rightarrow> nat \<Rightarrow> 'a list option" where
  "get_range p a b = (if a \<le> b \<and> b \<le> length p then Some (drop a (take b p)) else None)"

lemmas get_defs = get_at_def get_to_def get_from_def get_range_def

lemma get_at_Some_iff: "get_at p i = Some x \<longleftrightarrow> i < length p \<and> x = p ! i"
  by (auto simp: get_at_def)

lemma get_to_Some_iff: "get_to p n = Some h \<longleftrightarrow> n \<le> length p \<and> h = take n p"
  by (auto simp: get_to_def)

lemma get_from_Some_iff: "get_from p n = Some h \<longleftrightarrow> n \<le> length p \<and> h = drop n p"
  by (auto simp: get_from_def)

lemma get_range_Some_iff:
  "get_range p a b = Some h \<longleftrightarrow> a \<le> b \<and> b \<le> length p \<and> h = drop a (take b p)"
  by (auto simp: get_range_def)

lemmas get_Some_iff = get_at_Some_iff get_to_Some_iff get_from_Some_iff get_range_Some_iff

lemma get_at_Cons_0 [simp, wire_simps]: "get_at (x # xs) 0 = Some x"
  by (simp add: get_at_def)

lemma get_at_Cons_Suc [simp, wire_simps]: "get_at (x # xs) (Suc n) = get_at xs n"
  by (simp add: get_at_def)

lemma get_at_Nil [simp, wire_simps]: "get_at [] n = None"
  by (simp add: get_at_def)

text \<open>\<open>bool::then_some\<close>: the value when the test holds.\<close>

definition then_some :: "bool \<Rightarrow> 'a \<Rightarrow> 'a option" where
  "then_some b x = (if b then Some x else None)"

lemma then_some_simps [simp]: "then_some True x = Some x" "then_some False x = None"
  by (simp_all add: then_some_def)

lemma then_some_Some_iff [simp]: "then_some b x = Some y \<longleftrightarrow> b \<and> x = y"
  by (simp add: then_some_def)

lemma then_some_None_iff [simp]: "then_some b x = None \<longleftrightarrow> \<not> b"
  by (simp add: then_some_def)

section \<open>Rust strings\<close>

text \<open>
  A Rust \<open>String\<close> is a sequence of Unicode scalar values; \<open>c as u32\<close> is its code point.
  Isabelle's \<open>char\<close> has eight bits only, so a string is a list of 32-bit code points here.
  \<open>lit\<close> turns a literal into one, \<open>utf8_len\<close> is \<open>str::len\<close> (bytes of the UTF-8 form), and
  \<open>eq_ignore_ascii_case\<close> folds the letters A to Z only, as the standard library does.
\<close>

type_synonym rchar = u32
type_synonym rstring = "rchar list"

definition lit :: "string \<Rightarrow> rstring" where
  "lit s = map (\<lambda>c. word_of_nat (of_char c)) s"

definition latin1 :: "rstring \<Rightarrow> bool" where
  "latin1 s \<longleftrightarrow> (\<forall>c \<in> set s. c < 256)"

definition char_utf8_len :: "rchar \<Rightarrow> nat" where
  "char_utf8_len c = (if c < 0x80 then 1 else if c < 0x800 then 2 else if c < 0x10000 then 3 else 4)"

definition utf8_len :: "rstring \<Rightarrow> nat" where
  "utf8_len s = sum_list (map char_utf8_len s)"

definition to_ascii_lowercase :: "rchar \<Rightarrow> rchar" where
  "to_ascii_lowercase c = (if 65 \<le> c \<and> c \<le> 90 then c + 32 else c)"

definition to_ascii_uppercase :: "u8 \<Rightarrow> u8" where
  "to_ascii_uppercase c = (if 97 \<le> c \<and> c \<le> 122 then c - 32 else c)"

definition eq_ignore_ascii_case :: "rstring \<Rightarrow> rstring \<Rightarrow> bool" where
  "eq_ignore_ascii_case a b \<longleftrightarrow> map to_ascii_lowercase a = map to_ascii_lowercase b"

lemma eq_ignore_ascii_case_refl [simp]: "eq_ignore_ascii_case a a"
  by (simp add: eq_ignore_ascii_case_def)

lemma eq_ignore_ascii_case_sym: "eq_ignore_ascii_case a b \<longleftrightarrow> eq_ignore_ascii_case b a"
  by (auto simp: eq_ignore_ascii_case_def)

lemma eq_ignore_ascii_case_trans:
  "eq_ignore_ascii_case a b \<Longrightarrow> eq_ignore_ascii_case b c \<Longrightarrow> eq_ignore_ascii_case a c"
  by (simp add: eq_ignore_ascii_case_def)

lemma char_utf8_len_pos: "0 < char_utf8_len c"
  by (simp add: char_utf8_len_def)

lemma length_le_utf8_len: "length s \<le> utf8_len s"
proof (induction s)
  case (Cons c s)
  then show ?case using char_utf8_len_pos[of c] by (simp add: utf8_len_def)
qed (simp add: utf8_len_def)

section \<open>The clock\<close>

text \<open>
  \<open>Instant\<close>, \<open>SystemTime\<close> and \<open>Duration\<close> count nanoseconds.  Subtraction on \<open>nat\<close> stops at zero, which is
  exactly \<open>saturating_duration_since\<close>, and \<open>duration_since(..).unwrap_or_default()\<close>.
\<close>

type_synonym instant = nat
type_synonym duration = nat

definition secs :: "nat \<Rightarrow> duration" where
  "secs n = n * 1000000000"

definition millis :: "nat \<Rightarrow> duration" where
  "millis n = n * 1000000"

definition since :: "instant \<Rightarrow> instant \<Rightarrow> duration" where
  "since now t = now - t"

lemma since_self [simp]: "since t t = 0"
  by (simp add: since_def)

lemma since_add [simp]: "since (t + d) t = d"
  by (simp add: since_def)

text \<open>Counters that stay below a bound do not wrap.\<close>

lemma less_succ_u32: "(t :: u32) < n \<Longrightarrow> t + 1 \<le> n"
  by (rule inc_le)

lemma unat_succ_u32: "(t :: u32) < n \<Longrightarrow> unat (t + 1) = Suc (unat t)"
proof -
  assume "t < n"
  moreover have "unat n < 4294967296" using unsigned_less [of n] by simp
  ultimately have "Suc (unat t) < 4294967296" by (simp add: word_less_nat_alt)
  then show ?thesis by (subst unat_word_ariths(1)) simp
qed

section \<open>Lists\<close>

text \<open>\<open>Iterator::position\<close> and \<open>Vec::remove\<close>.\<close>

fun position :: "('a \<Rightarrow> bool) \<Rightarrow> 'a list \<Rightarrow> nat option" where
  "position P [] = None"
| "position P (x # xs) = (if P x then Some 0 else map_option Suc (position P xs))"

definition remove_at :: "nat \<Rightarrow> 'a list \<Rightarrow> 'a list" where
  "remove_at i xs = take i xs @ drop (Suc i) xs"

lemma position_None: "position P xs = None \<longleftrightarrow> (\<forall>x \<in> set xs. \<not> P x)"
  by (induction xs) auto

lemma position_Some:
  "position P xs = Some i \<Longrightarrow> i < length xs \<and> P (xs ! i) \<and> (\<forall>j < i. \<not> P (xs ! j))"
proof (induction xs arbitrary: i)
  case (Cons x xs)
  show ?case
  proof (cases "P x")
    case True
    with Cons.prems show ?thesis by simp
  next
    case False
    with Cons.prems obtain k where k: "position P xs = Some k" "i = Suc k" by auto
    from Cons.IH[OF k(1)] False show ?thesis
      by (auto simp: k(2) nth_Cons split: nat.split)
  qed
qed simp

lemma position_lt: "position P xs = Some i \<Longrightarrow> i < length xs"
  by (auto dest: position_Some)

lemma position_holds: "position P xs = Some i \<Longrightarrow> P (xs ! i)"
  by (auto dest: position_Some)

lemma set_remove_at_subset: "set (remove_at i xs) \<subseteq> set xs"
  by (auto simp: remove_at_def dest: in_set_takeD in_set_dropD)

lemma list_split_at: "i < length xs \<Longrightarrow> xs = take i xs @ xs ! i # drop (Suc i) xs"
  by (rule id_take_nth_drop)

text \<open>The names of a list without repeats, first occurrence kept: the scan with \<open>contains\<close>.\<close>

fun push_new :: "'a list \<Rightarrow> 'a list \<Rightarrow> 'a list" where
  "push_new out [] = out"
| "push_new out (x # xs) = push_new (if x \<in> set out then out else out @ [x]) xs"

lemma set_push_new [simp]: "set (push_new out xs) = set out \<union> set xs"
  by (induction xs arbitrary: out) auto

lemma distinct_push_new: "distinct out \<Longrightarrow> distinct (push_new out xs)"
  by (induction xs arbitrary: out) auto

text \<open>
  Entries gathered by key, the keys in order of first appearance: the loops that search a vector of
  groups for the key and push to it.
\<close>

fun push_group :: "'k \<Rightarrow> 'v \<Rightarrow> ('k \<times> 'v list) list \<Rightarrow> ('k \<times> 'v list) list" where
  "push_group k v [] = [(k, [v])]"
| "push_group k v ((k', vs) # gs) =
     (if k' = k then (k', vs @ [v]) # gs else (k', vs) # push_group k v gs)"

definition grouped :: "('k \<times> 'v) list \<Rightarrow> ('k \<times> 'v list) list" where
  "grouped xs = fold (\<lambda>(k, v). push_group k v) xs []"

lemma map_fst_push_group:
  "map fst (push_group k v gs) = (if k \<in> fst ` set gs then map fst gs else map fst gs @ [k])"
  by (induction gs rule: push_group.induct) auto

lemma map_of_push_group:
  "map_of (push_group k v gs) = (map_of gs)(k \<mapsto> (case map_of gs k of Some vs \<Rightarrow> vs | None \<Rightarrow> []) @ [v])"
  by (induction gs rule: push_group.induct) auto

lemma grouped_keys: "map fst (grouped xs) = push_new [] (map fst xs)"
proof -
  have "map fst (fold (\<lambda>(k, v). push_group k v) xs gs) = push_new (map fst gs) (map fst xs)" for gs
    by (induction xs arbitrary: gs) (auto simp: map_fst_push_group simp flip: set_map)
  then show ?thesis by (simp add: grouped_def)
qed

lemma map_of_grouped:
  "map_of (grouped xs) k =
     (if k \<in> fst ` set xs then Some (map snd (filter (\<lambda>(k', _). k' = k) xs)) else None)"
proof -
  have "map_of (fold (\<lambda>(k, v). push_group k v) xs gs) k =
     (if k \<in> fst ` set xs
      then Some ((case map_of gs k of Some vs \<Rightarrow> vs | None \<Rightarrow> []) @ map snd (filter (\<lambda>(k', _). k' = k) xs))
      else map_of gs k)" for gs
  proof (induction xs arbitrary: gs)
    case (Cons x xs)
    then show ?case by (cases x) (auto simp: map_of_push_group filter_empty_conv image_iff)
  qed simp
  then show ?thesis by (simp add: grouped_def)
qed

lemma grouped_mem:
  "(k, vs) \<in> set (grouped xs) \<longleftrightarrow> k \<in> fst ` set xs \<and> vs = map snd (filter (\<lambda>(k', _). k' = k) xs)"
proof -
  have "distinct (map fst (grouped xs))" by (simp add: grouped_keys distinct_push_new)
  then have "(k, vs) \<in> set (grouped xs) \<longleftrightarrow> map_of (grouped xs) k = Some vs" by simp
  then show ?thesis by (auto simp: map_of_grouped)
qed

text \<open>\<open>slice::chunks\<close>.\<close>

fun chunks :: "nat \<Rightarrow> 'a list \<Rightarrow> 'a list list" where
  "chunks n [] = []"
| "chunks n (x # xs) = (if n = 0 then [] else (x # take (n - 1) xs) # chunks n (drop (n - 1) xs))"

lemma concat_chunks: "0 < n \<Longrightarrow> concat (chunks n xs) = xs"
  by (induction n xs rule: chunks.induct) auto

lemma chunks_bound: "c \<in> set (chunks n xs) \<Longrightarrow> c \<noteq> [] \<and> length c \<le> n"
  by (induction n xs rule: chunks.induct) (auto split: if_splits)

end
