(* ===== verification/Codec.thy ===== *)
theory Codec
  imports Prelude
begin

text \<open>
  The interfaces every wire type implements.  A packet codec reads a whole buffer; a prefix
  codec reads one item off the front of a buffer and hands back the rest, which is the shape
  of the parsers that the code calls in a loop.  The two loops of the code are
  \<open>while !rest.is_empty()\<close> (\<open>parse_all\<close>) and \<open>for _ in 0..count\<close> (\<open>parse_n\<close>); what they do to
  a concatenation of encoded items is proved once here, for any item.
\<close>

type_synonym 'a parser = "bytes \<Rightarrow> ('a \<times> bytes) option"

text \<open>
  The code's \<open>while\<close> loop has no guard on the length of the tail; it ends because every item
  parser consumes something.  The guard below makes the recursion well-founded for any
  argument, and \<open>prefix_codec.parse_all_step\<close> shows that it never fires for an item parser that
  makes progress.
\<close>

function parse_all :: "'a parser \<Rightarrow> bytes \<Rightarrow> 'a list option" where
  "parse_all p rest =
     (if rest = [] then Some []
      else case p rest of
             None \<Rightarrow> None
           | Some (x, tail) \<Rightarrow>
               if length tail < length rest then map_option (Cons x) (parse_all p tail) else None)"
  by pat_completeness auto
termination
  by (relation "measure (\<lambda>(p, rest). length rest)") auto

declare parse_all.simps [simp del]

lemma parse_all_Nil [simp]: "parse_all p [] = Some []"
  by (simp add: parse_all.simps)

fun parse_n :: "'a parser \<Rightarrow> nat \<Rightarrow> bytes \<Rightarrow> ('a list \<times> bytes) option" where
  "parse_n p 0 rest = Some ([], rest)"
| "parse_n p (Suc n) rest =
     do { (x, tail) \<leftarrow> p rest;
          (xs, tail') \<leftarrow> parse_n p n tail;
          Some (x # xs, tail') }"

lemma parse_n_length: "parse_n p n rest = Some (xs, tail) \<Longrightarrow> length xs = n"
  by (induction n arbitrary: rest xs) (auto split: Option.bind_splits)

section \<open>Whole-buffer codecs\<close>

locale packet_codec =
  fixes enc :: "'a \<Rightarrow> bytes"
    and dec :: "bytes \<Rightarrow> 'a option"
    and wf :: "'a \<Rightarrow> bool"
  assumes dec_enc: "wf x \<Longrightarrow> dec (enc x) = Some x"
begin

lemma enc_inj: "wf x \<Longrightarrow> wf y \<Longrightarrow> enc x = enc y \<Longrightarrow> x = y"
  by (metis dec_enc option.inject)

lemma dec_total_on_enc: "wf x \<Longrightarrow> \<exists>y. dec (enc x) = Some y"
  by (simp add: dec_enc)

end

text \<open>
  A codec whose parser only ever yields well-formed values: what was parsed can be sent on
  and is read back as the same value.
\<close>

locale closed_codec = packet_codec +
  assumes dec_wf: "dec p = Some x \<Longrightarrow> wf x"
begin

lemma reparse: "dec p = Some x \<Longrightarrow> dec (enc x) = Some x"
  by (rule dec_enc [OF dec_wf])

end

section \<open>Prefix codecs\<close>

locale prefix_codec =
  fixes enc :: "'a \<Rightarrow> bytes"
    and dec :: "'a parser"
    and wf :: "'a \<Rightarrow> bool"
  assumes dec_enc: "wf x \<Longrightarrow> dec (enc x @ rest) = Some (x, rest)"
    and dec_progress: "dec p = Some (x, tail) \<Longrightarrow> length tail < length p"
begin

lemma enc_nonempty: "wf x \<Longrightarrow> enc x \<noteq> []"
  using dec_enc [of x "[]"] dec_progress [of "enc x" x "[]"] by auto

lemma dec_Nil: "dec [] = None"
  using dec_progress [of "[]"] by (cases "dec []") auto

text \<open>The source's loop, without the guard.\<close>

lemma parse_all_step:
  "rest \<noteq> [] \<Longrightarrow> parse_all dec rest =
     do { (x, tail) \<leftarrow> dec rest; xs \<leftarrow> parse_all dec tail; Some (x # xs) }"
  by (subst parse_all.simps)
     (auto split: option.split prod.split simp: dec_progress map_option_case)

lemma parse_all_enc:
  "\<forall>x \<in> set xs. wf x \<Longrightarrow> parse_all dec (concat (map enc xs)) = Some xs"
proof (induction xs)
  case (Cons x xs)
  then have "enc x @ concat (map enc xs) \<noteq> []" by (auto dest: enc_nonempty)
  with Cons show ?case by (simp add: parse_all_step dec_enc)
qed simp

lemma parse_n_enc:
  "\<forall>x \<in> set xs. wf x \<Longrightarrow> n = length xs \<Longrightarrow>
   parse_n dec n (concat (map enc xs) @ rest) = Some (xs, rest)"
  by (induction xs arbitrary: n) (auto simp: dec_enc)

lemma parse_n_enc_Nil:
  "\<forall>x \<in> set xs. wf x \<Longrightarrow> n = length xs \<Longrightarrow>
   parse_n dec n (concat (map enc xs)) = Some (xs, [])"
  using parse_n_enc [of xs n "[]"] by simp

lemma parse_all_length: "parse_all dec p = Some xs \<Longrightarrow> length xs \<le> length p"
proof (induction p arbitrary: xs rule: length_induct)
  case (1 p)
  show ?case
  proof (cases "p = []")
    case True
    with "1.prems" show ?thesis by simp
  next
    case False
    with "1.prems" obtain x tail ys where
      step: "dec p = Some (x, tail)" "parse_all dec tail = Some ys" "xs = x # ys"
      by (auto simp: parse_all_step split: Option.bind_splits)
    from dec_progress [OF step(1)] "1.IH" step(2) have "length ys \<le> length tail" by blast
    with dec_progress [OF step(1)] step(3) show ?thesis by simp
  qed
qed

lemma parse_all_induct [consumes 1, case_names Nil Cons]:
  assumes "parse_all dec p = Some xs"
    and "P [] []"
    and "\<And>p x tail ys. dec p = Some (x, tail) \<Longrightarrow> parse_all dec tail = Some ys \<Longrightarrow> P tail ys
           \<Longrightarrow> P p (x # ys)"
  shows "P p xs"
  using assms(1)
proof (induction p arbitrary: xs rule: length_induct)
  case (1 p)
  show ?case
  proof (cases "p = []")
    case True
    with "1.prems" assms(2) show ?thesis by simp
  next
    case False
    with "1.prems" obtain x tail ys where
      step: "dec p = Some (x, tail)" "parse_all dec tail = Some ys" "xs = x # ys"
      by (auto simp: parse_all_step split: Option.bind_splits)
    with "1.IH" dec_progress have "P tail ys" by blast
    with assms(3) step show ?thesis by blast
  qed
qed

end

text \<open>A prefix codec whose parser yields well-formed items only.\<close>

locale closed_prefix_codec = prefix_codec +
  assumes dec_wf: "dec p = Some (x, tail) \<Longrightarrow> wf x"
begin

lemma parse_all_wf: "parse_all dec p = Some xs \<Longrightarrow> \<forall>x \<in> set xs. wf x"
  by (induction rule: parse_all_induct) (auto dest: dec_wf)

lemma parse_all_reparse:
  "parse_all dec p = Some xs \<Longrightarrow> parse_all dec (concat (map enc xs)) = Some xs"
  by (rule parse_all_enc [OF parse_all_wf])

lemma parse_n_wf: "parse_n dec n p = Some (xs, tail) \<Longrightarrow> \<forall>x \<in> set xs. wf x"
proof (induction n arbitrary: p xs)
  case (Suc n)
  then obtain x q ys where
    "dec p = Some (x, q)" "parse_n dec n q = Some (ys, tail)" "xs = x # ys"
    by (auto split: Option.bind_splits)
  with Suc.IH dec_wf show ?case by auto
qed simp

end

end
