(* ===== verification/Wire_Base.thy ===== *)
theory Wire_Base
  imports Codec
begin

text \<open>
  \<open>src/src/wire/mod.rs\<close>: hardware addresses, length-prefixed names, AppleTalk addresses and the
  ELAP frame.  \<open>encode\<close> appends to a buffer in the code; every encoder here yields the bytes it
  appends, so \<open>to_bytes\<close> is the encoder itself.
\<close>

section \<open>Addresses and names\<close>

text \<open>A hardware address is six bytes; the code reads its fields in order.\<close>

datatype macaddr = Mac u8 u8 u8 u8 u8 u8

fun mac_bytes :: "macaddr \<Rightarrow> bytes" where
  "mac_bytes (Mac a b c d e f) = [a, b, c, d, e, f]"

fun mac :: "bytes \<Rightarrow> macaddr option" where
  "mac [a, b, c, d, e, f] = Some (Mac a b c d e f)"
| "mac _ = None"

lemma length_mac_bytes [simp, wire_simps]: "length (mac_bytes m) = 6"
  by (cases m) simp

lemma mac_mac_bytes [simp, wire_simps]: "mac (mac_bytes m) = Some m"
  by (cases m) simp

lemma mac_Some_iff: "mac p = Some m \<longleftrightarrow> p = mac_bytes m"
  by (cases m; cases p rule: mac.cases) auto

lemma mac_None_iff: "mac p = None \<longleftrightarrow> length p \<noteq> 6"
  by (cases p rule: mac.cases) auto

record addr =
  a_net :: u16
  a_node :: u8

definition mk_addr :: "u16 \<Rightarrow> u8 \<Rightarrow> addr" where
  "mk_addr n d = \<lparr>a_net = n, a_node = d\<rparr>"

lemma mk_addr_simps [simp]: "a_net (mk_addr n d) = n" "a_node (mk_addr n d) = d"
  by (simp_all add: mk_addr_def)

lemma mk_addr_collapse [simp]: "mk_addr (a_net a) (a_node a) = a"
  by (simp add: mk_addr_def)

lemma mk_addr_inject [simp]: "mk_addr n d = mk_addr n' d' \<longleftrightarrow> n = n' \<and> d = d'"
  by (auto simp: mk_addr_def)

text \<open>
  \<open>pstring\<close> and \<open>put_pstring\<close>: one length byte, then Latin-1.  Writing truncates to 32
  characters, reading accepts up to 255.
\<close>

definition pstring :: "rstring parser" where
  "pstring p =
     do { b \<leftarrow> get_at p 0;
          let len = unat b;
          s \<leftarrow> get_range p 1 (1 + len);
          Some (map ucast s, drop (1 + len) p) }"

definition put_pstring :: "rstring \<Rightarrow> bytes" where
  "put_pstring s =
     (let bs = map ucast (take 32 s) in word_of_nat (length bs) # bs)"

definition wf_name :: "rstring \<Rightarrow> bool" where
  "wf_name s \<longleftrightarrow> length s \<le> 32 \<and> latin1 s"

definition printable :: "rstring \<Rightarrow> rstring" where
  "printable s = map (\<lambda>c. if 0x20 \<le> c \<and> c < 0x7f then c else 0x2e) s"

lemma ucast_u8_u32_u8 [simp]: "ucast (ucast (b :: u8) :: u32) = b"
  by (rule bit_word_eqI) (auto simp: bit_simps)

lemma ucast_u32_latin1:
  assumes "c < (256 :: u32)" shows "ucast (ucast c :: u8) = c"
proof -
  have "unat c < 256"
    using unat_mono [OF assms] by simp
  then have "take_bit 8 (unat c) = unat c"
    by (simp add: take_bit_eq_mod)
  then have "unat (ucast (ucast c :: u8) :: u32) = unat c"
    by (simp add: unsigned_ucast_eq unsigned_take_bit_eq)
  then show ?thesis by (rule unsigned_word_eqI)
qed

lemma ucast_u8_latin1: "(ucast (b :: u8) :: u32) < 256"
proof -
  have "unat (ucast b :: u32) = unat b"
    using unat_u8_less [of b] by (simp add: unsigned_ucast_eq take_bit_eq_mod)
  then show ?thesis using unat_u8_less [of b] by (simp add: word_less_nat_alt)
qed

lemma unat_small_u8: "n < 256 \<Longrightarrow> unat (word_of_nat n :: u8) = n"
  by (simp add: unsigned_of_nat take_bit_eq_mod)

lemma unat_small_u16: "n < 65536 \<Longrightarrow> unat (word_of_nat n :: u16) = n"
  by (simp add: unsigned_of_nat take_bit_eq_mod)

lemma latin1_ucast_roundtrip: "latin1 s \<Longrightarrow> map ucast (map ucast s :: bytes) = s"
  by (induction s) (auto simp: latin1_def ucast_u32_latin1)

lemma length_put_pstring [simp, wire_simps]: "length (put_pstring s) = 1 + min 32 (length s)"
  by (simp add: put_pstring_def Let_def min.commute)

lemma put_pstring_le: "length (put_pstring s) \<le> 33"
  by simp

lemma pstring_Some:
  "pstring p = Some (s, tail) \<Longrightarrow>
   \<exists>b bs. p = b # bs @ tail \<and> length bs = unat b \<and> s = map ucast bs"
  by (cases p)
     (auto simp: pstring_def Let_def get_range_def split: Option.bind_splits if_splits
           intro!: exI [where x = "take _ _"])

lemma pstring_progress: "pstring p = Some (s, tail) \<Longrightarrow> length tail < length p"
  by (auto dest!: pstring_Some)

lemma pstring_latin1: "pstring p = Some (s, tail) \<Longrightarrow> latin1 s"
  by (auto dest!: pstring_Some simp: latin1_def ucast_u8_latin1)

lemma pstring_len: "pstring p = Some (s, tail) \<Longrightarrow> length s < 256"
  using unat_u8_less by (auto dest!: pstring_Some)

lemma pstring_put_trunc:
  "latin1 s \<Longrightarrow> pstring (put_pstring s @ rest) = Some (take 32 s, rest)"
proof -
  assume l: "latin1 s"
  then have l': "latin1 (take 32 s)" by (auto simp: latin1_def dest: in_set_takeD)
  have n: "unat (word_of_nat (min (length s) 32) :: u8) = min (length s) 32"
    by (rule unat_small_u8) simp
  show ?thesis
    using latin1_ucast_roundtrip [OF l']
    by (simp add: pstring_def put_pstring_def Let_def get_range_def n)
qed

interpretation pstr: prefix_codec put_pstring pstring wf_name
proof unfold_locales
  show "pstring (put_pstring s @ rest) = Some (s, rest)" if "wf_name s" for s rest
    using that by (simp add: wf_name_def pstring_put_trunc)
  show "length tail < length p" if "pstring p = Some (s, tail)" for p s tail
    using that by (rule pstring_progress)
qed

end
