(* ===== verification/Wire_Frame.thy ===== *)
theory Wire_Frame
  imports Wire_Base
begin

text \<open>
  The ELAP frame of \<open>src/src/wire/mod.rs\<close>: Phase 2 frames carry an 802.3 length, LLC and a SNAP
  discriminator; Phase 1 frames a plain EtherType.  The round trip covers both, and the padding
  rule: what Ethernet pads a short Phase 2 frame with is trimmed on the way in.
\<close>

definition DDP :: u16 where "DDP = 0x809b"
definition AARP :: u16 where "AARP = 0x80f3"

definition SNAP_DDP :: bytes where "SNAP_DDP = [0x08, 0x00, 0x07, 0x80, 0x9b]"
definition SNAP_AARP :: bytes where "SNAP_AARP = [0x00, 0x00, 0x00, 0x80, 0xf3]"

lemma DDP_neq_AARP [simp]: "DDP \<noteq> AARP" "AARP \<noteq> DDP"
  by (simp_all add: DDP_def AARP_def)

lemma SNAP_neq [simp]: "SNAP_DDP \<noteq> SNAP_AARP" "SNAP_AARP \<noteq> SNAP_DDP"
  by (simp_all add: SNAP_DDP_def SNAP_AARP_def)

lemma length_SNAP [simp]: "length SNAP_DDP = 5" "length SNAP_AARP = 5"
  by (simp_all add: SNAP_DDP_def SNAP_AARP_def)

record frame =
  f_dst :: macaddr
  f_src :: macaddr
  f_proto :: u16
  f_snap :: bool
  f_payload :: bytes

text \<open>The match on \<open>[0xaa, 0xaa, 0x03, rest @ ..]\<close>: LLC, then the SNAP discriminator.\<close>

definition snap_parse :: "macaddr \<Rightarrow> macaddr \<Rightarrow> bytes \<Rightarrow> frame option" where
  "snap_parse dst src llc =
     (case llc of
        dsap # ssap # ctl # rest \<Rightarrow>
          if dsap = 0xaa \<and> ssap = 0xaa \<and> ctl = 0x03 then do {
            disc \<leftarrow> get_to rest 5;
            proto \<leftarrow> (if disc = SNAP_DDP then Some DDP
                     else if disc = SNAP_AARP then Some AARP else None);
            Some \<lparr>f_dst = dst, f_src = src, f_proto = proto, f_snap = True,
                  f_payload = drop 5 rest\<rparr> }
          else None
      | _ \<Rightarrow> None)"

definition frame_parse :: "bytes \<Rightarrow> frame option" where
  "frame_parse b =
     do { d \<leftarrow> get_to b 6; dst \<leftarrow> mac d;
          s \<leftarrow> get_range b 6 12; src \<leftarrow> mac s;
          hi \<leftarrow> get_at b 12; lo \<leftarrow> get_at b 13;
          let typelen = u16_from_be hi lo;
          body \<leftarrow> get_from b 14;
          if typelen > 1500 then
            Some \<lparr>f_dst = dst, f_src = src, f_proto = typelen, f_snap = False, f_payload = body\<rparr>
          else do {
            llc \<leftarrow> get_to body (unat typelen);
            snap_parse dst src llc } }"

definition frame_header :: "frame \<Rightarrow> bytes" where
  "frame_header f =
     (if f_snap f then
        u16_to_be (word_of_nat (8 + length (f_payload f))) @ [0xaa, 0xaa, 0x03]
          @ (if f_proto f = AARP then SNAP_AARP else SNAP_DDP)
      else u16_to_be (f_proto f))"

definition frame_encode :: "frame \<Rightarrow> bytes" where
  "frame_encode f =
     (let out = mac_bytes (f_dst f) @ mac_bytes (f_src f) @ frame_header f @ f_payload f
      in if length out < 60 then out @ replicate (60 - length out) 0 else out)"

text \<open>
  What the encoder can express: Phase 2 frames of the two AppleTalk protocols within the 802.3
  length, and Phase 1 frames whose payload needs no padding (the code notes that a shorter one
  keeps its padding).
\<close>

definition wf_frame :: "frame \<Rightarrow> bool" where
  "wf_frame f \<longleftrightarrow>
     (if f_snap f then f_proto f \<in> {DDP, AARP} \<and> length (f_payload f) \<le> 1492
      else 1500 < f_proto f \<and> 46 \<le> length (f_payload f))"

lemma frame_encode_pad:
  "\<exists>k. frame_encode f =
     mac_bytes (f_dst f) @ mac_bytes (f_src f) @ frame_header f @ f_payload f @ replicate k 0"
proof -
  let ?out = "mac_bytes (f_dst f) @ mac_bytes (f_src f) @ frame_header f @ f_payload f"
  have "frame_encode f = ?out @ replicate (60 - length ?out) 0"
    by (simp add: frame_encode_def Let_def)
  then show ?thesis by (metis append.assoc)
qed

lemma frame_encode_min: "60 \<le> length (frame_encode f)"
  by (simp add: frame_encode_def Let_def)

lemma frame_parse_macs:
  "frame_parse (mac_bytes d @ mac_bytes s @ hi # lo # body) =
     (if u16_from_be hi lo > 1500 then
        Some \<lparr>f_dst = d, f_src = s, f_proto = u16_from_be hi lo, f_snap = False, f_payload = body\<rparr>
      else get_to body (unat (u16_from_be hi lo)) \<bind> snap_parse d s)"
  by (cases d; cases s)
     (simp add: frame_parse_def get_to_def get_range_def get_from_def get_at_def Let_def)

lemma snap_parse_encode:
  "snap_parse d s ([0xaa, 0xaa, 0x03] @ (if p = AARP then SNAP_AARP else SNAP_DDP) @ payload)
   = Some \<lparr>f_dst = d, f_src = s, f_proto = (if p = AARP then AARP else DDP),
           f_snap = True, f_payload = payload\<rparr>"
  by (simp add: snap_parse_def get_to_def)

lemma frame_parse_snap:
  assumes n: "length payload \<le> 1492" and disc: "disc = (if p = AARP then SNAP_AARP else SNAP_DDP)"
  shows "frame_parse (mac_bytes d @ mac_bytes s @ u16_to_be (word_of_nat (8 + length payload))
           @ [0xaa, 0xaa, 0x03] @ disc @ payload @ pad)
         = Some \<lparr>f_dst = d, f_src = s, f_proto = (if p = AARP then AARP else DDP),
                 f_snap = True, f_payload = payload\<rparr>"
proof -
  obtain len :: u16 where len: "len = word_of_nat (8 + length payload)" by simp
  let ?llc = "[0xaa, 0xaa, 0x03] @ disc @ payload"
  have u: "unat len = length ?llc"
    unfolding len by (subst unat_small_u16) (use n disc in simp_all)
  have le: "\<not> 1500 < len"
    using n disc by (simp only: word_less_nat_alt u) simp
  have t: "get_to (?llc @ pad) (unat len) = Some ?llc"
    by (simp only: get_to_def u) simp
  have split: "u16_to_be len @ ?llc @ pad = ucast (drop_bit 8 len) # ucast len # ?llc @ pad"
    by (simp add: u16_to_be_def)
  have "frame_parse (mac_bytes d @ mac_bytes s @ u16_to_be len @ ?llc @ pad)
      = snap_parse d s ?llc"
    unfolding split frame_parse_macs u16_from_to_be t using le by simp
  then show ?thesis unfolding len [symmetric] disc by (simp add: snap_parse_encode [simplified])
qed

lemma frame_parse_encode: "wf_frame f \<Longrightarrow> frame_parse (frame_encode f) = Some f"
proof (cases "f_snap f")
  case True
  assume "wf_frame f"
  with True have w: "length (f_payload f) \<le> 1492" "f_proto f = AARP \<or> f_proto f = DDP"
    by (auto simp: wf_frame_def)
  obtain k where k: "frame_encode f = mac_bytes (f_dst f) @ mac_bytes (f_src f) @ frame_header f
      @ f_payload f @ replicate k 0"
    using frame_encode_pad by blast
  show ?thesis
    unfolding k frame_header_def
    using True w frame_parse_snap [OF w(1) refl, of "f_dst f" "f_src f" "f_proto f"]
    by (cases f) auto
next
  case False
  assume "wf_frame f"
  with False have w: "1500 < f_proto f" "46 \<le> length (f_payload f)"
    by (auto simp: wf_frame_def)
  then have "frame_encode f = mac_bytes (f_dst f) @ mac_bytes (f_src f)
      @ ucast (drop_bit 8 (f_proto f)) # ucast (f_proto f) # f_payload f"
    using False by (simp add: frame_encode_def frame_header_def u16_to_be_def Let_def)
  then show ?thesis
    using False w by (simp add: frame_parse_macs Let_def del: mac_bytes.simps)
qed

interpretation elap: packet_codec frame_encode frame_parse wf_frame
  by unfold_locales (rule frame_parse_encode)

end
