(* ===== verification/Wire_AARP.thy ===== *)
theory Wire_AARP
  imports Wire_Base
begin

text \<open>
  \<open>src/src/wire/aarp.rs\<close>: address resolution, always 28 bytes on Ethernet.  Bytes after the 28th,
  such as Ethernet padding, are ignored.
\<close>

record aarp =
  aa_op :: u16
  aa_src_hw :: macaddr
  aa_src :: addr
  aa_dst_hw :: macaddr
  aa_dst :: addr

definition aarp_addr :: "bytes \<Rightarrow> addr" where
  "aarp_addr a = mk_addr (u16_from_be (a ! 1) (a ! 2)) (a ! 3)"

definition aarp_parse :: "bytes \<Rightarrow> aarp option" where
  "aarp_parse p =
     do { h \<leftarrow> get_to p 28;
          if take 6 h \<noteq> [0x00, 0x01, 0x80, 0x9b, 6, 4] then None
          else do {
            shw \<leftarrow> mac (drop 8 (take 14 h));
            dhw \<leftarrow> mac (drop 18 (take 24 h));
            Some \<lparr>aa_op = u16_from_be (h ! 6) (h ! 7),
                  aa_src_hw = shw, aa_src = aarp_addr (drop 14 (take 18 h)),
                  aa_dst_hw = dhw, aa_dst = aarp_addr (drop 24 (take 28 h))\<rparr> } }"

definition aarp_addr_encode :: "addr \<Rightarrow> bytes" where
  "aarp_addr_encode a = [0] @ u16_to_be (a_net a) @ [a_node a]"

definition aarp_encode :: "aarp \<Rightarrow> bytes" where
  "aarp_encode a =
     [0x00, 0x01, 0x80, 0x9b, 6, 4] @ u16_to_be (aa_op a)
     @ mac_bytes (aa_src_hw a) @ aarp_addr_encode (aa_src a)
     @ mac_bytes (aa_dst_hw a) @ aarp_addr_encode (aa_dst a)"

lemma length_aarp_encode: "length (aarp_encode a) = 28"
  by (simp add: aarp_encode_def aarp_addr_encode_def)

lemma aarp_parse_encode_pad: "aarp_parse (aarp_encode a @ pad) = Some a"
  by (cases a; cases "aa_src_hw a"; cases "aa_dst_hw a")
     (simp add: aarp_parse_def aarp_encode_def aarp_addr_encode_def aarp_addr_def get_to_def u16_to_be_def)

lemma aarp_parse_encode: "aarp_parse (aarp_encode a) = Some a"
  using aarp_parse_encode_pad [of a "[]"] by simp

interpretation aarp_codec: closed_codec aarp_encode aarp_parse "\<lambda>_. True"
  by unfold_locales (simp_all add: aarp_parse_encode)

end
