(* ===== verification/Wire_AEP.thy ===== *)
theory Wire_AEP
  imports Wire_Base
begin

text \<open>\<open>src/src/wire/aep.rs\<close>: the echo protocol, a function byte and data to be echoed.\<close>

datatype echo = EchoRequest | EchoReply

record aep =
  ae_func :: echo
  ae_data :: bytes

definition aep_parse :: "bytes \<Rightarrow> aep option" where
  "aep_parse p =
     do { b \<leftarrow> get_at p 0;
          func \<leftarrow> (if b = 1 then Some EchoRequest else if b = 2 then Some EchoReply else None);
          Some \<lparr>ae_func = func, ae_data = drop 1 p\<rparr> }"

definition aep_encode :: "aep \<Rightarrow> bytes" where
  "aep_encode a = (case ae_func a of EchoRequest \<Rightarrow> 1 | EchoReply \<Rightarrow> 2) # ae_data a"

lemma aep_parse_encode: "aep_parse (aep_encode a) = Some a"
  by (cases a) (simp add: aep_parse_def aep_encode_def split: echo.split)

lemma aep_encode_parse: "aep_parse p = Some a \<Longrightarrow> aep_encode a = p"
  by (cases p) (auto simp: aep_parse_def aep_encode_def split: Option.bind_splits if_splits)

interpretation aep_codec: closed_codec aep_encode aep_parse "\<lambda>_. True"
  by unfold_locales (simp_all add: aep_parse_encode)

end
