(* ===== verification/Wire_ATP.thy ===== *)
theory Wire_ATP
  imports Wire_Base
begin

text \<open>
  \<open>src/src/wire/atp.rs\<close>: transactions.  The control byte is the wire field; the function code and
  the flags are views of it, so the round trip holds for the packets in which they agree, and
  the three constructors of the code and the parser yield only those.
\<close>

datatype func = Req | Resp | Rel

datatype trel_timeout = S30 | M1 | M2 | M4 | M8

fun trel_bits :: "trel_timeout \<Rightarrow> u8" where
  "trel_bits S30 = 0"
| "trel_bits M1 = 1"
| "trel_bits M2 = 2"
| "trel_bits M4 = 3"
| "trel_bits M8 = 4"

record atp =
  t_func :: func
  t_control :: u8
  t_bitmap :: u8
  t_tid :: u16
  t_user_bytes :: bytes  \<comment> \<open>four of them\<close>
  t_data :: bytes

definition func_of_control :: "u8 \<Rightarrow> func option" where
  "func_of_control c =
     (let k = c AND 0xc0 in
      if k = 0x40 then Some Req else if k = 0x80 then Some Resp
      else if k = 0xc0 then Some Rel else None)"

definition atp_parse :: "bytes \<Rightarrow> atp option" where
  "atp_parse p =
     do { h \<leftarrow> get_to p 8;
          func \<leftarrow> func_of_control (h ! 0);
          Some \<lparr>t_func = func, t_control = h ! 0, t_bitmap = h ! 1,
                t_tid = u16_from_be (h ! 2) (h ! 3),
                t_user_bytes = drop 4 (take 8 h), t_data = drop 8 p\<rparr> }"

definition atp_xo :: "atp \<Rightarrow> bool" where "atp_xo a \<longleftrightarrow> t_control a AND 0x20 \<noteq> 0"
definition atp_eom :: "atp \<Rightarrow> bool" where "atp_eom a \<longleftrightarrow> t_control a AND 0x10 \<noteq> 0"
definition atp_sts :: "atp \<Rightarrow> bool" where "atp_sts a \<longleftrightarrow> t_control a AND 0x08 \<noteq> 0"

definition atp_trel_timeout :: "atp \<Rightarrow> string" where
  "atp_trel_timeout a =
     (let k = t_control a AND 0x07 in
      if k = 0 then ''30s'' else if k = 1 then ''1m'' else if k = 2 then ''2m''
      else if k = 3 then ''4m'' else if k = 4 then ''8m'' else ''reserved'')"

definition atp_request :: "u16 \<Rightarrow> u8 \<Rightarrow> trel_timeout option \<Rightarrow> bytes \<Rightarrow> bytes \<Rightarrow> atp" where
  "atp_request tid bitmap xo user dat =
     (let control = (case xo of None \<Rightarrow> 0x40 | Some t \<Rightarrow> 0x40 OR (0x20 OR trel_bits t))
      in \<lparr>t_func = Req, t_control = control, t_bitmap = bitmap, t_tid = tid,
          t_user_bytes = user, t_data = dat\<rparr>)"

definition atp_response :: "u16 \<Rightarrow> u8 \<Rightarrow> bool \<Rightarrow> bool \<Rightarrow> bytes \<Rightarrow> bytes \<Rightarrow> atp" where
  "atp_response tid seq eom sts user dat =
     (let control = 0x80;
          control = (if eom then control OR 0x10 else control);
          control = (if sts then control OR 0x08 else control)
      in \<lparr>t_func = Resp, t_control = control, t_bitmap = seq, t_tid = tid,
          t_user_bytes = user, t_data = dat\<rparr>)"

definition atp_release :: "u16 \<Rightarrow> atp" where
  "atp_release tid =
     \<lparr>t_func = Rel, t_control = 0xc0, t_bitmap = 0, t_tid = tid,
      t_user_bytes = [0, 0, 0, 0], t_data = []\<rparr>"

definition atp_encode :: "atp \<Rightarrow> bytes" where
  "atp_encode a = [t_control a, t_bitmap a] @ u16_to_be (t_tid a) @ t_user_bytes a @ t_data a"

definition wf_atp :: "atp \<Rightarrow> bool" where
  "wf_atp a \<longleftrightarrow> func_of_control (t_control a) = Some (t_func a) \<and> length (t_user_bytes a) = 4"

lemma list4_cases: "length xs = 4 \<Longrightarrow> \<exists>a b c d. xs = [a, b, c, d]"
  by (auto simp: numeral_eq_Suc length_Suc_conv)

lemma atp_parse_encode: "wf_atp a \<Longrightarrow> atp_parse (atp_encode a) = Some a"
  by (cases a)
     (auto simp: wf_atp_def atp_parse_def atp_encode_def get_to_def u16_to_be_def dest!: list4_cases)

lemma atp_parse_wf: "atp_parse p = Some a \<Longrightarrow> wf_atp a"
  by (auto simp: atp_parse_def wf_atp_def get_to_def split: Option.bind_splits if_splits)

lemma atp_encode_parse: "atp_parse p = Some a \<Longrightarrow> atp_encode a = p"
proof -
  assume a: "atp_parse p = Some a"
  then have "8 \<le> length p"
    by (auto simp: atp_parse_def get_to_def split: Option.bind_splits if_splits)
  then obtain b0 b1 b2 b3 b4 b5 b6 b7 dat where "p = b0 # b1 # b2 # b3 # b4 # b5 # b6 # b7 # dat"
    by (auto simp: numeral_eq_Suc Suc_le_length_iff)
  with a show ?thesis
    by (auto simp: atp_parse_def atp_encode_def get_to_def split: Option.bind_splits)
qed

interpretation atp_codec: closed_codec atp_encode atp_parse wf_atp
  by unfold_locales (auto intro: atp_parse_encode atp_parse_wf)

lemma wf_atp_request: "length user = 4 \<Longrightarrow> wf_atp (atp_request tid bm xo user dat)"
  by (cases xo; cases "the xo")
     (auto simp: wf_atp_def atp_request_def func_of_control_def Let_def)

lemma wf_atp_response: "length user = 4 \<Longrightarrow> wf_atp (atp_response tid seq eom sts user dat)"
  by (auto simp: wf_atp_def atp_response_def func_of_control_def Let_def)

lemma wf_atp_release: "wf_atp (atp_release tid)"
  by (simp add: wf_atp_def atp_release_def func_of_control_def)

lemma atp_response_flags:
  "atp_eom (atp_response tid seq eom sts user dat) = eom"
  "atp_sts (atp_response tid seq eom sts user dat) = sts"
  by (auto simp: atp_response_def atp_eom_def atp_sts_def Let_def)

lemma atp_request_flags:
  "atp_xo (atp_request tid bm xo user dat) = (xo \<noteq> None)"
  by (cases xo; cases "the xo") (auto simp: atp_request_def atp_xo_def Let_def)

end
