(* ===== verification/Wire_NBP.thy ===== *)
theory Wire_NBP
  imports Wire_Base
begin

text \<open>
  \<open>src/src/wire/nbp.rs\<close>: name lookups.  The tuple parser is a prefix codec, the packet reads as many
  tuples as the low nibble of its first byte counts.  The encoder caps that count at 15 but writes
  every tuple, so the packets that survive the trip carry at most 15.
\<close>

datatype nbp_func = BrRq | LkUp | LkUpReply | FwdReq

record nbp_tuple =
  nb_addr :: addr
  nb_socket :: u8
  nb_enumerator :: u8
  nb_object :: rstring
  nb_typ :: rstring
  nb_zone :: rstring

record nbp =
  n_func :: nbp_func
  n_id :: u8
  n_tuples :: "nbp_tuple list"

definition nbp_tuple_parse :: "nbp_tuple parser" where
  "nbp_tuple_parse p =
     do { h \<leftarrow> get_to p 5;
          (obj, rest) \<leftarrow> pstring (drop 5 p);
          (typ, rest) \<leftarrow> pstring rest;
          (zone, rest) \<leftarrow> pstring rest;
          Some (\<lparr>nb_addr = mk_addr (u16_from_be (h ! 0) (h ! 1)) (h ! 2),
                 nb_socket = h ! 3, nb_enumerator = h ! 4,
                 nb_object = obj, nb_typ = typ, nb_zone = zone\<rparr>, rest) }"

definition nbp_func_of_nibble :: "u8 \<Rightarrow> nbp_func option" where
  "nbp_func_of_nibble k =
     (if k = 1 then Some BrRq else if k = 2 then Some LkUp
      else if k = 3 then Some LkUpReply else if k = 4 then Some FwdReq else None)"

definition nbp_parse :: "bytes \<Rightarrow> nbp option" where
  "nbp_parse p =
     do { b0 \<leftarrow> get_at p 0; ident \<leftarrow> get_at p 1;
          func \<leftarrow> nbp_func_of_nibble (drop_bit 4 b0);
          (tuples, rest) \<leftarrow> parse_n nbp_tuple_parse (unat (b0 AND 0x0f)) (drop 2 p);
          Some \<lparr>n_func = func, n_id = ident, n_tuples = tuples\<rparr> }"

definition nbp_tuple_encode :: "nbp_tuple \<Rightarrow> bytes" where
  "nbp_tuple_encode t =
     u16_to_be (a_net (nb_addr t)) @ [a_node (nb_addr t), nb_socket t, nb_enumerator t]
     @ put_pstring (nb_object t) @ put_pstring (nb_typ t) @ put_pstring (nb_zone t)"

fun nbp_func_nibble :: "nbp_func \<Rightarrow> u8" where
  "nbp_func_nibble BrRq = 1"
| "nbp_func_nibble LkUp = 2"
| "nbp_func_nibble LkUpReply = 3"
| "nbp_func_nibble FwdReq = 4"

definition nbp_encode :: "nbp \<Rightarrow> bytes" where
  "nbp_encode n =
     [push_bit 4 (nbp_func_nibble (n_func n)) OR word_of_nat (min (length (n_tuples n)) 15), n_id n]
     @ concat (map nbp_tuple_encode (n_tuples n))"

definition wf_nbp_tuple :: "nbp_tuple \<Rightarrow> bool" where
  "wf_nbp_tuple t \<longleftrightarrow> wf_name (nb_object t) \<and> wf_name (nb_typ t) \<and> wf_name (nb_zone t)"

definition wf_nbp :: "nbp \<Rightarrow> bool" where
  "wf_nbp n \<longleftrightarrow> length (n_tuples n) \<le> 15 \<and> (\<forall>t \<in> set (n_tuples n). wf_nbp_tuple t)"

lemma nbp_tuple_parse_encode:
  "wf_nbp_tuple t \<Longrightarrow> nbp_tuple_parse (nbp_tuple_encode t @ rest) = Some (t, rest)"
  by (cases t)
     (simp add: nbp_tuple_parse_def nbp_tuple_encode_def wf_nbp_tuple_def get_to_def u16_to_be_def
        pstr.dec_enc)

lemma nbp_tuple_parse_progress:
  assumes "nbp_tuple_parse p = Some (t, tail)" shows "length tail < length p"
proof -
  from assms obtain a b c x y where
    "5 \<le> length p" "pstring (drop 5 p) = Some (a, x)" "pstring x = Some (b, y)"
    "pstring y = Some (c, tail)"
    by (auto simp: nbp_tuple_parse_def get_to_def split: Option.bind_splits if_splits)
  then show ?thesis by (auto dest!: pstring_progress)
qed

interpretation nbp_tuple_codec: prefix_codec nbp_tuple_encode nbp_tuple_parse wf_nbp_tuple
  by unfold_locales (auto intro: nbp_tuple_parse_encode nbp_tuple_parse_progress)

lemma nbp_first_byte:
  assumes "n \<le> 15"
  shows "drop_bit 4 (push_bit 4 (nbp_func_nibble f) OR word_of_nat n) = nbp_func_nibble f"
    and "unat ((push_bit 4 (nbp_func_nibble f) OR word_of_nat n) AND 0x0f) = n"
proof -
  have u: "unat (word_of_nat n :: u8) = n" using assms by (simp only: unat_small_u8)
  have x: "word_of_nat n AND 0x0f = (word_of_nat n :: u8)"
    by (rule and_nibble_id) (use u assms in simp)
  have f: "nbp_func_nibble f AND 0x0f = nbp_func_nibble f"
    by (cases f) simp_all
  show "drop_bit 4 (push_bit 4 (nbp_func_nibble f) OR word_of_nat n) = nbp_func_nibble f"
    and "unat ((push_bit 4 (nbp_func_nibble f) OR word_of_nat n) AND 0x0f) = n"
    using nibbles_pack [of "nbp_func_nibble f" "word_of_nat n"] unfolding x f by (simp_all only: u)
qed

lemma nbp_func_of_nibble_nibble [simp]: "nbp_func_of_nibble (nbp_func_nibble f) = Some f"
  by (cases f) (simp_all add: nbp_func_of_nibble_def)

lemma nbp_parse_Cons:
  "nbp_parse (b0 # ident # rest) =
     do { func \<leftarrow> nbp_func_of_nibble (drop_bit 4 b0);
          (tuples, tail) \<leftarrow> parse_n nbp_tuple_parse (unat (b0 AND 0x0f)) rest;
          Some \<lparr>n_func = func, n_id = ident, n_tuples = tuples\<rparr> }"
  by (simp add: nbp_parse_def)

lemma nbp_parse_encode:
  assumes "wf_nbp n" shows "nbp_parse (nbp_encode n) = Some n"
proof -
  from assms have l: "length (n_tuples n) \<le> 15" and w: "\<forall>t \<in> set (n_tuples n). wf_nbp_tuple t"
    by (auto simp: wf_nbp_def)
  then have m: "min (length (n_tuples n)) 15 = length (n_tuples n)" by simp
  show ?thesis
    unfolding nbp_encode_def m append_Cons append_Nil nbp_parse_Cons nbp_first_byte [OF l]
      nbp_tuple_codec.parse_n_enc_Nil [OF w refl]
    by (cases n) simp
qed

interpretation nbp_codec: packet_codec nbp_encode nbp_parse wf_nbp
  by unfold_locales (rule nbp_parse_encode)

end
