(* ===== verification/Wire_DDP.thy ===== *)
theory Wire_DDP
  imports Wire_Base
begin

text \<open>
  \<open>src/src/wire/ddp.rs\<close>: the datagram with its 13-byte extended header, the 5-byte short header
  of LocalTalk, and the checksum.  The length and hop fields are narrower than their Rust types;
  the lemmas say what that truncation does.
\<close>

definition DDP_RTMP_DATA :: u8 where "DDP_RTMP_DATA = 1"
definition DDP_RTMP_REQ :: u8 where "DDP_RTMP_REQ = 5"
definition DDP_NBP :: u8 where "DDP_NBP = 2"
definition DDP_ATP :: u8 where "DDP_ATP = 3"
definition DDP_AEP :: u8 where "DDP_AEP = 4"
definition DDP_ZIP :: u8 where "DDP_ZIP = 6"

lemmas ddp_type_defs =
  DDP_RTMP_DATA_def DDP_RTMP_REQ_def DDP_NBP_def DDP_ATP_def DDP_AEP_def DDP_ZIP_def

definition checksum :: "bytes \<Rightarrow> u16" where
  "checksum bs =
     (let sum = fold (\<lambda>b sum. word_rotl 1 (sum + ucast b)) bs 0
      in if sum = 0 then 0xffff else sum)"

lemma checksum_nonzero: "checksum bs \<noteq> 0"
  by (simp add: checksum_def Let_def)

record ddp =
  d_hops :: u8
  d_length :: u16
  d_checksum :: u16
  d_dst :: addr
  d_dst_socket :: u8
  d_src :: addr
  d_src_socket :: u8
  d_typ :: u8
  d_data :: bytes

definition ddp_parse :: "bytes \<Rightarrow> ddp option" where
  "ddp_parse p =
     do { h \<leftarrow> get_to p 13;
          Some \<lparr>d_hops = drop_bit 2 (h ! 0) AND 0x0f,
                d_length = u16_from_be (h ! 0 AND 0x03) (h ! 1),
                d_checksum = u16_from_be (h ! 2) (h ! 3),
                d_dst = mk_addr (u16_from_be (h ! 4) (h ! 5)) (h ! 8),
                d_dst_socket = h ! 10,
                d_src = mk_addr (u16_from_be (h ! 6) (h ! 7)) (h ! 9),
                d_src_socket = h ! 11,
                d_typ = h ! 12,
                d_data = drop 13 p\<rparr> }"

definition ddp_encode :: "ddp \<Rightarrow> bytes" where
  "ddp_encode d =
     (let len = word_of_nat (13 + length (d_data d)) :: u16
      in [push_bit 2 (d_hops d AND 0x0f) OR (ucast (drop_bit 8 len) AND 0x03), ucast len]
         @ u16_to_be (d_checksum d)
         @ u16_to_be (a_net (d_dst d))
         @ u16_to_be (a_net (d_src d))
         @ [a_node (d_dst d), a_node (d_src d), d_dst_socket d, d_src_socket d, d_typ d]
         @ d_data d)"

definition ddp_from_short :: "bytes \<Rightarrow> u16 \<Rightarrow> u8 \<Rightarrow> u8 \<Rightarrow> ddp option" where
  "ddp_from_short p net dst_node src_node =
     do { h \<leftarrow> get_to p 5;
          let len = unat (u16_from_be (h ! 0 AND 0x03) (h ! 1));
          if len \<noteq> length p then None
          else do {
            let dat = drop 5 p;
            Some \<lparr>d_hops = 0,
                  d_length = word_of_nat (13 + length dat),
                  d_checksum = 0,
                  d_dst = mk_addr net dst_node,
                  d_dst_socket = h ! 2,
                  d_src = mk_addr net src_node,
                  d_src_socket = h ! 3,
                  d_typ = h ! 4,
                  d_data = dat\<rparr> } }"

definition ddp_to_short_bytes :: "ddp \<Rightarrow> bytes" where
  "ddp_to_short_bytes d =
     (let len = word_of_nat (5 + length (d_data d)) :: u16
      in [ucast (drop_bit 8 len) AND 0x03, ucast len, d_dst_socket d, d_src_socket d, d_typ d]
         @ d_data d)"

definition compute_checksum :: "ddp \<Rightarrow> u16" where
  "compute_checksum d = checksum (drop 4 (ddp_encode d))"

section \<open>The packed first byte\<close>

text \<open>Hops sit above the two top bits of the length, so each is read back alone.\<close>

lemma packed_hops:
  "drop_bit 2 (push_bit 2 (h AND 0x0f) OR (x AND 0x03)) AND 0x0f = (h :: u8) AND 0x0f"
  unfolding and_masks_u8
  by (rule bit_word_eqI) (auto simp: bit_simps)

lemma packed_len_hi:
  "(push_bit 2 (h AND 0x0f) OR (x AND 0x03)) AND 0x03 = (x :: u8) AND 0x03"
  unfolding and_masks_u8
  by (rule bit_word_eqI) (auto simp: bit_simps)

lemma u16_from_be_10bit:
  "u16_from_be (ucast (drop_bit 8 w) AND 0x03) (ucast w) = w AND 0x3ff"
  unfolding u16_from_be_def and_masks_u8 and_mask_10_u16
  by (rule bit_word_eqI) (auto simp: bit_simps)

lemma word_10bit: "word_of_nat n AND (0x3ff :: u16) = word_of_nat (n mod 1024)"
proof (rule unat_eqI)
  have "n mod 1024 < 65536" by (rule less_trans [of _ 1024]) simp_all
  moreover have "unat (word_of_nat n AND (0x3ff :: u16)) = n mod 1024"
    unfolding unat_and_masks by (simp add: unsigned_of_nat take_bit_eq_mod mod_mod_cancel)
  ultimately show "unat (word_of_nat n AND (0x3ff :: u16)) = unat (word_of_nat (n mod 1024) :: u16)"
    by (simp only: unat_small_u16)
qed

section \<open>Extended header\<close>

text \<open>
  Parsing an encoded datagram, for every datagram: the hop count is kept modulo 16, the length
  is the real one modulo 1024, everything else is kept as it was.
\<close>

lemma ddp_parse_Cons:
  "ddp_parse (b0 # b1 # c0 # c1 # n0 # n1 # s0 # s1 # dn # sn # ds # ss # t # dat) =
     Some \<lparr>d_hops = drop_bit 2 b0 AND 0x0f,
           d_length = u16_from_be (b0 AND 0x03) b1,
           d_checksum = u16_from_be c0 c1,
           d_dst = mk_addr (u16_from_be n0 n1) dn,
           d_dst_socket = ds,
           d_src = mk_addr (u16_from_be s0 s1) sn,
           d_src_socket = ss,
           d_typ = t,
           d_data = dat\<rparr>"
  by (simp add: ddp_parse_def get_to_def)

lemma ddp_parse_encode_gen:
  "ddp_parse (ddp_encode d) =
     Some (d\<lparr>d_hops := d_hops d AND 0x0f,
             d_length := word_of_nat ((13 + length (d_data d)) mod 1024)\<rparr>)"
  unfolding ddp_encode_def Let_def u16_to_be_def append_Cons append_Nil ddp_parse_Cons
    packed_hops packed_len_hi u16_from_be_10bit word_10bit u16_from_to_be
  by (cases d) simp

definition wf_ddp :: "ddp \<Rightarrow> bool" where
  "wf_ddp d \<longleftrightarrow> unat (d_hops d) < 16 \<and> length (d_data d) \<le> 1010
     \<and> d_length d = word_of_nat (13 + length (d_data d))"

lemma ddp_parse_encode: "wf_ddp d \<Longrightarrow> ddp_parse (ddp_encode d) = Some d"
  by (cases d) (simp add: ddp_parse_encode_gen wf_ddp_def and_nibble_id)

interpretation ddp_codec: packet_codec ddp_encode ddp_parse wf_ddp
  by unfold_locales (rule ddp_parse_encode)

lemma length_ddp_encode: "length (ddp_encode d) = 13 + length (d_data d)"
  by (simp add: ddp_encode_def Let_def)

lemma ddp_parse_Some_data: "ddp_parse p = Some d \<Longrightarrow> d_data d = drop 13 p \<and> 13 \<le> length p"
  by (auto simp: ddp_parse_def get_to_def split: Option.bind_splits if_splits)

lemma ddp_parse_bounds:
  assumes "ddp_parse p = Some d"
  shows "unat (d_hops d) < 16" and "unat (d_length d) < 1024"
proof -
  from assms have hops: "d_hops d = drop_bit 2 (p ! 0) AND 0x0f"
    and len: "d_length d = u16_from_be (p ! 0 AND 0x03) (p ! 1)"
    by (auto simp: ddp_parse_def get_to_def split: Option.bind_splits if_splits)
  show "unat (d_hops d) < 16"
    unfolding hops unat_and_masks by simp
  have "unat (p ! 0 AND 0x03) < 4"
    unfolding unat_and_masks by simp
  then show "unat (d_length d) < 1024"
    unfolding len unat_u16_from_be using unat_u8_less [of "p ! 1"] by simp
qed

lemma ddp_parse_wf:
  assumes "ddp_parse p = Some d" and "unat (d_length d) = 13 + length (d_data d)"
  shows "wf_ddp d"
proof -
  have "13 + length (d_data d) < 1024"
    using ddp_parse_bounds(2) [OF assms(1)] assms(2) by simp
  moreover have "d_length d = word_of_nat (13 + length (d_data d))"
    using assms(2) by (rule unat_eqD)
  ultimately show ?thesis using ddp_parse_bounds(1) [OF assms(1)] by (simp add: wf_ddp_def)
qed

text \<open>
  Byte-exact forwarding: a datagram whose length field is right and whose two reserved bits are
  clear is written back exactly as it was read.
\<close>

lemma packed_byte_id:
  "b = take_bit 6 b \<Longrightarrow>
   push_bit 2 ((drop_bit 2 b AND 0x0f) AND 0x0f) OR ((b AND 0x03) AND 0x03) = (b :: u8)"
proof -
  assume b: "b = take_bit 6 b"
  have pred: "Suc (Suc (n - 2)) = n" if "\<not> n < 2" for n :: nat using that by simp
  have "bit b n \<Longrightarrow> n < 6" for n by (subst (asm) b) (simp add: bit_simps)
  then have "bit b n \<Longrightarrow> n - 2 < 4" for n by fastforce
  then show ?thesis
    unfolding and_masks_u8
    by (intro bit_word_eqI) (auto simp: bit_simps pred not_less)
qed

lemma ddp_encode_Cons:
  assumes len: "u16_from_be (b0 AND 0x03) b1 = word_of_nat (13 + length dat)"
    and res: "b0 = take_bit 6 b0"
    and d: "ddp_parse (b0 # b1 # c0 # c1 # n0 # n1 # s0 # s1 # dn # sn # ds # ss # t # dat) = Some d"
  shows "ddp_encode d = b0 # b1 # c0 # c1 # n0 # n1 # s0 # s1 # dn # sn # ds # ss # t # dat"
proof -
  have hd: "ucast (drop_bit 8 (u16_from_be (b0 AND 0x03) b1)) = b0 AND 0x03"
    and lo: "ucast (u16_from_be (b0 AND 0x03) b1) = b1"
    using u16_to_from_be [of "b0 AND 0x03" b1] by (simp_all add: u16_to_be_def)
  have "d = \<lparr>d_hops = drop_bit 2 b0 AND 0x0f, d_length = u16_from_be (b0 AND 0x03) b1,
      d_checksum = u16_from_be c0 c1, d_dst = mk_addr (u16_from_be n0 n1) dn, d_dst_socket = ds,
      d_src = mk_addr (u16_from_be s0 s1) sn, d_src_socket = ss, d_typ = t, d_data = dat\<rparr>"
    using d unfolding ddp_parse_Cons by simp
  then show ?thesis
    by (simp only: ddp_encode_def Let_def ddp.select_convs len [symmetric] hd lo
          packed_byte_id [OF res]) simp
qed

lemma ddp_encode_parse:
  assumes "ddp_parse p = Some d" and "unat (d_length d) = length p" and "p ! 0 < 64"
  shows "ddp_encode d = p"
proof -
  from assms(1) have "13 \<le> length p" by (simp add: ddp_parse_Some_data)
  then obtain b0 b1 c0 c1 n0 n1 s0 s1 dn sn ds ss t dat where
    p: "p = b0 # b1 # c0 # c1 # n0 # n1 # s0 # s1 # dn # sn # ds # ss # t # dat"
    by (auto simp: numeral_eq_Suc Suc_le_length_iff)
  from assms(1,2) have "unat (u16_from_be (b0 AND 0x03) b1) = 13 + length dat"
    unfolding p ddp_parse_Cons by auto
  then have "u16_from_be (b0 AND 0x03) b1 = word_of_nat (13 + length dat)"
    by (rule unat_eqD)
  moreover have "b0 = take_bit 6 b0"
    using assms(3) by (intro unat_eqI) (simp add: p word_less_nat_alt unsigned_take_bit_eq take_bit_nat_eq_self)
  ultimately show ?thesis
    using assms(1) unfolding p by (rule ddp_encode_Cons)
qed

section \<open>Short header\<close>

lemma ddp_from_short_to_short:
  assumes "length (d_data d) \<le> 1018"
  shows "ddp_from_short (ddp_to_short_bytes d) net dn sn =
     Some \<lparr>d_hops = 0, d_length = word_of_nat (13 + length (d_data d)), d_checksum = 0,
           d_dst = mk_addr net dn, d_dst_socket = d_dst_socket d,
           d_src = mk_addr net sn, d_src_socket = d_src_socket d,
           d_typ = d_typ d, d_data = d_data d\<rparr>"
proof -
  let ?len = "word_of_nat (5 + length (d_data d)) :: u16"
  have len: "unat (u16_from_be ((ucast (drop_bit 8 ?len) AND 0x03) AND 0x03) (ucast ?len))
      = 5 + length (d_data d)"
    unfolding and.assoc and.idem u16_from_be_10bit word_10bit
    by (subst unat_small_u16) (use assms in auto)
  show ?thesis
    unfolding ddp_from_short_def ddp_to_short_bytes_def Let_def
    using len by (simp add: get_to_def)
qed

lemma ddp_from_short_wf:
  assumes "ddp_from_short p net dn sn = Some d"
  shows "unat (d_length d) = 13 + length (d_data d)" and "d_hops d = 0"
    and "a_net (d_dst d) = net" and "a_net (d_src d) = net"
    and "length p = 5 + length (d_data d)" and "length p < 1024"
proof -
  from assms have d: "5 \<le> length p" "unat (u16_from_be (p ! 0 AND 0x03) (p ! 1)) = length p"
    "d_length d = word_of_nat (13 + length (drop 5 p))" "d_data d = drop 5 p"
    and r: "d_hops d = 0" "a_net (d_dst d) = net" "a_net (d_src d) = net"
    by (auto simp: ddp_from_short_def get_to_def Let_def split: Option.bind_splits if_splits)
  have "unat (p ! 0 AND 0x03) < 4" unfolding unat_and_masks by simp
  then show l: "length p < 1024"
    using d(2) unat_u8_less [of "p ! 1"] unfolding unat_u16_from_be by simp
  show "unat (d_length d) = 13 + length (d_data d)"
    unfolding d(3,4) by (rule unat_small_u16) (use l in simp)
  show "length p = 5 + length (d_data d)" using d(1,4) by simp
  show "d_hops d = 0" "a_net (d_dst d) = net" "a_net (d_src d) = net" by (fact r)+
qed

end
