(* ===== verification/Wire_RTMP.thy ===== *)
theory Wire_RTMP
  imports Wire_DDP
begin

text \<open>
  \<open>src/src/wire/rtmp.rs\<close>: network tuples, shared with AURP but for their trailer byte, and the
  three RTMP packets.  The sender's own range is the first tuple on an extended network and the
  version marker on a nonextended one; the two never collide.
\<close>

record network_tuple =
  nt_range :: "u16 \<times> u16"
  nt_extended :: bool
  nt_distance :: u8

definition network_tuple_parse :: "network_tuple parser" where
  "network_tuple_parse p =
     do { b \<leftarrow> get_to p 3;
          let start = u16_from_be (b ! 0) (b ! 1);
          if b ! 2 AND 0x80 = 0 then
            Some (\<lparr>nt_range = (start, start), nt_extended = False, nt_distance = b ! 2\<rparr>, drop 3 p)
          else do {
            c \<leftarrow> get_to p 6;
            let en = u16_from_be (c ! 3) (c ! 4);
            Some (\<lparr>nt_range = (start, en), nt_extended = True, nt_distance = c ! 2 AND 0x7f\<rparr>,
                  drop 6 p) } }"

definition network_tuple_encode_with :: "u8 \<Rightarrow> network_tuple \<Rightarrow> bytes" where
  "network_tuple_encode_with trailer t =
     u16_to_be (fst (nt_range t))
     @ (if \<not> nt_extended t then [nt_distance t AND 0x7f]
        else [nt_distance t OR 0x80] @ u16_to_be (snd (nt_range t)) @ [trailer])"

text \<open>A distance of seven bits, and a range of one network where the tuple carries only one.\<close>

definition wf_tuple :: "network_tuple \<Rightarrow> bool" where
  "wf_tuple t \<longleftrightarrow> nt_distance t < 0x80 \<and> (\<not> nt_extended t \<longrightarrow> fst (nt_range t) = snd (nt_range t))"

lemma length_tuple_encode:
  "length (network_tuple_encode_with tr t) = (if nt_extended t then 6 else 3)"
  by (simp add: network_tuple_encode_with_def)

lemma tuple_parse_encode:
  "wf_tuple t \<Longrightarrow> network_tuple_parse (network_tuple_encode_with tr t @ rest) = Some (t, rest)"
  by (cases t)
     (auto simp: network_tuple_parse_def network_tuple_encode_with_def wf_tuple_def get_to_def
        u16_to_be_def bit7_simps)

lemma tuple_parse_progress: "network_tuple_parse p = Some (t, tail) \<Longrightarrow> length tail < length p"
  by (auto simp: network_tuple_parse_def get_to_def Let_def split: Option.bind_splits if_splits)

lemma tuple_parse_wf: "network_tuple_parse p = Some (t, tail) \<Longrightarrow> wf_tuple t"
  by (auto simp: network_tuple_parse_def wf_tuple_def get_to_def Let_def bit7_simps
           split: Option.bind_splits if_splits)

interpretation tuple_codec:
  closed_prefix_codec "network_tuple_encode_with tr" network_tuple_parse wf_tuple for tr
  by unfold_locales (auto intro: tuple_parse_encode tuple_parse_progress tuple_parse_wf)

section \<open>RTMP packets\<close>

definition RTMP_TRAILER :: u8 where "RTMP_TRAILER = 0x82"
definition VERSION_MARKER :: bytes where "VERSION_MARKER = [0x00, 0x00, RTMP_TRAILER]"

datatype rtmp =
    RtmpData addr "(u16 \<times> u16) option" "network_tuple list"
  | RtmpRequest
  | RtmpRdr bool  \<comment> \<open>split horizon\<close>

definition rtmp_parse_data :: "bytes \<Rightarrow> rtmp option" where
  "rtmp_parse_data p =
     do { h \<leftarrow> get_to p 4;
          if h ! 2 \<noteq> 8 then None
          else do {
            let sender = mk_addr (u16_from_be (h ! 0) (h ! 1)) (h ! 3);
            rest \<leftarrow> get_from p 4;
            (rng, rest) \<leftarrow>
              (if get_to rest 3 = Some VERSION_MARKER then Some (None, drop 3 rest)
               else do {
                 (first, tail) \<leftarrow> network_tuple_parse rest;
                 if \<not> nt_extended first then None else Some (Some (nt_range first), tail) });
            tuples \<leftarrow> parse_all network_tuple_parse rest;
            Some (RtmpData sender rng tuples) } }"

definition rtmp_parse :: "u8 \<Rightarrow> bytes \<Rightarrow> rtmp option" where
  "rtmp_parse ddp_type p =
     (if ddp_type = DDP_RTMP_DATA then rtmp_parse_data p
      else if ddp_type = DDP_RTMP_REQ then
        (if p = [1] then Some RtmpRequest
         else if p = [2] then Some (RtmpRdr True)
         else if p = [3] then Some (RtmpRdr False)
         else None)
      else None)"

fun rtmp_ddp_type :: "rtmp \<Rightarrow> u8" where
  "rtmp_ddp_type (RtmpData _ _ _) = DDP_RTMP_DATA"
| "rtmp_ddp_type RtmpRequest = DDP_RTMP_REQ"
| "rtmp_ddp_type (RtmpRdr _) = DDP_RTMP_REQ"

definition rtmp_first :: "(u16 \<times> u16) option \<Rightarrow> bytes" where
  "rtmp_first rng =
     (case rng of
        Some r \<Rightarrow> network_tuple_encode_with RTMP_TRAILER
                    \<lparr>nt_range = r, nt_extended = True, nt_distance = 0\<rparr>
      | None \<Rightarrow> VERSION_MARKER)"

fun rtmp_encode :: "rtmp \<Rightarrow> bytes" where
  "rtmp_encode (RtmpData sender rng tuples) =
     u16_to_be (a_net sender) @ [8, a_node sender] @ rtmp_first rng
     @ concat (map (network_tuple_encode_with RTMP_TRAILER) tuples)"
| "rtmp_encode RtmpRequest = [1]"
| "rtmp_encode (RtmpRdr split_horizon) = [if split_horizon then 2 else 3]"

fun wf_rtmp :: "rtmp \<Rightarrow> bool" where
  "wf_rtmp (RtmpData _ _ tuples) \<longleftrightarrow> (\<forall>t \<in> set tuples. wf_tuple t)"
| "wf_rtmp _ \<longleftrightarrow> True"

lemma length_VERSION_MARKER [simp]: "length VERSION_MARKER = 3"
  by (simp add: VERSION_MARKER_def)

text \<open>A range tuple has distance byte \<open>0x80\<close>, the marker has \<open>0x82\<close> there.\<close>

lemma first_not_marker:
  "get_to (rtmp_first (Some r) @ rest) 3 \<noteq> Some VERSION_MARKER"
  by (simp add: rtmp_first_def network_tuple_encode_with_def get_to_def u16_to_be_def
        VERSION_MARKER_def RTMP_TRAILER_def)

lemma rtmp_first_parse:
  "network_tuple_parse (rtmp_first (Some r) @ rest) =
     Some (\<lparr>nt_range = r, nt_extended = True, nt_distance = 0\<rparr>, rest)"
  unfolding rtmp_first_def option.case
  by (rule tuple_parse_encode) (simp add: wf_tuple_def)

lemma rtmp_parse_data_Cons:
  "rtmp_parse_data (n0 # n1 # 8 # nd # rest) =
     do { (rng, rest) \<leftarrow>
            (if get_to rest 3 = Some VERSION_MARKER then Some (None, drop 3 rest)
             else do {
               (first, tail) \<leftarrow> network_tuple_parse rest;
               if \<not> nt_extended first then None else Some (Some (nt_range first), tail) });
          tuples \<leftarrow> parse_all network_tuple_parse rest;
          Some (RtmpData (mk_addr (u16_from_be n0 n1) nd) rng tuples) }"
  by (simp add: rtmp_parse_data_def get_to_def get_from_def Let_def)

lemma rtmp_parse_data_encode:
  assumes "\<forall>t \<in> set tuples. wf_tuple t"
  shows "rtmp_parse_data (rtmp_encode (RtmpData sender rng tuples)) = Some (RtmpData sender rng tuples)"
proof -
  let ?ts = "concat (map (network_tuple_encode_with RTMP_TRAILER) tuples)"
  have ts: "parse_all network_tuple_parse ?ts = Some tuples"
    using assms by (rule tuple_codec.parse_all_enc)
  have enc: "rtmp_encode (RtmpData sender rng tuples)
      = ucast (drop_bit 8 (a_net sender)) # ucast (a_net sender) # 8 # a_node sender
        # rtmp_first rng @ ?ts"
    by (simp add: u16_to_be_def)
  show ?thesis
  proof (cases rng)
    case None
    have "get_to (VERSION_MARKER @ ?ts) 3 = Some VERSION_MARKER"
      by (simp add: get_to_def)
    then show ?thesis
      unfolding enc rtmp_parse_data_Cons u16_from_to_be
      by (simp add: None rtmp_first_def ts)
  next
    case (Some r)
    show ?thesis
      unfolding enc rtmp_parse_data_Cons u16_from_to_be
      by (simp add: Some first_not_marker rtmp_first_parse ts)
  qed
qed

lemma rtmp_parse_encode: "wf_rtmp r \<Longrightarrow> rtmp_parse (rtmp_ddp_type r) (rtmp_encode r) = Some r"
  by (cases r)
     (auto simp: rtmp_parse_def DDP_RTMP_DATA_def DDP_RTMP_REQ_def rtmp_parse_data_encode
           simp del: rtmp_encode.simps(1) split: if_splits)

lemma rtmp_parse_wf: "rtmp_parse ty p = Some r \<Longrightarrow> wf_rtmp r \<and> rtmp_ddp_type r = ty"
  by (auto simp: rtmp_parse_def rtmp_parse_data_def Let_def
           split: Option.bind_splits if_splits dest!: tuple_codec.parse_all_wf)

interpretation rtmp_codec:
  closed_codec rtmp_encode "rtmp_parse ty" "\<lambda>r. wf_rtmp r \<and> rtmp_ddp_type r = ty" for ty
  by unfold_locales (auto simp: rtmp_parse_encode dest: rtmp_parse_wf)

end
