(* ===== verification/Wire_ZIP.thy ===== *)
theory Wire_ZIP
  imports Wire_DDP
begin

text \<open>
  \<open>src/src/wire/zip.rs\<close>: zone information, both the packets that ride DDP and the three requests
  that ride ATP, and the zone multicast address.  A plain Reply recomputes its count; an Extended
  Reply announces the size of the whole list, which only its sender knows.
\<close>

datatype zip =
    ZipQuery "u16 list"
  | ZipReply "(u16 \<times> rstring) list" "u8 option"
  | ZipGetNetInfo rstring
  | ZipNetInfoReply u8 "u16 \<times> u16" rstring "macaddr option" "rstring option"
  | ZipNotify

text \<open>\<open>chunks_exact(2)\<close> with \<open>from_be_bytes\<close>.\<close>

fun be_chunks :: "bytes \<Rightarrow> u16 list" where
  "be_chunks (a # b # rest) = u16_from_be a b # be_chunks rest"
| "be_chunks _ = []"

definition zone_pair :: "(u16 \<times> rstring) parser" where
  "zone_pair p =
     do { hi \<leftarrow> get_at p 0; lo \<leftarrow> get_at p 1;
          tl2 \<leftarrow> get_from p 2;
          (name, rest) \<leftarrow> pstring tl2;
          Some ((u16_from_be hi lo, name), rest) }"

definition zip_parse_query :: "bytes \<Rightarrow> zip option" where
  "zip_parse_query p =
     do { count \<leftarrow> get_at p 1;
          c \<leftarrow> get_range p 2 (2 + unat count * 2);
          Some (ZipQuery (be_chunks c)) }"

definition zip_parse_reply :: "u8 \<Rightarrow> bytes \<Rightarrow> zip option" where
  "zip_parse_reply cmd p =
     do { count \<leftarrow> get_at p 1;
          rest \<leftarrow> get_from p 2;
          zones \<leftarrow> (if cmd = 8 then parse_all zone_pair rest
                   else map_option fst (parse_n zone_pair (unat count) rest));
          Some (ZipReply zones (then_some (cmd = 8) count)) }"

definition zip_parse_net_info_reply :: "bytes \<Rightarrow> zip option" where
  "zip_parse_net_info_reply p =
     do { h \<leftarrow> get_to p 6;
          (zone, rest) \<leftarrow> pstring (drop 6 p);
          b \<leftarrow> get_at rest 0;
          let mclen = unat b;
          multicast \<leftarrow> (if mclen = 0 then Some None
                       else do { m \<leftarrow> get_range rest 1 (1 + mclen); a \<leftarrow> mac m; Some (Some a) });
          rest \<leftarrow> get_from rest (1 + mclen);
          let flags = h ! 1;
          let default_zone = (if flags AND 0x80 \<noteq> 0 then map_option fst (pstring rest) else None);
          Some (ZipNetInfoReply flags
                  (u16_from_be (h ! 2) (h ! 3), u16_from_be (h ! 4) (h ! 5))
                  zone multicast default_zone) }"

definition zip_parse :: "bytes \<Rightarrow> zip option" where
  "zip_parse p =
     do { cmd \<leftarrow> get_at p 0;
          if cmd = 1 then zip_parse_query p
          else if cmd = 2 \<or> cmd = 8 then zip_parse_reply cmd p
          else if cmd = 5 then do { z \<leftarrow> get_from p 6; (zone, _) \<leftarrow> pstring z; Some (ZipGetNetInfo zone) }
          else if cmd = 6 then zip_parse_net_info_reply p
          else if cmd = 7 then Some ZipNotify
          else None }"

definition zone_pair_encode :: "u16 \<times> rstring \<Rightarrow> bytes" where
  "zone_pair_encode z = u16_to_be (fst z) @ put_pstring (snd z)"

fun zip_encode :: "zip \<Rightarrow> bytes" where
  "zip_encode (ZipQuery nets) =
     [1, word_of_nat (min (length nets) 255)] @ concat (map u16_to_be nets)"
| "zip_encode (ZipReply zones tot) =
     [if tot \<noteq> None then 8 else 2,
      case tot of Some t \<Rightarrow> t | None \<Rightarrow> word_of_nat (min (length zones) 255)]
     @ concat (map zone_pair_encode zones)"
| "zip_encode (ZipGetNetInfo zone) = [5, 0, 0, 0, 0, 0] @ put_pstring zone"
| "zip_encode (ZipNetInfoReply flags rng zone multicast default_zone) =
     [6, flags] @ u16_to_be (fst rng) @ u16_to_be (snd rng) @ put_pstring zone
     @ (case multicast of Some m \<Rightarrow> 6 # mac_bytes m | None \<Rightarrow> [0])
     @ (case default_zone of Some z \<Rightarrow> put_pstring z | None \<Rightarrow> [])"
| "zip_encode ZipNotify = [7]"

fun wf_zip :: "zip \<Rightarrow> bool" where
  "wf_zip (ZipQuery nets) \<longleftrightarrow> length nets \<le> 255"
| "wf_zip (ZipReply zones tot) \<longleftrightarrow>
     (\<forall>z \<in> set zones. wf_name (snd z)) \<and> (tot = None \<longrightarrow> length zones \<le> 255)"
| "wf_zip (ZipGetNetInfo zone) \<longleftrightarrow> wf_name zone"
| "wf_zip (ZipNetInfoReply flags _ zone _ default_zone) \<longleftrightarrow>
     wf_name zone \<and>
     (case default_zone of None \<Rightarrow> flags AND 0x80 = 0 | Some z \<Rightarrow> flags AND 0x80 \<noteq> 0 \<and> wf_name z)"
| "wf_zip ZipNotify \<longleftrightarrow> True"

lemma be_chunks_enc [simp]: "be_chunks (concat (map u16_to_be ns)) = ns"
  by (induction ns) (simp_all add: u16_to_be_def)

lemma length_be_enc [simp]: "length (concat (map u16_to_be ns)) = 2 * length ns"
  by (induction ns) auto

lemma zone_pair_parse_encode:
  "wf_name (snd z) \<Longrightarrow> zone_pair (zone_pair_encode z @ rest) = Some (z, rest)"
  by (simp add: zone_pair_def zone_pair_encode_def u16_to_be_def get_from_def pstr.dec_enc)

lemma zone_pair_progress: "zone_pair p = Some (z, tail) \<Longrightarrow> length tail < length p"
  by (auto simp: zone_pair_def get_from_def split: Option.bind_splits if_splits
           dest!: pstring_progress)

interpretation zone_pair_codec:
  prefix_codec zone_pair_encode zone_pair "\<lambda>z. wf_name (snd z)"
  by unfold_locales (auto intro: zone_pair_parse_encode zone_pair_progress)

lemma zip_parse_encode_query:
  "length nets \<le> 255 \<Longrightarrow> zip_parse (zip_encode (ZipQuery nets)) = Some (ZipQuery nets)"
  by (simp add: zip_parse_def zip_parse_query_def get_range_def unat_small_u8 min_absorb1
        mult.commute del: word_of_nat_eq_0_iff)

lemma zip_parse_encode_reply:
  "wf_zip (ZipReply zones tot) \<Longrightarrow> zip_parse (zip_encode (ZipReply zones tot)) = Some (ZipReply zones tot)"
proof (cases tot)
  case None
  assume "wf_zip (ZipReply zones tot)"
  with None have w: "\<forall>z \<in> set zones. wf_name (snd z)" and l: "length zones \<le> 255" by auto
  have "unat (word_of_nat (length zones) :: u8) = length zones"
    by (rule unat_small_u8) (use l in simp)
  then show ?thesis
    using l by (simp add: None zip_parse_def zip_parse_reply_def get_from_def min_absorb1
                  zone_pair_codec.parse_n_enc_Nil [OF w refl])
next
  case (Some t)
  assume "wf_zip (ZipReply zones tot)"
  then have "parse_all zone_pair (concat (map zone_pair_encode zones)) = Some zones"
    by (intro zone_pair_codec.parse_all_enc) simp
  then show ?thesis
    by (simp add: Some zip_parse_def zip_parse_reply_def get_from_def)
qed

lemma zip_parse_encode_net_info_reply:
  assumes "wf_zip (ZipNetInfoReply flags rng zone mc dz)"
  shows "zip_parse (zip_encode (ZipNetInfoReply flags rng zone mc dz))
         = Some (ZipNetInfoReply flags rng zone mc dz)"
proof -
  from assms have z: "wf_name zone" by simp
  have tail: "map_option fst (pstring (put_pstring d)) = Some d" if "wf_name d" for d
    using pstr.dec_enc [OF that, of "[]"] by simp
  show ?thesis
    using assms
    by (cases mc; cases dz)
       (auto simp: zip_parse_def zip_parse_net_info_reply_def get_to_def get_range_def get_from_def
          u16_to_be_def pstr.dec_enc [OF z] tail split: prod.splits)
qed

lemma zip_parse_encode: "wf_zip z \<Longrightarrow> zip_parse (zip_encode z) = Some z"
proof (cases z)
  case (ZipGetNetInfo zone)
  assume "wf_zip z"
  with ZipGetNetInfo have "pstring (put_pstring zone) = Some (zone, [])"
    using pstr.dec_enc [of zone "[]"] by simp
  then show ?thesis by (simp add: ZipGetNetInfo zip_parse_def get_from_def)
next
  case (ZipQuery nets)
  then show "wf_zip z \<Longrightarrow> ?thesis" by (simp only: wf_zip.simps(1) zip_parse_encode_query)
next
  case (ZipReply zones tot)
  then show "wf_zip z \<Longrightarrow> ?thesis" by (simp only: zip_parse_encode_reply)
next
  case (ZipNetInfoReply flags rng zone mc dz)
  then show "wf_zip z \<Longrightarrow> ?thesis" by (simp only: zip_parse_encode_net_info_reply)
next
  case ZipNotify
  then show ?thesis by (simp add: zip_parse_def)
qed

interpretation zip_codec: packet_codec zip_encode zip_parse wf_zip
  by unfold_locales (rule zip_parse_encode)

section \<open>The requests that ride ATP\<close>

datatype zip_atp =
    GetMyZone
  | GetZoneList u16
  | GetLocalZones u16
  | ZReply bool "rstring list"

text \<open>The code reads the first four of the user bytes; the request's data is not looked at.\<close>

definition zip_atp_parse_request :: "bytes \<Rightarrow> zip_atp option" where
  "zip_atp_parse_request user =
     do { u \<leftarrow> get_to user 4;
          let start = u16_from_be (u ! 2) (u ! 3);
          if u ! 0 = 7 then Some GetMyZone
          else if u ! 0 = 8 then Some (GetZoneList start)
          else if u ! 0 = 9 then Some (GetLocalZones start)
          else None }"

definition zip_atp_parse_reply :: "bytes \<Rightarrow> bytes \<Rightarrow> zip_atp option" where
  "zip_atp_parse_reply user dat =
     do { u \<leftarrow> get_to user 4;
          let count = unat (u16_from_be (u ! 2) (u ! 3));
          (zones, _) \<leftarrow> parse_n pstring count dat;
          Some (ZReply (u ! 0 \<noteq> 0) zones) }"

definition reply_parts :: "bool \<Rightarrow> rstring list \<Rightarrow> bytes \<times> bytes" where
  "reply_parts is_last zones =
     ([if is_last then 1 else 0, 0] @ u16_to_be (word_of_nat (length zones)),
      concat (map put_pstring zones))"

lemma zip_atp_reply_parts:
  assumes "\<forall>z \<in> set zones. wf_name z" and "length zones < 65536"
  shows "(case reply_parts is_last zones of (user, dat) \<Rightarrow> zip_atp_parse_reply user dat)
         = Some (ZReply is_last zones)"
proof -
  have "parse_n pstring (unat (word_of_nat (length zones) :: u16)) (concat (map put_pstring zones))
        = Some (zones, [])"
    by (rule pstr.parse_n_enc_Nil [OF assms(1)]) (rule unat_small_u16 [OF assms(2)])
  then show ?thesis
    by (simp add: reply_parts_def zip_atp_parse_reply_def get_to_def u16_to_be_def Let_def
             del: unsigned_of_nat)
qed

section \<open>The zone multicast address\<close>

definition zone_multicast :: "rstring \<Rightarrow> macaddr" where
  "zone_multicast zone =
     (let raw = map (\<lambda>c. to_ascii_uppercase (ucast c)) zone;
          h = checksum raw
      in Mac 0x09 0x00 0x07 0x00 0x00 (ucast (h mod 253)))"

lemma upper_of_letter:
  assumes "65 \<le> c" "c \<le> (90 :: u32)"
  shows "to_ascii_uppercase (ucast c) = ucast c" "to_ascii_uppercase (ucast (c + 32)) = ucast c"
proof -
  have "unat c \<in> {65..90}"
    using assms by (simp add: word_le_nat_alt)
  then have "c \<in> word_of_nat ` {65..90}"
    by (rule rev_image_eqI) (rule unat_eqD [OF refl])
  also have "{65..90} = set [65..<91::nat]" by (simp only: set_upt atLeastLessThanSuc_atLeastAtMost [symmetric]) simp
  finally have "c \<in> set (map word_of_nat [65..<91])" by (simp only: set_map)
  then have "to_ascii_uppercase (ucast c) = ucast c \<and> to_ascii_uppercase (ucast (c + 32)) = ucast c"
    unfolding to_ascii_uppercase_def by (simp add: upt_rec) (elim disjE; simp)
  then show "to_ascii_uppercase (ucast c) = ucast c" "to_ascii_uppercase (ucast (c + 32)) = ucast c"
    by simp_all
qed

lemma uppercase_lowercase:
  "to_ascii_lowercase c = to_ascii_lowercase d \<Longrightarrow>
   to_ascii_uppercase (ucast c) = to_ascii_uppercase (ucast d)"
proof (cases "65 \<le> c \<and> c \<le> 90"; cases "65 \<le> d \<and> d \<le> 90")
  assume eq: "to_ascii_lowercase c = to_ascii_lowercase d"
  show ?thesis if c: "65 \<le> c \<and> c \<le> 90" and d: "65 \<le> d \<and> d \<le> 90"
  proof -
    from eq c d have "c + 32 = d + 32" unfolding to_ascii_lowercase_def by (simp only: if_True simp_thms)
    then show ?thesis by simp
  qed
  show ?thesis if c: "65 \<le> c \<and> c \<le> 90" and d: "\<not> (65 \<le> d \<and> d \<le> 90)"
  proof -
    from eq c d have "d = c + 32" unfolding to_ascii_lowercase_def by (simp only: if_True if_False simp_thms)
    with c show ?thesis by (simp only: upper_of_letter)
  qed
  show ?thesis if c: "\<not> (65 \<le> c \<and> c \<le> 90)" and d: "65 \<le> d \<and> d \<le> 90"
  proof -
    from eq c d have "c = d + 32" unfolding to_ascii_lowercase_def by (simp only: if_True if_False simp_thms)
    with d show ?thesis by (simp only: upper_of_letter)
  qed
  show ?thesis if c: "\<not> (65 \<le> c \<and> c \<le> 90)" and d: "\<not> (65 \<le> d \<and> d \<le> 90)"
    using eq c d unfolding to_ascii_lowercase_def by (simp only: if_False simp_thms)
qed

lemma zone_multicast_case:
  assumes "eq_ignore_ascii_case a b" shows "zone_multicast a = zone_multicast b"
proof -
  from assms
  have "map (\<lambda>c. to_ascii_uppercase (ucast c)) a = map (\<lambda>c. to_ascii_uppercase (ucast c)) b"
    unfolding eq_ignore_ascii_case_def
  proof (induction a arbitrary: b)
    case (Cons c a)
    then obtain d b' where b: "b = d # b'" by (cases b) auto
    with Cons show ?case using uppercase_lowercase [of c d] by simp
  qed simp
  then show ?thesis by (simp only: zone_multicast_def)
qed

lemma zone_multicast_range: "\<exists>b. zone_multicast zone = Mac 0x09 0x00 0x07 0x00 0x00 b \<and> b < 253"
proof -
  have "unat (ucast (h mod 253) :: u8) = unat (h mod 253)" and "unat (h mod 253) < 253" for h :: u16
  proof -
    show l: "unat (h mod 253) < 253" by (simp add: unat_mod)
    then have "take_bit 8 (unat (h mod 253)) = unat (h mod 253)" by (simp add: take_bit_eq_mod)
    then show "unat (ucast (h mod 253) :: u8) = unat (h mod 253)"
      by (simp only: unsigned_ucast_eq) simp
  qed
  then show ?thesis by (simp add: zone_multicast_def word_less_nat_alt Let_def)
qed

end
