(* ===== verification/Wire_Decode.thy ===== *)
theory Wire_Decode
  imports Wire_Frame Wire_AARP Wire_AEP Wire_ATP Wire_NBP Wire_RTMP Wire_ZIP
begin

text \<open>
  \<open>src/src/wire/mod.rs\<close>, the decode tree: one Ethernet frame followed as far down the stack as its
  bytes allow.  \<open>decode\<close> is None for a frame that is not AppleTalk; a recognised protocol whose body
  fails to parse still gives a packet, with an Unknown at the layer that stopped.
\<close>

datatype ddp_body = BAtp atp | BRtmp rtmp | BAep aep | BNbp nbp | BZip zip | BUnknownDdp

datatype body = BAarp aarp | BDdp ddp ddp_body | BUnknown

record packet =
  pk_frame :: frame
  pk_body :: body

definition map_or :: "'b \<Rightarrow> ('a \<Rightarrow> 'b) \<Rightarrow> 'a option \<Rightarrow> 'b" where
  "map_or d f x = (case x of None \<Rightarrow> d | Some y \<Rightarrow> f y)"

definition decode_ddp_body :: "ddp \<Rightarrow> ddp_body" where
  "decode_ddp_body d =
     (let t = d_typ d in
      if t = DDP_RTMP_DATA \<or> t = DDP_RTMP_REQ then map_or BUnknownDdp BRtmp (rtmp_parse t (d_data d))
      else if t = DDP_NBP then map_or BUnknownDdp BNbp (nbp_parse (d_data d))
      else if t = DDP_ATP then map_or BUnknownDdp BAtp (atp_parse (d_data d))
      else if t = DDP_AEP then map_or BUnknownDdp BAep (aep_parse (d_data d))
      else if t = DDP_ZIP then map_or BUnknownDdp BZip (zip_parse (d_data d))
      else BUnknownDdp)"

definition decode :: "bytes \<Rightarrow> packet option" where
  "decode bs =
     do { frame \<leftarrow> frame_parse bs;
          body \<leftarrow> (if f_proto frame = AARP then
                      Some (map_or BUnknown BAarp (aarp_parse (f_payload frame)))
                    else if f_proto frame = DDP then
                      (case ddp_parse (f_payload frame) of
                         Some d \<Rightarrow> Some (BDdp d (decode_ddp_body d))
                       | None \<Rightarrow> Some BUnknown)
                    else None);
          Some \<lparr>pk_frame = frame, pk_body = body\<rparr> }"

text \<open>The type byte a body travels under, the bytes it encodes to, and when it is expressible.\<close>

fun body_typ :: "ddp_body \<Rightarrow> u8" where
  "body_typ (BAtp _) = DDP_ATP"
| "body_typ (BRtmp r) = rtmp_ddp_type r"
| "body_typ (BAep _) = DDP_AEP"
| "body_typ (BNbp _) = DDP_NBP"
| "body_typ (BZip _) = DDP_ZIP"
| "body_typ BUnknownDdp = 0"

fun body_bytes :: "ddp_body \<Rightarrow> bytes" where
  "body_bytes (BAtp a) = atp_encode a"
| "body_bytes (BRtmp r) = rtmp_encode r"
| "body_bytes (BAep a) = aep_encode a"
| "body_bytes (BNbp n) = nbp_encode n"
| "body_bytes (BZip z) = zip_encode z"
| "body_bytes BUnknownDdp = []"

fun wf_body :: "ddp_body \<Rightarrow> bool" where
  "wf_body (BAtp a) \<longleftrightarrow> wf_atp a"
| "wf_body (BRtmp r) \<longleftrightarrow> wf_rtmp r"
| "wf_body (BAep _) \<longleftrightarrow> True"
| "wf_body (BNbp n) \<longleftrightarrow> wf_nbp n"
| "wf_body (BZip z) \<longleftrightarrow> wf_zip z"
| "wf_body BUnknownDdp \<longleftrightarrow> False"

lemma rtmp_type_cases: "rtmp_ddp_type r = DDP_RTMP_DATA \<or> rtmp_ddp_type r = DDP_RTMP_REQ"
  by (cases r) simp_all

lemma decode_ddp_body_encode:
  assumes "wf_body b" "d_typ d = body_typ b" "d_data d = body_bytes b"
  shows "decode_ddp_body d = b"
proof (cases b)
  case (BRtmp r)
  then show ?thesis
    using assms rtmp_type_cases [of r] rtmp_parse_encode [of r]
    by (auto simp: decode_ddp_body_def map_or_def)
qed (use assms in \<open>simp_all add: decode_ddp_body_def map_or_def ddp_type_defs Let_def
       atp_parse_encode aep_parse_encode nbp_parse_encode zip_parse_encode\<close>)

lemma decode_frame_ddp:
  assumes f: "wf_frame f" "f_proto f = DDP" "f_payload f = ddp_encode d" and d: "wf_ddp d"
  shows "decode (frame_encode f) = Some \<lparr>pk_frame = f, pk_body = BDdp d (decode_ddp_body d)\<rparr>"
  using assms by (simp add: decode_def frame_parse_encode ddp_parse_encode DDP_def AARP_def)

lemma decode_frame_aarp:
  assumes f: "wf_frame f" "f_proto f = AARP" "f_payload f = aarp_encode a"
  shows "decode (frame_encode f) = Some \<lparr>pk_frame = f, pk_body = BAarp a\<rparr>"
  using assms by (simp add: decode_def frame_parse_encode aarp_parse_encode map_or_def)

text \<open>What the capture filter keeps: exactly the frames that parse with an AppleTalk protocol.\<close>

lemma decode_Some_iff:
  "(\<exists>p. decode bs = Some p) \<longleftrightarrow>
   (\<exists>f. frame_parse bs = Some f \<and> (f_proto f = AARP \<or> f_proto f = DDP))"
  by (auto simp: decode_def split: Option.bind_splits option.splits if_splits)

lemma decode_frame: "decode bs = Some p \<Longrightarrow> frame_parse bs = Some (pk_frame p)"
  by (auto simp: decode_def split: Option.bind_splits)

end
