(* ===== verification/Wire_LLAP.thy ===== *)
theory Wire_LLAP
  imports Wire_Base
begin

text \<open>
  \<open>src/src/wire/llap.rs\<close>: the LocalTalk link packet.  Control packets carry no data, data packets
  carry their own length in the first ten bits of the data field; the parser accepts exactly the
  packets whose length field tells the truth, and the encoder writes the bytes back.
\<close>

definition LLAP_SHORT_DDP :: u8 where "LLAP_SHORT_DDP = 0x01"
definition LLAP_LONG_DDP :: u8 where "LLAP_LONG_DDP = 0x02"
definition LLAP_ENQ :: u8 where "LLAP_ENQ = 0x81"
definition LLAP_ACK :: u8 where "LLAP_ACK = 0x82"
definition LLAP_RTS :: u8 where "LLAP_RTS = 0x84"
definition LLAP_CTS :: u8 where "LLAP_CTS = 0x85"
definition MAX_DATA :: nat where "MAX_DATA = 600"

lemmas llap_type_defs =
  LLAP_SHORT_DDP_def LLAP_LONG_DDP_def LLAP_ENQ_def LLAP_ACK_def LLAP_RTS_def LLAP_CTS_def

record llap =
  l_dst :: u8
  l_src :: u8
  l_typ :: u8
  l_data :: bytes

definition llap_parse :: "bytes \<Rightarrow> llap option" where
  "llap_parse p =
     do { h \<leftarrow> get_to p 3;
          let dat = drop 3 p;
          let typ = h ! 2;
          ok \<leftarrow> (if typ = LLAP_ENQ \<or> typ = LLAP_ACK \<or> typ = LLAP_RTS \<or> typ = LLAP_CTS then
                  if dat \<noteq> [] then None else Some ()
                else if typ = 0x00 \<or> 0x80 \<le> typ then None
                else if length dat > MAX_DATA then None
                else do {
                  l \<leftarrow> get_to dat 2;
                  let len = unat (u16_from_be (l ! 0 AND 0x03) (l ! 1));
                  if len \<noteq> length dat then None else Some () });
          Some \<lparr>l_dst = h ! 0, l_src = h ! 1, l_typ = typ, l_data = dat\<rparr> }"

definition llap_control :: "u8 \<Rightarrow> u8 \<Rightarrow> u8 \<Rightarrow> llap" where
  "llap_control dst src typ = \<lparr>l_dst = dst, l_src = src, l_typ = typ, l_data = []\<rparr>"

definition llap_encode :: "llap \<Rightarrow> bytes" where
  "llap_encode l = [l_dst l, l_src l, l_typ l] @ l_data l"

definition control_typ :: "u8 \<Rightarrow> bool" where
  "control_typ t \<longleftrightarrow> t = LLAP_ENQ \<or> t = LLAP_ACK \<or> t = LLAP_RTS \<or> t = LLAP_CTS"

definition wf_llap :: "llap \<Rightarrow> bool" where
  "wf_llap l \<longleftrightarrow>
     (if control_typ (l_typ l) then l_data l = []
      else l_typ l \<noteq> 0 \<and> l_typ l < 0x80 \<and> 2 \<le> length (l_data l) \<and> length (l_data l) \<le> MAX_DATA
        \<and> unat (u16_from_be (l_data l ! 0 AND 0x03) (l_data l ! 1)) = length (l_data l))"

lemma llap_parse_Cons:
  "llap_parse (d # s # t # dat) =
     (let l = \<lparr>l_dst = d, l_src = s, l_typ = t, l_data = dat\<rparr> in if wf_llap l then Some l else None)"
  by (auto simp: llap_parse_def wf_llap_def control_typ_def get_to_def Let_def not_le not_less
           split: Option.bind_splits)

lemma llap_parse_encode: "wf_llap l \<Longrightarrow> llap_parse (llap_encode l) = Some l"
  by (cases l) (simp add: llap_encode_def llap_parse_Cons)

lemma llap_parse_Some_iff: "llap_parse p = Some l \<longleftrightarrow> wf_llap l \<and> p = llap_encode l"
proof
  assume p: "llap_parse p = Some l"
  then have "3 \<le> length p"
    by (auto simp: llap_parse_def get_to_def split: Option.bind_splits if_splits)
  then obtain d s t dat where "p = d # s # t # dat"
    by (auto simp: numeral_eq_Suc Suc_le_length_iff)
  with p show "wf_llap l \<and> p = llap_encode l"
    by (auto simp: llap_parse_Cons llap_encode_def Let_def split: if_splits)
qed (simp add: llap_parse_encode)

interpretation llap_codec: closed_codec llap_encode llap_parse wf_llap
  by unfold_locales (auto simp: llap_parse_encode llap_parse_Some_iff)

lemma wf_llap_control: "control_typ t \<Longrightarrow> wf_llap (llap_control d s t)"
  by (simp add: wf_llap_def llap_control_def)

lemma wf_llap_length: "wf_llap l \<Longrightarrow> length (llap_encode l) \<le> 603"
  by (auto simp: wf_llap_def llap_encode_def MAX_DATA_def split: if_splits)

end
