(* ===== verification/Wire_AURP.thy ===== *)
theory Wire_AURP
  imports Wire_RTMP Wire_ZIP
begin

text \<open>
  \<open>src/src/wire/aurp.rs\<close>: the tunnel protocol over UDP 387.  Domain identifiers, the domain
  header, every command with its flags and body, and the two packet kinds.  The zone reply
  compresses repeated names into offsets measured from a fixed place in the body, so its encoder
  threads the buffer and the offsets already used; \<open>zi_rsp_round_trip\<close> shows the receiver finds
  every name again.
\<close>

section \<open>Domain identifiers\<close>

type_synonym ipv4 = "32 word"

definition ipv4_new :: "u8 \<Rightarrow> u8 \<Rightarrow> u8 \<Rightarrow> u8 \<Rightarrow> ipv4" where
  "ipv4_new a b c d = push_bit 24 (ucast a) OR push_bit 16 (ucast b) OR push_bit 8 (ucast c) OR ucast d"

definition octets :: "ipv4 \<Rightarrow> bytes" where
  "octets ip = [ucast (drop_bit 24 ip), ucast (drop_bit 16 ip), ucast (drop_bit 8 ip), ucast ip]"

datatype di = DiNull | DiIp ipv4

record domain_header =
  dh_dst :: di
  dh_src :: di

definition parse_di :: "di parser" where
  "parse_di p =
     do { h \<leftarrow> get_to p 2;
          if h ! 1 = 0 \<and> h ! 0 = 1 then Some (DiNull, drop 2 p)
          else if h ! 1 = 1 \<and> h ! 0 = 7 then do {
            b \<leftarrow> get_range p 4 8;
            Some (DiIp (ipv4_new (b ! 0) (b ! 1) (b ! 2) (b ! 3)), drop 8 p) }
          else None }"

fun encode_di :: "di \<Rightarrow> bytes" where
  "encode_di DiNull = [0x01, 0x00]"
| "encode_di (DiIp a) = [0x07, 0x01, 0x00, 0x00] @ octets a"

lemma ipv4_new_octets:
  "ipv4_new (ucast (drop_bit 24 ip)) (ucast (drop_bit 16 ip)) (ucast (drop_bit 8 ip)) (ucast ip) = ip"
proof (rule bit_word_eqI)
  fix n assume n: "n < LENGTH(32)"
  then have "n < 8 \<or> n \<ge> 8 \<and> n < 16 \<or> n \<ge> 16 \<and> n < 24 \<or> n \<ge> 24 \<and> n < 32" by auto
  then show "bit (ipv4_new (ucast (drop_bit 24 ip)) (ucast (drop_bit 16 ip))
                   (ucast (drop_bit 8 ip)) (ucast ip)) n = bit ip n"
    unfolding ipv4_new_def by (elim disjE) (auto simp: bit_simps)
qed

lemma octets_new: "octets (ipv4_new a b c d) = [a, b, c, d]"
  unfolding octets_def ipv4_new_def
  by (simp, intro conjI; rule bit_word_eqI; auto simp: bit_simps dest: bit_imp_le_length)

lemma parse_di_encode: "parse_di (encode_di d @ rest) = Some (d, rest)"
  by (cases d) (simp_all add: parse_di_def get_to_def get_range_def octets_def ipv4_new_octets
                  del: word_of_nat_eq_0_iff)

lemma parse_di_progress: "parse_di p = Some (d, tail) \<Longrightarrow> length tail < length p"
  by (auto simp: parse_di_def get_to_def get_range_def split: Option.bind_splits if_splits)

interpretation di_codec: closed_prefix_codec encode_di parse_di "\<lambda>_. True"
  by unfold_locales (auto simp: parse_di_encode dest: parse_di_progress)

section \<open>Commands\<close>

record event_tuple =
  ev_code :: u8
  ev_tuple :: network_tuple

datatype cmd =
    RiReq u16
  | RiRsp bool "network_tuple list"
  | RiAck bool
  | RiUpd "event_tuple list"
  | Rd i16
  | ZiReq "u16 list"
  | ZiRsp "u16 option" "(u16 \<times> rstring) list"
  | GznReq rstring
  | GznRsp rstring "network_tuple list option"
  | GdzlReq u16
  | GdzlRsp bool i16 "rstring list"
  | OpenReq u16 u16 "(u8 \<times> bytes) list"
  | OpenRsp u16 i16 "(u8 \<times> bytes) list"
  | Tickle
  | TickleAck

datatype aurp =
    AData domain_header bytes
  | ARouting domain_header u16 u16 cmd

definition AURP_VERSION :: u16 where "AURP_VERSION = 1"
definition TYPE_DATA :: u16 where "TYPE_DATA = 2"
definition TYPE_ROUTING :: u16 where "TYPE_ROUTING = 3"
definition ENV :: u16 where "ENV = 0x6000"
definition NO_TUPLE :: network_tuple where
  "NO_TUPLE = \<lparr>nt_range = (0, 0), nt_extended = False, nt_distance = 0\<rparr>"
definition ZONE_BASE :: nat where "ZONE_BASE = 6"
definition ALL_SUI :: u16 where "ALL_SUI = 0x7800"
definition SZI :: u16 where "SZI = 0x4000"
definition LAST :: u16 where "LAST = 0x8000"

fun cmd_code :: "cmd \<Rightarrow> u16" where
  "cmd_code (RiReq _) = 1"
| "cmd_code (RiRsp _ _) = 2"
| "cmd_code (RiAck _) = 3"
| "cmd_code (RiUpd _) = 4"
| "cmd_code (Rd _) = 5"
| "cmd_code (ZiReq _) = 6"
| "cmd_code (GznReq _) = 6"
| "cmd_code (GdzlReq _) = 6"
| "cmd_code (ZiRsp _ _) = 7"
| "cmd_code (GznRsp _ _) = 7"
| "cmd_code (GdzlRsp _ _ _) = 7"
| "cmd_code (OpenReq _ _ _) = 8"
| "cmd_code (OpenRsp _ _ _) = 9"
| "cmd_code Tickle = 14"
| "cmd_code TickleAck = 15"

fun cmd_flags :: "cmd \<Rightarrow> u16" where
  "cmd_flags (RiReq sui) = sui AND ALL_SUI"
| "cmd_flags (OpenReq sui _ _) = sui AND ALL_SUI"
| "cmd_flags (RiRsp l _) = (if l then LAST else 0)"
| "cmd_flags (GdzlRsp l _ _) = (if l then LAST else 0)"
| "cmd_flags (RiAck szi) = (if szi then SZI else 0)"
| "cmd_flags (OpenRsp env _ _) = env AND ENV"
| "cmd_flags _ = 0"

subsection \<open>Events, options and zone replies\<close>

definition parse_event :: "event_tuple parser" where
  "parse_event p =
     do { code \<leftarrow> get_at p 0;
          if code > 5 then None
          else if code = 0 then Some (\<lparr>ev_code = code, ev_tuple = NO_TUPLE\<rparr>, drop 1 p)
          else do {
            b \<leftarrow> get_range p 1 4;
            let start = u16_from_be (b ! 0) (b ! 1);
            if b ! 2 AND 0x80 = 0 then
              Some (\<lparr>ev_code = code,
                     ev_tuple = \<lparr>nt_range = (start, start), nt_extended = False,
                                 nt_distance = b ! 2\<rparr>\<rparr>, drop 4 p)
            else do {
              e \<leftarrow> get_range p 4 6;
              let en = u16_from_be (e ! 0) (e ! 1);
              Some (\<lparr>ev_code = code,
                     ev_tuple = \<lparr>nt_range = (start, en), nt_extended = True,
                                 nt_distance = b ! 2 AND 0x7f\<rparr>\<rparr>, drop 6 p) } } }"

definition encode_event :: "event_tuple \<Rightarrow> bytes" where
  "encode_event e =
     (let t = ev_tuple e
      in [ev_code e]
         @ (if ev_code e = 0 then []
            else u16_to_be (fst (nt_range t))
                 @ (if \<not> nt_extended t then [nt_distance t AND 0x7f]
                    else [nt_distance t OR 0x80] @ u16_to_be (snd (nt_range t)))))"

definition wf_event :: "event_tuple \<Rightarrow> bool" where
  "wf_event e \<longleftrightarrow> ev_code e \<le> 5 \<and>
     (if ev_code e = 0 then ev_tuple e = NO_TUPLE else wf_tuple (ev_tuple e))"

text \<open>The loop over counted options, and its guard against a zero length.\<close>

definition option_item :: "(u8 \<times> bytes) parser" where
  "option_item rest =
     do { b \<leftarrow> get_at rest 0;
          let len = unat b;
          if len = 0 then None
          else do { t \<leftarrow> get_range rest 1 (1 + len);
                    Some ((t ! 0, drop 1 t), drop (1 + len) rest) } }"

definition parse_options :: "bytes \<Rightarrow> u8 \<Rightarrow> (u8 \<times> bytes) list option" where
  "parse_options p count =
     do { (options, rest) \<leftarrow> parse_n option_item (unat count) p;
          then_some (rest = []) options }"

definition encode_option :: "u8 \<times> bytes \<Rightarrow> bytes" where
  "encode_option o' = [word_of_nat (1 + length (snd o')), fst o'] @ snd o'"

definition encode_options :: "(u8 \<times> bytes) list \<Rightarrow> bytes" where
  "encode_options options = word_of_nat (length options) # concat (map encode_option options)"

definition wf_option :: "u8 \<times> bytes \<Rightarrow> bool" where
  "wf_option o' \<longleftrightarrow> length (snd o') < 255"

text \<open>One tuple of a zone reply: a name spelled out, or an offset into the body \<open>b\<close>.\<close>

definition zi_tuple :: "bytes \<Rightarrow> (u16 \<times> rstring) parser" where
  "zi_tuple b rest =
     do { t \<leftarrow> get_to rest 3;
          let net = u16_from_be (t ! 0) (t ! 1);
          if t ! 2 AND 0x80 = 0 then do {
            (name, tail) \<leftarrow> pstring (drop 2 rest);
            Some ((net, name), tail) }
          else do {
            lo \<leftarrow> get_at rest 3;
            let off = unat (u16_from_be (t ! 2) lo AND 0x7fff);
            at \<leftarrow> get_from b (ZONE_BASE + off);
            f \<leftarrow> get_at at 0;
            if f AND 0x80 \<noteq> 0 then None
            else do { (name, _) \<leftarrow> pstring at; Some ((net, name), drop 4 rest) } } }"

definition parse_zi_rsp :: "u16 \<Rightarrow> bytes \<Rightarrow> cmd option" where
  "parse_zi_rsp sub b =
     do { h \<leftarrow> get_range b 2 4;
          rest \<leftarrow> get_from b 4;
          zones \<leftarrow> parse_all (zi_tuple b) rest;
          Some (ZiRsp (then_some (sub = 2) (u16_from_be (h ! 0) (h ! 1))) zones) }"

text \<open>
  The encoder's loop over the buffer \<open>out\<close> and the map \<open>seen\<close> of names to offsets; \<open>base\<close> is
  where the receiver measures offsets from.
\<close>

fun zi_rsp_loop ::
    "nat \<Rightarrow> bytes \<Rightarrow> (rstring \<rightharpoonup> u16) \<Rightarrow> (u16 \<times> rstring) list \<Rightarrow> bytes" where
  "zi_rsp_loop base out seen [] = out"
| "zi_rsp_loop base out seen ((net, name) # zones) =
     (let out = out @ u16_to_be net
      in case seen name of
           Some off \<Rightarrow> zi_rsp_loop base (out @ u16_to_be (off OR 0x8000)) seen zones
         | None \<Rightarrow> zi_rsp_loop base (out @ put_pstring name)
                    (seen(name \<mapsto> word_of_nat (length out - base))) zones)"

definition encode_zi_rsp :: "bytes \<Rightarrow> u16 option \<Rightarrow> (u16 \<times> rstring) list \<Rightarrow> bytes" where
  "encode_zi_rsp out extended zones =
     (let (sub, count) = (case extended of Some tot \<Rightarrow> (2, tot) | None \<Rightarrow> (1, word_of_nat (length zones)));
          out = out @ u16_to_be sub @ u16_to_be count
      in zi_rsp_loop (length out + 2) out Map.empty zones)"

subsection \<open>Parsing and encoding a command\<close>

definition parse_sub :: "u16 \<Rightarrow> u16 \<Rightarrow> bytes \<Rightarrow> cmd option" where
  "parse_sub code flags b =
     do { hi \<leftarrow> get_at b 0; lo \<leftarrow> get_at b 1;
          let sub = u16_from_be hi lo;
          rest \<leftarrow> get_from b 2;
          if code = 6 \<and> sub = 1 then
            (if length rest mod 2 \<noteq> 0 then None else Some (ZiReq (be_chunks rest)))
          else if code = 7 \<and> (sub = 1 \<or> sub = 2) then parse_zi_rsp sub b
          else if code = 6 \<and> sub = 3 then do {
            (zone, tail) \<leftarrow> pstring rest;
            then_some (tail = []) (GznReq zone) }
          else if code = 7 \<and> sub = 3 then do {
            (zone, tail) \<leftarrow> pstring rest;
            h \<leftarrow> get_to tail 2;
            let count = sint (u16_from_be (h ! 0) (h ! 1));
            if count < 0 then then_some (count = -1 \<and> length tail = 2) (GznRsp zone None)
            else do {
              rest \<leftarrow> get_from tail 2;
              (tuples, rest) \<leftarrow> parse_n network_tuple_parse (nat count) rest;
              then_some (rest = []) (GznRsp zone (Some tuples)) } }
          else if code = 6 \<and> sub = 4 then
            (if length rest = 2 then Some (GdzlReq (u16_from_be (rest ! 0) (rest ! 1))) else None)
          else if code = 7 \<and> sub = 4 then do {
            h \<leftarrow> get_to rest 2;
            rest \<leftarrow> get_from rest 2;
            zones \<leftarrow> parse_all pstring rest;
            Some (GdzlRsp (flags AND LAST \<noteq> 0) (u16_from_be (h ! 0) (h ! 1)) zones) }
          else None }"

definition cmd_parse :: "u16 \<Rightarrow> u16 \<Rightarrow> bytes \<Rightarrow> cmd option" where
  "cmd_parse code flags b =
     (if code = 1 then then_some (b = []) (RiReq (flags AND ALL_SUI))
      else if code = 2 then map_option (RiRsp (flags AND LAST \<noteq> 0)) (parse_all network_tuple_parse b)
      else if code = 3 then then_some (b = []) (RiAck (flags AND SZI \<noteq> 0))
      else if code = 4 then map_option RiUpd (parse_all parse_event b)
      else if code = 5 then (if length b = 2 then Some (Rd (u16_from_be (b ! 0) (b ! 1))) else None)
      else if code = 6 \<or> code = 7 then parse_sub code flags b
      else if code = 8 then do {
        h \<leftarrow> get_to b 3;
        rest \<leftarrow> get_from b 3;
        options \<leftarrow> parse_options rest (h ! 2);
        Some (OpenReq (flags AND ALL_SUI) (u16_from_be (h ! 0) (h ! 1)) options) }
      else if code = 9 then do {
        h \<leftarrow> get_to b 3;
        rest \<leftarrow> get_from b 3;
        options \<leftarrow> parse_options rest (h ! 2);
        Some (OpenRsp (flags AND ENV) (u16_from_be (h ! 0) (h ! 1)) options) }
      else if code = 14 then then_some (b = []) Tickle
      else if code = 15 then then_some (b = []) TickleAck
      else None)"

fun encode_body :: "cmd \<Rightarrow> bytes" where
  "encode_body (RiReq _) = []"
| "encode_body (RiAck _) = []"
| "encode_body Tickle = []"
| "encode_body TickleAck = []"
| "encode_body (RiRsp _ tuples) = concat (map (network_tuple_encode_with 0) tuples)"
| "encode_body (RiUpd events) = concat (map encode_event events)"
| "encode_body (Rd code) = u16_to_be code"
| "encode_body (ZiReq nets) = u16_to_be 1 @ concat (map u16_to_be nets)"
| "encode_body (ZiRsp extended zones) = encode_zi_rsp [] extended zones"
| "encode_body (GznReq zone) = u16_to_be 3 @ put_pstring zone"
| "encode_body (GznRsp zone tuples) = u16_to_be 3 @ put_pstring zone
     @ (case tuples of
          None \<Rightarrow> u16_to_be (- 1)
        | Some ts \<Rightarrow> u16_to_be (word_of_nat (length ts)) @ concat (map (network_tuple_encode_with 0) ts))"
| "encode_body (GdzlReq start) = u16_to_be 4 @ u16_to_be start"
| "encode_body (GdzlRsp _ start zones) = u16_to_be 4 @ u16_to_be start @ concat (map put_pstring zones)"
| "encode_body (OpenReq _ version options) = u16_to_be version @ encode_options options"
| "encode_body (OpenRsp _ rate_or_err options) = u16_to_be rate_or_err @ encode_options options"

definition aurp_parse :: "bytes \<Rightarrow> aurp option" where
  "aurp_parse p =
     do { (dst, rest) \<leftarrow> parse_di p;
          (src, rest) \<leftarrow> parse_di rest;
          h \<leftarrow> get_to rest 6;
          if u16_from_be (h ! 0) (h ! 1) \<noteq> AURP_VERSION then None
          else do {
            let dh = \<lparr>dh_dst = dst, dh_src = src\<rparr>;
            let body = drop 6 rest;
            let typ = u16_from_be (h ! 4) (h ! 5);
            if typ = TYPE_DATA then do {
              h \<leftarrow> get_to body 13;
              let len = unat (u16_from_be (h ! 0 AND 0x03) (h ! 1));
              then_some (len = length body) (AData dh body) }
            else if typ = TYPE_ROUTING then do {
              h \<leftarrow> get_to body 8;
              cmd \<leftarrow> cmd_parse (u16_from_be (h ! 4) (h ! 5)) (u16_from_be (h ! 6) (h ! 7)) (drop 8 body);
              Some (ARouting dh (u16_from_be (h ! 0) (h ! 1)) (u16_from_be (h ! 2) (h ! 3)) cmd) }
            else None } }"

definition aurp_header :: "domain_header \<Rightarrow> u16 \<Rightarrow> bytes" where
  "aurp_header dh typ =
     encode_di (dh_dst dh) @ encode_di (dh_src dh) @ u16_to_be AURP_VERSION @ [0, 0] @ u16_to_be typ"

fun aurp_encode :: "aurp \<Rightarrow> bytes" where
  "aurp_encode (AData dh ddp) = aurp_header dh TYPE_DATA @ ddp"
| "aurp_encode (ARouting dh conn seq cmd) =
     aurp_header dh TYPE_ROUTING @ u16_to_be conn @ u16_to_be seq
     @ u16_to_be (cmd_code cmd) @ u16_to_be (cmd_flags cmd) @ encode_body cmd"

text \<open>What the encoder can express, command by command.\<close>

fun wf_cmd :: "cmd \<Rightarrow> bool" where
  "wf_cmd (RiReq sui) \<longleftrightarrow> sui AND ALL_SUI = sui"
| "wf_cmd (RiRsp _ tuples) \<longleftrightarrow> (\<forall>t \<in> set tuples. wf_tuple t)"
| "wf_cmd (RiUpd events) \<longleftrightarrow> (\<forall>e \<in> set events. wf_event e)"
| "wf_cmd (ZiRsp extended zones) \<longleftrightarrow>
     (\<forall>z \<in> set zones. wf_name (snd z)) \<and> length (encode_zi_rsp [] extended zones) \<le> 0x8000"
| "wf_cmd (GznReq zone) \<longleftrightarrow> wf_name zone"
| "wf_cmd (GznRsp zone tuples) \<longleftrightarrow> wf_name zone \<and>
     (case tuples of None \<Rightarrow> True | Some ts \<Rightarrow> (\<forall>t \<in> set ts. wf_tuple t) \<and> length ts < 0x8000)"
| "wf_cmd (GdzlRsp _ _ zones) \<longleftrightarrow> (\<forall>z \<in> set zones. wf_name z)"
| "wf_cmd (OpenReq sui _ options) \<longleftrightarrow>
     sui AND ALL_SUI = sui \<and> (\<forall>o' \<in> set options. wf_option o') \<and> length options < 256"
| "wf_cmd (OpenRsp env _ options) \<longleftrightarrow>
     env AND ENV = env \<and> (\<forall>o' \<in> set options. wf_option o') \<and> length options < 256"
| "wf_cmd _ \<longleftrightarrow> True"

definition wf_data :: "bytes \<Rightarrow> bool" where
  "wf_data d \<longleftrightarrow> 13 \<le> length d \<and> unat (u16_from_be (d ! 0 AND 0x03) (d ! 1)) = length d"

fun wf_aurp :: "aurp \<Rightarrow> bool" where
  "wf_aurp (AData _ d) \<longleftrightarrow> wf_data d"
| "wf_aurp (ARouting _ _ _ cmd) \<longleftrightarrow> wf_cmd cmd"

section \<open>Round trips\<close>

lemma event_parse_encode: "wf_event e \<Longrightarrow> parse_event (encode_event e @ rest) = Some (e, rest)"
  by (cases e; cases "ev_tuple e")
     (auto simp: parse_event_def encode_event_def wf_event_def wf_tuple_def get_range_def
        u16_to_be_def bit7_simps Let_def)

lemma event_parse_progress: "parse_event p = Some (e, tail) \<Longrightarrow> length tail < length p"
  by (auto simp: parse_event_def get_at_def get_range_def Let_def split: Option.bind_splits if_splits)

lemma event_parse_wf: "parse_event p = Some (e, tail) \<Longrightarrow> wf_event e"
  by (auto simp: parse_event_def wf_event_def wf_tuple_def get_at_def get_range_def Let_def bit7_simps
           split: Option.bind_splits if_splits)

interpretation event_codec: closed_prefix_codec encode_event parse_event wf_event
  by unfold_locales (auto intro: event_parse_encode event_parse_progress event_parse_wf)

lemma option_item_encode: "wf_option x \<Longrightarrow> option_item (encode_option x @ rest) = Some (x, rest)"
proof -
  assume "wf_option x"
  then have l: "length (snd x) < 255" by (simp add: wf_option_def)
  obtain b :: u8 where b: "b = word_of_nat (1 + length (snd x))" by simp
  have u: "unat b = 1 + length (snd x)" unfolding b by (rule unat_small_u8) (use l in simp)
  show ?thesis
    unfolding encode_option_def option_item_def b [symmetric]
    by (simp add: u get_range_def del: unsigned_of_nat)
qed

lemma option_item_progress: "option_item p = Some (x, tail) \<Longrightarrow> length tail < length p"
  by (auto simp: option_item_def get_at_def get_range_def Let_def split: Option.bind_splits if_splits)

lemma option_item_wf: "option_item p = Some (x, tail) \<Longrightarrow> wf_option x"
proof -
  assume "option_item p = Some (x, tail)"
  then obtain b where "length (snd x) = unat (b :: u8) - 1"
    by (auto simp: option_item_def get_at_def get_range_def Let_def split: Option.bind_splits if_splits)
  then show ?thesis using unat_u8_less [of b] by (simp add: wf_option_def)
qed

interpretation option_codec: closed_prefix_codec encode_option option_item wf_option
  by unfold_locales (auto intro: option_item_encode option_item_progress option_item_wf)

subsection \<open>Zone replies: every name is found again\<close>

lemma zi_tuple_progress: "zi_tuple b p = Some (x, tail) \<Longrightarrow> length tail < length p"
  by (auto simp: zi_tuple_def get_defs Let_def split: Option.bind_splits if_splits
           dest!: pstring_progress)

lemma parse_all_zi_step:
  "rest \<noteq> [] \<Longrightarrow> parse_all (zi_tuple b) rest =
     do { (x, tail) \<leftarrow> zi_tuple b rest; xs \<leftarrow> parse_all (zi_tuple b) tail; Some (x # xs) }"
  by (subst parse_all.simps)
     (auto split: option.split prod.split simp: zi_tuple_progress map_option_case)

text \<open>A reference packs a 15-bit offset under the flag the receiver tests.\<close>

lemma zi_ref_pack:
  assumes "off < (0x8000 :: u16)"
  shows "(off OR 0x8000) AND 0x7fff = off"
    and "ucast (drop_bit 8 (off OR 0x8000)) AND (0x80 :: u8) \<noteq> 0"
proof -
  have "(0x8000 :: u16) = 2 ^ 15" by simp
  then have "bit (0x8000 :: u16) n = bit (2 ^ 15 :: u16) n" for n by (rule arg_cong)
  also have "\<And>n. bit (2 ^ 15 :: u16) n \<longleftrightarrow> n = 15"
    by (auto simp only: bit_exp_iff possible_bit_word) auto
  finally have b: "bit (0x8000 :: u16) n \<longleftrightarrow> n = 15" for n .
  have m: "(w :: u16) AND 0x7fff = take_bit 15 w" for w
    by (simp add: take_bit_eq_mask mask_eq_exp_minus_1)
  from assms have "unat off < 2 ^ 15" by (simp add: word_less_nat_alt)
  then have t: "take_bit 15 off = off"
    by (intro unat_eqI) (simp only: unsigned_take_bit_eq take_bit_nat_eq_self)
  have "take_bit 15 (off OR 0x8000) = take_bit 15 off"
    by (rule bit_word_eqI) (simp only: bit_take_bit_iff bit_or_iff b, auto)
  then show "(off OR 0x8000) AND 0x7fff = off" unfolding m t .
  have "bit (ucast (drop_bit 8 (off OR 0x8000)) AND (0x80 :: u8)) 7"
    by (simp only: bit_and_iff bit_80 bit_unsigned_iff bit_drop_bit_eq comp_def bit_or_iff b) simp
  then show "ucast (drop_bit 8 (off OR 0x8000)) AND (0x80 :: u8) \<noteq> 0"
    by (metis bit_0_eq bot_apply bot_bool_def)
qed

lemma put_pstring_Cons:
  "wf_name s \<Longrightarrow> \<exists>b bs. put_pstring s = b # bs \<and> b AND 0x80 = 0"
proof -
  assume "wf_name s"
  then have l: "length s \<le> 32" by (simp add: wf_name_def)
  obtain b :: u8 where b: "b = word_of_nat (length s)" by simp
  have "unat b = length s" unfolding b by (rule unat_small_u8) (use l in simp)
  with l have "b < 0x80" by (simp add: word_less_nat_alt)
  then have "b AND 0x80 = 0" by (simp only: and_80_0_iff)
  moreover have "put_pstring s = b # map ucast s"
    using l by (simp add: put_pstring_def Let_def b)
  ultimately show ?thesis by blast
qed

lemma zi_tuple_name:
  assumes "wf_name name"
  shows "zi_tuple b (u16_to_be net @ put_pstring name @ rest) = Some ((net, name), rest)"
proof -
  obtain c cs where c: "put_pstring name = c # cs" "c AND 0x80 = 0"
    using put_pstring_Cons [OF assms] by blast
  have p: "pstring (c # cs @ rest) = Some (name, rest)"
    using pstr.dec_enc [OF assms, of rest] unfolding c by simp
  have "zi_tuple b (u16_to_be net @ c # cs @ rest) = Some ((net, name), rest)"
    by (simp add: zi_tuple_def get_to_def u16_to_be_def p c(2) del: word_of_nat_eq_0_iff)
  then show ?thesis unfolding c by simp
qed

lemma zi_tuple_ref:
  assumes off: "off < 0x8000" and at: "get_from b (ZONE_BASE + unat off) = Some (put_pstring name @ post)"
    and name: "wf_name name"
  shows "zi_tuple b (u16_to_be net @ u16_to_be (off OR 0x8000) @ rest) = Some ((net, name), rest)"
proof -
  obtain c cs where c: "put_pstring name = c # cs" "c AND 0x80 = 0"
    using put_pstring_Cons [OF name] by blast
  have p: "pstring (c # cs @ post) = Some (name, post)"
    using pstr.dec_enc [OF name, of post] unfolding c by simp
  obtain w where w: "w = off OR 0x8000" by simp
  have w': "w AND 0x7fff = off" "ucast (drop_bit 8 w) AND (0x80 :: u8) \<noteq> 0"
    unfolding w using off by (rule zi_ref_pack)+
  have at': "get_from b (ZONE_BASE + unat off) = Some (c # cs @ post)"
    using at unfolding c by simp
  show ?thesis
    unfolding w [symmetric]
    using w'(2) c(2)
    by (simp add: zi_tuple_def get_to_def get_at_def u16_to_be_def Let_def w'(1) at' p
             del: word_of_nat_eq_0_iff)
qed

text \<open>What the loop maintains: every offset in \<open>seen\<close> leads to its name in the buffer.\<close>

definition zi_seen :: "bytes \<Rightarrow> (rstring \<rightharpoonup> u16) \<Rightarrow> bool" where
  "zi_seen out seen \<longleftrightarrow>
     (\<forall>name off. seen name = Some off \<longrightarrow>
        off < 0x8000 \<and> wf_name name \<and>
        (\<exists>pre post. out = pre @ put_pstring name @ post \<and> length pre = ZONE_BASE + unat off))"

lemma zi_seen_append: "zi_seen out seen \<Longrightarrow> zi_seen (out @ ext) seen"
  unfolding zi_seen_def by (metis append.assoc)

lemma zi_seen_add:
  assumes seen: "zi_seen out seen" and name: "wf_name name" and off: "off < 0x8000"
    and at: "length (out @ mid) = ZONE_BASE + unat off"
  shows "zi_seen ((out @ mid) @ put_pstring name) (seen(name \<mapsto> off))"
  unfolding zi_seen_def
proof (intro allI impI)
  fix n w assume nw: "(seen(name \<mapsto> off)) n = Some w"
  let ?out = "(out @ mid) @ put_pstring name"
  show "w < 0x8000 \<and> wf_name n \<and>
    (\<exists>pre post. ?out = pre @ put_pstring n @ post \<and> length pre = ZONE_BASE + unat w)"
  proof (cases "n = name")
    case True
    have "?out = (out @ mid) @ put_pstring name @ []" by simp
    with True nw name off at show ?thesis by (metis fun_upd_same option.inject)
  next
    case False
    with nw have "seen n = Some w" by simp
    with zi_seen_append [OF seen, of "mid @ put_pstring name"] show ?thesis
      unfolding zi_seen_def append_assoc by blast
  qed
qed

lemma zi_seen_get:
  assumes "zi_seen out seen" "seen name = Some off"
  obtains post where "get_from (out @ ext) (ZONE_BASE + unat off) = Some (put_pstring name @ post)"
    and "off < 0x8000" and "wf_name name"
proof -
  from assms obtain pre post where "out = pre @ put_pstring name @ post" "length pre = ZONE_BASE + unat off"
    "off < 0x8000" "wf_name name"
    unfolding zi_seen_def by blast
  then show ?thesis by (intro that [of "post @ ext"]) (simp_all add: get_from_def)
qed

lemma zi_rsp_loop_prefix: "\<exists>tail. zi_rsp_loop base out seen zones = out @ tail"
proof (induction zones arbitrary: out seen)
  case (Cons z zones)
  obtain net name where z: "z = (net, name)" by (cases z)
  define w where "w = (case seen name of Some off \<Rightarrow> u16_to_be (off OR 0x8000) | None \<Rightarrow> put_pstring name)"
  obtain seen' where "zi_rsp_loop base out seen (z # zones)
      = zi_rsp_loop base (out @ u16_to_be net @ w) seen' zones"
    by (cases "seen name") (auto simp: z w_def Let_def)
  with Cons.IH [of "out @ u16_to_be net @ w" seen'] show ?case by auto
qed simp

lemma zi_rsp_loop_parse:
  assumes "zi_seen out seen" "\<forall>z \<in> set zones. wf_name (snd z)" "ZONE_BASE \<le> length out + 2"
    and "length (zi_rsp_loop ZONE_BASE out seen zones) \<le> 0x8000"
  shows "\<exists>tail. zi_rsp_loop ZONE_BASE out seen zones = out @ tail
           \<and> parse_all (zi_tuple (out @ tail)) tail = Some zones"
  using assms
proof (induction zones arbitrary: out seen)
  case Nil
  then show ?case by simp
next
  case (Cons z zones)
  obtain net name where z: "z = (net, name)" by (cases z)
  let ?mid = "out @ u16_to_be net"
  from Cons.prems(2) z have name: "wf_name name" by simp
  show ?case
  proof (cases "seen name")
    case (Some off)
    let ?out = "?mid @ u16_to_be (off OR 0x8000)"
    have loop: "zi_rsp_loop ZONE_BASE out seen (z # zones) = zi_rsp_loop ZONE_BASE ?out seen zones"
      by (simp add: z Some)
    have "zi_seen ?out seen"
      using zi_seen_append [OF Cons.prems(1), of "u16_to_be net @ u16_to_be (off OR 0x8000)"] by simp
    from Cons.IH [OF this] Cons.prems(2-4) loop obtain tail where
      t: "zi_rsp_loop ZONE_BASE ?out seen zones = ?out @ tail"
        "parse_all (zi_tuple (?out @ tail)) tail = Some zones" by auto
    let ?tail = "u16_to_be net @ u16_to_be (off OR 0x8000) @ tail"
    obtain post where p: "get_from (out @ ?tail) (ZONE_BASE + unat off) = Some (put_pstring name @ post)"
      "off < 0x8000"
      using zi_seen_get [OF Cons.prems(1) Some] by blast
    have "parse_all (zi_tuple (out @ ?tail)) ?tail = Some (z # zones)"
      using t(2) zi_tuple_ref [OF p(2,1) name, of net tail]
      by (subst parse_all_zi_step) (simp_all add: z)
    with loop t(1) show ?thesis by auto
  next
    case None
    let ?out = "?mid @ put_pstring name"
    obtain off :: u16 where off': "off = word_of_nat (length ?mid - ZONE_BASE)" by simp
    obtain seen' where seen': "seen' = seen(name \<mapsto> off)" by simp
    have loop: "zi_rsp_loop ZONE_BASE out seen (z # zones) = zi_rsp_loop ZONE_BASE ?out seen' zones"
      by (simp only: z zi_rsp_loop.simps Let_def None option.case seen' off' append_assoc)
    obtain ext where "zi_rsp_loop ZONE_BASE ?out seen' zones = ?out @ ext"
      using zi_rsp_loop_prefix by blast
    with Cons.prems(4) loop have len: "length ?mid - ZONE_BASE < 0x8000"
      by (simp add: ZONE_BASE_def)
    then have u: "unat off = length ?mid - ZONE_BASE"
      unfolding off' by (intro unat_small_u16) simp
    have off: "off < 0x8000"
      unfolding word_less_nat_alt u using len by simp
    have "zi_seen ?out seen'"
      unfolding seen'
      by (rule zi_seen_add [OF Cons.prems(1) name off]) (use u Cons.prems(3) in simp)
    from Cons.IH [OF this] Cons.prems(2-4) loop obtain tail where
      t: "zi_rsp_loop ZONE_BASE ?out seen' zones = ?out @ tail"
        "parse_all (zi_tuple (?out @ tail)) tail = Some zones" by auto
    let ?tail = "u16_to_be net @ put_pstring name @ tail"
    have "parse_all (zi_tuple (out @ ?tail)) ?tail = Some (z # zones)"
      using t(2) zi_tuple_name [OF name, of "out @ ?tail" net tail]
      by (subst parse_all_zi_step) (simp_all add: z)
    with loop t(1) show ?thesis by auto
  qed
qed

text \<open>Only distances within the buffer matter: the encoder may append to a buffer already in use.\<close>

lemma zi_rsp_loop_shift:
  "zi_rsp_loop (length pre + base) (pre @ out) seen zones = pre @ zi_rsp_loop base out seen zones"
proof (induction zones arbitrary: out seen)
  case (Cons z zones)
  obtain net name where z: "z = (net, name)" by (cases z)
  show ?case
    using Cons.IH [of "out @ u16_to_be net @ put_pstring name"]
      Cons.IH [of "out @ u16_to_be net @ u16_to_be (the (seen name) OR 0x8000)"]
    by (cases "seen name") (simp_all add: z Let_def fun_upd_def cong: if_cong del: of_nat_diff of_nat_add of_nat_Suc)
qed simp

lemma encode_zi_rsp_append:
  "encode_zi_rsp out extended zones = out @ encode_zi_rsp [] extended zones"
  using zi_rsp_loop_shift [of out 6] by (auto simp: encode_zi_rsp_def Let_def add.commute split: option.split)

lemma zi_rsp_parse_encode:
  assumes names: "\<forall>z \<in> set zones. wf_name (snd z)"
    and len: "length (encode_zi_rsp [] extended zones) \<le> 0x8000"
  shows "parse_zi_rsp (if extended = None then 1 else 2) (encode_zi_rsp [] extended zones)
         = Some (ZiRsp extended zones)"
proof -
  define sub :: u16 where "sub = (if extended = None then 1 else 2)"
  define count where "count = (case extended of Some tot \<Rightarrow> tot | None \<Rightarrow> word_of_nat (length zones))"
  let ?out = "u16_to_be sub @ u16_to_be count"
  have enc: "encode_zi_rsp [] extended zones = zi_rsp_loop ZONE_BASE ?out Map.empty zones"
    by (cases extended) (simp_all add: encode_zi_rsp_def sub_def count_def ZONE_BASE_def)
  have "zi_seen ?out Map.empty" by (simp add: zi_seen_def)
  from zi_rsp_loop_parse [OF this names] len obtain tail where
    tail: "encode_zi_rsp [] extended zones = ?out @ tail"
      "parse_all (zi_tuple (?out @ tail)) tail = Some zones"
    unfolding enc by (auto simp: ZONE_BASE_def)
  have "(if sub = 2 then Some count else None) = extended"
    by (cases extended) (simp_all add: sub_def count_def)
  then show ?thesis
    unfolding tail(1) sub_def [symmetric] using tail(2)
    by (simp add: parse_zi_rsp_def get_range_def get_from_def u16_to_be_def then_some_def
             split: if_splits)
qed

section \<open>Whole commands and packets\<close>

lemma options_parse_encode:
  assumes "\<forall>o' \<in> set options. wf_option o'" "length options < 256"
  shows "parse_options (concat (map encode_option options)) (word_of_nat (length options)) = Some options"
proof -
  have "unat (word_of_nat (length options) :: u8) = length options"
    using assms(2) by (rule unat_small_u8)
  then show ?thesis
    by (simp add: parse_options_def option_codec.parse_n_enc_Nil [OF assms(1)] del: unsigned_of_nat)
qed

lemma flag_bits [simp]:
  "LAST AND LAST \<noteq> 0" "SZI AND SZI \<noteq> 0" "LAST \<noteq> 0" "SZI \<noteq> 0"
  "(w AND ALL_SUI) AND ALL_SUI = w AND ALL_SUI" "(w AND ENV) AND ENV = w AND ENV"
  by (simp_all add: LAST_def SZI_def and.assoc)

lemma sub_split: "parse_sub code flags (u16_to_be sub @ rest) =
   (if code = 6 \<and> sub = 1 then
      (if length rest mod 2 \<noteq> 0 then None else Some (ZiReq (be_chunks rest)))
    else if code = 7 \<and> (sub = 1 \<or> sub = 2) then parse_zi_rsp sub (u16_to_be sub @ rest)
    else if code = 6 \<and> sub = 3 then do {
      (zone, tail) \<leftarrow> pstring rest;
      then_some (tail = []) (GznReq zone) }
    else if code = 7 \<and> sub = 3 then do {
      (zone, tail) \<leftarrow> pstring rest;
      h \<leftarrow> get_to tail 2;
      let count = sint (u16_from_be (h ! 0) (h ! 1));
      if count < 0 then then_some (count = -1 \<and> length tail = 2) (GznRsp zone None)
      else do {
        rest \<leftarrow> get_from tail 2;
        (tuples, rest) \<leftarrow> parse_n network_tuple_parse (nat count) rest;
        then_some (rest = []) (GznRsp zone (Some tuples)) } }
    else if code = 6 \<and> sub = 4 then
      (if length rest = 2 then Some (GdzlReq (u16_from_be (rest ! 0) (rest ! 1))) else None)
    else if code = 7 \<and> sub = 4 then do {
      h \<leftarrow> get_to rest 2;
      rest \<leftarrow> get_from rest 2;
      zones \<leftarrow> parse_all pstring rest;
      Some (GdzlRsp (flags AND LAST \<noteq> 0) (u16_from_be (h ! 0) (h ! 1)) zones) }
    else None)"
  by (auto simp: parse_sub_def get_from_def u16_to_be_def)

lemma gzn_rsp_parse_encode:
  assumes "wf_cmd (GznRsp zone tuples)"
  shows "parse_sub 7 flags (encode_body (GznRsp zone tuples)) = Some (GznRsp zone tuples)"
proof (cases tuples)
  case None
  obtain w :: u16 where w: "w = - 1" and s: "sint w = - 1" by simp
  from None assms have "pstring (put_pstring zone @ u16_to_be w) = Some (zone, u16_to_be w)"
    by (intro pstr.dec_enc) simp
  then show ?thesis
    by (simp add: None sub_split get_to_def w [symmetric] s)
next
  case (Some ts)
  with assms have w: "wf_name zone" "\<forall>t \<in> set ts. wf_tuple t" "length ts < 0x8000" by auto
  let ?n = "word_of_nat (length ts) :: u16"
  let ?ts = "concat (map (network_tuple_encode_with 0) ts)"
  have p: "pstring (put_pstring zone @ u16_to_be ?n @ ?ts) = Some (zone, u16_to_be ?n @ ?ts)"
    using w(1) by (rule pstr.dec_enc)
  have s: "sint ?n = int (length ts)"
    by (simp only: signed_of_nat) (use w(3) in \<open>simp add: signed_take_bit_int_eq_self\<close>)
  have "parse_n network_tuple_parse (length ts) ?ts = Some (ts, [])"
    using w(2) by (rule tuple_codec.parse_n_enc_Nil) simp
  then show ?thesis
    using p s by (simp add: Some sub_split get_to_def get_from_def del: of_nat_unat)
qed

lemma sub_parse_encode:
  assumes "wf_cmd c" "cmd_code c = 6 \<or> cmd_code c = 7"
  shows "parse_sub (cmd_code c) (cmd_flags c) (encode_body c) = Some c"
  using assms
proof (cases c)
  case (ZiReq nets)
  then show ?thesis by (simp add: sub_split)
next
  case (ZiRsp extended zones)
  with assms have "parse_zi_rsp (if extended = None then 1 else 2) (encode_zi_rsp [] extended zones)
      = Some (ZiRsp extended zones)"
    by (intro zi_rsp_parse_encode) auto
  moreover obtain rest where
    "encode_zi_rsp [] extended zones = u16_to_be (if extended = None then 1 else 2) @ rest"
    using zi_rsp_loop_prefix [of 6 "u16_to_be (if extended = None then 1 else 2)
        @ u16_to_be (case extended of Some tot \<Rightarrow> tot | None \<Rightarrow> word_of_nat (length zones))" Map.empty zones]
    by (cases extended) (auto simp: encode_zi_rsp_def)
  ultimately show ?thesis by (auto simp: ZiRsp sub_split)
next
  case (GznReq zone)
  with assms have "pstring (put_pstring zone) = Some (zone, [])"
    using pstr.dec_enc [of zone "[]"] by simp
  then show ?thesis by (simp add: GznReq sub_split)
next
  case (GznRsp zone tuples)
  with assms show ?thesis using gzn_rsp_parse_encode [of zone tuples] by simp
next
  case (GdzlReq start)
  then show ?thesis by (simp add: sub_split)
next
  case (GdzlRsp l start zones)
  with assms have "parse_all pstring (concat (map put_pstring zones)) = Some zones"
    by (intro pstr.parse_all_enc) simp
  then show ?thesis by (simp add: GdzlRsp sub_split get_to_def get_from_def)
qed auto

lemma options_body:
  "get_to (u16_to_be w @ encode_options options) 3
     = Some [ucast (drop_bit 8 w), ucast w, word_of_nat (length options)]"
  "get_from (u16_to_be w @ encode_options options) 3 = Some (concat (map encode_option options))"
  by (simp_all add: get_to_def get_from_def encode_options_def u16_to_be_def)

lemma cmd_parse_encode:
  assumes "wf_cmd c"
  shows "cmd_parse (cmd_code c) (cmd_flags c) (encode_body c) = Some c"
proof (cases "cmd_code c = 6 \<or> cmd_code c = 7")
  case True
  then have "cmd_parse (cmd_code c) (cmd_flags c) (encode_body c)
      = parse_sub (cmd_code c) (cmd_flags c) (encode_body c)"
    by (elim disjE) (simp_all add: cmd_parse_def)
  with sub_parse_encode [OF assms True] show ?thesis by simp
next
  case False
  with assms show ?thesis
    by (cases c)
       (simp_all add: cmd_parse_def tuple_codec.parse_all_enc event_codec.parse_all_enc
          options_body options_parse_encode)
qed

lemma aurp_parse_header:
  "aurp_parse (aurp_header dh typ @ body) =
     (if typ = TYPE_DATA then do {
        h \<leftarrow> get_to body 13;
        let len = unat (u16_from_be (h ! 0 AND 0x03) (h ! 1));
        then_some (len = length body) (AData dh body) }
      else if typ = TYPE_ROUTING then do {
        h \<leftarrow> get_to body 8;
        cmd \<leftarrow> cmd_parse (u16_from_be (h ! 4) (h ! 5)) (u16_from_be (h ! 6) (h ! 7)) (drop 8 body);
        Some (ARouting dh (u16_from_be (h ! 0) (h ! 1)) (u16_from_be (h ! 2) (h ! 3)) cmd) }
      else None)"
proof -
  have v: "u16_from_be 0 1 = AURP_VERSION" by (simp add: u16_from_be_def AURP_VERSION_def)
  have "parse_di (aurp_header dh typ @ body) = Some (dh_dst dh, encode_di (dh_src dh) @ [0, 1, 0, 0] @ u16_to_be typ @ body)"
    by (simp add: aurp_header_def parse_di_encode AURP_VERSION_def u16_to_be_def)
  moreover have "parse_di (encode_di (dh_src dh) @ [0, 1, 0, 0] @ u16_to_be typ @ body)
      = Some (dh_src dh, [0, 1, 0, 0] @ u16_to_be typ @ body)"
    by (rule parse_di_encode)
  ultimately show ?thesis
    by (cases dh) (simp add: aurp_parse_def get_to_def v Let_def u16_to_be_def)
qed

lemma aurp_parse_encode: "wf_aurp a \<Longrightarrow> aurp_parse (aurp_encode a) = Some a"
proof (cases a)
  case (AData dh d)
  assume "wf_aurp a"
  then show ?thesis
    by (simp add: AData aurp_parse_header wf_data_def get_to_def)
next
  case (ARouting dh conn seq c)
  assume "wf_aurp a"
  with ARouting have "cmd_parse (cmd_code c) (cmd_flags c) (encode_body c) = Some c"
    by (simp add: cmd_parse_encode)
  then show ?thesis
    by (simp add: ARouting aurp_parse_header TYPE_DATA_def TYPE_ROUTING_def get_to_def u16_to_be_def)
qed

interpretation aurp_codec: packet_codec aurp_encode aurp_parse wf_aurp
  by unfold_locales (rule aurp_parse_encode)

text \<open>A data packet holds exactly one datagram whose length field covers it.\<close>

lemma aurp_parse_data_wf: "aurp_parse p = Some (AData dh d) \<Longrightarrow> wf_data d"
  by (auto simp: aurp_parse_def wf_data_def get_to_def Let_def split: Option.bind_splits if_splits)

text \<open>Bits of the flags word outside a command's own are dropped on receive.\<close>

lemma cmd_parse_reserved: "cmd_parse code flags b = cmd_parse code (flags AND 0xf800) b"
proof -
  have "(flags AND 0xf800) AND ALL_SUI = flags AND ALL_SUI" "(flags AND 0xf800) AND LAST = flags AND LAST"
    "(flags AND 0xf800) AND SZI = flags AND SZI" "(flags AND 0xf800) AND ENV = flags AND ENV"
    by (simp_all add: ALL_SUI_def LAST_def SZI_def ENV_def and.assoc)
  then show ?thesis unfolding cmd_parse_def parse_sub_def by (simp only:)
qed

section \<open>Property\<close>

text \<open>
  Every AURP packet the encoder can express is read back as the same packet: domain header,
  connection, sequence number, command, flags and body, with repeated zone names of a zone reply
  compressed to offsets and found again.
\<close>

theorem aurp_round_trip:
  assumes "wf_aurp a"
  shows "aurp_parse (aurp_encode a) = Some a"
  using assms by (rule aurp_parse_encode)

theorem aurp_round_trip_witness:
  "aurp_parse (aurp_encode
     (ARouting \<lparr>dh_dst = DiIp 0x0A000001, dh_src = DiNull\<rparr> 7 9
        (ZiRsp None [(1, [65, 66]), (2, [67]), (3, [65, 66])])))
   = Some (ARouting \<lparr>dh_dst = DiIp 0x0A000001, dh_src = DiNull\<rparr> 7 9
        (ZiRsp None [(1, [65, 66]), (2, [67]), (3, [65, 66])]))"
  by (rule aurp_round_trip)
     (simp add: wf_name_def latin1_def encode_zi_rsp_def Let_def)

end
