(* ===== verification/Capture.thy ===== *)
theory Capture
  imports Wire_Decode Wire_LLAP Wire_AURP "HOL-Library.Sublist"
begin

text \<open>
  \<open>src/src/capture.rs\<close>: the events the reader threads post, and the loop each of them runs: decode
  what was read, report accumulated drops as soon as there is room, queue the event or count it.
  A reader never blocks, so the lemmas say that what it could not queue is counted, and that the
  count is reported.  \<open>tashtalk::post\<close> is the same code as a function.  Opening an interface is in
  theory Capture_Open, and the other readers are in theory Readers.
\<close>

type_synonym port_id = u8

datatype event =
    EPacket instant port_id packet
  | ELlap port_id llap
  | EAurp "ipv4 \<times> u16" bytes
  | EDropped nat
  | EError rstring

section \<open>The bounded channel\<close>

text \<open>
  \<open>std::sync::mpsc::sync_channel\<close>: \<open>try_send\<close> queues the value, or says that the queue is full or
  that the receiver is gone.
\<close>

datatype send_result = SentOk | Full | Disconnected

record channel =
  ch_cap :: nat
  ch_queue :: "event list"
  ch_open :: bool

definition try_send :: "channel \<Rightarrow> event \<Rightarrow> channel \<times> send_result" where
  "try_send c e =
     (if \<not> ch_open c then (c, Disconnected)
      else if length (ch_queue c) < ch_cap c then (c\<lparr>ch_queue := ch_queue c @ [e]\<rparr>, SentOk)
      else (c, Full))"

text \<open>The result is the channel, the drop count, and False once the receiver is gone.\<close>

definition post :: "channel \<Rightarrow> event \<Rightarrow> nat \<Rightarrow> channel \<times> nat \<times> bool" where
  "post tx event dropped =
     (let (tx, dropped) =
            (if dropped > 0 then
               (case try_send tx (EDropped dropped) of
                  (tx', SentOk) \<Rightarrow> (tx', 0)
                | _ \<Rightarrow> (tx, dropped))
             else (tx, dropped))
      in case try_send tx event of
           (tx', SentOk) \<Rightarrow> (tx', dropped, True)
         | (_, Full) \<Rightarrow> (tx, dropped + 1, True)
         | (_, Disconnected) \<Rightarrow> (tx, dropped, False))"

text \<open>One turn of \<open>capture_loop\<close>: the outcome of a read, and the time it was stamped with.\<close>

definition capture_turn ::
    "port_id \<Rightarrow> instant \<Rightarrow> (rstring + bytes) \<Rightarrow> channel \<Rightarrow> nat \<Rightarrow> channel \<times> nat \<times> bool" where
  "capture_turn port at read tx dropped =
     (case read of
        Inr bs \<Rightarrow>
          (case decode bs of
             Some p \<Rightarrow> post tx (EPacket at port p) dropped
           | None \<Rightarrow> (tx, dropped, True))
      | Inl err \<Rightarrow> post tx (EError err) dropped)"

section \<open>A gap is never silent\<close>

text \<open>
  What a producer and a consumer of one channel do: \<open>offered\<close> is everything the producer posted,
  \<open>taken\<close> everything the consumer has received, both in order.
\<close>

record link =
  lk_chan :: channel
  lk_dropped :: nat
  lk_offered :: "event list"
  lk_taken :: "event list"

fun is_report :: "event \<Rightarrow> bool" where
  "is_report (EDropped _) = True"
| "is_report _ = False"

fun reported :: "event \<Rightarrow> nat" where
  "reported (EDropped n) = n"
| "reported _ = 0"

lemma reported_0 [simp]: "\<not> is_report e \<Longrightarrow> reported e = 0"
  by (cases e) simp_all

inductive link_step :: "link \<Rightarrow> link \<Rightarrow> bool" where
  post: "\<not> is_report e \<Longrightarrow> post (lk_chan k) e (lk_dropped k) = (c, d, True) \<Longrightarrow>
    link_step k (k\<lparr>lk_chan := c, lk_dropped := d, lk_offered := lk_offered k @ [e]\<rparr>)"
| recv: "ch_queue (lk_chan k) = e # q \<Longrightarrow>
    link_step k (k\<lparr>lk_chan := (lk_chan k)\<lparr>ch_queue := q\<rparr>, lk_taken := lk_taken k @ [e]\<rparr>)"

inductive link_reachable :: "nat \<Rightarrow> link \<Rightarrow> bool" for cap where
  init: "link_reachable cap \<lparr>lk_chan = \<lparr>ch_cap = cap, ch_queue = [], ch_open = True\<rparr>,
                            lk_dropped = 0, lk_offered = [], lk_taken = []\<rparr>"
| step: "link_reachable cap k \<Longrightarrow> link_step k k' \<Longrightarrow> link_reachable cap k'"

definition through :: "link \<Rightarrow> event list" where
  "through k = lk_taken k @ ch_queue (lk_chan k)"

definition link_ok :: "link \<Rightarrow> bool" where
  "link_ok k \<longleftrightarrow>
     length (lk_offered k) = length (filter (\<lambda>e. \<not> is_report e) (through k))
                              + sum_list (map reported (through k)) + lk_dropped k
     \<and> subseq (filter (\<lambda>e. \<not> is_report e) (through k)) (lk_offered k)
     \<and> length (ch_queue (lk_chan k)) \<le> ch_cap (lk_chan k)"

lemma post_cases:
  assumes "post c e d = (c', d', True)"
  obtains
    (queued) "c' = c\<lparr>ch_queue := ch_queue c @ [e]\<rparr>" "d = 0" "d' = 0" "length (ch_queue c) < ch_cap c"
  | (reported) "c' = c\<lparr>ch_queue := ch_queue c @ [EDropped d, e]\<rparr>" "d' = 0"
      "Suc (length (ch_queue c)) < ch_cap c"
  | (half) "c' = c\<lparr>ch_queue := ch_queue c @ [EDropped d]\<rparr>" "d' = 1" "length (ch_queue c) < ch_cap c"
  | (counted) "c' = c" "d' = d + 1"
  using assms
  by (auto simp: post_def try_send_def Let_def split: if_splits prod.splits send_result.splits)

lemma subseq_snoc: "subseq (xs @ ys) zs \<Longrightarrow> subseq (xs @ ys @ [e]) (zs @ [e])"
  using list_emb_append_mono [of "(=)" "xs @ ys" zs "[e]" "[e]"] by simp

lemma link_ok_step:
  assumes "link_step k k'" "link_ok k" shows "link_ok k'"
  using assms(1)
proof cases
  case (post e c d)
  from post(3) show ?thesis
  proof (cases rule: post_cases)
    case queued
    with post assms(2) show ?thesis
      by (auto simp: link_ok_def through_def intro: subseq_snoc)
  next
    case reported
    with post assms(2) show ?thesis
      by (auto simp: link_ok_def through_def intro: subseq_snoc)
  next
    case half
    with post assms(2) show ?thesis
      by (auto simp: link_ok_def through_def intro: list_emb_append2)
  next
    case counted
    with post assms(2) show ?thesis
      by (auto simp: link_ok_def through_def intro: list_emb_append2)
  qed
next
  case (recv e q)
  with assms(2) show ?thesis
    by (auto simp: link_ok_def through_def)
qed

lemma link_reachable_ok: "link_reachable cap k \<Longrightarrow> link_ok k"
proof (induction rule: link_reachable.induct)
  case init
  show ?case by (simp add: link_ok_def through_def)
next
  case (step k k')
  then show ?case by (blast intro: link_ok_step)
qed

text \<open>A frame that is not AppleTalk never reaches the queue.\<close>

lemma capture_turn_foreign:
  "decode bs = None \<Longrightarrow> capture_turn port at (Inr bs) tx dropped = (tx, dropped, True)"
  by (simp add: capture_turn_def)

section \<open>Property\<close>

text \<open>
  However posting and receiving interleave on one event channel, a gap is never silent: every event a
  reader thread offered was queued, or is counted in a Dropped report that was queued, or is in the
  count still to be reported; what was queued keeps the order in which it was offered, and the
  queue never exceeds its capacity.
\<close>

theorem gap_never_silent:
  assumes "link_reachable cap k"
  shows "length (lk_offered k) = length (filter (\<lambda>e. \<not> is_report e) (through k))
           + sum_list (map reported (through k)) + lk_dropped k
    \<and> subseq (filter (\<lambda>e. \<not> is_report e) (through k)) (lk_offered k)
    \<and> length (ch_queue (lk_chan k)) \<le> ch_cap (lk_chan k)"
  using link_reachable_ok [OF assms] by (simp only: link_ok_def)

text \<open>Two errors offered to a queue of one: the first is queued, the second counted.\<close>

lemma two_offers:
  "link_reachable 1 \<lparr>lk_chan = \<lparr>ch_cap = 1, ch_queue = [EError [65]], ch_open = True\<rparr>,
     lk_dropped = 1, lk_offered = [EError [65], EError [66]], lk_taken = []\<rparr>"
proof -
  let ?k = "\<lambda>q d os. \<lparr>lk_chan = \<lparr>ch_cap = 1, ch_queue = q, ch_open = True\<rparr>,
     lk_dropped = d, lk_offered = os, lk_taken = []\<rparr>"
  have a: "link_step (?k [] 0 []) (?k [EError [65]] 0 [EError [65]])"
    using link_step.post [of "EError [65]" "?k [] 0 []"] by (simp add: post_def try_send_def)
  have b: "link_step (?k [EError [65]] 0 [EError [65]]) (?k [EError [65]] 1 [EError [65], EError [66]])"
    using link_step.post [of "EError [66]" "?k [EError [65]] 0 [EError [65]]"]
    by (simp add: post_def try_send_def)
  show ?thesis by (rule link_reachable.step [OF link_reachable.step [OF link_reachable.init a] b])
qed

theorem gap_never_silent_witness:
  "\<exists>k. link_reachable 1 k \<and> lk_dropped k = 1 \<and> length (lk_offered k) = 2
     \<and> length (lk_offered k) = length (filter (\<lambda>e. \<not> is_report e) (through k))
           + sum_list (map reported (through k)) + lk_dropped k"
  using two_offers gap_never_silent [OF two_offers] by (intro exI conjI) auto

end
