(* ===== verification/Capture_Open.thy ===== *)
theory Capture_Open
  imports Capture
begin

text \<open>
  The rest of \<open>src/src/capture.rs\<close>: which interface is opened, the run of a reader thread, and the
  transmit half.  The interfaces the system lists and the outcome of opening a channel on one are
  parameters.  The lemma says which interface comes out.
\<close>

section \<open>Opening an interface\<close>

datatype open_error = NoInterface "rstring option" | NotEthernet | ChannelFailed rstring rstring | NoMacAddress rstring

datatype ip_addr = V4 ipv4 | V6 bytes

record iface =
  if_name :: rstring
  if_up :: bool
  if_loopback :: bool
  if_mac :: "macaddr option"
  if_ips :: "ip_addr list"

text \<open>What \<open>datalink::channel\<close> says of an interface.\<close>

datatype channel_outcome = Ethernet | OtherChannel | ChannelError rstring

definition iface_wanted :: "rstring option \<Rightarrow> iface \<Rightarrow> bool" where
  "iface_wanted want i =
     (case want of
        Some n \<Rightarrow> if_name i = n
      | None \<Rightarrow> if_up i \<and> \<not> if_loopback i \<and> if_mac i \<noteq> None)"

fun first_v4 :: "ip_addr list \<Rightarrow> ipv4 option" where
  "first_v4 [] = None"
| "first_v4 (V4 a # _) = Some a"
| "first_v4 (V6 _ # ips) = first_v4 ips"

definition open_nic ::
    "iface list \<Rightarrow> (iface \<Rightarrow> channel_outcome) \<Rightarrow> rstring option
     \<Rightarrow> open_error + rstring \<times> ipv4 option \<times> macaddr" where
  "open_nic ifaces chan want =
     (case find (iface_wanted want) ifaces of
        None \<Rightarrow> Inl (NoInterface want)
      | Some i \<Rightarrow>
          (case chan i of
             OtherChannel \<Rightarrow> Inl NotEthernet
           | ChannelError err \<Rightarrow> Inl (ChannelFailed (if_name i) err)
           | Ethernet \<Rightarrow>
               (case if_mac i of
                  None \<Rightarrow> Inl (NoMacAddress (if_name i))
                | Some m \<Rightarrow> Inr (if_name i, first_v4 (if_ips i), m))))"

section \<open>The reader and the transmit half\<close>

text \<open>The reads of a reader thread, one after the other, until the receiver is gone.\<close>

fun capture_loop ::
    "port_id \<Rightarrow> (instant \<times> (rstring + bytes)) list \<Rightarrow> channel \<Rightarrow> nat \<Rightarrow> channel \<times> nat" where
  "capture_loop port [] tx dropped = (tx, dropped)"
| "capture_loop port ((at, read) # reads) tx dropped =
     (case capture_turn port at read tx dropped of
        (tx, dropped, True) \<Rightarrow> capture_loop port reads tx dropped
      | (tx, dropped, False) \<Rightarrow> (tx, dropped))"

text \<open>\<open>Tx::send\<close>: what the NIC says to the bytes, or that they do not fit its buffer.\<close>

definition nic_send :: "(bytes \<Rightarrow> (rstring option) option) \<Rightarrow> frame \<Rightarrow> rstring option" where
  "nic_send nic f =
     (case nic (frame_encode f) of Some r \<Rightarrow> r | None \<Rightarrow> Some (lit ''frame too large to send''))"

text \<open>Without a name, the interface opened is the first that is up, not a loopback and has a MAC address.\<close>

lemma find_split: "find P xs = Some x \<Longrightarrow> \<exists>ys zs. xs = ys @ x # zs \<and> P x \<and> (\<forall>y \<in> set ys. \<not> P y)"
proof (induction xs)
  case (Cons a xs)
  show ?case
  proof (cases "P a")
    case True
    with Cons.prems have "x = a" by simp
    with True show ?thesis by (intro exI [of _ "[]"] exI [of _ xs]) simp
  next
    case False
    with Cons obtain ys zs where "xs = ys @ x # zs" "P x" "\<forall>y \<in> set ys. \<not> P y" by auto
    with False show ?thesis by (intro exI [of _ "a # ys"] exI [of _ zs]) simp
  qed
qed simp

lemma open_nic_default:
  assumes "open_nic ifaces chan None = Inr (name, ip, m)"
  shows "\<exists>before i after. ifaces = before @ i # after \<and> if_up i \<and> \<not> if_loopback i \<and> if_mac i = Some m
    \<and> if_name i = name \<and> chan i = Ethernet \<and> (\<forall>j \<in> set before. \<not> if_up j \<or> if_loopback j \<or> if_mac j = None)"
proof -
  obtain i where f: "find (iface_wanted None) ifaces = Some i" and i: "chan i = Ethernet" "if_mac i = Some m" "if_name i = name"
    using assms by (auto simp: open_nic_def split: option.splits channel_outcome.splits)
  from find_split [OF f] i show ?thesis by (fastforce simp: iface_wanted_def)
qed

end
