(* ===== verification/Tashtalk.thy ===== *)
theory Tashtalk
  imports Wire_LLAP
begin

text \<open>
  \<open>src/src/tashtalk.rs\<close>: the frame check sequence, the commands sent to the firmware, and the decoder
  of its escaped byte stream.  The lemmas show that the residue test accepts exactly a frame followed
  by its own check sequence, that any single corrupted byte is caught, and that the decoder hands over
  exactly the frames that were sent.  The serial port itself is not modelled.
\<close>

definition MAX_FRAME :: nat where "MAX_FRAME = 605"

section \<open>The frame check sequence\<close>

definition crc_step :: "u16 \<Rightarrow> u16" where
  "crc_step crc = (if crc AND 1 \<noteq> 0 then drop_bit 1 crc XOR 0x8408 else drop_bit 1 crc)"

definition crc_update :: "u16 \<Rightarrow> u8 \<Rightarrow> u16" where
  "crc_update crc byte = (crc_step ^^ 8) (crc XOR ucast byte)"

definition crc :: "bytes \<Rightarrow> u16" where
  "crc frame = fold (\<lambda>b c. crc_update c b) frame 0xffff"

definition fcs :: "bytes \<Rightarrow> bytes" where
  "fcs frame =
     (let c = crc frame in [ucast (c AND 0xff) XOR 0xff, ucast (drop_bit 8 c) XOR 0xff])"

definition fcs_residue_ok :: "bytes \<Rightarrow> bool" where
  "fcs_residue_ok frame_with_fcs \<longleftrightarrow> crc frame_with_fcs = 0xf0b8"

section \<open>Commands to the firmware\<close>

definition node_command :: "u8 option \<Rightarrow> bytes" where
  "node_command node =
     (let out = (replicate 33 0)[0 := 0x02]
      in case node of
           Some n \<Rightarrow> out[1 + unat n div 8 := push_bit (unat n mod 8) 1]
         | None \<Rightarrow> out)"

definition init_sequence :: bytes where
  "init_sequence = replicate 1024 0 @ node_command None @ [0x03, 0x00]"

definition frame_command :: "llap \<Rightarrow> bytes" where
  "frame_command l = (let frame = llap_encode l in [0x01] @ frame @ fcs frame)"

section \<open>The decoder\<close>

record decoder =
  dc_buf :: bytes
  dc_escaped :: bool

definition decoder_new :: decoder where
  "decoder_new = \<lparr>dc_buf = [], dc_escaped = False\<rparr>"

definition dc_push :: "u8 \<Rightarrow> decoder \<Rightarrow> decoder" where
  "dc_push b d = (if length (dc_buf d) < MAX_FRAME then d\<lparr>dc_buf := dc_buf d @ [b]\<rparr> else d)"

definition feed :: "u8 \<Rightarrow> decoder \<Rightarrow> decoder \<times> llap option" where
  "feed byte d =
     (if \<not> dc_escaped d then
        (if byte = 0x00 then (d\<lparr>dc_escaped := True\<rparr>, None) else (dc_push byte d, None))
      else
        let d = d\<lparr>dc_escaped := False\<rparr> in
        if byte = 0xff then (dc_push 0 d, None)
        else
          let n = length (dc_buf d);
              frame =
                (if byte = 0xfd then
                   (if n \<ge> 5 \<and> fcs_residue_ok (dc_buf d) then llap_parse (take (n - 2) (dc_buf d))
                    else None)
                 else None)
          in (d\<lparr>dc_buf := []\<rparr>, frame))"

text \<open>The reader's inner loop: every byte of a read, in order, and the frames it posts.\<close>

fun feed_all :: "bytes \<Rightarrow> decoder \<Rightarrow> decoder \<times> llap list" where
  "feed_all [] d = (d, [])"
| "feed_all (b # bs) d =
     (let (d, f) = feed b d; (d, fs) = feed_all bs d
      in (d, (case f of Some l \<Rightarrow> [l] | None \<Rightarrow> []) @ fs))"

text \<open>What the firmware does to a good frame: escape its zeros, then end it.\<close>

definition escape :: "bytes \<Rightarrow> bytes" where
  "escape bs = concat (map (\<lambda>b. if b = 0 then [0x00, 0xff] else [b]) bs)"

definition END_GOOD :: bytes where "END_GOOD = [0x00, 0xfd]"

section \<open>The register is linear and loses nothing\<close>

lemma crc_step_bit: "crc_step w = drop_bit 1 w XOR (if bit w 0 then 0x8408 else 0)"
  by (simp add: crc_step_def and_one_eq bit_0 odd_iff_mod_2_eq_one)

lemma crc_step_xor: "crc_step (v XOR w) = crc_step v XOR crc_step w"
  by (auto simp: crc_step_bit drop_bit_xor bit_xor_iff ac_simps)

lemma crc_steps_xor: "(crc_step ^^ n) (v XOR w) = (crc_step ^^ n) v XOR (crc_step ^^ n) w"
  by (induction n) (simp_all add: crc_step_xor)

lemma xor_cancel: "(a :: u16) XOR c = b XOR c \<longleftrightarrow> a = b"
proof
  assume "a XOR c = b XOR c"
  then have "(a XOR c) XOR c = (b XOR c) XOR c" by simp
  then show "a = b" by (simp only: xor.assoc xor_self_eq xor.right_neutral)
qed simp

lemma crc_step_top: "bit (crc_step w) 15 = bit w 0"
  using bit_imp_le_length [of w 16] by (auto simp: crc_step_bit bit_xor_iff bit_drop_bit_eq)

lemma crc_step_inj: "crc_step v = crc_step w \<Longrightarrow> v = w"
proof -
  assume eq: "crc_step v = crc_step w"
  then have low: "bit v 0 = bit w 0" using crc_step_top by metis
  with eq have "drop_bit 1 v = drop_bit 1 w" by (simp only: crc_step_bit xor_cancel)
  then have high: "bit v (Suc n) = bit w (Suc n)" for n
    by (metis bit_drop_bit_eq comp_apply plus_1_eq_Suc)
  show ?thesis
    by (rule bit_word_eqI) (metis low high not0_implies_Suc)
qed

lemma crc_steps_inj: "(crc_step ^^ n) v = (crc_step ^^ n) w \<Longrightarrow> v = w"
  by (induction n arbitrary: v w) (auto dest: crc_step_inj)

lemma crc_steps_shift: "take_bit n w = 0 \<Longrightarrow> (crc_step ^^ n) w = drop_bit n w"
proof (induction n)
  case (Suc n)
  have b: "\<not> bit w k" if "k < Suc n" for k
    using Suc.prems that by (metis bit_0_eq bit_take_bit_iff bot_apply bot_bool_def)
  then have "take_bit n w = 0" by (intro bit_eqI) (auto simp: bit_take_bit_iff)
  moreover have "\<not> bit (drop_bit n w) 0" using b [of n] by (simp add: bit_drop_bit_eq)
  ultimately show ?case using Suc.IH by (simp add: crc_step_bit drop_bit_Suc [symmetric] del: bit_0)
qed simp

section \<open>The residue accepts exactly the check sequence\<close>

lemma crc_append: "crc (p @ q) = fold (\<lambda>b c. crc_update c b) q (crc p)"
  by (simp add: crc_def)

lemma crc_steps_8: "(crc_step ^^ 8) w =
    crc_step (crc_step (crc_step (crc_step (crc_step (crc_step (crc_step (crc_step w)))))))"
  by (simp add: numeral_eq_Suc)

definition crc_ff :: u16 where "crc_ff = (crc_step ^^ 8) 0xff"

lemma crc_ff_value: "crc_ff = 0x0f78"
  unfolding crc_ff_def crc_steps_8 by (simp add: crc_step_def)

text \<open>The two bytes of the check sequence, one after the other.\<close>

lemma fcs_low_byte: "crc_update c (ucast (c AND 0xff) XOR 0xff) = drop_bit 8 c XOR crc_ff"
proof -
  have "c XOR ucast (ucast (c AND 0xff) XOR (0xff :: u8)) = push_bit 8 (drop_bit 8 c) XOR 0xff"
  proof (rule bit_word_eqI)
    fix n assume n: "n < LENGTH(16)"
    have m: "(0xff :: 16 word) = mask 8" "(0xff :: 8 word) = mask 8"
      by (simp_all add: mask_eq_exp_minus_1)
    show "bit (c XOR ucast (ucast (c AND 0xff) XOR (0xff :: u8))) n
        = bit (push_bit 8 (drop_bit 8 c) XOR 0xff) n"
      unfolding m by (use n in \<open>auto simp: bit_simps\<close>)
  qed
  then have "crc_update c (ucast (c AND 0xff) XOR 0xff)
      = (crc_step ^^ 8) (push_bit 8 (drop_bit 8 c)) XOR crc_ff"
    by (simp only: crc_update_def crc_steps_xor crc_ff_def)
  also have "take_bit 8 (push_bit 8 (drop_bit 8 c)) = 0"
    by (rule bit_word_eqI) (auto simp: bit_simps)
  then have "(crc_step ^^ 8) (push_bit 8 (drop_bit 8 c)) = drop_bit 8 (push_bit 8 (drop_bit 8 c))"
    by (rule crc_steps_shift)
  also have "drop_bit 8 (push_bit 8 (drop_bit 8 c)) = drop_bit 8 c"
    by (rule bit_word_eqI) (auto simp: bit_simps dest: bit_imp_le_length)
  finally show ?thesis .
qed

lemma fcs_high_byte: "crc_update (drop_bit 8 c XOR crc_ff) (ucast (drop_bit 8 c) XOR 0xff) = 0xf0b8"
proof -
  have "(drop_bit 8 c XOR crc_ff) XOR ucast (ucast (drop_bit 8 c) XOR (0xff :: u8)) = crc_ff XOR 0xff"
  proof (rule bit_word_eqI)
    fix n assume n: "n < LENGTH(16)"
    have m: "(0xff :: 16 word) = mask 8" "(0xff :: 8 word) = mask 8"
      by (simp_all add: mask_eq_exp_minus_1)
    show "bit ((drop_bit 8 c XOR crc_ff) XOR ucast (ucast (drop_bit 8 c) XOR (0xff :: u8))) n
        = bit (crc_ff XOR 0xff) n"
      unfolding m by (use n in \<open>auto simp: bit_simps dest: bit_imp_le_length\<close>)
  qed
  then have "crc_update (drop_bit 8 c XOR crc_ff) (ucast (drop_bit 8 c) XOR 0xff)
      = (crc_step ^^ 8) (crc_ff XOR 0xff)"
    by (simp only: crc_update_def)
  also have "\<dots> = 0xf0b8" unfolding crc_ff_value crc_steps_8 by (simp add: crc_step_def)
  finally show ?thesis .
qed

lemma fcs_accepted: "fcs_residue_ok (p @ fcs p)"
  by (simp only: fcs_residue_ok_def crc_append fcs_def Let_def fold_simps fcs_low_byte fcs_high_byte)

lemma crc_update_inj_crc: "crc_update c b = crc_update d b \<Longrightarrow> c = d"
  by (auto simp: crc_update_def xor_cancel dest!: crc_steps_inj)

text \<open>A byte that leaves the high half of the register clear is zero.\<close>

lemma crc_high_byte:
  assumes "drop_bit 8 ((crc_step ^^ 8) (ucast (x :: u8))) = 0"
  shows "x = 0"
proof -
  let ?y = "(crc_step ^^ 8) (ucast x)"
  have y: "n < 8" if "bit ?y n" for n
  proof (rule ccontr)
    assume "\<not> n < 8"
    then have "bit ?y n = bit (drop_bit 8 ?y) (n - 8)" by (simp add: bit_drop_bit_eq)
    with that show False by (simp only: assms) simp
  qed
  have "take_bit 8 (push_bit 8 ?y) = 0" by (rule bit_word_eqI) (auto simp: bit_simps)
  then have "(crc_step ^^ 8) (push_bit 8 ?y) = drop_bit 8 (push_bit 8 ?y)" by (rule crc_steps_shift)
  also have "\<dots> = ?y"
    by (rule bit_word_eqI) (auto simp: bit_simps dest: y)
  finally have eq: "ucast x = push_bit 8 ?y" by (auto dest: crc_steps_inj)
  show "x = 0"
  proof (rule bit_word_eqI)
    fix n assume n: "n < LENGTH(8)"
    have "bit x n = bit (ucast x :: u16) n" using n by (simp add: bit_simps)
    also have "\<dots> = bit (push_bit 8 ?y) n" by (rule arg_cong [OF eq])
    also have "\<dots> = False" using n by (simp add: bit_push_bit_iff)
    finally show "bit x n = bit 0 n" by simp
  qed
qed

lemma crc_update_pair_inj:
  assumes "crc_update (crc_update c a) b = crc_update (crc_update c a') b'"
  shows "a = a' \<and> b = b'"
proof -
  from assms have eq: "crc_update c a XOR ucast b = crc_update c a' XOR ucast b'"
    by (auto simp: crc_update_def [of "crc_update c _"] dest: crc_steps_inj)
  have high: "drop_bit 8 (w XOR ucast b) = drop_bit 8 w" for w :: u16 and b :: u8
    by (rule bit_word_eqI) (auto simp: bit_simps dest: bit_imp_le_length)
  from arg_cong [OF eq, of "drop_bit 8"]
  have "drop_bit 8 (crc_update c a) = drop_bit 8 (crc_update c a')" by (simp only: high)
  then have "drop_bit 8 (crc_update c a XOR crc_update c a') = 0" by (simp add: drop_bit_xor)
  moreover have "crc_update c a XOR crc_update c a' = (crc_step ^^ 8) (ucast (a XOR a'))"
  proof -
    have "(c XOR ucast a) XOR (c XOR ucast a') = ucast (a XOR a')"
      by (rule bit_word_eqI) (auto simp: bit_simps)
    then show ?thesis by (simp only: crc_update_def crc_steps_xor [symmetric])
  qed
  ultimately have "a XOR a' = 0" using crc_high_byte by simp
  then have "(a XOR a') XOR a' = a'" by simp
  then have a: "a = a'" by (simp only: xor.assoc xor_self_eq xor.right_neutral)
  with eq have "(ucast b :: u16) XOR crc_update c a' = ucast b' XOR crc_update c a'"
    by (simp only: xor.commute)
  then have "(ucast b :: u16) = ucast b'" by (simp only: xor_cancel)
  then have "ucast (ucast b :: u16) = (ucast (ucast b' :: u16) :: u8)" by (rule arg_cong)
  moreover have "ucast (ucast w :: u16) = w" for w :: u8
    by (rule bit_word_eqI) (auto simp: bit_simps)
  ultimately show ?thesis using a by (simp only: simp_thms)
qed

lemma fcs_unique:
  assumes "fcs_residue_ok (p @ [a, b])" shows "[a, b] = fcs p"
proof -
  obtain a' b' where f: "fcs p = [a', b']" by (simp add: fcs_def Let_def)
  from assms fcs_accepted [of p]
  have "crc_update (crc_update (crc p) a) b = crc_update (crc_update (crc p) a') b'"
    by (simp add: fcs_residue_ok_def crc_append f)
  then show ?thesis unfolding f by (auto dest: crc_update_pair_inj)
qed

lemma length_fcs [simp]: "length (fcs p) = 2"
  by (simp add: fcs_def Let_def)

lemma list2_cases: "length xs = 2 \<Longrightarrow> \<exists>a b. xs = [a, b]"
  by (auto simp: numeral_eq_Suc length_Suc_conv)

lemma fcs_residue_iff:
  assumes "2 \<le> length f"
  shows "fcs_residue_ok f \<longleftrightarrow> drop (length f - 2) f = fcs (take (length f - 2) f)"
proof -
  have "length (drop (length f - 2) f) = 2" using assms by simp
  then obtain a b where ab: "drop (length f - 2) f = [a, b]"
    using list2_cases by blast
  have f: "f = take (length f - 2) f @ [a, b]" unfolding ab [symmetric] by simp
  show ?thesis
    using fcs_unique [of "take (length f - 2) f" a b] fcs_accepted [of "take (length f - 2) f"] f ab
    by metis
qed

text \<open>One corrupted byte changes the register, whatever follows it.\<close>

lemma crc_update_inj_byte: "crc_update c a = crc_update c b \<Longrightarrow> a = b"
  by (rule conjunct1 [OF crc_update_pair_inj [of c a 0 b 0]]) (rule arg_cong)

lemma crc_fold_inj:
  "fold (\<lambda>b c. crc_update c b) q c = fold (\<lambda>b c. crc_update c b) q d \<Longrightarrow> c = d"
  by (induction q arbitrary: c d) (auto dest: crc_update_inj_crc)

lemma fcs_detects_byte:
  assumes "fcs_residue_ok (p @ a # q)" "a \<noteq> b"
  shows "\<not> fcs_residue_ok (p @ b # q)"
proof
  assume "fcs_residue_ok (p @ b # q)"
  with assms(1) have "fold (\<lambda>b c. crc_update c b) q (crc_update (crc p) a)
      = fold (\<lambda>b c. crc_update c b) q (crc_update (crc p) b)"
    by (simp add: fcs_residue_ok_def crc_append)
  then have "crc_update (crc p) a = crc_update (crc p) b" by (rule crc_fold_inj)
  with assms(2) show False by (auto dest: crc_update_inj_byte)
qed

section \<open>What the decoder hands over\<close>

definition decoder_ok :: "decoder \<Rightarrow> bool" where
  "decoder_ok d \<longleftrightarrow> length (dc_buf d) \<le> MAX_FRAME"

lemma decoder_new_ok: "decoder_ok decoder_new"
  by (simp add: decoder_ok_def decoder_new_def)

lemma feed_ok: "decoder_ok d \<Longrightarrow> decoder_ok (fst (feed b d))"
  by (auto simp: feed_def dc_push_def decoder_ok_def Let_def)

lemma feed_all_ok: "decoder_ok d \<Longrightarrow> decoder_ok (fst (feed_all bs d))"
proof (induction bs arbitrary: d)
  case (Cons b bs)
  then have "decoder_ok (fst (feed_all bs (fst (feed b d))))" by (simp add: feed_ok)
  then show ?case by (simp add: Let_def case_prod_beta)
qed simp

text \<open>Every frame handed over was in the buffer with its own check sequence behind it.\<close>

lemma feed_sound:
  assumes "feed b d = (d', Some l)"
  shows "b = 0xfd \<and> dc_escaped d \<and> wf_llap l \<and> dc_buf d = llap_encode l @ fcs (llap_encode l)
         \<and> d' = decoder_new"
proof -
  let ?f = "dc_buf d"
  from assms have b: "b = 0xfd" "dc_escaped d" "5 \<le> length ?f" "fcs_residue_ok ?f"
      "llap_parse (take (length ?f - 2) ?f) = Some l" "d' = decoder_new"
    by (auto simp: feed_def Let_def decoder_new_def split: if_splits)
  then have l: "wf_llap l" "take (length ?f - 2) ?f = llap_encode l"
    by (simp_all add: llap_parse_Some_iff)
  from b(3,4) have "drop (length ?f - 2) ?f = fcs (take (length ?f - 2) ?f)"
    by (simp add: fcs_residue_iff)
  with l(2) have "?f = llap_encode l @ fcs (llap_encode l)"
    by (metis append_take_drop_id)
  with b l show ?thesis by blast
qed

lemma feed_all_append:
  "feed_all (xs @ ys) d =
     (let (d, fs) = feed_all xs d; (d, gs) = feed_all ys d in (d, fs @ gs))"
  by (induction xs arbitrary: d) (auto simp: Let_def split: prod.split)

lemma feed_all_Cons:
  "feed b d = (d', f) \<Longrightarrow> feed_all bs d' = (d'', fs) \<Longrightarrow>
   feed_all (b # bs) d = (d'', (case f of Some l \<Rightarrow> [l] | None \<Rightarrow> []) @ fs)"
  by simp

text \<open>An escaped frame lands in the buffer as it was.\<close>

lemma feed_escape:
  "length buf + length bs \<le> MAX_FRAME \<Longrightarrow>
   feed_all (escape bs) \<lparr>dc_buf = buf, dc_escaped = False\<rparr>
     = (\<lparr>dc_buf = buf @ bs, dc_escaped = False\<rparr>, [])"
proof (induction bs arbitrary: buf)
  case (Cons b bs)
  then have "feed_all (escape bs) \<lparr>dc_buf = buf @ [b], dc_escaped = False\<rparr>
      = (\<lparr>dc_buf = buf @ b # bs, dc_escaped = False\<rparr>, [])"
    using Cons.IH [of "buf @ [b]"] by simp
  with Cons.prems show ?case
    by (cases "b = 0") (simp_all add: escape_def feed_def dc_push_def)
qed (simp add: escape_def)

lemma feed_frame:
  assumes "wf_llap l"
  shows "feed_all (escape (drop 1 (frame_command l)) @ END_GOOD) decoder_new = (decoder_new, [l])"
proof -
  let ?e = "llap_encode l" let ?f = "?e @ fcs ?e"
  have len: "length ?f \<le> MAX_FRAME"
    using wf_llap_length [OF assms] by (simp add: MAX_FRAME_def)
  have pos: "5 \<le> length ?f" by (simp add: llap_encode_def)
  have body: "drop 1 (frame_command l) = ?f" by (simp add: frame_command_def Let_def)
  have "feed_all (escape ?f) decoder_new = (\<lparr>dc_buf = ?f, dc_escaped = False\<rparr>, [])"
    using feed_escape [of "[]" ?f] len by (simp add: decoder_new_def)
  moreover have "feed 0 \<lparr>dc_buf = ?f, dc_escaped = False\<rparr> = (\<lparr>dc_buf = ?f, dc_escaped = True\<rparr>, None)"
    by (simp add: feed_def)
  moreover have "feed 0xfd \<lparr>dc_buf = ?f, dc_escaped = True\<rparr> = (decoder_new, Some l)"
    using pos fcs_accepted [of ?e] llap_parse_encode [OF assms]
    by (simp add: feed_def Let_def decoder_new_def)
  ultimately show ?thesis
    unfolding body feed_all_append END_GOOD_def by simp
qed

text \<open>Whatever state the decoder is in, two bytes bring it back in step.\<close>

lemma feed_resync:
  "fst (feed_all [0x00, 0xfe] (d\<lparr>dc_escaped := False\<rparr>)) = decoder_new"
  by (simp add: feed_def Let_def decoder_new_def)

lemma feed_frames:
  "\<forall>l \<in> set ls. wf_llap l \<Longrightarrow>
   feed_all (concat (map (\<lambda>l. escape (drop 1 (frame_command l)) @ END_GOOD) ls)) decoder_new
     = (decoder_new, ls)"
proof (induction ls)
  case (Cons l ls)
  then have "feed_all (escape (drop 1 (frame_command l)) @ END_GOOD) decoder_new = (decoder_new, [l])"
    by (intro feed_frame) simp
  with Cons show ?case
    by (simp only: list.map concat.simps feed_all_append [of "_ @ END_GOOD"]) simp
qed simp

lemma node_command_nth:
  "node_command (Some n) = 0x02 # (replicate 32 0)[unat n div 8 := push_bit (unat n mod 8) 1]"
proof -
  have "replicate (Suc 32) (0 :: u8) = 0 # replicate 32 0" by (rule replicate_Suc)
  then have "replicate 33 (0 :: u8) = 0 # replicate 32 0" by simp
  then show ?thesis by (simp only: node_command_def Let_def option.case list_update_code nat.simps plus_1_eq_Suc)
qed

section \<open>Properties\<close>

text \<open>
  A stream of escaped, properly ended frames is decoded to exactly the LLAP frames whose transmit
  commands produced it, in order, and leaves the decoder ready for the next one.
\<close>

theorem decoder_delivers_frames:
  assumes "\<forall>l \<in> set ls. wf_llap l"
  shows "feed_all (concat (map (\<lambda>l. escape (drop 1 (frame_command l)) @ END_GOOD) ls)) decoder_new
         = (decoder_new, ls)"
  using assms by (rule feed_frames)

theorem decoder_delivers_frames_witness:
  "feed_all (concat (map (\<lambda>l. escape (drop 1 (frame_command l)) @ END_GOOD)
      [\<lparr>l_dst = 255, l_src = 7, l_typ = 1, l_data = [0, 6, 2, 0, 1, 9]\<rparr>, llap_control 9 9 LLAP_ENQ]))
    decoder_new
   = (decoder_new,
      [\<lparr>l_dst = 255, l_src = 7, l_typ = 1, l_data = [0, 6, 2, 0, 1, 9]\<rparr>, llap_control 9 9 LLAP_ENQ])"
  by (rule decoder_delivers_frames)
     (auto simp: wf_llap_def llap_control_def control_typ_def llap_type_defs MAX_DATA_def
        u16_from_be_def)

text \<open>
  The residue test accepts a buffer exactly when its last two bytes are the check sequence of the
  rest, which is what recomputing and comparing would do.
\<close>

theorem fcs_residue_exact:
  assumes "2 \<le> length f"
  shows "fcs_residue_ok f \<longleftrightarrow> drop (length f - 2) f = fcs (take (length f - 2) f)"
  using assms by (rule fcs_residue_iff)

theorem fcs_residue_exact_witness:
  "fcs_residue_ok ([1, 2, 3] @ fcs [1, 2, 3])
     \<longleftrightarrow> drop 3 ([1, 2, 3] @ fcs [1, 2, 3]) = fcs (take 3 ([1, 2, 3] @ fcs [1, 2, 3]))"
  using fcs_residue_exact [of "[1, 2, 3] @ fcs [1, 2, 3]"] by simp

text \<open>
  A frame that checks out no longer does once any one byte of it, check sequence included, is
  replaced by another value.
\<close>

theorem fcs_detects_corruption:
  assumes "fcs_residue_ok f" "i < length f" "b \<noteq> f ! i"
  shows "\<not> fcs_residue_ok (f[i := b])"
proof -
  have "f = take i f @ f ! i # drop (Suc i) f" using assms(2) by (rule id_take_nth_drop)
  then have "fcs_residue_ok (take i f @ f ! i # drop (Suc i) f)" using assms(1) by simp
  then show ?thesis
    using assms fcs_detects_byte [of "take i f" "f ! i" "drop (Suc i) f" b]
    by (simp add: upd_conv_take_nth_drop)
qed

theorem fcs_detects_corruption_witness:
  "\<not> fcs_residue_ok (([1, 2, 3] @ fcs [1, 2, 3])[1 := 7])"
  by (rule fcs_detects_corruption [OF fcs_accepted]) simp_all

text \<open>
  Whatever bytes arrive, the decoder never buffers more than a maximal frame, and every frame it
  hands over is a well-formed LLAP packet that stood in the buffer followed by its check sequence.
\<close>

theorem decoder_safe:
  "length (dc_buf (fst (feed_all bs decoder_new))) \<le> 605
   \<and> (case snd (feed b (fst (feed_all bs decoder_new))) of
        None \<Rightarrow> True
      | Some l \<Rightarrow> wf_llap l \<and> dc_buf (fst (feed_all bs decoder_new)) = llap_encode l @ fcs (llap_encode l))"
proof -
  have "length (dc_buf (fst (feed_all bs decoder_new))) \<le> 605"
    using feed_all_ok [OF decoder_new_ok, of bs] by (simp add: decoder_ok_def MAX_FRAME_def)
  moreover obtain d' r where "feed b (fst (feed_all bs decoder_new)) = (d', r)" by fastforce
  ultimately show ?thesis using feed_sound [of b] by (auto split: option.split)
qed

text \<open>
  The node-ID bitmap command sets, among the 256 bits, exactly the bit of the claimed node:
  byte k/8 after the command byte, bit k mod 8.
\<close>

theorem node_command_bitmap:
  assumes "k < 256"
  shows "bit (node_command (Some n) ! (1 + k div 8)) (k mod 8) \<longleftrightarrow> k = unat n"
proof -
  have "k div 8 < 32" "unat n div 8 < 32" using assms unat_u8_less [of n] by auto
  then have "node_command (Some n) ! (1 + k div 8)
      = (if k div 8 = unat n div 8 then push_bit (unat n mod 8) 1 else 0)"
    by (simp add: node_command_nth nth_list_update)
  moreover have "bit (push_bit (unat n mod 8) (1 :: u8)) (k mod 8) \<longleftrightarrow> k mod 8 = unat n mod 8"
    by (auto simp: bit_exp_iff)
  moreover have "k = unat n \<longleftrightarrow> k div 8 = unat n div 8 \<and> k mod 8 = unat n mod 8"
    by (metis div_mult_mod_eq)
  ultimately show ?thesis by auto
qed

theorem node_command_bitmap_witness:
  "bit (node_command (Some 130) ! (1 + 130 div 8)) (130 mod 8)"
  using node_command_bitmap [of 130 130] by simp

end
