(* ===== verification/Ltoudp.thy ===== *)
theory Ltoudp
  imports Wire_LLAP
begin

text \<open>
  \<open>src/src/ltoudp.rs\<close>: LocalTalk frames in UDP datagrams behind a four-byte sender ID.  The reader
  accepts exactly the datagrams another sender could have framed.  The reader thread
  is in theory Readers.
\<close>

definition LTOUDP_MAX :: nat where "LTOUDP_MAX = 4 + 3 + 600"

definition lt_datagram :: "bytes \<Rightarrow> llap \<Rightarrow> bytes" where
  "lt_datagram sid f = sid @ llap_encode f"

definition inbound :: "bytes \<Rightarrow> bytes \<Rightarrow> llap option" where
  "inbound buf sid =
     (if length buf < 7 \<or> length buf > LTOUDP_MAX \<or> get_to buf 4 = Some sid then None
      else llap_parse (drop 4 buf))"

lemma wf_llap_min: "3 \<le> length (llap_encode l)"
  by (simp add: llap_encode_def)

lemma inbound_iff:
  assumes "length sid = 4"
  shows "inbound buf sid = Some f \<longleftrightarrow>
    (\<exists>other. length other = 4 \<and> other \<noteq> sid \<and> wf_llap f \<and> buf = lt_datagram other f)"
proof
  assume i: "inbound buf sid = Some f"
  then have len: "7 \<le> length buf" and p: "llap_parse (drop 4 buf) = Some f"
    and n: "get_to buf 4 \<noteq> Some sid"
    by (auto simp: inbound_def split: if_splits)
  from p have "wf_llap f" "drop 4 buf = llap_encode f" by (simp_all add: llap_parse_Some_iff)
  moreover from n len have "take 4 buf \<noteq> sid" by (simp add: get_to_def)
  ultimately show "\<exists>other. length other = 4 \<and> other \<noteq> sid \<and> wf_llap f \<and> buf = lt_datagram other f"
    using len append_take_drop_id [of 4 buf]
    by (intro exI [of _ "take 4 buf"]) (simp add: lt_datagram_def)
next
  assume "\<exists>other. length other = 4 \<and> other \<noteq> sid \<and> wf_llap f \<and> buf = lt_datagram other f"
  then obtain other where o: "length other = 4" "other \<noteq> sid" "wf_llap f" "buf = lt_datagram other f"
    by blast
  with wf_llap_min [of f] wf_llap_length [of f] show "inbound buf sid = Some f"
    by (simp add: inbound_def lt_datagram_def LTOUDP_MAX_def get_to_def llap_parse_encode)
qed

section \<open>Property\<close>

text \<open>
  A station accepts exactly the datagrams that frame a well-formed LLAP packet under a sender ID
  other than its own: nothing oversized, truncated or malformed, never its own echo, and every legal
  frame of anyone else.
\<close>

theorem inbound_exact:
  assumes "length sid = 4"
  shows "inbound buf sid = Some f \<longleftrightarrow>
    (\<exists>other. length other = 4 \<and> other \<noteq> sid \<and> wf_llap f \<and> buf = lt_datagram other f)"
  using assms by (rule inbound_iff)

theorem inbound_exact_witness:
  "inbound (lt_datagram [1, 2, 3, 5] (llap_control 9 9 LLAP_ENQ)) [1, 2, 3, 4]
     = Some (llap_control 9 9 LLAP_ENQ)"
proof -
  have "wf_llap (llap_control 9 9 LLAP_ENQ)" by (rule wf_llap_control) (simp add: control_typ_def)
  then show ?thesis
    by (subst inbound_exact) (auto intro: exI [of _ "[1, 2, 3, 5]"])
qed

end
