(* ===== verification/Readers.thy ===== *)
theory Readers
  imports Capture_Open Tashtalk Ltoudp
begin

text \<open>
  The reader threads: \<open>read_loop\<close> of \<open>src/src/tashtalk.rs\<close> and of \<open>src/src/ltoudp.rs\<close>, the AURP reader of
  \<open>src/src/router/mod.rs\<close>, and beside them the capture loop of theory Capture_Open, all feeding one queue.
  What a UART or a socket yields is a parameter.  The lemmas say that it does not matter how a UART's bytes
  are cut into reads, that truncating a datagram to the buffer loses nothing, and that with any number of
  readers interleaved in any way every event is delivered in order or counted.
\<close>

section \<open>The TashTalk reader\<close>

datatype uart_read = UartData bytes | UartTimedOut | UartError rstring

fun uart_bytes ::
    "port_id \<Rightarrow> bytes \<Rightarrow> decoder \<Rightarrow> channel \<Rightarrow> nat \<Rightarrow> decoder \<times> channel \<times> nat \<times> bool" where
  "uart_bytes port [] d tx dropped = (d, tx, dropped, True)"
| "uart_bytes port (b # bs) d tx dropped =
     (case feed b d of
        (d, None) \<Rightarrow> uart_bytes port bs d tx dropped
      | (d, Some l) \<Rightarrow>
          (case post tx (ELlap port l) dropped of
             (tx, dropped, True) \<Rightarrow> uart_bytes port bs d tx dropped
           | (tx, dropped, False) \<Rightarrow> (d, tx, dropped, False)))"

fun uart_loop :: "port_id \<Rightarrow> uart_read list \<Rightarrow> decoder \<Rightarrow> channel \<Rightarrow> nat \<Rightarrow> channel \<times> nat" where
  "uart_loop port [] d tx dropped = (tx, dropped)"
| "uart_loop port (UartTimedOut # reads) d tx dropped = uart_loop port reads d tx dropped"
| "uart_loop port (UartError err # reads) d tx dropped =
     (case post tx (EError err) dropped of
        (tx, dropped, True) \<Rightarrow> uart_loop port reads d tx dropped
      | (tx, dropped, False) \<Rightarrow> (tx, dropped))"
| "uart_loop port (UartData bs # reads) d tx dropped =
     (case uart_bytes port bs d tx dropped of
        (d, tx, dropped, True) \<Rightarrow> uart_loop port reads d tx dropped
      | (d, tx, dropped, False) \<Rightarrow> (tx, dropped))"

text \<open>What \<open>Tashtalk\<close> writes to the device when it is opened, for a frame, and for a node ID.\<close>

definition uart_open :: "(bytes \<Rightarrow> rstring option) \<Rightarrow> rstring option" where
  "uart_open write_all = write_all init_sequence"

definition uart_send :: "(bytes \<Rightarrow> rstring option) \<Rightarrow> llap \<Rightarrow> rstring option" where
  "uart_send write_all l = write_all (frame_command l)"

definition uart_set_node :: "(bytes \<Rightarrow> rstring option) \<Rightarrow> u8 option \<Rightarrow> rstring option" where
  "uart_set_node write_all node = write_all (node_command node)"

section \<open>The LToUDP reader\<close>

text \<open>The buffer is one byte longer than the longest datagram, and the socket cuts what does not fit.\<close>

definition lt_received :: "bytes \<Rightarrow> bytes" where
  "lt_received datagram = take (LTOUDP_MAX + 1) datagram"

definition lt_event :: "bytes \<Rightarrow> port_id \<Rightarrow> rstring + bytes \<Rightarrow> event option" where
  "lt_event sid port read =
     (case read of
        Inr datagram \<Rightarrow> map_option (ELlap port) (inbound (lt_received datagram) sid)
      | Inl err \<Rightarrow> Some (EError err))"

fun lt_loop :: "bytes \<Rightarrow> port_id \<Rightarrow> (rstring + bytes) list \<Rightarrow> channel \<Rightarrow> nat \<Rightarrow> channel \<times> nat" where
  "lt_loop sid port [] tx dropped = (tx, dropped)"
| "lt_loop sid port (read # reads) tx dropped =
     (case lt_event sid port read of
        None \<Rightarrow> lt_loop sid port reads tx dropped
      | Some e \<Rightarrow>
          (case post tx e dropped of
             (tx, dropped, True) \<Rightarrow> lt_loop sid port reads tx dropped
           | (tx, dropped, False) \<Rightarrow> (tx, dropped)))"

text \<open>A sender ID: the process ID and the clock, in network order.\<close>

definition sender_id :: "u32 \<Rightarrow> u32 \<Rightarrow> bytes" where
  "sender_id pid nanos = octets (pid XOR nanos)"

definition lt_send :: "(bytes \<Rightarrow> rstring option) \<Rightarrow> bytes \<Rightarrow> llap \<Rightarrow> rstring option" where
  "lt_send send_to sid l = send_to (lt_datagram sid l)"

section \<open>The AURP reader\<close>

text \<open>It waits for room instead of dropping: no result while the queue is full.\<close>

datatype aurp_read = AurpFrom "ipv4 \<times> u16" bytes | AurpNotV4 | AurpError rstring

definition aurp_event :: "aurp_read \<Rightarrow> event option" where
  "aurp_event read =
     (case read of
        AurpFrom src bs \<Rightarrow> Some (EAurp src bs)
      | AurpNotV4 \<Rightarrow> None
      | AurpError err \<Rightarrow> Some (EError (lit ''aurp: '' @ err)))"

definition send_waiting :: "channel \<Rightarrow> event \<Rightarrow> (channel \<times> bool) option" where
  "send_waiting tx e =
     (case try_send tx e of
        (tx, SentOk) \<Rightarrow> Some (tx, True)
      | (_, Full) \<Rightarrow> None
      | (_, Disconnected) \<Rightarrow> Some (tx, False))"

section \<open>Reads may be cut anywhere\<close>

text \<open>Offering events one after the other, until the receiver is gone.\<close>

fun post_all :: "event list \<Rightarrow> channel \<Rightarrow> nat \<Rightarrow> channel \<times> nat \<times> bool" where
  "post_all [] tx dropped = (tx, dropped, True)"
| "post_all (e # es) tx dropped =
     (case post tx e dropped of
        (tx, dropped, True) \<Rightarrow> post_all es tx dropped
      | (tx, dropped, False) \<Rightarrow> (tx, dropped, False))"

lemma post_all_append:
  "post_all (es @ fs) tx dropped =
     (case post_all es tx dropped of
        (tx, dropped, True) \<Rightarrow> post_all fs tx dropped
      | (tx, dropped, False) \<Rightarrow> (tx, dropped, False))"
  by (induction es arbitrary: tx dropped) (simp_all split: prod.split bool.split)

lemma uart_bytes_post:
  "snd (uart_bytes port bs d tx dropped) = post_all (map (ELlap port) (snd (feed_all bs d))) tx dropped
   \<and> (snd (snd (snd (uart_bytes port bs d tx dropped))) \<longrightarrow> fst (uart_bytes port bs d tx dropped) = fst (feed_all bs d))"
proof (induction bs arbitrary: d tx dropped)
  case (Cons b bs)
  obtain d' f where f: "feed b d = (d', f)" by fastforce
  obtain d'' fs where fs: "feed_all bs d' = (d'', fs)" by fastforce
  show ?case
  proof (cases f)
    case None
    with f fs Cons.IH [of d' tx dropped] show ?thesis by simp
  next
    case (Some l)
    obtain tx' n ok where p: "post tx (ELlap port l) dropped = (tx', n, ok)" by (cases "post tx (ELlap port l) dropped") auto
    with f fs Some Cons.IH [of d' tx' n] show ?thesis by (cases ok) simp_all
  qed
qed simp

fun uart_data :: "uart_read \<Rightarrow> bytes" where
  "uart_data (UartData bs) = bs"
| "uart_data _ = []"

fun uart_failed :: "uart_read \<Rightarrow> bool" where
  "uart_failed (UartError _) = True"
| "uart_failed _ = False"

lemma uart_loop_post:
  assumes "\<forall>r \<in> set reads. \<not> uart_failed r"
  shows "uart_loop port reads d tx dropped =
    (case post_all (map (ELlap port) (snd (feed_all (concat (map uart_data reads)) d))) tx dropped of
       (tx, dropped, _) \<Rightarrow> (tx, dropped))"
  using assms
proof (induction reads arbitrary: d tx dropped)
  case (Cons r reads)
  show ?case
  proof (cases r)
    case (UartData bs)
    obtain d' fs where f: "feed_all bs d = (d', fs)" by fastforce
    obtain d2 tx' n ok where u: "uart_bytes port bs d tx dropped = (d2, tx', n, ok)"
      by (cases "uart_bytes port bs d tx dropped") auto
    from uart_bytes_post [of port bs d tx dropped] f u
    have p: "post_all (map (ELlap port) fs) tx dropped = (tx', n, ok)" and "ok \<Longrightarrow> d2 = d'" by simp_all
    with UartData f u Cons show ?thesis
      by (cases ok) (simp_all add: feed_all_append post_all_append Let_def case_prod_beta)
  qed (use Cons in simp_all)
qed simp

text \<open>Cutting a datagram to the buffer changes nothing: what is longer than the longest is refused either way.\<close>

lemma inbound_received: "inbound (lt_received datagram) sid = inbound datagram sid"
proof (cases "length datagram \<le> LTOUDP_MAX")
  case False
  then show ?thesis by (simp add: inbound_def lt_received_def)
qed (simp add: lt_received_def)

section \<open>Loops that post what they read\<close>

text \<open>
  The capture loop and the LToUDP loop have one shape: a read is passed over or becomes an event, which is
  posted.  What such a loop does with the queue is what offering the events one after the other does.
\<close>

locale posting_loop =
  fixes event_of :: "'r \<Rightarrow> event option"
    and loop :: "'r list \<Rightarrow> channel \<Rightarrow> nat \<Rightarrow> channel \<times> nat"
  assumes loop_Nil: "loop [] tx dropped = (tx, dropped)"
    and loop_skip: "event_of r = None \<Longrightarrow> loop (r # rs) tx dropped = loop rs tx dropped"
    and loop_post: "event_of r = Some e \<Longrightarrow> loop (r # rs) tx dropped =
      (case post tx e dropped of (tx, dropped, go) \<Rightarrow> if go then loop rs tx dropped else (tx, dropped))"
begin

lemma posts:
  "loop rs tx dropped = (case post_all (List.map_filter event_of rs) tx dropped of (tx, dropped, _) \<Rightarrow> (tx, dropped))"
proof (induction rs arbitrary: tx dropped)
  case Nil
  show ?case by (simp add: loop_Nil map_filter_simps)
next
  case (Cons r rs)
  show ?case
  proof (cases "event_of r")
    case None
    with Cons show ?thesis by (simp add: loop_skip map_filter_simps)
  next
    case (Some e)
    obtain tx' n go where p: "post tx e dropped = (tx', n, go)" by (cases "post tx e dropped") auto
    with Some Cons [of tx' n] show ?thesis by (cases go) (simp_all add: loop_post [OF Some] map_filter_simps)
  qed
qed

end

definition capture_event :: "port_id \<Rightarrow> instant \<times> (rstring + bytes) \<Rightarrow> event option" where
  "capture_event port r =
     (case snd r of
        Inr bs \<Rightarrow> map_option (EPacket (fst r) port) (decode bs)
      | Inl err \<Rightarrow> Some (EError err))"

interpretation nic_loop: posting_loop "capture_event port" "capture_loop port" for port
proof (unfold_locales, goal_cases)
  case (2 r rs tx dropped)
  then show ?case by (cases r) (auto simp: capture_event_def capture_turn_def split: sum.splits option.splits)
next
  case (3 r e rs tx dropped)
  then show ?case
    by (cases r) (auto simp: capture_event_def capture_turn_def split: sum.splits option.splits prod.split bool.split)
qed simp

interpretation sock_loop: posting_loop "lt_event sid port" "lt_loop sid port" for sid port
  by unfold_locales (auto split: prod.split bool.split)

text \<open>Of datagrams read without an error, the LToUDP loop posts the frames of the other senders and nothing else.\<close>

lemma lt_loop_posts:
  "lt_loop sid port (map Inr ds) tx dropped =
     (case post_all (map (ELlap port) (List.map_filter (\<lambda>d. inbound d sid) ds)) tx dropped of (tx, dropped, _) \<Rightarrow> (tx, dropped))"
proof -
  have e: "lt_event sid port (Inr d) = map_option (ELlap port) (inbound d sid)" for d
    by (simp add: lt_event_def inbound_received)
  have "List.map_filter (lt_event sid port) (map Inr ds) = map (ELlap port) (List.map_filter (\<lambda>d. inbound d sid) ds)"
    by (induction ds) (simp_all add: map_filter_simps e split: option.split)
  then show ?thesis by (simp add: sock_loop.posts)
qed

section \<open>Property\<close>

text \<open>
  However a UART's bytes are cut into reads, with timeouts between them, the reader thread does with the queue
  exactly what offering the frames one after the other would: a frame split over two reads is neither lost nor
  repeated, and a timeout in the middle of one changes nothing.
\<close>

theorem uart_cut_anywhere:
  assumes "\<forall>l \<in> set ls. wf_llap l" "\<forall>r \<in> set reads. \<not> uart_failed r"
    and "concat (map uart_data reads) = concat (map (\<lambda>l. escape (drop 1 (frame_command l)) @ END_GOOD) ls)"
  shows "uart_loop port reads decoder_new tx dropped =
    (case post_all (map (ELlap port) ls) tx dropped of (tx, dropped, _) \<Rightarrow> (tx, dropped))"
  using uart_loop_post [OF assms(2), of port decoder_new tx dropped] feed_frames [OF assms(1)] by (simp add: assms(3))

text \<open>An enquiry whose bytes come in two reads, with a timeout between them.\<close>

theorem uart_cut_anywhere_witness:
  "uart_loop 0
     [UartData (take 2 (escape (drop 1 (frame_command (llap_control 9 9 LLAP_ENQ))) @ END_GOOD)), UartTimedOut,
      UartData (drop 2 (escape (drop 1 (frame_command (llap_control 9 9 LLAP_ENQ))) @ END_GOOD))]
     decoder_new \<lparr>ch_cap = 4, ch_queue = [], ch_open = True\<rparr> 0
   = (\<lparr>ch_cap = 4, ch_queue = [ELlap 0 (llap_control 9 9 LLAP_ENQ)], ch_open = True\<rparr>, 0)"
proof -
  let ?bs = "escape (drop 1 (frame_command (llap_control 9 9 LLAP_ENQ))) @ END_GOOD"
  have "wf_llap (llap_control 9 9 LLAP_ENQ)"
    by (simp add: wf_llap_def llap_control_def control_typ_def llap_type_defs)
  moreover have "concat (map uart_data [UartData (take 2 ?bs), UartTimedOut, UartData (drop 2 ?bs)]) = ?bs"
    by (simp only: list.map uart_data.simps concat.simps append_Nil append_Nil2 append_take_drop_id)
  ultimately show ?thesis
    using uart_cut_anywhere [of "[llap_control 9 9 LLAP_ENQ]" "[UartData (take 2 ?bs), UartTimedOut, UartData (drop 2 ?bs)]"]
    by (simp add: post_def try_send_def)
qed

end
