(* ===== verification/Reader_Threads.thy ===== *)
theory Reader_Threads
  imports Readers
begin

text \<open>
  Many readers on one queue: every reader thread of a router or a bridge, the AURP reader and the consumer,
  their steps interleaved in any way, even between the two sends with which a reader first reports what it
  dropped and then offers the next event.  What each reader offers is what its input decodes to.
\<close>

section \<open>The threads\<close>

text \<open>A reader with what it keeps between reads, and one thing it can read.\<close>

datatype reader = NicReader | LtReader bytes | UartReader decoder

datatype reader_in = NicRead instant "rstring + bytes" | SockRead "rstring + bytes" | UartByte u8 | UartFail rstring

fun read_one :: "port_id \<Rightarrow> reader \<Rightarrow> reader_in \<Rightarrow> reader \<times> event option" where
  "read_one port NicReader (NicRead at (Inr bs)) = (NicReader, map_option (EPacket at port) (decode bs))"
| "read_one port NicReader (NicRead at (Inl err)) = (NicReader, Some (EError err))"
| "read_one port (LtReader sid) (SockRead read) = (LtReader sid, lt_event sid port read)"
| "read_one port (UartReader d) (UartByte b) = (let (d, l) = feed b d in (UartReader d, map_option (ELlap port) l))"
| "read_one port (UartReader d) (UartFail err) = (UartReader d, Some (EError err))"
| "read_one port rd _ = (rd, None)"

text \<open>Where a reader is: reading, about to report its drops, or about to send.\<close>

datatype phase = Reading | Reporting event | Sending event

record threads =
  th_chan :: channel
  th_readers :: "nat \<Rightarrow> reader"
  th_phase :: "nat \<Rightarrow> phase"
  th_dropped :: "nat \<Rightarrow> nat"
  th_inputs :: "nat \<Rightarrow> reader_in list"
  th_offered :: "(nat \<times> event) list"
  th_taken :: "event list"

text \<open>Thread \<open>n\<close> is the AURP reader; what it offers is never a report.\<close>

inductive threads_step :: "nat \<Rightarrow> threads \<Rightarrow> threads \<Rightarrow> bool" for n where
  ts_quiet: "i < n \<Longrightarrow> th_phase w i = Reading \<Longrightarrow> read_one (word_of_nat i) (th_readers w i) inp = (rd, None) \<Longrightarrow>
    threads_step n w (w\<lparr>th_readers := (th_readers w)(i := rd), th_inputs := (th_inputs w)(i := th_inputs w i @ [inp])\<rparr>)"
| ts_read: "i < n \<Longrightarrow> th_phase w i = Reading \<Longrightarrow> read_one (word_of_nat i) (th_readers w i) inp = (rd, Some e) \<Longrightarrow>
    threads_step n w (w\<lparr>th_readers := (th_readers w)(i := rd), th_inputs := (th_inputs w)(i := th_inputs w i @ [inp]),
      th_phase := (th_phase w)(i := Reporting e)\<rparr>)"
| ts_no_report: "i < n \<Longrightarrow> th_phase w i = Reporting e \<Longrightarrow>
    th_dropped w i = 0 \<or> try_send (th_chan w) (EDropped (th_dropped w i)) = (c, Full) \<Longrightarrow>
    threads_step n w (w\<lparr>th_phase := (th_phase w)(i := Sending e)\<rparr>)"
| ts_report: "i < n \<Longrightarrow> th_phase w i = Reporting e \<Longrightarrow> 0 < th_dropped w i \<Longrightarrow>
    try_send (th_chan w) (EDropped (th_dropped w i)) = (c, SentOk) \<Longrightarrow>
    threads_step n w (w\<lparr>th_chan := c, th_dropped := (th_dropped w)(i := 0), th_phase := (th_phase w)(i := Sending e)\<rparr>)"
| ts_send: "i < n \<Longrightarrow> th_phase w i = Sending e \<Longrightarrow> try_send (th_chan w) e = (c, SentOk) \<Longrightarrow>
    threads_step n w (w\<lparr>th_chan := c, th_phase := (th_phase w)(i := Reading), th_offered := th_offered w @ [(i, e)]\<rparr>)"
| ts_drop: "i < n \<Longrightarrow> th_phase w i = Sending e \<Longrightarrow> try_send (th_chan w) e = (c, Full) \<Longrightarrow>
    threads_step n w (w\<lparr>th_dropped := (th_dropped w)(i := th_dropped w i + 1), th_phase := (th_phase w)(i := Reading),
      th_offered := th_offered w @ [(i, e)]\<rparr>)"
| ts_aurp: "aurp_event read = Some e \<Longrightarrow> send_waiting (th_chan w) e = Some (c, True) \<Longrightarrow>
    threads_step n w (w\<lparr>th_chan := c, th_offered := th_offered w @ [(n, e)]\<rparr>)"
| ts_recv: "ch_queue (th_chan w) = e # q \<Longrightarrow>
    threads_step n w (w\<lparr>th_chan := (th_chan w)\<lparr>ch_queue := q\<rparr>, th_taken := th_taken w @ [e]\<rparr>)"

definition threads_start :: "(nat \<Rightarrow> reader) \<Rightarrow> nat \<Rightarrow> threads" where
  "threads_start rds cap =
     \<lparr>th_chan = \<lparr>ch_cap = cap, ch_queue = [], ch_open = True\<rparr>, th_readers = rds, th_phase = (\<lambda>_. Reading),
      th_dropped = (\<lambda>_. 0), th_inputs = (\<lambda>_. []), th_offered = [], th_taken = []\<rparr>"

inductive threads_reachable :: "nat \<Rightarrow> (nat \<Rightarrow> reader) \<Rightarrow> nat \<Rightarrow> threads \<Rightarrow> bool" for n rds cap where
  start: "threads_reachable n rds cap (threads_start rds cap)"
| step: "threads_reachable n rds cap w \<Longrightarrow> threads_step n w w' \<Longrightarrow> threads_reachable n rds cap w'"

section \<open>What a reader makes of its input\<close>

fun reads :: "port_id \<Rightarrow> reader \<Rightarrow> reader_in list \<Rightarrow> reader \<times> event list" where
  "reads port rd [] = (rd, [])"
| "reads port rd (inp # inps) =
     (let (rd, e) = read_one port rd inp; (rd, es) = reads port rd inps
      in (rd, (case e of Some e \<Rightarrow> [e] | None \<Rightarrow> []) @ es))"

fun held :: "phase \<Rightarrow> event list" where
  "held Reading = []"
| "held (Reporting e) = [e]"
| "held (Sending e) = [e]"

definition came_through :: "threads \<Rightarrow> event list" where
  "came_through w = th_taken w @ ch_queue (th_chan w)"

definition offers :: "threads \<Rightarrow> nat \<Rightarrow> event list" where
  "offers w i = map snd (filter (\<lambda>x. fst x = i) (th_offered w))"

definition from_tunnel :: "event \<Rightarrow> bool" where
  "from_tunnel e \<longleftrightarrow> (case e of EAurp _ _ \<Rightarrow> True | _ \<Rightarrow> False)"

text \<open>Every reader offered what its input decodes to; and the account of the queue.\<close>

definition reads_ok :: "nat \<Rightarrow> (nat \<Rightarrow> reader) \<Rightarrow> threads \<Rightarrow> bool" where
  "reads_ok n rds w \<longleftrightarrow>
     (\<forall>i < n. reads (word_of_nat i) (rds i) (th_inputs w i) = (th_readers w i, offers w i @ held (th_phase w i))
        \<and> (\<forall>e \<in> set (held (th_phase w i)). \<not> is_report e \<and> \<not> from_tunnel e))"

definition account_ok :: "nat \<Rightarrow> nat \<Rightarrow> threads \<Rightarrow> bool" where
  "account_ok n cap w \<longleftrightarrow>
     length (th_offered w) = length (filter (\<lambda>e. \<not> is_report e) (came_through w))
         + sum_list (map reported (came_through w)) + (\<Sum>i < n. th_dropped w i)
     \<and> subseq (filter (\<lambda>e. \<not> is_report e) (came_through w)) (map snd (th_offered w))
     \<and> filter from_tunnel (came_through w) = filter from_tunnel (map snd (th_offered w))
     \<and> length (ch_queue (th_chan w)) \<le> cap \<and> ch_cap (th_chan w) = cap"

lemma read_one_event:
  assumes "read_one port rd inp = (rd', Some e)" shows "\<not> is_report e \<and> \<not> from_tunnel e"
  using assms
  by (induction port rd inp rule: read_one.induct)
     (auto simp: lt_event_def from_tunnel_def Let_def split: prod.splits sum.splits)

lemma reads_snoc:
  "reads port rd (inps @ [inp]) =
     (let (rd, es) = reads port rd inps; (rd, e) = read_one port rd inp
      in (rd, es @ (case e of Some e \<Rightarrow> [e] | None \<Rightarrow> [])))"
  by (induction inps arbitrary: rd) (simp_all add: Let_def case_prod_beta)

lemma try_send_ok:
  assumes "try_send c e = (c', SentOk)"
  shows "c' = c\<lparr>ch_queue := ch_queue c @ [e]\<rparr>" "length (ch_queue c) < ch_cap c"
  using assms by (auto simp: try_send_def split: if_splits)

lemma sum_upd: "(i :: nat) < n \<Longrightarrow> (\<Sum>j < n. (f(i := v)) j) + f i = (\<Sum>j < n. f j) + (v :: nat)"
proof -
  assume i: "i < n"
  have "(\<Sum>j \<in> {..<n} - {i}. (f(i := v)) j) = (\<Sum>j \<in> {..<n} - {i}. f j)" by (rule sum.cong) auto
  with i sum.remove [of "{..<n}" i "f(i := v)", OF finite_lessThan] sum.remove [of "{..<n}" i f, OF finite_lessThan]
  show ?thesis by (simp del: fun_upd_apply) simp
qed

lemma reads_ok_step: "threads_step n w w' \<Longrightarrow> reads_ok n rds w \<Longrightarrow> reads_ok n rds w'"
proof (induction rule: threads_step.induct)
  case (ts_quiet i w inp rd)
  then show ?case by (auto simp: reads_ok_def offers_def reads_snoc)
next
  case (ts_read i w inp rd e)
  then show ?case using read_one_event [OF ts_read.hyps(3)] by (auto simp: reads_ok_def offers_def reads_snoc)
next
  case (ts_aurp read e w c)
  then show ?case by (auto simp: reads_ok_def offers_def)
qed (auto simp: reads_ok_def offers_def)

lemma account_ok_same:
  "account_ok n cap w \<Longrightarrow> th_chan w' = th_chan w \<Longrightarrow> th_offered w' = th_offered w \<Longrightarrow> th_dropped w' = th_dropped w
   \<Longrightarrow> th_taken w' = th_taken w \<Longrightarrow> account_ok n cap w'"
  by (simp add: account_ok_def came_through_def)

text \<open>An event that is queued, and one that is not.\<close>

lemma account_ok_queued:
  assumes "account_ok n cap w" "\<not> is_report e" "length (ch_queue (th_chan w)) < ch_cap (th_chan w)"
    and "th_chan w' = (th_chan w)\<lparr>ch_queue := ch_queue (th_chan w) @ [e]\<rparr>" "th_offered w' = th_offered w @ [(i, e)]"
    and "th_dropped w' = th_dropped w" "th_taken w' = th_taken w"
  shows "account_ok n cap w'"
  using assms subseq_snoc [where zs = "map snd (th_offered w)" and e = e]
  by (auto simp: account_ok_def came_through_def)

lemma account_ok_counted:
  assumes "account_ok n cap w" "\<not> from_tunnel e" "i < n" "th_chan w' = th_chan w" "th_taken w' = th_taken w"
    and "th_offered w' = th_offered w @ [(i, e)]" "th_dropped w' = (th_dropped w)(i := th_dropped w i + 1)"
  shows "account_ok n cap w'"
  using assms(1,2) sum_upd [OF assms(3), of "th_dropped w" "th_dropped w i + 1"]
  by (simp add: account_ok_def came_through_def assms(4-7) subseq_rev_drop_many del: fun_upd_apply)

lemma account_ok_step: "threads_step n w w' \<Longrightarrow> reads_ok n rds w \<Longrightarrow> account_ok n cap w \<Longrightarrow> account_ok n cap w'"
proof (induction rule: threads_step.induct)
  case (ts_quiet i w inp rd)
  from ts_quiet.prems(2) show ?case by (rule account_ok_same) simp_all
next
  case (ts_read i w inp rd e)
  from ts_read.prems(2) show ?case by (rule account_ok_same) simp_all
next
  case (ts_no_report i w e c)
  from ts_no_report.prems(2) show ?case by (rule account_ok_same) simp_all
next
  case (ts_report i w e c)
  note ok = try_send_ok [OF ts_report.hyps(4)]
  show ?case using ts_report.prems(2) sum_upd [OF ts_report.hyps(1), of "th_dropped w" 0] ok(2)
    by (simp add: account_ok_def came_through_def from_tunnel_def ok(1) del: fun_upd_apply)
next
  case (ts_send i w e c)
  then have e: "\<not> is_report e" by (auto simp: reads_ok_def)
  note ok = try_send_ok [OF ts_send.hyps(3)]
  show ?case by (rule account_ok_queued [OF ts_send.prems(2) e ok(2)]) (simp_all add: ok(1))
next
  case (ts_drop i w e c)
  then have "\<not> from_tunnel e" by (auto simp: reads_ok_def)
  from ts_drop.prems(2) this ts_drop.hyps(1) show ?case by (rule account_ok_counted) simp_all
next
  case (ts_aurp read e w c)
  then have e: "\<not> is_report e" by (auto simp: aurp_event_def split: aurp_read.splits)
  from ts_aurp.hyps(2) have "try_send (th_chan w) e = (c, SentOk)"
    by (auto simp: send_waiting_def split: prod.splits send_result.splits)
  note ok = try_send_ok [OF this]
  show ?case by (rule account_ok_queued [OF ts_aurp.prems(2) e ok(2)]) (simp_all add: ok(1))
next
  case (ts_recv w e q)
  then show ?case by (auto simp: account_ok_def came_through_def)
qed

lemma threads_ok:
  assumes "threads_reachable n rds cap w" shows "reads_ok n rds w \<and> account_ok n cap w"
  using assms
proof (induction rule: threads_reachable.induct)
  case start
  show ?case by (simp add: reads_ok_def account_ok_def threads_start_def offers_def came_through_def)
next
  case (step w w')
  then show ?case using reads_ok_step account_ok_step by blast
qed

text \<open>The code's \<open>post\<close> is a report, or the decision not to, and a send, with nothing between.\<close>

lemma post_two_steps:
  assumes "i < n" "th_phase w i = Reporting e" "post (th_chan w) e (th_dropped w i) = (c, d, True)"
  shows "\<exists>w1 w2. threads_step n w w1 \<and> threads_step n w1 w2 \<and> th_chan w2 = c \<and> th_dropped w2 i = d
    \<and> th_phase w2 i = Reading \<and> th_offered w2 = th_offered w @ [(i, e)]"
proof -
  define c1 d1 where "c1 = (if 0 < th_dropped w i \<and> snd (try_send (th_chan w) (EDropped (th_dropped w i))) = SentOk
      then fst (try_send (th_chan w) (EDropped (th_dropped w i))) else th_chan w)"
    and "d1 = (if 0 < th_dropped w i \<and> snd (try_send (th_chan w) (EDropped (th_dropped w i))) = SentOk
      then 0 else th_dropped w i)"
  let ?w1 = "w\<lparr>th_chan := c1, th_dropped := (th_dropped w)(i := d1), th_phase := (th_phase w)(i := Sending e)\<rparr>"
  have open_chan: "ch_open (th_chan w)" using assms(3) by (auto simp: post_def try_send_def Let_def split: if_splits)
  have first: "threads_step n w ?w1"
  proof (cases "0 < th_dropped w i \<and> snd (try_send (th_chan w) (EDropped (th_dropped w i))) = SentOk")
    case True
    with ts_report [of i n w e "fst (try_send (th_chan w) (EDropped (th_dropped w i)))"] assms(1,2) show ?thesis
      by (simp add: c1_def d1_def prod_eq_iff)
  next
    case False
    then have "th_dropped w i = 0 \<or> try_send (th_chan w) (EDropped (th_dropped w i)) = (th_chan w, Full)"
      using open_chan by (auto simp: try_send_def split: if_splits)
    moreover have "c1 = th_chan w" "d1 = th_dropped w i" unfolding c1_def d1_def by (simp_all only: False if_False)
    ultimately show ?thesis using ts_no_report [OF assms(1,2)] by simp
  qed
  consider (sent) "try_send c1 e = (c, SentOk)" "d = d1" | (full) "try_send c1 e = (c1, Full)" "c = c1" "d = d1 + 1"
    using assms(3) open_chan unfolding c1_def d1_def
    by (auto simp: post_def try_send_def Let_def split: if_splits)
  then show ?thesis
  proof cases
    case sent
    with ts_send [of i n ?w1 e c] assms(1) first show ?thesis
      by (intro exI [of _ ?w1] exI conjI) (auto simp del: fun_upd_apply, auto)
  next
    case full
    with ts_drop [of i n ?w1 e c1] assms(1) first show ?thesis
      by (intro exI [of _ ?w1] exI conjI) (auto simp del: fun_upd_apply, auto)
  qed
qed

section \<open>Property\<close>

text \<open>
  C39: Any number of reader threads and the AURP reader share one queue, their steps and the consumer's interleaved
  in any way.  Each reader offers exactly what its input decodes to, in order.  Every event offered was queued,
  in the order of the offers, or is counted: in a report that was queued, or by its reader until the next one.
  A datagram from a tunnel is never dropped, and the queue never exceeds its capacity.
\<close>

theorem readers_account:
  assumes "threads_reachable n rds cap w"
  shows "(\<forall>i < n. snd (reads (word_of_nat i) (rds i) (th_inputs w i)) = offers w i @ held (th_phase w i))
    \<and> length (th_offered w) = length (filter (\<lambda>e. \<not> is_report e) (came_through w))
         + sum_list (map reported (came_through w)) + (\<Sum>i < n. th_dropped w i)
    \<and> subseq (filter (\<lambda>e. \<not> is_report e) (came_through w)) (map snd (th_offered w))
    \<and> filter from_tunnel (came_through w) = filter from_tunnel (map snd (th_offered w))
    \<and> length (ch_queue (th_chan w)) \<le> cap"
  using threads_ok [OF assms] by (simp add: reads_ok_def account_ok_def)

text \<open>A queue with no room at all: what the UART's failure would have said is counted.\<close>

lemma a_failed_uart:
  "\<exists>w. threads_reachable 1 (\<lambda>_. UartReader decoder_new) 0 w \<and> th_offered w = [(0, EError [65])] \<and> th_dropped w 0 = 1"
proof -
  let ?w0 = "threads_start (\<lambda>_. UartReader decoder_new) 0"
  let ?w1 = "?w0\<lparr>th_readers := (th_readers ?w0)(0 := UartReader decoder_new),
    th_inputs := (th_inputs ?w0)(0 := th_inputs ?w0 0 @ [UartFail [65]]),
    th_phase := (th_phase ?w0)(0 := Reporting (EError [65]))\<rparr>"
  have "threads_step 1 ?w0 ?w1" by (rule ts_read) (simp_all add: threads_start_def)
  then have "threads_reachable 1 (\<lambda>_. UartReader decoder_new) 0 ?w1"
    by (rule threads_reachable.step [OF threads_reachable.start])
  moreover have "post (th_chan ?w1) (EError [65]) (th_dropped ?w1 0) = (th_chan ?w1, 1, True)"
    by (simp add: threads_start_def post_def try_send_def)
  from post_two_steps [OF _ _ this, of 1] obtain w w2 where "threads_step 1 ?w1 w" "threads_step 1 w w2"
    "th_dropped w2 0 = 1" "th_offered w2 = [(0, EError [65])]" by (auto simp: threads_start_def)
  ultimately show ?thesis using threads_reachable.step by blast
qed

theorem readers_account_witness:
  "\<exists>w. threads_reachable 1 (\<lambda>_. UartReader decoder_new) 0 w \<and> th_dropped w 0 = 1
     \<and> length (th_offered w) = length (filter (\<lambda>e. \<not> is_report e) (came_through w))
         + sum_list (map reported (came_through w)) + (\<Sum>i < 1. th_dropped w i)"
  using a_failed_uart readers_account by blast

end
