(* ===== verification/Session.thy ===== *)
theory Session
  imports Wire_Decode "HOL-Library.AList" "HOL-Library.Multiset"
begin

text \<open>
  \<open>src/src/session.rs\<close>: reassembly of ATP responses into transactions.  The open transactions are a
  hash map in the code; here an association list with distinct keys, and the order in which a hash
  map happens to be iterated is the parameter \<open>ord\<close>, a permutation.  The lemmas show that the table stays
  bounded, and that a message comes out exactly when its last missing segment arrives, whatever the
  order, the duplicates and the other transactions in flight.
\<close>

definition ZIS :: u8 where "ZIS = 6"

record txn_key =
  tk_src :: addr
  tk_src_socket :: u8
  tk_dst :: addr
  tk_dst_socket :: u8
  tk_tid :: u16

record transaction =
  tx_key :: txn_key
  tx_user_bytes :: bytes
  tx_data :: bytes
  tx_at :: instant

record partial =
  pt_segments :: "bytes option list"
  pt_user_bytes :: bytes
  pt_last :: "u8 option"
  pt_first_seen :: instant

definition partial_new :: "instant \<Rightarrow> partial" where
  "partial_new first_seen =
     \<lparr>pt_segments = replicate 8 None, pt_user_bytes = [0, 0, 0, 0], pt_last = None,
      pt_first_seen = first_seen\<rparr>"

text \<open>The loop over \<open>0..=last\<close> that gives up at the first missing segment.\<close>

fun collect :: "bytes option list \<Rightarrow> nat list \<Rightarrow> bytes option" where
  "collect segs [] = Some []"
| "collect segs (seq # rest) =
     do { slot \<leftarrow> get_at segs seq; d \<leftarrow> slot; out \<leftarrow> collect segs rest; Some (d @ out) }"

definition take_if_complete :: "partial \<Rightarrow> bytes option" where
  "take_if_complete p =
     do { last \<leftarrow> pt_last p; collect (pt_segments p) [0..<Suc (unat last)] }"

definition TXN_TIMEOUT :: duration where "TXN_TIMEOUT = secs 30"
definition MAX_OPEN :: nat where "MAX_OPEN = 512"

type_synonym open_txns = "(txn_key \<times> partial) list"

definition expire :: "(open_txns \<Rightarrow> open_txns) \<Rightarrow> instant \<Rightarrow> open_txns \<Rightarrow> open_txns" where
  "expire ord now opn =
     (let opn = filter (\<lambda>(_, p). since now (pt_first_seen p) < TXN_TIMEOUT) opn
      in if length opn \<ge> MAX_OPEN then
           let times = sort_key (\<lambda>(_, p). pt_first_seen p) (ord opn);
               victims = take (length opn - (MAX_OPEN - 1)) times
           in fold (\<lambda>(k, _). AList.delete k) victims opn
         else opn)"

definition txns_push ::
    "(open_txns \<Rightarrow> open_txns) \<Rightarrow> instant \<Rightarrow> packet \<Rightarrow> open_txns \<Rightarrow> open_txns \<times> transaction option" where
  "txns_push ord at p opn =
     (let opn = expire ord at opn in
      case pk_body p of
        BDdp ddp (BAtp atp) \<Rightarrow>
          if t_func atp \<noteq> Resp then (opn, None)
          else let seq = t_bitmap atp in
            if seq > 7 then (opn, None)
            else
              let key = \<lparr>tk_src = d_src ddp, tk_src_socket = d_src_socket ddp, tk_dst = d_dst ddp,
                         tk_dst_socket = d_dst_socket ddp, tk_tid = t_tid atp\<rparr>;
                  pt = (case map_of opn key of Some pt \<Rightarrow> pt | None \<Rightarrow> partial_new at);
                  pt = (if seq = 0 then pt\<lparr>pt_user_bytes := t_user_bytes atp\<rparr> else pt);
                  pt = pt\<lparr>pt_segments := (pt_segments pt)[unat seq := Some (t_data atp)]\<rparr>;
                  pt = (if atp_eom atp then pt\<lparr>pt_last := Some seq\<rparr> else pt)
              in case take_if_complete pt of
                   None \<Rightarrow> (AList.update key pt opn, None)
                 | Some dat \<Rightarrow>
                     (AList.delete key opn,
                      Some \<lparr>tx_key = key, tx_user_bytes = pt_user_bytes pt, tx_data = dat, tx_at = at\<rparr>)
      | _ \<Rightarrow> (opn, None))"

definition txns_flush :: "open_txns \<Rightarrow> open_txns" where
  "txns_flush _ = []"

datatype message = Unclassified transaction | MZip zip_atp

definition session_push ::
    "(open_txns \<Rightarrow> open_txns) \<Rightarrow> instant \<Rightarrow> packet \<Rightarrow> open_txns \<Rightarrow> open_txns \<times> message list" where
  "session_push ord at p opn =
     (case txns_push ord at p opn of
        (opn, None) \<Rightarrow> (opn, [])
      | (opn, Some txn) \<Rightarrow>
          (opn,
           case (if tk_src_socket (tx_key txn) = ZIS
                 then zip_atp_parse_reply (tx_user_bytes txn) (tx_data txn) else None) of
             Some z \<Rightarrow> [MZip z]
           | None \<Rightarrow> [Unclassified txn]))"

section \<open>The table stays bounded\<close>

definition partial_ok :: "partial \<Rightarrow> bool" where
  "partial_ok p \<longleftrightarrow> length (pt_segments p) = 8
     \<and> (case pt_last p of None \<Rightarrow> True | Some l \<Rightarrow> l \<le> 7)"

definition open_ok :: "open_txns \<Rightarrow> bool" where
  "open_ok opn \<longleftrightarrow> distinct (map fst opn) \<and> (\<forall>x \<in> set opn. partial_ok (snd x))"

lemma open_ok_filter: "open_ok opn \<Longrightarrow> open_ok (filter P opn)"
  by (auto simp: open_ok_def distinct_map_filter)

lemma open_ok_delete: "open_ok opn \<Longrightarrow> open_ok (AList.delete k opn)"
  by (simp add: AList.delete_eq open_ok_filter)

lemma open_ok_deletes: "open_ok opn \<Longrightarrow> open_ok (fold (\<lambda>(k, _). AList.delete k) vs opn)"
  by (induction vs arbitrary: opn) (auto simp: open_ok_delete)

lemma alist_update_subset: "set (AList.update k v al) \<subseteq> insert (k, v) (set al)"
  by (induction al) auto

lemma open_ok_update: "open_ok opn \<Longrightarrow> partial_ok p \<Longrightarrow> open_ok (AList.update k p opn)"
  using alist_update_subset [of k p opn] by (fastforce simp: open_ok_def distinct_update)

lemma delete_length:
  "distinct (map fst opn) \<Longrightarrow> k \<in> fst ` set opn \<Longrightarrow> Suc (length (AList.delete k opn)) = length opn"
proof (induction opn)
  case (Cons x opn)
  show ?case
  proof (cases "fst x = k")
    case True
    with Cons.prems have "k \<notin> fst ` set opn" by auto
    then have "filter (\<lambda>(k', _). k \<noteq> k') opn = opn" by (force intro!: filter_True)
    with True show ?thesis by (cases x) (simp add: AList.delete_eq)
  qed (use Cons in \<open>auto simp: AList.delete_eq\<close>)
qed simp

lemma dom_delete: "fst ` set (AList.delete k opn) = fst ` set opn - {k}"
  using arg_cong [OF delete_keys, of set k opn] by simp

lemma deletes_length:
  "distinct (map fst opn) \<Longrightarrow> distinct (map fst vs) \<Longrightarrow> fst ` set vs \<subseteq> fst ` set opn \<Longrightarrow>
   length (fold (\<lambda>(k, _). AList.delete k) vs opn) + length vs = length opn"
proof (induction vs arbitrary: opn)
  case (Cons v vs)
  then have "length (fold (\<lambda>(k, _). AList.delete k) vs (AList.delete (fst v) opn)) + length vs
      = length (AList.delete (fst v) opn)"
    by (intro Cons.IH) (simp_all add: distinct_delete dom_delete, blast)
  with delete_length [of opn "fst v"] Cons.prems show ?case by (cases v) simp
qed simp

lemma expire_ok: "open_ok opn \<Longrightarrow> open_ok (expire ord now opn)"
  by (simp add: expire_def Let_def open_ok_filter open_ok_deletes)

lemma expire_length:
  assumes ok: "open_ok opn" and ord: "\<And>xs. mset (ord xs) = mset xs"
  shows "length (expire ord now opn) < MAX_OPEN"
proof -
  define kept where "kept = filter (\<lambda>(_, p). since now (pt_first_seen p) < TXN_TIMEOUT) opn"
  define sorted where "sorted = sort_key (\<lambda>(_, p). pt_first_seen p) (ord kept)"
  define victims where "victims = take (length kept - (MAX_OPEN - 1)) sorted"
  have d: "distinct (map fst kept)"
    using open_ok_filter [OF ok] by (simp add: open_ok_def kept_def)
  have m: "mset sorted = mset kept" by (simp add: sorted_def ord)
  then have ms: "mset (map fst sorted) = mset (map fst kept)" by simp
  from m have set: "set sorted = set kept" by (rule mset_eq_setD)
  from m have len: "length sorted = length kept" by (rule mset_eq_length)
  have "distinct (map fst sorted)" using d mset_eq_imp_distinct_iff [OF ms] by blast
  then have "distinct (map fst victims)" by (simp add: victims_def take_map [symmetric] distinct_take)
  moreover have "fst ` set victims \<subseteq> fst ` set kept"
    using set by (auto simp: victims_def dest: in_set_takeD)
  ultimately have "length (fold (\<lambda>(k, _). AList.delete k) victims kept) + length victims = length kept"
    by (rule deletes_length [OF d])
  moreover have "length victims = length kept - (MAX_OPEN - 1)" by (simp add: victims_def len)
  moreover have "expire ord now opn
      = (if length kept \<ge> MAX_OPEN then fold (\<lambda>(k, _). AList.delete k) victims kept else kept)"
    by (simp only: expire_def Let_def kept_def [symmetric] sorted_def [symmetric] victims_def [symmetric])
  ultimately show ?thesis by (auto simp: MAX_OPEN_def)
qed

lemma expire_small:
  "length opn < MAX_OPEN \<Longrightarrow>
   expire ord now opn = filter (\<lambda>(_, p). since now (pt_first_seen p) < TXN_TIMEOUT) opn"
proof -
  let ?kept = "filter (\<lambda>(_, p). since now (pt_first_seen p) < TXN_TIMEOUT) opn"
  assume "length opn < MAX_OPEN"
  then have "\<not> length ?kept \<ge> MAX_OPEN" by (auto simp: not_le intro: le_less_trans [OF length_filter_le])
  then show ?thesis by (simp only: expire_def Let_def if_False)
qed

lemma update_length: "length (AList.update k v al) \<le> Suc (length al)"
  by (induction al) auto

lemma delete_length_le: "length (AList.delete k al) \<le> length al"
  by (simp add: AList.delete_eq)

text \<open>The entry a segment leaves behind, before it is tested for completeness.\<close>

definition add_segment :: "atp \<Rightarrow> partial \<Rightarrow> partial" where
  "add_segment a pt =
     (let seq = t_bitmap a;
          pt = (if seq = 0 then pt\<lparr>pt_user_bytes := t_user_bytes a\<rparr> else pt);
          pt = pt\<lparr>pt_segments := (pt_segments pt)[unat seq := Some (t_data a)]\<rparr>
      in if atp_eom a then pt\<lparr>pt_last := Some seq\<rparr> else pt)"

definition key_of :: "ddp \<Rightarrow> atp \<Rightarrow> txn_key" where
  "key_of d a = \<lparr>tk_src = d_src d, tk_src_socket = d_src_socket d, tk_dst = d_dst d,
                 tk_dst_socket = d_dst_socket d, tk_tid = t_tid a\<rparr>"

definition entry_or_new :: "instant \<Rightarrow> open_txns \<Rightarrow> txn_key \<Rightarrow> partial" where
  "entry_or_new at opn k = (case map_of opn k of Some pt \<Rightarrow> pt | None \<Rightarrow> partial_new at)"

lemma txns_push_segment:
  assumes "pk_body p = BDdp d (BAtp a)" "t_func a = Resp" "t_bitmap a \<le> 7"
  shows "txns_push ord at p opn =
    (let opn = expire ord at opn; pt = add_segment a (entry_or_new at opn (key_of d a)) in
     case take_if_complete pt of
       None \<Rightarrow> (AList.update (key_of d a) pt opn, None)
     | Some dat \<Rightarrow>
         (AList.delete (key_of d a) opn,
          Some \<lparr>tx_key = key_of d a, tx_user_bytes = pt_user_bytes pt, tx_data = dat, tx_at = at\<rparr>))"
proof -
  have n: "\<not> t_bitmap a > 7" using assms(3) by simp
  show ?thesis
    by (simp only: txns_push_def assms(1,2) n body.case ddp_body.case if_False simp_thms Let_def
          add_segment_def key_of_def entry_or_new_def)
qed

lemma txns_push_other:
  assumes "\<nexists>d a. pk_body p = BDdp d (BAtp a) \<and> t_func a = Resp \<and> t_bitmap a \<le> 7"
  shows "txns_push ord at p opn = (expire ord at opn, None)"
  using assms by (auto simp: txns_push_def Let_def not_less split: body.split ddp_body.split)

lemma partial_new_ok: "partial_ok (partial_new t)"
  by (simp add: partial_ok_def partial_new_def)

lemma add_segment_ok: "partial_ok pt \<Longrightarrow> t_bitmap a \<le> 7 \<Longrightarrow> partial_ok (add_segment a pt)"
  by (simp add: partial_ok_def add_segment_def Let_def)

lemma txns_push_ok:
  assumes ok: "open_ok opn" and ord: "\<And>xs. mset (ord xs) = mset xs"
  shows "open_ok (fst (txns_push ord at p opn)) \<and> length (fst (txns_push ord at p opn)) \<le> MAX_OPEN"
proof (cases "\<exists>d a. pk_body p = BDdp d (BAtp a) \<and> t_func a = Resp \<and> t_bitmap a \<le> 7")
  case True
  then obtain d a where p: "pk_body p = BDdp d (BAtp a)" "t_func a = Resp" "t_bitmap a \<le> 7" by blast
  let ?opn = "expire ord at opn" let ?pt = "add_segment a (entry_or_new at ?opn (key_of d a))"
  have l: "length ?opn < MAX_OPEN" using ok ord by (rule expire_length)
  have o: "open_ok ?opn" using ok by (rule expire_ok)
  then have "partial_ok (entry_or_new at ?opn (key_of d a))"
    by (auto simp: entry_or_new_def partial_new_ok open_ok_def split: option.split dest: map_of_SomeD)
  then have pt: "partial_ok ?pt" using p(3) by (rule add_segment_ok)
  show ?thesis
    using o pt l update_length [of "key_of d a" ?pt ?opn] delete_length_le [of "key_of d a" ?opn]
    by (auto simp: txns_push_segment [OF p] Let_def open_ok_update open_ok_delete split: option.split)
next
  case False
  then show ?thesis
    using expire_ok [OF ok] expire_length [OF ok ord] by (simp add: txns_push_other less_imp_le)
qed

section \<open>Reassembly\<close>

text \<open>
  A message of \<open>n\<close> segments \<open>seg 0 .. seg (n - 1)\<close> with user bytes \<open>ub\<close>.  \<open>holds Q\<close> says what an entry
  contains once the segments in \<open>Q\<close> have arrived.
\<close>

definition is_segment :: "txn_key \<Rightarrow> nat \<Rightarrow> (nat \<Rightarrow> bytes) \<Rightarrow> (nat \<Rightarrow> bytes) \<Rightarrow> nat \<Rightarrow> packet \<Rightarrow> bool" where
  "is_segment key n seg ub q p \<longleftrightarrow>
     (case pk_body p of
        BDdp d (BAtp a) \<Rightarrow> t_func a = Resp \<and> key_of d a = key \<and> q < n \<and> t_bitmap a = word_of_nat q
          \<and> t_data a = seg q \<and> t_user_bytes a = ub q \<and> atp_eom a = (Suc q = n)
      | _ \<Rightarrow> False)"

definition holds ::
    "nat \<Rightarrow> (nat \<Rightarrow> bytes) \<Rightarrow> (nat \<Rightarrow> bytes) \<Rightarrow> instant \<Rightarrow> nat set \<Rightarrow> partial \<Rightarrow> bool" where
  "holds n seg ub t0 Q pt \<longleftrightarrow>
     Q \<subseteq> {..<n} \<and> pt_segments pt = map (\<lambda>j. if j \<in> Q then Some (seg j) else None) [0..<8]
     \<and> pt_last pt = (if n - 1 \<in> Q then Some (word_of_nat (n - 1)) else None)
     \<and> (0 \<in> Q \<longrightarrow> pt_user_bytes pt = ub 0) \<and> pt_first_seen pt = t0"

lemma is_segmentE:
  assumes "is_segment key n seg ub q p"
  obtains d a where "pk_body p = BDdp d (BAtp a)" "t_func a = Resp" "key_of d a = key" "q < n"
    "t_bitmap a = word_of_nat q" "t_data a = seg q" "t_user_bytes a = ub q" "atp_eom a = (Suc q = n)"
  using assms by (auto simp: is_segment_def split: body.splits ddp_body.splits)

lemma is_segment_lt: "is_segment key n seg ub q p \<Longrightarrow> q < n"
  by (auto elim: is_segmentE)

lemma holds_new: "holds n seg ub t {} (partial_new t)"
  by (simp add: holds_def partial_new_def numeral_eq_Suc)

lemma add_segment_sel:
  "pt_segments (add_segment a pt) = (pt_segments pt)[unat (t_bitmap a) := Some (t_data a)]"
  "pt_last (add_segment a pt) = (if atp_eom a then Some (t_bitmap a) else pt_last pt)"
  "pt_user_bytes (add_segment a pt) = (if t_bitmap a = 0 then t_user_bytes a else pt_user_bytes pt)"
  "pt_first_seen (add_segment a pt) = pt_first_seen pt"
  by (simp_all add: add_segment_def Let_def)

lemma holds_add:
  assumes h: "holds n seg ub t0 Q pt" and n: "n \<le> 8" "q < n"
    and a: "t_bitmap a = word_of_nat q" "t_data a = seg q" "t_user_bytes a = ub q"
      "atp_eom a = (Suc q = n)"
  shows "holds n seg ub t0 (insert q Q) (add_segment a pt)"
proof -
  have u: "unat (t_bitmap a) = q" unfolding a(1) using n by (intro unat_small_u8) simp
  then have z: "t_bitmap a = 0 \<longleftrightarrow> q = 0" by (metis unat_eq_zero)
  have segs: "(map (\<lambda>j. if j \<in> Q then Some (seg j) else None) [0..<8])[q := Some (seg q)]
      = map (\<lambda>j. if j \<in> insert q Q then Some (seg j) else None) [0..<8]"
    using n by (intro nth_equalityI) (auto simp: nth_list_update)
  have "n - 1 \<in> insert q Q \<longleftrightarrow> Suc q = n \<or> n - 1 \<in> Q" using n by auto
  moreover have "Suc q = n \<Longrightarrow> t_bitmap a = word_of_nat (n - 1)" using a(1) by auto
  ultimately have last: "pt_last (add_segment a pt)
      = (if n - 1 \<in> insert q Q then Some (word_of_nat (n - 1)) else None)"
    using h a(4) by (simp only: add_segment_sel holds_def) presburger
  have "0 \<in> insert q Q \<longrightarrow> pt_user_bytes (add_segment a pt) = ub 0"
    using h a(3) by (auto simp add: add_segment_sel z holds_def)
  moreover have "pt_segments (add_segment a pt)
      = map (\<lambda>j. if j \<in> insert q Q then Some (seg j) else None) [0..<8]"
    using h segs by (simp only: add_segment_sel u a(2) holds_def)
  ultimately show ?thesis
    using h n last by (auto simp only: holds_def add_segment_sel(4) insert_subset lessThan_iff)
qed

lemma holds_ok:
  assumes "holds n seg ub t0 Q pt" "n \<le> 8" shows "partial_ok pt"
proof -
  have "unat (word_of_nat (n - 1) :: u8) = n - 1" using assms(2) by (intro unat_small_u8) simp
  then have "(word_of_nat (n - 1) :: u8) \<le> 7" using assms(2) by (simp add: word_le_nat_alt)
  with assms show ?thesis by (auto simp: holds_def partial_ok_def)
qed

lemma collect_holds:
  "set js \<subseteq> {..<8} \<Longrightarrow>
   collect (map (\<lambda>j. if j \<in> Q then Some (seg j) else None) [0..<8]) js
     = (if set js \<subseteq> Q then Some (concat (map seg js)) else None)"
  by (induction js) (auto simp: get_at_def)

lemma take_holds:
  assumes h: "holds n seg ub t0 Q pt" and n: "0 < n" "n \<le> 8"
  shows "take_if_complete pt = (if Q = {..<n} then Some (concat (map seg [0..<n])) else None)"
proof (cases "n - 1 \<in> Q")
  case True
  with h have l: "pt_last pt = Some (word_of_nat (n - 1))" by (simp add: holds_def)
  have u: "Suc (unat (word_of_nat (n - 1) :: u8)) = n" using n by (subst unat_small_u8) simp_all
  have "collect (pt_segments pt) [0..<n] = (if set [0..<n] \<subseteq> Q then Some (concat (map seg [0..<n])) else None)"
  proof -
    have sub: "set [0..<n] \<subseteq> {..<8}" using n(2) by auto
    from h have segs: "pt_segments pt = map (\<lambda>j. if j \<in> Q then Some (seg j) else None) [0..<8]"
      by (simp only: holds_def)
    show ?thesis unfolding segs by (rule collect_holds [OF sub])
  qed
  then have "take_if_complete pt = (if set [0..<n] \<subseteq> Q then Some (concat (map seg [0..<n])) else None)"
    by (simp only: take_if_complete_def l Option.bind.simps u)
  moreover have "set [0..<n] \<subseteq> Q \<longleftrightarrow> Q = {..<n}" using h by (auto simp: holds_def)
  ultimately show ?thesis by simp
next
  case False
  with h n show ?thesis by (auto simp: holds_def take_if_complete_def)
qed

text \<open>What is true of the table between two segments of the message.\<close>

definition awaiting ::
    "txn_key \<Rightarrow> nat \<Rightarrow> (nat \<Rightarrow> bytes) \<Rightarrow> (nat \<Rightarrow> bytes) \<Rightarrow> instant \<Rightarrow> nat set \<Rightarrow> open_txns \<Rightarrow> bool" where
  "awaiting key n seg ub t0 Q opn \<longleftrightarrow>
     open_ok opn \<and> Suc (length (AList.delete key opn)) < MAX_OPEN
     \<and> (if Q = {} then map_of opn key = None
        else \<exists>pt. map_of opn key = Some pt \<and> holds n seg ub t0 Q pt)"

lemma length_le_delete: "distinct (map fst opn) \<Longrightarrow> length opn \<le> Suc (length (AList.delete k opn))"
  using delete_length [of opn k] by (cases "k \<in> fst ` set opn") (auto simp: delete_idem)

lemma map_of_filter_snd:
  "distinct (map fst al) \<Longrightarrow> map_of (filter (\<lambda>(_, p). P p) al) k
     = (case map_of al k of Some p \<Rightarrow> if P p then Some p else None | None \<Rightarrow> None)"
proof (induction al)
  case (Cons x al)
  obtain k' v where x: "x = (k', v)" by (cases x)
  with Cons have IH: "map_of (filter (\<lambda>(_, p). P p) al) k
     = (case map_of al k of Some p \<Rightarrow> if P p then Some p else None | None \<Rightarrow> None)"
    and "k' \<notin> fst ` set al" by auto
  then have "map_of al k' = None" "map_of (filter (\<lambda>(_, p). P p) al) k' = None"
    by (force simp: map_of_eq_None_iff)+
  then show ?case by (auto simp: x IH)
qed simp

lemma length_delete_filter: "length (AList.delete k (filter P al)) \<le> length (AList.delete k al)"
proof -
  have "AList.delete k (filter P al) = filter P (AList.delete k al)"
    by (simp add: AList.delete_eq conj_commute)
  then show ?thesis by simp
qed

lemma push_segment:
  assumes aw: "awaiting key n seg ub t0 Q opn" and n: "n \<le> 8"
    and s: "is_segment key n seg ub q p" and t: "since at t0 < TXN_TIMEOUT" "Q = {} \<Longrightarrow> at = t0"
  shows "if insert q Q = {..<n}
    then snd (txns_push ord at p opn) = Some \<lparr>tx_key = key, tx_user_bytes = ub 0,
           tx_data = concat (map seg [0..<n]), tx_at = at\<rparr>
    else snd (txns_push ord at p opn) = None
         \<and> awaiting key n seg ub t0 (insert q Q) (fst (txns_push ord at p opn))"
proof -
  obtain d a where p: "pk_body p = BDdp d (BAtp a)" "t_func a = Resp" "key_of d a = key" "q < n"
    "t_bitmap a = word_of_nat q" "t_data a = seg q" "t_user_bytes a = ub q" "atp_eom a = (Suc q = n)"
    using s by (rule is_segmentE)
  let ?opn = "expire ord at opn"
  let ?e = "entry_or_new at ?opn key" let ?pt = "add_segment a ?e"
  from aw have ok: "open_ok opn" and dist: "distinct (map fst opn)"
    and room: "Suc (length (AList.delete key opn)) < MAX_OPEN"
    by (auto simp: awaiting_def open_ok_def)
  have opn: "?opn = filter (\<lambda>(_, p). since at (pt_first_seen p) < TXN_TIMEOUT) opn"
    using length_le_delete [OF dist, of key] room by (intro expire_small) simp
  have "unat (t_bitmap a) = q" unfolding p(5) using n p(4) by (intro unat_small_u8) simp
  then have b7: "t_bitmap a \<le> 7" using n p(4) by (simp add: word_le_nat_alt)
  have e: "holds n seg ub t0 Q ?e"
  proof (cases "Q = {}")
    case True
    with aw have "map_of opn key = None" by (simp add: awaiting_def)
    then have "?e = partial_new at" by (simp add: entry_or_new_def opn map_of_filter_snd [OF dist])
    with True t(2) show ?thesis by (simp add: holds_new)
  next
    case False
    with aw obtain pt where "map_of opn key = Some pt" "holds n seg ub t0 Q pt"
      by (auto simp: awaiting_def)
    with t(1) have "?e = pt"
      by (simp add: entry_or_new_def opn map_of_filter_snd [OF dist] holds_def)
    with \<open>holds n seg ub t0 Q pt\<close> show ?thesis by simp
  qed
  have pt: "holds n seg ub t0 (insert q Q) ?pt"
    using holds_add [OF e n p(4)] p(5-8) by blast
  have fin: "take_if_complete ?pt = (if insert q Q = {..<n} then Some (concat (map seg [0..<n])) else None)"
    using take_holds [OF pt _ n] p(4) by simp
  have ub: "insert q Q = {..<n} \<Longrightarrow> pt_user_bytes ?pt = ub 0"
    using pt p(4) by (auto simp: holds_def)
  have okp: "partial_ok ?pt" using pt n by (rule holds_ok)
  have o: "open_ok ?opn" using ok by (rule expire_ok)
  have "Suc (length (AList.delete key (AList.update key ?pt ?opn))) < MAX_OPEN"
    using length_delete_filter [of key _ opn] room unfolding opn delete_update_same
    by (meson Suc_le_mono le_less_trans)
  then have aw': "awaiting key n seg ub t0 (insert q Q) (AList.update key ?pt ?opn)"
    using o okp pt by (auto simp: awaiting_def open_ok_update update_conv')
  show ?thesis
    using fin ub aw' p(3)
    by (simp add: txns_push_segment [OF p(1,2) b7] Let_def)
qed

text \<open>A run of packets, each with its arrival time, and what every push gave.\<close>

fun pushes ::
    "(open_txns \<Rightarrow> open_txns) \<Rightarrow> (instant \<times> packet) list \<Rightarrow> open_txns \<Rightarrow> open_txns \<times> transaction option list" where
  "pushes ord [] opn = (opn, [])"
| "pushes ord ((at, p) # ps) opn =
     (let (opn, t) = txns_push ord at p opn; (opn, ts) = pushes ord ps opn in (opn, t # ts))"

lemma pushes_append:
  "snd (pushes ord (xs @ ys) opn)
     = snd (pushes ord xs opn) @ snd (pushes ord ys (fst (pushes ord xs opn)))"
  by (induction xs arbitrary: opn) (simp_all add: Let_def case_prod_beta split_paired_all)

lemma pushes_awaiting:
  assumes "awaiting key n seg ub t0 Q opn" "n \<le> 8"
    and "\<forall>(at, q, p) \<in> set ms. is_segment key n seg ub q p \<and> since at t0 < TXN_TIMEOUT"
    and "Q = {} \<Longrightarrow> ms \<noteq> [] \<Longrightarrow> fst (hd ms) = t0"
    and "\<not> {..<n} \<subseteq> Q \<union> (fst \<circ> snd) ` set ms"
  shows "snd (pushes ord (map (\<lambda>(at, _, p). (at, p)) ms) opn) = replicate (length ms) None
    \<and> awaiting key n seg ub t0 (Q \<union> (fst \<circ> snd) ` set ms)
         (fst (pushes ord (map (\<lambda>(at, _, p). (at, p)) ms) opn))"
  using assms
proof (induction ms arbitrary: Q opn)
  case (Cons m ms)
  obtain at q p where m: "m = (at, q, p)" by (cases m)
  obtain opn' r where push: "txns_push ord at p opn = (opn', r)" by fastforce
  have "insert q Q \<noteq> {..<n}" using Cons.prems(5) by (auto simp: m)
  with push_segment [OF Cons.prems(1,2), of q p at ord] Cons.prems(3,4)
  have step: "r = None" "awaiting key n seg ub t0 (insert q Q) opn'"
    by (auto simp: m push)
  have "snd (pushes ord (map (\<lambda>(at, _, p). (at, p)) ms) opn') = replicate (length ms) None
    \<and> awaiting key n seg ub t0 (insert q Q \<union> (fst \<circ> snd) ` set ms)
         (fst (pushes ord (map (\<lambda>(at, _, p). (at, p)) ms) opn'))"
    using Cons.prems(2,3,5) by (intro Cons.IH [OF step(2)]) (auto simp: m)
  then show ?case
    by (cases "pushes ord (map (\<lambda>(at, _, p). (at, p)) ms) opn'") (simp add: m push step(1))
qed simp

section \<open>Properties\<close>

text \<open>
  C38: Reassembly.  Let the segments of one ATP response message arrive in any order and with any
  duplicates, all within the release timeout of the first, while other transactions are open.  Then
  nothing is delivered before the last missing segment, and that segment's arrival delivers the
  payloads concatenated in sequence order, with the user bytes of segment 0.
\<close>

theorem reassembly_complete:
  assumes "open_ok opn" "Suc (length opn) < MAX_OPEN" "map_of opn key = None" "n \<le> 8"
    and "\<forall>(at, q, p) \<in> set (ms @ [m]). is_segment key n seg ub q p \<and> since at t0 < TXN_TIMEOUT"
    and "fst (hd (ms @ [m])) = t0"
    and "\<not> {..<n} \<subseteq> (fst \<circ> snd) ` set ms" "{..<n} \<subseteq> (fst \<circ> snd) ` set (ms @ [m])"
  shows "snd (pushes ord (map (\<lambda>(at, _, p). (at, p)) (ms @ [m])) opn)
    = replicate (length ms) None
      @ [Some \<lparr>tx_key = key, tx_user_bytes = ub 0, tx_data = concat (map seg [0..<n]), tx_at = fst m\<rparr>]"
proof -
  obtain at q p where m: "m = (at, q, p)" by (cases m)
  let ?Q = "(fst \<circ> snd) ` set ms"
  let ?opn = "fst (pushes ord (map (\<lambda>(at, _, p). (at, p)) ms) opn)"
  have "awaiting key n seg ub t0 {} opn"
    using assms(1-3) delete_length_le [of key opn] by (simp add: awaiting_def)
  from pushes_awaiting [OF this assms(4), of ms ord] assms(5-7)
  have r: "snd (pushes ord (map (\<lambda>(at, _, p). (at, p)) ms) opn) = replicate (length ms) None"
    and aw: "awaiting key n seg ub t0 ?Q ?opn"
    by (cases ms; auto)+
  have "?Q \<subseteq> {..<n}" "q < n" using assms(5) by (force simp: m dest: is_segment_lt)+
  with assms(8) have full: "insert q ?Q = {..<n}" by (auto simp: m)
  have "?Q = {} \<Longrightarrow> at = t0" using assms(6) by (cases ms) (auto simp: m)
  with push_segment [OF aw assms(4), of q p at ord] assms(5) full
  have "snd (txns_push ord at p ?opn) = Some \<lparr>tx_key = key, tx_user_bytes = ub 0,
           tx_data = concat (map seg [0..<n]), tx_at = at\<rparr>"
    by (simp add: m)
  then show ?thesis by (simp add: pushes_append r m case_prod_beta)
qed

text \<open>A two-segment message, its second half first and a duplicate in between.\<close>

definition example_segment :: "nat \<Rightarrow> packet" where
  "example_segment q =
     (let a = atp_response 77 (word_of_nat q) (q = 1) False [1, 2, 3, 4] [word_of_nat q, 9];
          d = \<lparr>d_hops = 0, d_length = 23, d_checksum = 0, d_dst = mk_addr 3 4, d_dst_socket = 200,
               d_src = mk_addr 5 6, d_src_socket = 6, d_typ = DDP_ATP, d_data = atp_encode a\<rparr>
      in \<lparr>pk_frame = \<lparr>f_dst = Mac 0 0 0 0 0 1, f_src = Mac 0 0 0 0 0 2, f_proto = DDP, f_snap = True,
                      f_payload = ddp_encode d\<rparr>,
          pk_body = BDdp d (BAtp a)\<rparr>)"

theorem reassembly_complete_witness:
  "snd (pushes id [(10, example_segment 1), (11, example_segment 1), (12, example_segment 0)] [])
   = [None, None,
      Some \<lparr>tx_key = \<lparr>tk_src = mk_addr 5 6, tk_src_socket = 6, tk_dst = mk_addr 3 4,
                     tk_dst_socket = 200, tk_tid = 77\<rparr>,
            tx_user_bytes = [1, 2, 3, 4], tx_data = [0, 9, 1, 9], tx_at = 12\<rparr>]"
proof -
  let ?key = "\<lparr>tk_src = mk_addr 5 6, tk_src_socket = 6, tk_dst = mk_addr 3 4,
               tk_dst_socket = 200, tk_tid = 77\<rparr>"
  let ?ms = "[(10 :: nat, 1 :: nat, example_segment 1), (11, 1, example_segment 1)]"
  have s: "is_segment ?key 2 (\<lambda>q. [word_of_nat q, 9]) (\<lambda>_. [1, 2, 3, 4]) q (example_segment q)"
    if "q < 2" for q
    using that
    by (auto simp: is_segment_def example_segment_def key_of_def atp_response_def atp_eom_def Let_def
             less_2_cases_iff)
  have "snd (pushes id (map (\<lambda>(at, _, p). (at, p)) (?ms @ [(12, 0, example_segment 0)])) [])
    = replicate (length ?ms) None
      @ [Some \<lparr>tx_key = ?key, tx_user_bytes = [1, 2, 3, 4],
               tx_data = concat (map (\<lambda>q. [word_of_nat q, 9]) [0..<2]), tx_at = fst (12, 0 :: nat, example_segment 0)\<rparr>]"
    by (rule reassembly_complete [where ?t0.0 = 10 and seg = "\<lambda>q. [word_of_nat q, 9]" and ub = "\<lambda>_. [1, 2, 3, 4]"
          and key = ?key and n = 2 and opn = "[]" and ms = ?ms and m = "(12, 0, example_segment 0)"])
       (auto simp: s since_def TXN_TIMEOUT_def secs_def open_ok_def MAX_OPEN_def lessThan_nat_numeral lessThan_Suc)
  then show ?thesis by (simp add: upt_rec)
qed

text \<open>
  Whatever packets arrive and however the hash map happens to be iterated, the table never holds
  more than 512 open transactions, each under its own key with its eight segment slots.
\<close>

theorem open_transactions_bounded:
  assumes "\<And>xs. mset (ord xs) = mset xs"
  shows "open_ok (fst (pushes ord ps [])) \<and> length (fst (pushes ord ps [])) \<le> 512"
proof -
  have "open_ok (fst (pushes ord ps opn)) \<and> length (fst (pushes ord ps opn)) \<le> 512"
    if "open_ok opn" "length opn \<le> 512" for opn
    using that
  proof (induction ps arbitrary: opn)
    case (Cons x ps)
    obtain at p where x: "x = (at, p)" by (cases x)
    have "open_ok (fst (txns_push ord at p opn)) \<and> length (fst (txns_push ord at p opn)) \<le> 512"
      using txns_push_ok [OF Cons.prems(1) assms, of at p] by (simp add: MAX_OPEN_def)
    then show ?case using Cons.IH by (simp add: x Let_def case_prod_beta)
  qed simp
  from this [of "[]"] show ?thesis by (simp add: open_ok_def)
qed

theorem open_transactions_bounded_witness:
  "length (fst (pushes rev [(10, example_segment 1), (11, example_segment 0)] [])) \<le> 512"
  using open_transactions_bounded [of rev "[(10, example_segment 1), (11, example_segment 0)]"] by simp

end
