(* ===== verification/Selection.thy ===== *)
theory Selection
  imports Main
begin

text \<open>
  The loop that keeps the best item seen so far, for any strict preference.  The contract of a
  preference is that it is asymmetric and that not being preferred is transitive; under it the loop
  yields the first of the most preferred items, which determines it uniquely.
\<close>

fun select :: "('a \<Rightarrow> 'a \<Rightarrow> bool) \<Rightarrow> 'a option \<Rightarrow> 'a list \<Rightarrow> 'a option" where
  "select better best [] = best"
| "select better None (x # xs) = select better (Some x) xs"
| "select better (Some b) (x # xs) = select better (Some (if better x b then x else b)) xs"

lemma select_Some: "\<exists>r. select better (Some b) xs = Some r"
  by (induction xs arbitrary: b) auto

lemma select_None_iff [simp]: "select better None xs = None \<longleftrightarrow> xs = []"
proof (cases xs)
  case (Cons x ys)
  then show ?thesis using select_Some [of better x ys] by auto
qed simp

lemma select_in: "select better best xs = Some r \<Longrightarrow> r \<in> set xs \<or> best = Some r"
  by (induction better best xs rule: select.induct) (auto split: if_splits)

definition first_best :: "('a \<Rightarrow> 'a \<Rightarrow> bool) \<Rightarrow> 'a list \<Rightarrow> 'a \<Rightarrow> bool" where
  "first_best better xs r \<longleftrightarrow>
     (\<exists>ys zs. xs = ys @ r # zs \<and> (\<forall>y \<in> set ys. better r y) \<and> (\<forall>z \<in> set zs. \<not> better z r))"

locale preference =
  fixes better :: "'a \<Rightarrow> 'a \<Rightarrow> bool"
  assumes asym: "better x y \<Longrightarrow> \<not> better y x"
    and not_trans: "\<not> better x y \<Longrightarrow> \<not> better y z \<Longrightarrow> \<not> better x z"
begin

lemma irrefl: "\<not> better x x"
  using asym by blast

lemma trans: "better x y \<Longrightarrow> better y z \<Longrightarrow> better x z"
  using asym not_trans by blast

lemma trans_weak: "better x y \<Longrightarrow> \<not> better z y \<Longrightarrow> better x z"
  using not_trans by blast

lemma trans_weak': "\<not> better y x \<Longrightarrow> better y z \<Longrightarrow> better x z"
  using not_trans asym by blast

lemma select_first:
  "select better (Some b) xs = Some r \<Longrightarrow> first_best better (b # xs) r"
proof (induction xs arbitrary: b)
  case Nil
  then show ?case unfolding first_best_def by (intro exI [of _ "[]"]) simp
next
  case (Cons x xs)
  show ?case
  proof (cases "better x b")
    case True
    with Cons have "first_best better (x # xs) r" by simp
    then obtain ys zs where s: "x # xs = ys @ r # zs" "\<forall>y \<in> set ys. better r y"
      "\<forall>z \<in> set zs. \<not> better z r" by (auto simp: first_best_def)
    have "better r b"
    proof (cases ys)
      case Nil
      with s True show ?thesis by simp
    next
      case (Cons y ys')
      with s have "better r x" by simp
      with True show ?thesis by (blast intro: trans)
    qed
    with s show ?thesis unfolding first_best_def by (intro exI [of _ "b # ys"] exI [of _ zs]) simp
  next
    case False
    with Cons have "first_best better (b # xs) r" by simp
    then obtain ys zs where s: "b # xs = ys @ r # zs" "\<forall>y \<in> set ys. better r y"
      "\<forall>z \<in> set zs. \<not> better z r" by (auto simp: first_best_def)
    show ?thesis
    proof (cases ys)
      case Nil
      with s False show ?thesis
        unfolding first_best_def by (intro exI [of _ "[]"] exI [of _ "x # zs"]) simp
    next
      case (Cons y ys')
      with s have "better r b" "xs = ys' @ r # zs" "\<forall>y \<in> set ys'. better r y" by auto
      moreover from this(1) False have "better r x" by (blast intro: trans_weak)
      ultimately show ?thesis
        using s(3) unfolding first_best_def
        by (intro exI [of _ "b # x # ys'"] exI [of _ zs]) simp
    qed
  qed
qed

lemma first_best_max: "first_best better xs r \<Longrightarrow> x \<in> set xs \<Longrightarrow> \<not> better x r"
  using asym irrefl unfolding first_best_def by fastforce

lemma first_best_in: "first_best better xs r \<Longrightarrow> r \<in> set xs"
  by (auto simp: first_best_def)

lemma first_best_unique:
  assumes "first_best better xs r" "first_best better xs s" shows "r = s"
proof -
  from assms(1) obtain ys zs where r: "xs = ys @ r # zs" "\<forall>y \<in> set ys. better r y" by (auto simp: first_best_def)
  from assms(2) obtain us vs where s: "xs = us @ s # vs" "\<forall>y \<in> set us. better s y" by (auto simp: first_best_def)
  have "s \<notin> set ys" using r(2) first_best_max [OF assms(2) first_best_in [OF assms(1)]] by blast
  moreover have "r \<notin> set us" using s(2) first_best_max [OF assms(1) first_best_in [OF assms(2)]] by blast
  moreover from r(1) s(1) have "ys @ r # zs = us @ s # vs" by simp
  ultimately show ?thesis by (auto simp: append_eq_append_conv2 append_eq_Cons_conv Cons_eq_append_conv)
qed

lemma select_iff: "select better None xs = Some r \<longleftrightarrow> first_best better xs r"
proof
  assume "select better None xs = Some r"
  then show "first_best better xs r" by (cases xs) (auto intro: select_first)
next
  assume f: "first_best better xs r"
  then have "xs \<noteq> []" by (auto simp: first_best_def)
  then obtain s where s: "select better None xs = Some s" using select_None_iff by blast
  then have "first_best better xs s" by (cases xs) (auto intro: select_first)
  with f s show "select better None xs = Some r" using first_best_unique by blast
qed

lemma select_max: "select better None xs = Some r \<Longrightarrow> x \<in> set xs \<Longrightarrow> \<not> better x r"
  by (auto simp: select_iff first_best_max)

lemma select_mem: "select better None xs = Some r \<Longrightarrow> r \<in> set xs"
  by (auto simp: select_iff first_best_in)

end

end
