(* ===== verification/Routing_Table.thy ===== *)
theory Routing_Table
  imports Capture Selection
begin

text \<open>
  \<open>src/src/router/table.rs\<close>: the routing and zone tables.  Routes are a list in the order they were
  learned, zones and incumbents are maps from a range's first network.  The loop that picks a route is
  the selection of theory Selection, with the preference the code states; every operation ends in
  \<open>settle\<close>, which records the incumbents and reports what changed.
\<close>

section \<open>Data\<close>

datatype target = TPort u8 | TPeer ipv4

datatype state = Good | Suspect | Bad | Worst

text \<open>How stale an entry is, as a number: the order the validity timer walks the states in.\<close>

fun staleness :: "state \<Rightarrow> nat" where
  "staleness Good = 0"
| "staleness Suspect = 1"
| "staleness Bad = 2"
| "staleness Worst = 3"

lemma staleness_inject [simp]: "staleness a = staleness b \<longleftrightarrow> a = b"
  by (cases a; cases b) simp_all

instantiation state :: linorder
begin

definition less_eq_state :: "state \<Rightarrow> state \<Rightarrow> bool" where
  "less_eq_state a b \<longleftrightarrow> staleness a \<le> staleness b"

definition less_state :: "state \<Rightarrow> state \<Rightarrow> bool" where
  "less_state a b \<longleftrightarrow> staleness a < staleness b"

instance
  by intro_classes (auto simp: less_eq_state_def less_state_def)

end

definition usable :: "state \<Rightarrow> bool" where
  "usable s \<longleftrightarrow> (case s of Good \<Rightarrow> True | Suspect \<Rightarrow> True | _ \<Rightarrow> False)"

fun aged :: "state \<Rightarrow> state option" where
  "aged Good = Some Suspect"
| "aged Suspect = Some Bad"
| "aged Bad = Some Worst"
| "aged Worst = None"

lemma usable_iff: "usable s \<longleftrightarrow> s \<le> Suspect"
  by (cases s) (simp_all add: usable_def less_eq_state_def)

lemma aged_staler: "aged s = Some s' \<Longrightarrow> s < s'"
  by (cases s) (auto simp: less_state_def)

record route =
  rt_range :: "u16 \<times> u16"
  rt_extended :: bool
  rt_distance :: u8
  rt_target :: target
  rt_next :: addr
  rt_state :: state
  rt_seen :: instant

definition contains :: "route \<Rightarrow> u16 \<Rightarrow> bool" where
  "contains r net \<longleftrightarrow> fst (rt_range r) \<le> net \<and> net \<le> snd (rt_range r)"

definition route_key :: "route \<Rightarrow> target \<times> addr" where
  "route_key r = (rt_target r, rt_next r)"

definition route_tuple :: "route \<Rightarrow> network_tuple" where
  "route_tuple r = \<lparr>nt_range = rt_range r, nt_extended = rt_extended r, nt_distance = rt_distance r\<rparr>"

fun is_port :: "target \<Rightarrow> bool" where
  "is_port (TPort _) = True"
| "is_port (TPeer _) = False"

definition direct :: "route \<Rightarrow> bool" where
  "direct r \<longleftrightarrow> rt_distance r = 0 \<and> is_port (rt_target r)"

abbreviation rt_start :: "route \<Rightarrow> u16" where
  "rt_start r \<equiv> fst (rt_range r)"

record route_change =
  rc_range :: "u16 \<times> u16"
  rc_old :: "route option"
  rc_new :: "route option"

record zone_list =
  zl_names :: "rstring list"
  zl_expected :: "nat option"

definition zl_complete :: "zone_list \<Rightarrow> bool" where
  "zl_complete z \<longleftrightarrow> zl_names z \<noteq> [] \<and>
     (case zl_expected z of None \<Rightarrow> True | Some e \<Rightarrow> e \<le> length (zl_names z))"

definition zl_default :: zone_list where
  "zl_default = \<lparr>zl_names = [], zl_expected = None\<rparr>"

definition overlaps :: "u16 \<times> u16 \<Rightarrow> u16 \<times> u16 \<Rightarrow> bool" where
  "overlaps a b \<longleftrightarrow> fst a \<le> snd b \<and> fst b \<le> snd a"

record tables =
  tb_routes :: "route list"
  tb_zones :: "u16 \<rightharpoonup> u16 \<times> zone_list"
  tb_best :: "u16 \<rightharpoonup> target \<times> addr"

definition tables_new :: tables where
  "tables_new = \<lparr>tb_routes = [], tb_zones = Map.empty, tb_best = Map.empty\<rparr>"

definition VALIDITY :: duration where "VALIDITY = secs 20"
definition NO_NEXT :: addr where "NO_NEXT = mk_addr 0 0"

section \<open>Choosing a route\<close>

definition starts_where :: "tables \<Rightarrow> (route \<Rightarrow> bool) \<Rightarrow> u16 list" where
  "starts_where T f = push_new [] (map rt_start (filter f (tb_routes T)))"

definition starts :: "tables \<Rightarrow> u16 list" where
  "starts T = starts_where T (\<lambda>_. True)"

definition incumbent :: "tables \<Rightarrow> route \<Rightarrow> bool" where
  "incumbent T r \<longleftrightarrow> tb_best T (rt_start r) = Some (route_key r)"

definition takes_over :: "tables \<Rightarrow> route \<Rightarrow> route \<Rightarrow> bool" where
  "takes_over T r b \<longleftrightarrow>
     rt_distance r < rt_distance b
     \<or> (rt_distance r = rt_distance b \<and> incumbent T r \<and> \<not> incumbent T b)"

definition pick :: "tables \<Rightarrow> (route \<Rightarrow> bool) \<Rightarrow> route option" where
  "pick T f = select (takes_over T) None (filter (\<lambda>r. usable (rt_state r) \<and> f r) (tb_routes T))"

definition best :: "tables \<Rightarrow> u16 \<Rightarrow> route option" where
  "best T net = pick T (\<lambda>r. contains r net)"

definition best_for_start :: "tables \<Rightarrow> u16 \<Rightarrow> route option" where
  "best_for_start T start = pick T (\<lambda>r. rt_start r = start)"

definition exportable :: "tables \<Rightarrow> u16 \<Rightarrow> bool" where
  "exportable T start \<longleftrightarrow>
     (case best_for_start T start of
        Some r \<Rightarrow> is_port (rt_target r) \<and> rt_distance r < 15
      | None \<Rightarrow> False)
     \<and> (case tb_zones T start of Some (_, z) \<Rightarrow> zl_complete z | None \<Rightarrow> False)"

definition snapshot :: "tables \<Rightarrow> u16 list \<Rightarrow> route option list" where
  "snapshot T ss = map (best_for_start T) ss"

section \<open>Recording the outcome\<close>

definition differs :: "route option \<Rightarrow> route option \<Rightarrow> bool" where
  "differs old new =
     (case (old, new) of
        (None, None) \<Rightarrow> False
      | (Some a, Some b) \<Rightarrow> rt_target a \<noteq> rt_target b \<or> rt_distance a \<noteq> rt_distance b
      | _ \<Rightarrow> True)"

definition change_range :: "u16 \<Rightarrow> route option \<Rightarrow> route option \<Rightarrow> u16 \<times> u16" where
  "change_range start old new =
     (case new of Some r \<Rightarrow> rt_range r
      | None \<Rightarrow> (case old of Some r \<Rightarrow> rt_range r | None \<Rightarrow> (start, start)))"

definition settle_one :: "tables \<Rightarrow> u16 \<Rightarrow> route option \<Rightarrow> tables \<times> route_change list" where
  "settle_one T start old =
     (let new = best_for_start T start;
          T = T\<lparr>tb_best := (tb_best T)(start := map_option route_key new)\<rparr>;
          T = (if \<not> (\<exists>r \<in> set (tb_routes T). rt_start r = start)
               then T\<lparr>tb_zones := (tb_zones T)(start := None), tb_best := (tb_best T)(start := None)\<rparr>
               else T)
      in (T, if differs old new
             then [\<lparr>rc_range = change_range start old new, rc_old = old, rc_new = new\<rparr>] else []))"

fun settle_loop :: "tables \<Rightarrow> (u16 \<times> route option) list \<Rightarrow> tables \<times> route_change list" where
  "settle_loop T [] = (T, [])"
| "settle_loop T ((start, old) # rest) =
     (let (T, c) = settle_one T start old; (T, cs) = settle_loop T rest in (T, c @ cs))"

definition settle :: "tables \<Rightarrow> u16 list \<Rightarrow> route option list \<Rightarrow> tables \<times> route_change list" where
  "settle T ss old = settle_loop T (zip ss old)"

section \<open>Operations\<close>

definition add_port ::
    "port_id \<Rightarrow> u16 \<times> u16 \<Rightarrow> bool \<Rightarrow> rstring list \<Rightarrow> instant \<Rightarrow> tables \<Rightarrow> tables" where
  "add_port port rng extended zones now T =
     T\<lparr>tb_routes := tb_routes T @
         [\<lparr>rt_range = rng, rt_extended = extended, rt_distance = 0, rt_target = TPort port,
           rt_next = NO_NEXT, rt_state = Good, rt_seen = now\<rparr>],
       tb_zones := (tb_zones T)(fst rng \<mapsto> (snd rng, \<lparr>zl_names = zones, zl_expected = None\<rparr>)),
       tb_best := (tb_best T)(fst rng \<mapsto> (TPort port, NO_NEXT))\<rparr>"

definition learn_ignored :: "network_tuple \<Rightarrow> tables \<Rightarrow> bool" where
  "learn_ignored t T \<longleftrightarrow>
     (\<exists>r \<in> set (tb_routes T).
        (rt_range r \<noteq> nt_range t \<and> overlaps (rt_range r) (nt_range t))
        \<or> (rt_range r = nt_range t \<and> direct r))"

definition learn_routes ::
    "network_tuple \<Rightarrow> target \<Rightarrow> addr \<Rightarrow> instant \<Rightarrow> route list \<Rightarrow> route list" where
  "learn_routes t tgt nxt now rs =
     (let bad = (nt_distance t = 31);
          unreachable = (nt_distance t \<ge> 15 \<and> \<not> bad);
          st = (if bad then Bad else Good)
      in case position (\<lambda>r. rt_range r = nt_range t \<and> rt_target r = tgt \<and> rt_next r = nxt) rs of
           Some i \<Rightarrow>
             if unreachable then remove_at i rs
             else
               let r = (rs ! i)\<lparr>rt_extended := nt_extended t\<rparr>;
                   r = (if \<not> bad then r\<lparr>rt_distance := nt_distance t + 1\<rparr> else r)
               in rs[i := r\<lparr>rt_state := st, rt_seen := now\<rparr>]
         | None \<Rightarrow>
             if unreachable \<or> bad then rs
             else rs @ [\<lparr>rt_range = nt_range t, rt_extended = nt_extended t,
                         rt_distance = nt_distance t + 1, rt_target = tgt, rt_next = nxt,
                         rt_state = st, rt_seen = now\<rparr>])"

definition learn ::
    "network_tuple \<Rightarrow> target \<Rightarrow> addr \<Rightarrow> instant \<Rightarrow> tables \<Rightarrow> tables \<times> route_change list" where
  "learn t tgt nxt now T =
     (if learn_ignored t T then (T, [])
      else
        let start = fst (nt_range t);
            old = snapshot T [start]
        in settle (T\<lparr>tb_routes := learn_routes t tgt nxt now (tb_routes T)\<rparr>) [start] old)"

definition age_route :: "instant \<Rightarrow> route \<Rightarrow> route option" where
  "age_route now r =
     (if direct r \<or> \<not> is_port (rt_target r) then Some r
      else if since now (rt_seen r) < VALIDITY then Some r
      else map_option (\<lambda>s. r\<lparr>rt_seen := now, rt_state := s\<rparr>) (aged (rt_state r)))"

definition age :: "instant \<Rightarrow> tables \<Rightarrow> tables \<times> route_change list" where
  "age now T =
     (let ss = starts T; old = snapshot T ss
      in settle (T\<lparr>tb_routes := List.map_filter (age_route now) (tb_routes T)\<rparr>) ss old)"

definition remove_target :: "target \<Rightarrow> tables \<Rightarrow> tables \<times> route_change list" where
  "remove_target t T =
     (let ss = starts_where T (\<lambda>r. rt_target r = t); old = snapshot T ss
      in settle (T\<lparr>tb_routes := filter (\<lambda>r. rt_target r \<noteq> t) (tb_routes T)\<rparr>) ss old)"

definition remove_route :: "target \<Rightarrow> u16 \<Rightarrow> tables \<Rightarrow> tables \<times> route_change list" where
  "remove_route t start T =
     (let old = snapshot T [start]
      in settle (T\<lparr>tb_routes :=
           filter (\<lambda>r. \<not> (rt_target r = t \<and> rt_start r = start)) (tb_routes T)\<rparr>) [start] old)"

definition set_distance :: "target \<Rightarrow> u16 \<Rightarrow> u8 \<Rightarrow> instant \<Rightarrow> tables \<Rightarrow> tables \<times> route_change list" where
  "set_distance t start distance now T =
     (let old = snapshot T [start]
      in settle (T\<lparr>tb_routes :=
           map (\<lambda>r. if rt_target r = t \<and> rt_start r = start
                    then r\<lparr>rt_distance := distance, rt_seen := now\<rparr> else r) (tb_routes T)\<rparr>) [start] old)"

definition first_with_start :: "tables \<Rightarrow> u16 \<Rightarrow> route option" where
  "first_with_start T start = find (\<lambda>r. rt_start r = start) (tb_routes T)"

definition tuple_for_start :: "port_id \<Rightarrow> tables \<Rightarrow> u16 \<Rightarrow> network_tuple option" where
  "tuple_for_start port T start =
     do { r \<leftarrow> (case best_for_start T start of Some r \<Rightarrow> Some r | None \<Rightarrow> first_with_start T start);
          if rt_target r = TPort port then None
          else if \<not> usable (rt_state r) then Some ((route_tuple r)\<lparr>nt_distance := 31\<rparr>)
          else if rt_distance r \<ge> 15 then None
          else Some (route_tuple r) }"

definition tuples_for :: "port_id \<Rightarrow> tables \<Rightarrow> network_tuple list" where
  "tuples_for port T = List.map_filter (tuple_for_start port T) (starts T)"

definition export :: "tables \<Rightarrow> network_tuple list" where
  "export T =
     List.map_filter (\<lambda>s. map_option route_tuple (best_for_start T s)) (filter (exportable T) (starts T))"

definition zones_of :: "tables \<Rightarrow> u16 \<Rightarrow> zone_list option" where
  "zones_of T start = map_option snd (tb_zones T start)"

text \<open>Appending the names the list does not hold yet, ignoring the case of ASCII letters.\<close>

fun add_names :: "rstring list \<Rightarrow> rstring list \<Rightarrow> rstring list" where
  "add_names held [] = held"
| "add_names held (n # ns) =
     add_names (if \<exists>h \<in> set held. eq_ignore_ascii_case h n then held else held @ [n]) ns"

definition add_zones ::
    "u16 \<Rightarrow> rstring list \<Rightarrow> nat option \<Rightarrow> tables \<Rightarrow> tables \<times> route_change list" where
  "add_zones start names expected T =
     (case first_with_start T start of
        None \<Rightarrow> (T, [])
      | Some r0 \<Rightarrow>
          let was = exportable T start;
              z = (case tb_zones T start of Some (_, z) \<Rightarrow> z | None \<Rightarrow> zl_default);
              z = (if expected \<noteq> None then z\<lparr>zl_expected := expected\<rparr> else z);
              z = z\<lparr>zl_names := add_names (zl_names z) names\<rparr>;
              T = T\<lparr>tb_zones := (tb_zones T)(start \<mapsto> (snd (rt_range r0), z))\<rparr>
          in (T,
              case best_for_start T start of
                Some r \<Rightarrow> if \<not> was \<and> exportable T start
                          then [\<lparr>rc_range = rt_range r, rc_old = None, rc_new = Some r\<rparr>] else []
              | None \<Rightarrow> []))"

definition zone_complete_at :: "tables \<Rightarrow> u16 \<Rightarrow> bool" where
  "zone_complete_at T s = (case tb_zones T s of Some (_, z) \<Rightarrow> zl_complete z | None \<Rightarrow> False)"

definition nets_in_zone :: "rstring \<Rightarrow> tables \<Rightarrow> (u16 \<times> target) list" where
  "nets_in_zone zone T =
     List.map_filter (\<lambda>s. map_option (\<lambda>r. (s, rt_target r)) (best_for_start T s))
       (filter (\<lambda>s. case tb_zones T s of
                      Some (_, z) \<Rightarrow> zl_complete z \<and> (\<exists>n \<in> set (zl_names z). eq_ignore_ascii_case n zone)
                    | None \<Rightarrow> False) (starts T))"

definition zoneless :: "tables \<Rightarrow> route list" where
  "zoneless T =
     filter (\<lambda>r. \<not> direct r)
       (List.map_filter (best_for_start T) (filter (\<lambda>s. \<not> zone_complete_at T s) (starts T)))"

definition all_zones :: "tables \<Rightarrow> rstring list" where
  "all_zones T =
     fold (\<lambda>s out. case tb_zones T s of
                     Some (_, z) \<Rightarrow> if zl_complete z then add_names out (zl_names z) else out
                   | None \<Rightarrow> out) (starts T) []"

end
