(* ===== verification/Routing_Choice.thy ===== *)
theory Routing_Choice
  imports Routing_Table
begin

text \<open>
  What the routing table's choice promises: the preference of \<open>pick\<close> meets the contract of theory
  Selection, so the route used is usable, matches, has the least distance, and on a tie is the
  incumbent, else the one learned first.
\<close>

interpretation route_pref: preference "takes_over T" for T
  by unfold_locales (auto simp: takes_over_def)

lemma pick_props:
  assumes "pick T f = Some r"
  shows "r \<in> set (tb_routes T)" "usable (rt_state r)" "f r"
    and "\<And>s. s \<in> set (tb_routes T) \<Longrightarrow> usable (rt_state s) \<Longrightarrow> f s \<Longrightarrow> \<not> takes_over T s r"
  using route_pref.select_mem [OF assms [unfolded pick_def]]
    route_pref.select_max [OF assms [unfolded pick_def]]
  by auto

lemma pick_least:
  assumes "pick T f = Some r" "s \<in> set (tb_routes T)" "usable (rt_state s)" "f s"
  shows "rt_distance r \<le> rt_distance s"
    and "rt_distance r = rt_distance s \<Longrightarrow> incumbent T s \<Longrightarrow> incumbent T r"
  using pick_props(4) [OF assms] by (auto simp: takes_over_def)

lemma pick_None_iff:
  "pick T f = None \<longleftrightarrow> (\<forall>r \<in> set (tb_routes T). usable (rt_state r) \<longrightarrow> \<not> f r)"
  by (auto simp: pick_def filter_empty_conv)

lemma pick_first:
  "pick T f = Some r \<longleftrightarrow>
   first_best (takes_over T) (filter (\<lambda>r. usable (rt_state r) \<and> f r) (tb_routes T)) r"
  by (simp add: pick_def route_pref.select_iff)

lemmas best_for_start_props = pick_props [where f = "\<lambda>r. rt_start r = start" for start, folded best_for_start_def]

lemma best_for_start_start: "best_for_start T s = Some r \<Longrightarrow> rt_start r = s"
  by (auto simp: best_for_start_def dest: pick_props)

lemma best_for_start_in: "best_for_start T s = Some r \<Longrightarrow> r \<in> set (tb_routes T) \<and> usable (rt_state r)"
  by (auto simp: best_for_start_def dest: pick_props)

lemma best_for_start_None_iff:
  "best_for_start T s = None \<longleftrightarrow> (\<forall>r \<in> set (tb_routes T). rt_start r = s \<longrightarrow> \<not> usable (rt_state r))"
  by (auto simp: best_for_start_def pick_None_iff)

text \<open>The choice for one start looks only at the routes with that start and their incumbent.\<close>

lemma select_cong:
  assumes "\<And>x y. x \<in> insert b (set xs) \<Longrightarrow> y \<in> insert b (set xs) \<Longrightarrow> p x y = q x y"
  shows "select p (Some b) xs = select q (Some b) xs"
  using assms
proof (induction xs arbitrary: b)
  case (Cons x xs)
  have "select p (Some (if p x b then x else b)) xs = select q (Some (if p x b then x else b)) xs"
    by (rule Cons.IH) (rule Cons.prems; auto split: if_splits)
  with Cons.prems [of x b] show ?case by simp
qed simp

lemma select_None_cong:
  assumes "\<And>x y. x \<in> set xs \<Longrightarrow> y \<in> set xs \<Longrightarrow> p x y = q x y"
  shows "select p None xs = select q None xs"
  using assms by (cases xs) (auto intro: select_cong)

lemma best_for_start_cong:
  assumes "filter (\<lambda>r. rt_start r = s) (tb_routes T) = filter (\<lambda>r. rt_start r = s) (tb_routes U)"
    and "tb_best T s = tb_best U s"
  shows "best_for_start T s = best_for_start U s"
proof -
  have f: "filter (\<lambda>r. usable (rt_state r) \<and> rt_start r = s) rs
      = filter (\<lambda>r. usable (rt_state r)) (filter (\<lambda>r. rt_start r = s) rs)" for rs
    by (simp add: conj_commute)
  show ?thesis
    unfolding best_for_start_def pick_def f assms(1)
    by (rule select_None_cong) (auto simp: takes_over_def incumbent_def assms(2))
qed

text \<open>Recording the choice as the incumbent does not change the choice.\<close>

lemma first_best_cong:
  assumes "first_best p xs r" "\<And>x. x \<in> set xs \<Longrightarrow> p r x \<Longrightarrow> q r x"
    and "\<And>x. x \<in> set xs \<Longrightarrow> \<not> p x r \<Longrightarrow> \<not> q x r"
  shows "first_best q xs r"
proof -
  from assms(1) obtain ys zs where s: "xs = ys @ r # zs" "\<forall>y \<in> set ys. p r y"
    "\<forall>z \<in> set zs. \<not> p z r" by (auto simp: first_best_def)
  with assms(2,3) have "\<forall>y \<in> set ys. q r y" "\<forall>z \<in> set zs. \<not> q z r" by auto
  with s(1) show ?thesis by (auto simp: first_best_def)
qed

lemma best_for_start_settled:
  assumes r: "best_for_start T s = Some r" and b: "tb_best U s = Some (route_key r)"
    and rs: "tb_routes U = tb_routes T"
  shows "best_for_start U s = Some r"
proof -
  let ?rs = "filter (\<lambda>r. usable (rt_state r) \<and> rt_start r = s) (tb_routes T)"
  from r have f: "first_best (takes_over T) ?rs r" by (simp add: best_for_start_def pick_first)
  have "rt_start r = s" using r by (rule best_for_start_start)
  with b have "incumbent U r" by (simp add: incumbent_def)
  have "first_best (takes_over U) ?rs r"
    using f
  proof (rule first_best_cong)
    fix x assume x: "x \<in> set ?rs"
    show "takes_over U r x" if "takes_over T r x"
    proof -
      have "rt_start x = s" using x by simp
      moreover have "incumbent T x" if "route_key x = route_key r" "incumbent T r"
        using that \<open>rt_start x = s\<close> \<open>rt_start r = s\<close> by (simp add: incumbent_def)
      ultimately show ?thesis
        using \<open>takes_over T r x\<close> \<open>incumbent U r\<close> b by (auto simp: takes_over_def incumbent_def)
    qed
    show "\<not> takes_over U x r" if "\<not> takes_over T x r"
      using that \<open>incumbent U r\<close> by (auto simp: takes_over_def)
  qed
  then show ?thesis by (simp add: best_for_start_def pick_first rs)
qed

end
