(* ===== verification/Routing_Update.thy ===== *)
theory Routing_Update
  imports Routing_Choice
begin

text \<open>
  Every operation of the routing table replaces the list of routes and settles the starts it touched.
  Here that pattern is taken apart once: what settling does to the incumbents, the zones and the
  choice, and that the reported changes are exactly the starts whose best route changed.
\<close>

definition change_for :: "u16 \<Rightarrow> route option \<Rightarrow> route option \<Rightarrow> route_change" where
  "change_for s old new = \<lparr>rc_range = change_range s old new, rc_old = old, rc_new = new\<rparr>"

definition has_start :: "route list \<Rightarrow> u16 \<Rightarrow> bool" where
  "has_start rs s \<longleftrightarrow> (\<exists>r \<in> set rs. rt_start r = s)"

text \<open>The incumbents are exactly the choices.\<close>

definition coherent :: "tables \<Rightarrow> bool" where
  "coherent T \<longleftrightarrow> (\<forall>s. tb_best T s = map_option route_key (best_for_start T s))"

lemma no_start_no_best: "\<not> has_start (tb_routes T) s \<Longrightarrow> best_for_start T s = None"
  by (auto simp: best_for_start_None_iff has_start_def)

lemma settle_one_eq:
  "settle_one T s old =
    (T\<lparr>tb_best := (tb_best T)(s := map_option route_key (best_for_start T s)),
       tb_zones := if has_start (tb_routes T) s then tb_zones T else (tb_zones T)(s := None)\<rparr>,
     if differs old (best_for_start T s) then [change_for s old (best_for_start T s)] else [])"
  using no_start_no_best [of T s]
  by (simp add: settle_one_def change_for_def has_start_def Let_def)

text \<open>Tables that agree on the routes, and whose incumbents are the old ones or the choices.\<close>

definition resettled :: "tables \<Rightarrow> tables \<Rightarrow> bool" where
  "resettled T U \<longleftrightarrow> tb_routes U = tb_routes T \<and>
     (\<forall>s. tb_best U s = tb_best T s \<or> tb_best U s = map_option route_key (best_for_start T s))"

lemma resettled_best:
  assumes "resettled T U" shows "best_for_start U s = best_for_start T s"
proof (cases "best_for_start T s")
  case None
  with assms have "best_for_start U s = None" by (simp add: best_for_start_None_iff resettled_def)
  with None show ?thesis by simp
next
  case (Some r)
  from assms have rs: "tb_routes U = tb_routes T" by (simp add: resettled_def)
  from assms have "tb_best U s = tb_best T s \<or> tb_best U s = Some (route_key r)"
    by (auto simp: resettled_def Some)
  then show ?thesis
  proof
    assume "tb_best U s = tb_best T s"
    with rs show ?thesis by (intro best_for_start_cong) simp_all
  next
    assume "tb_best U s = Some (route_key r)"
    from best_for_start_settled [OF Some this rs] Some show ?thesis by simp
  qed
qed

lemma resettled_refl: "resettled T T"
  by (simp add: resettled_def)

lemma resettled_trans: "resettled T U \<Longrightarrow> resettled U V \<Longrightarrow> resettled T V"
proof -
  assume tu: "resettled T U" and uv: "resettled U V"
  have "tb_best V s = tb_best T s \<or> tb_best V s = map_option route_key (best_for_start T s)" for s
  proof -
    have "tb_best V s = tb_best U s \<or> tb_best V s = map_option route_key (best_for_start T s)"
      using uv unfolding resettled_def resettled_best [OF tu] by blast
    moreover have "tb_best U s = tb_best T s \<or> tb_best U s = map_option route_key (best_for_start T s)"
      using tu unfolding resettled_def by blast
    ultimately show ?thesis by (elim disjE) simp_all
  qed
  with tu uv show ?thesis by (simp add: resettled_def)
qed

lemma resettled_one: "resettled T (fst (settle_one T s old))"
  by (simp add: settle_one_eq resettled_def)

lemma settle_loop_spec:
  "resettled T (fst (settle_loop T xs))
   \<and> (\<forall>s. tb_best (fst (settle_loop T xs)) s
        = (if s \<in> fst ` set xs then map_option route_key (best_for_start T s) else tb_best T s))
   \<and> (\<forall>s. tb_zones (fst (settle_loop T xs)) s
        = (if s \<in> fst ` set xs \<and> \<not> has_start (tb_routes T) s then None else tb_zones T s))
   \<and> snd (settle_loop T xs)
        = concat (map (\<lambda>(s, old). if differs old (best_for_start T s)
                                  then [change_for s old (best_for_start T s)] else []) xs)"
proof (induction xs arbitrary: T)
  case Nil
  then show ?case by (simp add: resettled_refl)
next
  case (Cons x xs)
  obtain s old where x: "x = (s, old)" by (cases x)
  obtain U c where u: "settle_one T s old = (U, c)" by fastforce
  have r: "resettled T U" using resettled_one [of T s old] by (simp add: u)
  have best: "best_for_start U t = best_for_start T t" for t using r by (rule resettled_best)
  have rs: "tb_routes U = tb_routes T" using r by (simp add: resettled_def)
  have U: "tb_best U = (tb_best T)(s := map_option route_key (best_for_start T s))"
    "tb_zones U = (if has_start (tb_routes T) s then tb_zones T else (tb_zones T)(s := None))"
    "c = (if differs old (best_for_start T s) then [change_for s old (best_for_start T s)] else [])"
    using u by (auto simp: settle_one_eq)
  obtain V cs where v: "settle_loop U xs = (V, cs)" by fastforce
  have e: "settle_loop T (x # xs) = (V, c @ cs)" by (simp add: x u v)
  from Cons.IH [of U] r show ?case
    unfolding e v fst_conv snd_conv by (auto simp: x U best rs intro: resettled_trans cong: if_cong)
qed

text \<open>An operation: new routes, settled at the starts it may have touched.\<close>

definition update_routes :: "tables \<Rightarrow> route list \<Rightarrow> u16 list \<Rightarrow> tables \<times> route_change list" where
  "update_routes T rs ss = settle (T\<lparr>tb_routes := rs\<rparr>) ss (snapshot T ss)"

lemma tb_routes_update [simp]: "tb_routes (fst (update_routes T rs ss)) = rs"
  using settle_loop_spec [of "T\<lparr>tb_routes := rs\<rparr>"]
  by (simp add: update_routes_def settle_def resettled_def)

definition touches_only :: "tables \<Rightarrow> route list \<Rightarrow> u16 list \<Rightarrow> bool" where
  "touches_only T rs ss \<longleftrightarrow>
     (\<forall>s. s \<notin> set ss \<longrightarrow>
        filter (\<lambda>r. rt_start r = s) rs = filter (\<lambda>r. rt_start r = s) (tb_routes T))"

lemma zip_snapshot: "zip ss (snapshot T ss) = map (\<lambda>s. (s, best_for_start T s)) ss"
  by (induction ss) (simp_all add: snapshot_def)

lemma update_untouched:
  assumes "touches_only T rs ss" "s \<notin> set ss"
  shows "best_for_start (T\<lparr>tb_routes := rs\<rparr>) s = best_for_start T s"
  using assms by (intro best_for_start_cong) (simp_all add: touches_only_def)

lemma update_routes_spec:
  fixes T rs ss
  defines "T' \<equiv> fst (update_routes T rs ss)" and "cs \<equiv> snd (update_routes T rs ss)"
  assumes touch: "touches_only T rs ss"
  shows "tb_routes T' = rs"
    and "\<And>s. best_for_start T' s = best_for_start (T\<lparr>tb_routes := rs\<rparr>) s"
    and "coherent T \<Longrightarrow> coherent T'"
    and "\<And>s. tb_zones T' s = (if s \<in> set ss \<and> \<not> has_start rs s then None else tb_zones T s)"
    and "set cs = {change_for s (best_for_start T s) (best_for_start T' s) | s.
                     differs (best_for_start T s) (best_for_start T' s)}"
proof -
  let ?U = "T\<lparr>tb_routes := rs\<rparr>"
  let ?xs = "map (\<lambda>s. (s, best_for_start T s)) ss"
  have u: "update_routes T rs ss = settle_loop ?U ?xs"
    by (simp add: update_routes_def settle_def zip_snapshot)
  have fst_xs: "fst ` set ?xs = set ss" by force
  note spec = settle_loop_spec [of ?U ?xs, folded u, folded T'_def cs_def, unfolded fst_xs]
  show rs: "tb_routes T' = rs" using spec by (simp add: resettled_def)
  show best: "best_for_start T' s = best_for_start ?U s" for s
    using spec by (auto intro: resettled_best)
  show "tb_zones T' s = (if s \<in> set ss \<and> \<not> has_start rs s then None else tb_zones T s)" for s
    using spec by simp
  show "coherent T'" if "coherent T"
    unfolding coherent_def
  proof
    fix s
    show "tb_best T' s = map_option route_key (best_for_start T' s)"
      using spec that update_untouched [OF touch, of s] by (auto simp: best coherent_def)
  qed
  have same: "\<not> differs x x" for x by (cases x) (simp_all add: differs_def)
  have "set cs = {change_for s (best_for_start T s) (best_for_start T' s) | s.
                    s \<in> set ss \<and> differs (best_for_start T s) (best_for_start T' s)}"
    using spec by (auto simp: best)
  also have "\<dots> = {change_for s (best_for_start T s) (best_for_start T' s) | s.
                    differs (best_for_start T s) (best_for_start T' s)}"
    using update_untouched [OF touch] same by (auto simp: best) metis
  finally show "set cs = \<dots>" .
qed

section \<open>The operations as updates\<close>

lemma learn_update:
  "learn t tgt nxt now T =
     (if learn_ignored t T then (T, [])
      else update_routes T (learn_routes t tgt nxt now (tb_routes T)) [fst (nt_range t)])"
  by (simp add: learn_def update_routes_def Let_def)

lemma age_update:
  "age now T = update_routes T (List.map_filter (age_route now) (tb_routes T)) (starts T)"
  by (simp add: age_def update_routes_def Let_def)

lemma remove_target_update:
  "remove_target t T = update_routes T (filter (\<lambda>r. rt_target r \<noteq> t) (tb_routes T))
     (starts_where T (\<lambda>r. rt_target r = t))"
  by (simp add: remove_target_def update_routes_def Let_def)

lemma remove_route_update:
  "remove_route t start T = update_routes T
     (filter (\<lambda>r. \<not> (rt_target r = t \<and> rt_start r = start)) (tb_routes T)) [start]"
  by (simp add: remove_route_def update_routes_def Let_def)

lemma set_distance_update:
  "set_distance t start distance now T = update_routes T
     (map (\<lambda>r. if rt_target r = t \<and> rt_start r = start
               then r\<lparr>rt_distance := distance, rt_seen := now\<rparr> else r) (tb_routes T)) [start]"
  by (simp add: set_distance_def update_routes_def Let_def)

lemma set_starts_where: "set (starts_where T f) = {rt_start r | r. r \<in> set (tb_routes T) \<and> f r}"
  by (auto simp: starts_where_def)

lemma set_starts: "set (starts T) = rt_start ` set (tb_routes T)"
  by (auto simp: starts_def set_starts_where)

lemma distinct_starts: "distinct (starts T)"
  by (simp add: starts_def starts_where_def distinct_push_new)

lemma filter_no_start: "s \<notin> rt_start ` set rs \<Longrightarrow> filter (\<lambda>r. rt_start r = s) rs = []"
  by (auto simp: filter_empty_conv)

lemma age_route_start: "age_route now r = Some r' \<Longrightarrow> rt_range r' = rt_range r"
  by (auto simp: age_route_def split: if_splits)

lemma set_map_filter: "set (List.map_filter f xs) = {y. \<exists>x \<in> set xs. f x = Some y}"
  by (induction xs) (auto simp: List.map_filter_simps split: option.splits)

lemma touches_age: "touches_only T (List.map_filter (age_route now) (tb_routes T)) (starts T)"
  unfolding touches_only_def
proof (intro allI impI)
  fix s assume "s \<notin> set (starts T)"
  then have s: "s \<notin> rt_start ` set (tb_routes T)" by (simp add: set_starts)
  then have "s \<notin> rt_start ` set (List.map_filter (age_route now) (tb_routes T))"
    by (auto simp: set_map_filter dest!: age_route_start)
  with s show "filter (\<lambda>r. rt_start r = s) (List.map_filter (age_route now) (tb_routes T))
      = filter (\<lambda>r. rt_start r = s) (tb_routes T)"
    by (simp add: filter_no_start)
qed

lemma touches_remove_target:
  "touches_only T (filter (\<lambda>r. rt_target r \<noteq> t) (tb_routes T)) (starts_where T (\<lambda>r. rt_target r = t))"
  by (auto simp: touches_only_def set_starts_where intro!: filter_cong)

lemma touches_remove_route:
  "touches_only T (filter (\<lambda>r. \<not> (rt_target r = t \<and> rt_start r = s)) (tb_routes T)) [s]"
  by (auto simp: touches_only_def intro!: filter_cong)

lemma touches_set_distance:
  "touches_only T (map (\<lambda>r. if rt_target r = t \<and> rt_start r = s
      then r\<lparr>rt_distance := d, rt_seen := now\<rparr> else r) (tb_routes T)) [s]"
proof -
  have "filter (\<lambda>r. rt_start r = x) (map (\<lambda>r. if rt_target r = t \<and> rt_start r = s
      then r\<lparr>rt_distance := d, rt_seen := now\<rparr> else r) rs) = filter (\<lambda>r. rt_start r = x) rs"
    if "x \<noteq> s" for x rs
    using that by (induction rs) auto
  then show ?thesis by (simp add: touches_only_def)
qed

lemma filter_list_update:
  "i < length xs \<Longrightarrow> \<not> P (xs ! i) \<Longrightarrow> \<not> P y \<Longrightarrow> filter P (xs[i := y]) = filter P xs"
  by (induction xs arbitrary: i) (auto split: nat.split)

lemma filter_remove_at: "i < length xs \<Longrightarrow> \<not> P (xs ! i) \<Longrightarrow> filter P (remove_at i xs) = filter P xs"
  using arg_cong [OF list_split_at [of i xs], of "filter P"] by (simp add: remove_at_def)

text \<open>The three things learning can do to the list: drop an entry, replace it, or append one.\<close>

definition same_path :: "network_tuple \<Rightarrow> target \<Rightarrow> addr \<Rightarrow> route \<Rightarrow> bool" where
  "same_path t tgt nxt r \<longleftrightarrow> rt_range r = nt_range t \<and> rt_target r = tgt \<and> rt_next r = nxt"

definition refreshed :: "network_tuple \<Rightarrow> instant \<Rightarrow> route \<Rightarrow> route" where
  "refreshed t now r =
     r\<lparr>rt_extended := nt_extended t,
       rt_distance := if nt_distance t = 31 then rt_distance r else nt_distance t + 1,
       rt_state := if nt_distance t = 31 then Bad else Good, rt_seen := now\<rparr>"

definition new_route :: "network_tuple \<Rightarrow> target \<Rightarrow> addr \<Rightarrow> instant \<Rightarrow> route" where
  "new_route t tgt nxt now =
     \<lparr>rt_range = nt_range t, rt_extended = nt_extended t, rt_distance = nt_distance t + 1,
      rt_target = tgt, rt_next = nxt, rt_state = Good, rt_seen = now\<rparr>"

lemma learn_routes_Some:
  assumes "position (same_path t tgt nxt) rs = Some i"
  shows "learn_routes t tgt nxt now rs =
    (if nt_distance t \<ge> 15 \<and> nt_distance t \<noteq> 31 then remove_at i rs
     else rs[i := refreshed t now (rs ! i)])"
proof -
  have p: "position (\<lambda>r. rt_range r = nt_range t \<and> rt_target r = tgt \<and> rt_next r = nxt) rs = Some i"
    using assms unfolding same_path_def .
  show ?thesis
    unfolding learn_routes_def p refreshed_def Let_def option.case
    by (cases "nt_distance t = 31") simp_all
qed

lemma learn_routes_None:
  assumes "position (same_path t tgt nxt) rs = None"
  shows "learn_routes t tgt nxt now rs =
    (if nt_distance t \<ge> 15 then rs else rs @ [new_route t tgt nxt now])"
proof -
  have p: "position (\<lambda>r. rt_range r = nt_range t \<and> rt_target r = tgt \<and> rt_next r = nxt) rs = None"
    using assms unfolding same_path_def .
  have "(15 :: u8) \<le> 31" by simp
  then show ?thesis
    unfolding learn_routes_def p new_route_def Let_def option.case
    by (cases "nt_distance t = 31") simp_all
qed

lemma refreshed_simps [simp]:
  "rt_range (refreshed t now r) = rt_range r" "rt_target (refreshed t now r) = rt_target r"
  "rt_next (refreshed t now r) = rt_next r"
  by (simp_all add: refreshed_def)

lemma touches_learn:
  "touches_only T (learn_routes t tgt nxt now (tb_routes T)) [fst (nt_range t)]"
proof -
  have "filter (\<lambda>r. rt_start r = s) (learn_routes t tgt nxt now rs) = filter (\<lambda>r. rt_start r = s) rs"
    if s: "s \<noteq> fst (nt_range t)" for s rs
  proof (cases "position (same_path t tgt nxt) rs")
    case None
    with s show ?thesis by (simp add: learn_routes_None new_route_def)
  next
    case (Some i)
    have i: "i < length rs" using Some by (rule position_lt)
    have "rt_range (rs ! i) = nt_range t" using position_holds [OF Some] by (simp add: same_path_def)
    with s have "rt_start (rs ! i) \<noteq> s" by simp
    with i show ?thesis
      by (simp add: learn_routes_Some [OF Some] filter_remove_at filter_list_update)
  qed
  then show ?thesis by (simp add: touches_only_def)
qed

end
