(* ===== verification/Routing_Invariants.thy ===== *)
theory Routing_Invariants
  imports Routing_Update
begin

text \<open>
  The invariant of the routing and zone tables, that every operation keeps it, and what follows: the
  book's table holds no overlapping ranges and one entry per path, our own networks stay ours, no
  route is longer than DDP can carry, and the reported changes are exact.
\<close>

section \<open>The invariant\<close>

definition range_ok :: "u16 \<times> u16 \<Rightarrow> bool" where
  "range_ok rng \<longleftrightarrow> fst rng \<le> snd rng"

definition path_of :: "route \<Rightarrow> (u16 \<times> u16) \<times> target \<times> addr" where
  "path_of r = (rt_range r, rt_target r, rt_next r)"

definition routes_ok :: "route list \<Rightarrow> bool" where
  "routes_ok rs \<longleftrightarrow>
     (\<forall>r \<in> set rs. range_ok (rt_range r) \<and> rt_distance r \<le> 15)
     \<and> (\<forall>r \<in> set rs. \<forall>s \<in> set rs. rt_range r = rt_range s \<or> \<not> overlaps (rt_range r) (rt_range s))
     \<and> distinct (map path_of rs)
     \<and> (\<forall>r \<in> set rs. \<forall>s \<in> set rs. direct r \<longrightarrow> rt_range s = rt_range r \<longrightarrow> path_of s = path_of r)"

definition zones_ok :: "tables \<Rightarrow> bool" where
  "zones_ok T \<longleftrightarrow>
     (\<forall>s e z. tb_zones T s = Some (e, z) \<longrightarrow> (\<exists>r \<in> set (tb_routes T). rt_range r = (s, e)))"

definition tables_ok :: "tables \<Rightarrow> bool" where
  "tables_ok T \<longleftrightarrow> routes_ok (tb_routes T) \<and> coherent T \<and> zones_ok T"

lemma routes_okD:
  assumes "routes_ok rs"
  shows "r \<in> set rs \<Longrightarrow> range_ok (rt_range r)" "r \<in> set rs \<Longrightarrow> rt_distance r \<le> 15"
    and "r \<in> set rs \<Longrightarrow> s \<in> set rs \<Longrightarrow> rt_range r = rt_range s \<or> \<not> overlaps (rt_range r) (rt_range s)"
    and "distinct (map path_of rs)"
    and "r \<in> set rs \<Longrightarrow> s \<in> set rs \<Longrightarrow> direct r \<Longrightarrow> rt_range s = rt_range r \<Longrightarrow> path_of s = path_of r"
  using assms unfolding routes_ok_def by blast+

lemma tables_okD: "tables_ok T \<Longrightarrow> routes_ok (tb_routes T)" "tables_ok T \<Longrightarrow> coherent T"
  "tables_ok T \<Longrightarrow> zones_ok T"
  by (simp_all add: tables_ok_def)

lemma routes_ok_sub:
  assumes ok: "routes_ok rs" and paths: "distinct (map path_of qs)"
    and sub: "\<And>q. q \<in> set qs \<Longrightarrow> \<exists>r \<in> set rs. path_of q = path_of r \<and> (direct q \<longrightarrow> direct r) \<and> rt_distance q \<le> 15"
  shows "routes_ok qs"
proof -
  have r: "\<exists>r \<in> set rs. rt_range q = rt_range r \<and> path_of q = path_of r \<and> (direct q \<longrightarrow> direct r) \<and> rt_distance q \<le> 15"
    if "q \<in> set qs" for q
    using sub [OF that] by (auto simp: path_of_def)
  show ?thesis
    unfolding routes_ok_def
  proof (intro conjI ballI impI)
    fix q assume q: "q \<in> set qs"
    from r [OF q] show "range_ok (rt_range q)" "rt_distance q \<le> 15"
      using routes_okD(1) [OF ok] by auto
    fix p assume p: "p \<in> set qs"
    obtain q' where q': "q' \<in> set rs" "rt_range q = rt_range q'" "path_of q = path_of q'"
      "direct q \<longrightarrow> direct q'" using r [OF q] by blast
    obtain p' where p': "p' \<in> set rs" "rt_range p = rt_range p'" "path_of p = path_of p'"
      using r [OF p] by blast
    note o = routes_okD(3) [OF ok q'(1) p'(1)] and d = routes_okD(5) [OF ok q'(1) p'(1)]
    from o show "rt_range q = rt_range p \<or> \<not> overlaps (rt_range q) (rt_range p)"
      by (simp only: q'(2) p'(2))
    assume "direct q" "rt_range p = rt_range q"
    with d q' p' show "path_of p = path_of q" by (simp only: simp_thms)
  qed (rule paths)
qed

lemma routes_ok_filter: "routes_ok rs \<Longrightarrow> routes_ok (filter P rs)"
proof (rule routes_ok_sub [of rs])
  assume ok: "routes_ok rs"
  show "distinct (map path_of (filter P rs))"
    using routes_okD(4) [OF ok] by (rule distinct_map_filter)
  show "\<exists>r \<in> set rs. path_of q = path_of r \<and> (direct q \<longrightarrow> direct r) \<and> rt_distance q \<le> 15"
    if "q \<in> set (filter P rs)" for q
    using that routes_okD(2) [OF ok] by auto
qed

lemma distinct_remove_at: "distinct xs \<Longrightarrow> distinct (remove_at i xs)"
proof (cases "i < length xs")
  case True
  assume "distinct xs"
  then have "distinct (take i xs @ xs ! i # drop (Suc i) xs)"
    using list_split_at [OF True] by simp
  then show ?thesis by (simp add: remove_at_def)
qed (simp add: remove_at_def)

lemma map_remove_at: "map f (remove_at i xs) = remove_at i (map f xs)"
  by (simp add: remove_at_def take_map drop_map)

lemma routes_ok_remove_at: "routes_ok rs \<Longrightarrow> routes_ok (remove_at i rs)"
proof (rule routes_ok_sub [of rs])
  assume ok: "routes_ok rs"
  then show "distinct (map path_of (remove_at i rs))"
    by (simp only: map_remove_at distinct_remove_at routes_okD(4))
  fix q assume "q \<in> set (remove_at i rs)"
  then have "q \<in> set rs" using set_remove_at_subset by fast
  with routes_okD(2) [OF ok] show "\<exists>r \<in> set rs. path_of q = path_of r \<and> (direct q \<longrightarrow> direct r) \<and> rt_distance q \<le> 15"
    by blast
qed

lemma same_start_same_range:
  assumes "routes_ok rs" "r \<in> set rs" "s \<in> set rs" "rt_start r = rt_start s"
  shows "rt_range r = rt_range s"
proof (rule ccontr)
  assume "rt_range r \<noteq> rt_range s"
  with routes_okD(1,3) [OF assms(1)] assms(2,3)
  have "\<not> overlaps (rt_range r) (rt_range s)" "range_ok (rt_range r)" "range_ok (rt_range s)"
    by blast+
  with assms(4) show False by (auto simp: overlaps_def range_ok_def)
qed

section \<open>Each operation keeps it\<close>

lemma update_ok:
  assumes ok: "tables_ok T" and touch: "touches_only T rs ss" and rs: "routes_ok rs"
    and kept: "\<And>r. r \<in> set (tb_routes T) \<Longrightarrow> has_start rs (rt_start r)
                 \<Longrightarrow> \<exists>q \<in> set rs. rt_range q = rt_range r"
    and gone: "\<And>r. r \<in> set (tb_routes T) \<Longrightarrow> \<not> has_start rs (rt_start r) \<Longrightarrow> rt_start r \<in> set ss"
  shows "tables_ok (fst (update_routes T rs ss))"
proof -
  note spec = update_routes_spec [OF touch]
  have "zones_ok (fst (update_routes T rs ss))"
    unfolding zones_ok_def
  proof (intro allI impI)
    fix s e z
    assume "tb_zones (fst (update_routes T rs ss)) s = Some (e, z)"
    then have z: "tb_zones T s = Some (e, z)" and h: "s \<in> set ss \<longrightarrow> has_start rs s"
      by (auto simp: spec(4) split: if_splits)
    from z ok obtain r where r: "r \<in> set (tb_routes T)" "rt_range r = (s, e)"
      by (auto simp: tables_ok_def zones_ok_def)
    with h gone [OF r(1)] have "has_start rs (rt_start r)" by auto
    from kept [OF r(1) this] r(2) show "\<exists>q \<in> set (tb_routes (fst (update_routes T rs ss))). rt_range q = (s, e)"
      by (simp add: spec(1))
  qed
  with spec(1,3) rs ok show ?thesis by (simp add: tables_ok_def)
qed

lemma tables_new_ok: "tables_ok tables_new"
  by (simp add: tables_ok_def tables_new_def routes_ok_def zones_ok_def coherent_def
        best_for_start_None_iff)

text \<open>A new list of routes made from the old ones, range by range.\<close>

lemma has_startD: "has_start rs s \<Longrightarrow> \<exists>q \<in> set rs. rt_start q = s"
  by (simp add: has_start_def)

lemma update_ok_sub:
  assumes ok: "tables_ok T" and touch: "touches_only T rs ss" and rs: "routes_ok rs"
    and sub: "\<And>q. q \<in> set rs \<Longrightarrow> \<exists>r \<in> set (tb_routes T). rt_range q = rt_range r"
    and gone: "\<And>r. r \<in> set (tb_routes T) \<Longrightarrow> \<not> has_start rs (rt_start r) \<Longrightarrow> rt_start r \<in> set ss"
  shows "tables_ok (fst (update_routes T rs ss))"
  using ok touch rs
proof (rule update_ok)
  fix r assume r: "r \<in> set (tb_routes T)" "has_start rs (rt_start r)"
  then obtain q r' where q: "q \<in> set rs" "rt_start q = rt_start r" "r' \<in> set (tb_routes T)"
    "rt_range q = rt_range r'"
    using has_startD sub by metis
  then have "rt_range r' = rt_range r"
    using same_start_same_range [of "tb_routes T" r' r] r(1) ok by (simp add: tables_ok_def)
  with q show "\<exists>q \<in> set rs. rt_range q = rt_range r" by auto
qed (rule gone)

lemma update_ok_filter:
  assumes "tables_ok T" "touches_only T (filter P (tb_routes T)) ss"
    and "\<And>r. r \<in> set (tb_routes T) \<Longrightarrow> \<not> P r \<Longrightarrow> rt_start r \<in> set ss"
  shows "tables_ok (fst (update_routes T (filter P (tb_routes T)) ss))"
  using assms(1,2)
proof (rule update_ok_sub)
  show "routes_ok (filter P (tb_routes T))"
    using assms(1) by (simp add: tables_ok_def routes_ok_filter)
  show "\<exists>r \<in> set (tb_routes T). rt_range q = rt_range r" if "q \<in> set (filter P (tb_routes T))" for q
    using that by auto
  fix r assume r: "r \<in> set (tb_routes T)" "\<not> has_start (filter P (tb_routes T)) (rt_start r)"
  then have "\<not> P r" by (auto simp: has_start_def)
  with r(1) show "rt_start r \<in> set ss" by (rule assms(3))
qed

lemma remove_target_ok: "tables_ok T \<Longrightarrow> tables_ok (fst (remove_target t T))"
  unfolding remove_target_update
  by (rule update_ok_filter [OF _ touches_remove_target]) (auto simp: set_starts_where)

lemma remove_route_ok: "tables_ok T \<Longrightarrow> tables_ok (fst (remove_route t s T))"
  unfolding remove_route_update
  by (rule update_ok_filter [OF _ touches_remove_route]) auto

lemma age_route_props:
  assumes "age_route now r = Some q"
  shows "path_of q = path_of r" "rt_distance q = rt_distance r" "direct q = direct r"
  using assms by (auto simp: age_route_def path_of_def direct_def split: if_splits)

lemma distinct_paths_map_filter:
  "distinct (map path_of rs) \<Longrightarrow> distinct (map path_of (List.map_filter (age_route now) rs))"
proof (induction rs)
  case (Cons r rs)
  then have "path_of r \<notin> path_of ` set (List.map_filter (age_route now) rs)"
    by (auto simp: set_map_filter image_iff dest!: age_route_props(1))
  with Cons show ?case
    by (auto simp: List.map_filter_simps age_route_props(1) split: option.split)
qed (simp add: List.map_filter_simps)

lemma age_ok: "tables_ok T \<Longrightarrow> tables_ok (fst (age now T))"
  unfolding age_update
proof (rule update_ok_sub [OF _ touches_age])
  assume ok: "tables_ok T"
  let ?rs = "List.map_filter (age_route now) (tb_routes T)"
  have sub: "\<exists>r \<in> set (tb_routes T). path_of q = path_of r \<and> (direct q \<longrightarrow> direct r) \<and> rt_distance q \<le> 15"
    if "q \<in> set ?rs" for q
    using that ok
  proof -
    from that obtain r where r: "r \<in> set (tb_routes T)" "age_route now r = Some q"
      by (auto simp: set_map_filter)
    with routes_okD(2) [OF tables_okD(1) [OF ok]] have "rt_distance r \<le> 15" by blast
    with r age_route_props [OF r(2)] show ?thesis by auto
  qed
  show "routes_ok ?rs"
    by (rule routes_ok_sub [OF tables_okD(1) [OF ok]])
      (use sub routes_okD(4) [OF tables_okD(1) [OF ok]] in \<open>simp_all add: distinct_paths_map_filter\<close>)
  show "\<exists>r \<in> set (tb_routes T). rt_range q = rt_range r" if "q \<in> set ?rs" for q
    using sub [OF that] by (auto simp: path_of_def)
qed (simp_all add: set_starts)

lemma set_distance_ok:
  assumes ok: "tables_ok T" and t: "\<not> is_port t" and d: "d \<le> 15"
  shows "tables_ok (fst (set_distance t s d now T))"
  unfolding set_distance_update
proof (rule update_ok_sub [OF ok touches_set_distance])
  let ?f = "\<lambda>r. if rt_target r = t \<and> rt_start r = s then r\<lparr>rt_distance := d, rt_seen := now\<rparr> else r"
  have p: "path_of (?f r) = path_of r" for r by (simp add: path_of_def)
  then have m: "map path_of (map ?f (tb_routes T)) = map path_of (tb_routes T)" by simp
  show "routes_ok (map ?f (tb_routes T))"
  proof (rule routes_ok_sub [OF tables_okD(1) [OF ok]])
    show "distinct (map path_of (map ?f (tb_routes T)))"
      unfolding m by (rule routes_okD(4) [OF tables_okD(1) [OF ok]])
    fix q assume "q \<in> set (map ?f (tb_routes T))"
    then obtain r where r: "r \<in> set (tb_routes T)" "q = ?f r" by auto
    have "direct q \<longrightarrow> direct r" using t by (auto simp: r(2) direct_def)
    moreover have "rt_distance q \<le> 15" using r d routes_okD(2) [OF tables_okD(1) [OF ok]] by auto
    ultimately show "\<exists>r \<in> set (tb_routes T). path_of q = path_of r \<and> (direct q \<longrightarrow> direct r) \<and> rt_distance q \<le> 15"
      using r p [of r] by (intro bexI [of _ r]) auto
  qed
  show "\<exists>r \<in> set (tb_routes T). rt_range q = rt_range r" if "q \<in> set (map ?f (tb_routes T))" for q
    using that by (auto split: if_splits)
  show "rt_start r \<in> set [s]" if "r \<in> set (tb_routes T)" "\<not> has_start (map ?f (tb_routes T)) (rt_start r)" for r
    using that by (auto simp: has_start_def split: if_splits)
qed

lemma set_remove_at: "i < length xs \<Longrightarrow> set xs = insert (xs ! i) (set (remove_at i xs))"
  using arg_cong [OF list_split_at [of i xs], of set] by (auto simp: remove_at_def)

lemma hop_more: "(d :: u8) < 15 \<Longrightarrow> d + 1 \<le> 15 \<and> d + 1 \<noteq> 0"
proof -
  assume "d < 15"
  then have "unat d < 15" by (simp add: word_less_nat_alt)
  then have "unat (d + 1) = Suc (unat d)" by (simp add: unat_word_ariths(1))
  with \<open>unat d < 15\<close> show ?thesis by (auto simp: word_le_nat_alt)
qed

lemma map_update_same: "f y = f (xs ! i) \<Longrightarrow> map f (xs[i := y]) = map f xs"
  using map_update [of f xs i "xs ! i"] by (simp add: map_update)

lemma routes_ok_refresh:
  assumes ok: "routes_ok rs" and i: "i < length rs" and t: "nt_distance t < 15 \<or> nt_distance t = 31"
  shows "routes_ok (rs[i := refreshed t now (rs ! i)])"
proof (rule routes_ok_sub [OF ok])
  have p: "path_of (refreshed t now r) = path_of r" for r by (simp add: path_of_def)
  have "map path_of (rs[i := refreshed t now (rs ! i)]) = map path_of rs"
    by (rule map_update_same) (rule p)
  then show "distinct (map path_of (rs[i := refreshed t now (rs ! i)]))"
    using routes_okD(4) [OF ok] by simp
  fix q assume "q \<in> set (rs[i := refreshed t now (rs ! i)])"
  then consider "q \<in> set rs" | "q = refreshed t now (rs ! i)"
    using set_update_subset_insert by fast
  then show "\<exists>r \<in> set rs. path_of q = path_of r \<and> (direct q \<longrightarrow> direct r) \<and> rt_distance q \<le> 15"
  proof cases
    case 1
    with routes_okD(2) [OF ok] show ?thesis by blast
  next
    case 2
    let ?r = "rs ! i"
    have r: "?r \<in> set rs" using i by simp
    have "rt_distance q \<le> 15" "direct q \<longrightarrow> direct ?r"
      using t hop_more [of "nt_distance t"] routes_okD(2) [OF ok r]
      by (auto simp: 2 refreshed_def direct_def)
    with r p [of ?r] 2 show ?thesis by auto
  qed
qed

lemma routes_ok_append:
  assumes ok: "routes_ok rs" and t: "nt_distance t < 15" "range_ok (nt_range t)"
    and fit: "\<And>r. r \<in> set rs \<Longrightarrow> (rt_range r = nt_range t \<or> \<not> overlaps (rt_range r) (nt_range t))
                \<and> (rt_range r = nt_range t \<longrightarrow> \<not> direct r)"
    and new: "\<And>r. r \<in> set rs \<Longrightarrow> \<not> same_path t tgt nxt r"
  shows "routes_ok (rs @ [new_route t tgt nxt now])"
proof -
  let ?n = "new_route t tgt nxt now"
  have n: "rt_range ?n = nt_range t" "rt_distance ?n \<le> 15" "\<not> direct ?n"
    using hop_more [OF t(1)] by (auto simp: new_route_def direct_def)
  have "path_of ?n \<notin> path_of ` set rs"
    using new by (fastforce simp: path_of_def new_route_def same_path_def)
  then have "distinct (map path_of (rs @ [?n]))" using routes_okD(4) [OF ok] by simp
  moreover have sym: "overlaps a b = overlaps b a" for a b by (auto simp: overlaps_def)
  ultimately show ?thesis
    unfolding routes_ok_def
  proof (intro conjI ballI impI)
    fix r assume r: "r \<in> set (rs @ [?n])"
    then show "range_ok (rt_range r)" "rt_distance r \<le> 15"
      using routes_okD(1,2) [OF ok] n t(2) by auto
    fix s assume s: "s \<in> set (rs @ [?n])"
    have a: "rt_range x = nt_range t \<or> \<not> overlaps (rt_range x) (nt_range t)" if "x \<in> set rs" for x
      using fit [OF that] by blast
    show "rt_range r = rt_range s \<or> \<not> overlaps (rt_range r) (rt_range s)"
      using r s routes_okD(3) [OF ok, of r s] a [of r] a [of s] n(1)
        sym [of "nt_range t" "rt_range s"] by auto
    assume d: "direct r" "rt_range s = rt_range r"
    show "path_of s = path_of r"
      using r s d routes_okD(5) [OF ok, of r s] fit [of r] n(1,3) by auto
  qed
qed

lemma learn_ok:
  assumes ok: "tables_ok T" and t: "range_ok (nt_range t)"
  shows "tables_ok (fst (learn t tgt nxt now T))"
proof (cases "learn_ignored t T")
  case True
  with ok show ?thesis by (simp add: learn_update)
next
  case False
  let ?rs = "tb_routes T"
  have fit: "(rt_range r = nt_range t \<or> \<not> overlaps (rt_range r) (nt_range t))
      \<and> (rt_range r = nt_range t \<longrightarrow> \<not> direct r)" if "r \<in> set ?rs" for r
    using False that unfolding learn_ignored_def by blast
  have upd: "fst (learn t tgt nxt now T)
      = fst (update_routes T (learn_routes t tgt nxt now ?rs) [fst (nt_range t)])"
    using False by (simp add: learn_update)
  show ?thesis
  proof (cases "position (same_path t tgt nxt) ?rs")
    case None
    then have new: "\<not> same_path t tgt nxt r" if "r \<in> set ?rs" for r
      using that by (auto simp: position_None)
    have rs: "routes_ok (learn_routes t tgt nxt now ?rs)"
      using tables_okD(1) [OF ok] routes_ok_append [OF tables_okD(1) [OF ok] _ t fit new]
      by (simp add: learn_routes_None [OF None] not_le)
    show ?thesis
      unfolding upd
    proof (rule update_ok [OF ok touches_learn rs])
      show "\<exists>q \<in> set (learn_routes t tgt nxt now ?rs). rt_range q = rt_range r" if "r \<in> set ?rs" for r
        using that by (auto simp: learn_routes_None [OF None])
      show "rt_start r \<in> set [fst (nt_range t)]"
        if "r \<in> set ?rs" "\<not> has_start (learn_routes t tgt nxt now ?rs) (rt_start r)" for r
        using that by (auto simp: learn_routes_None [OF None] has_start_def split: if_splits)
    qed
  next
    case (Some i)
    have i: "i < length ?rs" using Some by (rule position_lt)
    have ri: "rt_range (?rs ! i) = nt_range t" using position_holds [OF Some] by (simp add: same_path_def)
    have rs: "routes_ok (learn_routes t tgt nxt now ?rs)"
      using routes_ok_remove_at [OF tables_okD(1) [OF ok], of i]
        routes_ok_refresh [OF tables_okD(1) [OF ok] i, of t now]
      by (auto simp: learn_routes_Some [OF Some] not_le)
    have ranges: "map rt_range (?rs[i := refreshed t now (?rs ! i)]) = map rt_range ?rs"
      by (rule map_update_same) simp
    show ?thesis
      unfolding upd
    proof (rule update_ok_sub [OF ok touches_learn rs])
      fix q assume "q \<in> set (learn_routes t tgt nxt now ?rs)"
      then have "rt_range q \<in> set (map rt_range (remove_at i ?rs))
          \<or> rt_range q \<in> set (map rt_range (?rs[i := refreshed t now (?rs ! i)]))"
        by (auto simp: learn_routes_Some [OF Some] split: if_splits)
      then show "\<exists>r \<in> set ?rs. rt_range q = rt_range r"
        unfolding ranges using set_remove_at_subset by fastforce
    next
      fix r assume r: "r \<in> set ?rs" "\<not> has_start (learn_routes t tgt nxt now ?rs) (rt_start r)"
      have "rt_start r \<in> rt_start ` set (?rs[i := refreshed t now (?rs ! i)])"
        using r(1) arg_cong [OF ranges, of "\<lambda>x. fst ` set x"] by (auto simp: image_image)
      then have "\<not> has_start (remove_at i ?rs) (rt_start r)"
        using r(2) by (auto simp: learn_routes_Some [OF Some] has_start_def split: if_splits)
      then have "r = ?rs ! i" using r(1) set_remove_at [OF i] by (auto simp: has_start_def)
      with ri show "rt_start r \<in> set [fst (nt_range t)]" by simp
    qed
  qed
qed

end
