(* ===== verification/Routing_Properties.thy ===== *)
theory Routing_Properties
  imports Routing_Invariants
begin

text \<open>
  The routing table as a transition system, and the properties of its choice, its listings and its
  timers.
\<close>

section \<open>Ports and zones\<close>

definition port_fits :: "u16 \<times> u16 \<Rightarrow> tables \<Rightarrow> bool" where
  "port_fits rng T \<longleftrightarrow> range_ok rng \<and> (\<forall>r \<in> set (tb_routes T). \<not> overlaps (rt_range r) rng)"

lemma overlaps_refl: "range_ok a \<Longrightarrow> overlaps a a"
  by (simp add: overlaps_def range_ok_def)

lemma add_port_ok:
  assumes ok: "tables_ok T" and fits: "port_fits rng T"
  shows "tables_ok (add_port port rng ext zs now T)"
proof -
  let ?n = "\<lparr>rt_range = rng, rt_extended = ext, rt_distance = 0, rt_target = TPort port,
             rt_next = NO_NEXT, rt_state = Good, rt_seen = now\<rparr>"
  let ?T = "add_port port rng ext zs now T"
  have rs: "tb_routes ?T = tb_routes T @ [?n]" by (simp add: add_port_def)
  have other: "rt_range r \<noteq> rng \<and> \<not> overlaps (rt_range r) rng \<and> \<not> overlaps rng (rt_range r) \<and> rt_start r \<noteq> fst rng"
    if "r \<in> set (tb_routes T)" for r
    using that fits routes_okD(1) [OF tables_okD(1) [OF ok] that]
    by (auto simp: port_fits_def overlaps_def range_ok_def)
  have "routes_ok (tb_routes T @ [?n])"
    unfolding routes_ok_def
  proof (intro conjI ballI impI)
    fix r assume r: "r \<in> set (tb_routes T @ [?n])"
    then show "range_ok (rt_range r)" "rt_distance r \<le> 15"
      using routes_okD(1,2) [OF tables_okD(1) [OF ok]] fits by (auto simp: port_fits_def)
    fix s assume s: "s \<in> set (tb_routes T @ [?n])"
    show "rt_range r = rt_range s \<or> \<not> overlaps (rt_range r) (rt_range s)"
      using r s routes_okD(3) [OF tables_okD(1) [OF ok], of r s] other [of r] other [of s] by auto
    assume "direct r" "rt_range s = rt_range r"
    then show "path_of s = path_of r"
      using r s routes_okD(5) [OF tables_okD(1) [OF ok], of r s] other [of r] other [of s] by auto
  next
    have "path_of ?n \<notin> path_of ` set (tb_routes T)"
      using other by (fastforce simp: path_of_def)
    then show "distinct (map path_of (tb_routes T @ [?n]))"
      using routes_okD(4) [OF tables_okD(1) [OF ok]] by simp
  qed
  moreover have "coherent ?T"
    unfolding coherent_def
  proof
    fix s
    show "tb_best ?T s = map_option route_key (best_for_start ?T s)"
    proof (cases "s = fst rng")
      case True
      have "filter (\<lambda>r. usable (rt_state r) \<and> rt_start r = s) (tb_routes ?T) = [?n]"
        using other True by (auto simp: rs usable_def filter_empty_conv)
      then have "best_for_start ?T s = Some ?n" by (simp add: best_for_start_def pick_def)
      with True show ?thesis by (simp add: add_port_def route_key_def)
    next
      case False
      then have "best_for_start ?T s = best_for_start T s"
        by (intro best_for_start_cong) (auto simp: rs add_port_def)
      with False tables_okD(2) [OF ok] show ?thesis by (simp add: add_port_def coherent_def)
    qed
  qed
  moreover have "zones_ok ?T"
    unfolding zones_ok_def rs
  proof (intro allI impI)
    fix s e z assume z: "tb_zones ?T s = Some (e, z)"
    show "\<exists>r \<in> set (tb_routes T @ [?n]). rt_range r = (s, e)"
    proof (cases "s = fst rng")
      case True
      with z show ?thesis by (auto simp: add_port_def)
    next
      case False
      with z tables_okD(3) [OF ok] show ?thesis by (fastforce simp: add_port_def zones_ok_def)
    qed
  qed
  ultimately show ?thesis by (simp add: tables_ok_def rs)
qed

lemma first_with_start_Some:
  "first_with_start T s = Some r \<Longrightarrow> r \<in> set (tb_routes T) \<and> rt_start r = s"
  by (auto simp: first_with_start_def find_Some_iff)

lemma add_zones_fst:
  "fst (add_zones s names expected T) =
    (case first_with_start T s of
       None \<Rightarrow> T
     | Some r0 \<Rightarrow>
         let z = (case tb_zones T s of Some (_, z) \<Rightarrow> z | None \<Rightarrow> zl_default);
             z = (if expected \<noteq> None then z\<lparr>zl_expected := expected\<rparr> else z)
         in T\<lparr>tb_zones := (tb_zones T)(s \<mapsto> (snd (rt_range r0), z\<lparr>zl_names := add_names (zl_names z) names\<rparr>))\<rparr>)"
  by (simp add: add_zones_def Let_def split: option.split)

lemma best_zones_cong: "best_for_start (T\<lparr>tb_zones := z\<rparr>) s = best_for_start T s"
  by (rule best_for_start_cong) simp_all

lemma add_zones_ok:
  assumes ok: "tables_ok T" shows "tables_ok (fst (add_zones s names expected T))"
proof (cases "first_with_start T s")
  case None
  with ok show ?thesis by (simp add: add_zones_fst)
next
  case (Some r)
  then have r: "r \<in> set (tb_routes T)" "rt_start r = s" using first_with_start_Some by auto
  obtain z where T': "fst (add_zones s names expected T)
      = T\<lparr>tb_zones := (tb_zones T)(s \<mapsto> (snd (rt_range r), z))\<rparr>"
    by (auto simp: add_zones_fst Some Let_def)
  have "rt_range r = (s, snd (rt_range r))" using r(2) by (cases "rt_range r") simp
  with r(1) tables_okD(3) [OF ok] have "zones_ok (T\<lparr>tb_zones := (tb_zones T)(s \<mapsto> (snd (rt_range r), z))\<rparr>)"
    by (auto simp: zones_ok_def)
  then show ?thesis
    unfolding T' using ok by (simp add: tables_ok_def coherent_def best_zones_cong)
qed

section \<open>The table as a transition system\<close>

inductive table_step :: "tables \<Rightarrow> tables \<Rightarrow> bool" where
  learn: "range_ok (nt_range t) \<Longrightarrow> table_step T (fst (learn t tgt nxt now T))"
| age: "table_step T (fst (age now T))"
| remove_target: "table_step T (fst (remove_target (TPeer ip) T))"
| remove: "table_step T (fst (remove_route (TPeer ip) start T))"
| set_distance: "d \<le> 15 \<Longrightarrow> table_step T (fst (set_distance (TPeer ip) start d now T))"
| add_zones: "table_step T (fst (add_zones start names expected T))"

inductive table_reachable :: "tables \<Rightarrow> bool" where
  new: "table_reachable tables_new"
| port: "table_reachable T \<Longrightarrow> port_fits rng T \<Longrightarrow> table_reachable (add_port p rng ext zs now T)"
| step: "table_reachable T \<Longrightarrow> table_step T U \<Longrightarrow> table_reachable U"

lemma table_step_ok: "table_step T U \<Longrightarrow> tables_ok T \<Longrightarrow> tables_ok U"
  by (induction rule: table_step.induct)
     (auto intro: learn_ok age_ok remove_target_ok remove_route_ok set_distance_ok add_zones_ok)

lemma table_reachable_ok: "table_reachable T \<Longrightarrow> tables_ok T"
  by (induction rule: table_reachable.induct)
     (auto intro: tables_new_ok add_port_ok table_step_ok)

section \<open>The invariant, written out\<close>


definition example_tables :: tables where
  "example_tables =
     fst (learn \<lparr>nt_range = (20, 25), nt_extended = True, nt_distance = 2\<rparr> (TPort 0) (mk_addr 10 7) 5
       (add_port 0 (10, 12) True [lit ''Lab''] 0 tables_new))"

lemmas table_eval =
  add_port_def tables_new_def learn_def learn_ignored_def overlaps_def learn_routes_def direct_def
  settle_def settle_one_def snapshot_def best_for_start_def best_def pick_def takes_over_def
  incumbent_def usable_def contains_def differs_def change_range_def route_key_def Let_def

lemma example_tables_eval:
  "tb_routes example_tables =
     [\<lparr>rt_range = (10, 12), rt_extended = True, rt_distance = 0, rt_target = TPort 0,
       rt_next = NO_NEXT, rt_state = Good, rt_seen = 0\<rparr>,
      \<lparr>rt_range = (20, 25), rt_extended = True, rt_distance = 3, rt_target = TPort 0,
       rt_next = mk_addr 10 7, rt_state = Good, rt_seen = 5\<rparr>]"
  "tb_best example_tables = [10 \<mapsto> (TPort 0, NO_NEXT), 20 \<mapsto> (TPort 0, mk_addr 10 7)]"
  "tb_zones example_tables = [10 \<mapsto> (12, \<lparr>zl_names = [lit ''Lab''], zl_expected = None\<rparr>)]"
  by (simp_all add: example_tables_def table_eval)

lemma example_reachable: "table_reachable example_tables"
proof -
  have "table_reachable (add_port 0 (10, 12) True [lit ''Lab''] 0 tables_new)"
    by (rule table_reachable.port [OF table_reachable.new])
       (simp add: port_fits_def range_ok_def tables_new_def)
  then show ?thesis
    unfolding example_tables_def
    by (rule table_reachable.step) (simp add: table_step.learn range_ok_def)
qed


section \<open>The route in use\<close>

lemma filter_split:
  "filter P xs = us @ r # vs \<Longrightarrow> \<exists>ys zs. xs = ys @ r # zs \<and> filter P ys = us"
proof (induction xs arbitrary: us)
  case (Cons x xs)
  show ?case
  proof (cases "P x \<and> us = []")
    case True
    with Cons.prems have "x # xs = [] @ r # xs" by simp
    with True show ?thesis by (metis filter.simps(1))
  next
    case False
    then have "filter P xs = (if P x then tl us else us) @ r # vs"
      using Cons.prems by (cases us) auto
    from Cons.IH [OF this] obtain ys zs where
      "xs = ys @ r # zs" "filter P ys = (if P x then tl us else us)" by blast
    with False Cons.prems show ?thesis
      by (intro exI [of _ "x # ys"] exI [of _ zs]) (cases us; auto split: if_splits)
  qed
qed simp

text \<open>
  C23: The route a datagram takes is usable and covers its network; no usable route to that network is
  shorter; on a tie the recorded incumbent wins, and without one the route learned first; and there
  is none exactly when no usable route covers the network.
\<close>

theorem best_route:
  "(case best T net of
      Some r \<Rightarrow> r \<in> set (tb_routes T) \<and> usable (rt_state r) \<and> contains r net
        \<and> (\<forall>s \<in> set (tb_routes T). usable (rt_state s) \<longrightarrow> contains s net \<longrightarrow> rt_distance r \<le> rt_distance s
             \<and> (rt_distance s = rt_distance r \<longrightarrow> incumbent T s \<longrightarrow> incumbent T r))
        \<and> (\<exists>ys zs. tb_routes T = ys @ r # zs
             \<and> (\<forall>y \<in> set ys. usable (rt_state y) \<longrightarrow> contains y net \<longrightarrow>
                  rt_distance r < rt_distance y \<or> (incumbent T r \<and> \<not> incumbent T y)))
    | None \<Rightarrow> \<forall>r \<in> set (tb_routes T). usable (rt_state r) \<longrightarrow> \<not> contains r net)"
proof (cases "best T net")
  case None
  then have "pick T (\<lambda>r. contains r net) = None" by (simp add: best_def)
  then show ?thesis unfolding None by (simp add: pick_None_iff)
next
  case (Some r)
  then have p: "pick T (\<lambda>r. contains r net) = Some r" by (simp add: best_def)
  let ?P = "\<lambda>r. usable (rt_state r) \<and> contains r net"
  from p obtain us vs where f: "filter ?P (tb_routes T) = us @ r # vs" "\<forall>y \<in> set us. takes_over T r y"
    by (auto simp: pick_first first_best_def)
  from filter_split [OF f(1)] obtain ys zs where
    split: "tb_routes T = ys @ r # zs" "filter ?P ys = us" by blast
  have before: "\<forall>y \<in> set ys. usable (rt_state y) \<longrightarrow> contains y net \<longrightarrow>
      rt_distance r < rt_distance y \<or> (incumbent T r \<and> \<not> incumbent T y)"
  proof (intro ballI impI)
    fix y assume "y \<in> set ys" "usable (rt_state y)" "contains y net"
    then have "y \<in> set us" using split(2) by auto
    with f(2) show "rt_distance r < rt_distance y \<or> (incumbent T r \<and> \<not> incumbent T y)"
      by (auto simp: takes_over_def)
  qed
  have least: "\<forall>s \<in> set (tb_routes T). usable (rt_state s) \<longrightarrow> contains s net \<longrightarrow> rt_distance r \<le> rt_distance s
      \<and> (rt_distance s = rt_distance r \<longrightarrow> incumbent T s \<longrightarrow> incumbent T r)"
  proof (intro ballI impI)
    fix s assume s: "s \<in> set (tb_routes T)" "usable (rt_state s)" "contains s net"
    show "rt_distance r \<le> rt_distance s \<and> (rt_distance s = rt_distance r \<longrightarrow> incumbent T s \<longrightarrow> incumbent T r)"
      using pick_least [OF p s] by metis
  qed
  show ?thesis
    unfolding Some option.case using pick_props(1-3) [OF p] least split(1) before by blast
qed

theorem best_route_witness:
  "\<exists>r. best example_tables 22 = Some r \<and> rt_distance r = 3
     \<and> (\<forall>s \<in> set (tb_routes example_tables). contains s 22 \<longrightarrow> usable (rt_state s) \<longrightarrow> 3 \<le> rt_distance s)"
proof -
  obtain r where r: "best example_tables 22 = Some r" "rt_distance r = 3"
    by (simp add: best_def pick_def example_tables_eval contains_def usable_def)
  from best_route [of example_tables 22] show ?thesis
    unfolding r(1) option.case using r by (intro exI [of _ r]) auto
qed

section \<open>Reported changes\<close>



section \<open>What is advertised\<close>

lemma tuple_for_start_Some:
  assumes "tuple_for_start port T s = Some t"
  obtains (good) r where "best_for_start T s = Some r" "rt_target r \<noteq> TPort port" "rt_distance r < 15"
      "t = route_tuple r"
    | (bad) r where "best_for_start T s = None" "first_with_start T s = Some r" "rt_target r \<noteq> TPort port"
      "\<not> usable (rt_state r)" "t = (route_tuple r)\<lparr>nt_distance := 31\<rparr>"
proof (cases "best_for_start T s")
  case None
  with assms obtain r where r: "first_with_start T s = Some r"
    by (auto simp: tuple_for_start_def split: Option.bind_splits)
  then have "\<not> usable (rt_state r)"
    using None first_with_start_Some [OF r] by (auto simp: best_for_start_None_iff)
  with None r assms show ?thesis by (intro bad) (auto simp: tuple_for_start_def split: if_splits)
next
  case (Some r)
  then have "usable (rt_state r)" using best_for_start_in by blast
  with Some assms show ?thesis by (intro good) (auto simp: tuple_for_start_def not_le split: if_splits)
qed

lemma tuples_for_iff: "t \<in> set (tuples_for port T) \<longleftrightarrow> (\<exists>s \<in> set (starts T). tuple_for_start port T s = Some t)"
  by (auto simp: tuples_for_def set_map_filter)

lemma first_with_start_start: "s \<in> set (starts T) \<Longrightarrow> \<exists>r. first_with_start T s = Some r"
  by (cases "first_with_start T s") (auto simp: first_with_start_def find_None_iff set_starts)



lemma exportable_iff:
  "exportable T s \<longleftrightarrow> zone_complete_at T s
     \<and> (\<exists>r. best_for_start T s = Some r \<and> is_port (rt_target r) \<and> rt_distance r < 15)"
  by (auto simp: exportable_def zone_complete_at_def split: option.splits)

lemma export_iff:
  "t \<in> set (export T) \<longleftrightarrow>
   (\<exists>r. best_for_start T (rt_start r) = Some r \<and> t = route_tuple r \<and> is_port (rt_target r)
      \<and> rt_distance r < 15 \<and> zone_complete_at T (rt_start r))" (is "?L \<longleftrightarrow> ?R")
proof
  assume ?L
  then obtain s r where s: "best_for_start T s = Some r" "t = route_tuple r" "exportable T s"
    by (auto simp: export_def set_map_filter)
  with best_for_start_start [OF s(1)] show ?R by (intro exI [of _ r]) (auto simp: exportable_iff)
next
  assume ?R
  then obtain r where r: "best_for_start T (rt_start r) = Some r" "t = route_tuple r"
    "is_port (rt_target r)" "rt_distance r < 15" "zone_complete_at T (rt_start r)" by blast
  from best_for_start_in [OF r(1)] have "rt_start r \<in> set (starts T)" by (auto simp: set_starts)
  moreover have "exportable T (rt_start r)" using r by (auto simp: exportable_iff)
  ultimately show ?L using r(1,2) by (auto simp: export_def set_map_filter intro!: bexI [of _ "rt_start r"])
qed

text \<open>
  What a tunnel peer may learn is exactly the best routes that go out one of our own ports, within 14
  hops, of the networks whose zone list is complete; nothing learned from a peer is re-exported.
\<close>

theorem export_exact:
  "t \<in> set (export T) \<longleftrightarrow>
   (\<exists>r. best_for_start T (rt_start r) = Some r \<and> t = route_tuple r \<and> is_port (rt_target r)
      \<and> rt_distance r < 15 \<and> zone_complete_at T (rt_start r))"
  by (rule export_iff)

section \<open>Learning a tuple\<close>

lemma path_unique:
  assumes "distinct (map path_of rs)" "i < length rs"
  shows "filter (\<lambda>r. path_of r = path_of (rs ! i)) rs = [rs ! i]"
    and "filter (\<lambda>r. path_of r = path_of (rs ! i)) (remove_at i rs) = []"
    and "path_of y = path_of (rs ! i) \<Longrightarrow> filter (\<lambda>r. path_of r = path_of (rs ! i)) (rs[i := y]) = [y]"
proof -
  define xs y0 zs where "xs = take i rs" and "y0 = rs ! i" and "zs = drop (Suc i) rs"
  have rs: "rs = xs @ y0 # zs" and i: "i = length xs"
    using list_split_at [OF assms(2)] assms(2) by (simp_all add: xs_def y0_def zs_def)
  from assms(1) have none: "filter (\<lambda>r. path_of r = path_of y0) xs = []"
    "filter (\<lambda>r. path_of r = path_of y0) zs = []"
    unfolding rs by (auto simp: filter_empty_conv image_iff)
  have "rs ! i = y0" by (simp add: y0_def)
  then show "filter (\<lambda>r. path_of r = path_of (rs ! i)) rs = [rs ! i]"
    "filter (\<lambda>r. path_of r = path_of (rs ! i)) (remove_at i rs) = []"
    "path_of y = path_of (rs ! i) \<Longrightarrow> filter (\<lambda>r. path_of r = path_of (rs ! i)) (rs[i := y]) = [y]"
    using none by (simp_all add: rs i remove_at_def nth_append)
qed

lemma same_path_iff: "same_path t tgt nxt r \<longleftrightarrow> path_of r = (nt_range t, tgt, nxt)"
  by (auto simp: same_path_def path_of_def)

lemma refreshed_new: "path_of r = (nt_range t, tgt, nxt) \<Longrightarrow> nt_distance t < 15 \<Longrightarrow>
    refreshed t now r = new_route t tgt nxt now"
  by (cases r) (auto simp: refreshed_def new_route_def path_of_def)

text \<open>
  What one tuple does to the routes, branch by branch.  Below distance 15 its path has exactly one entry
  afterwards, good, confirmed now, one hop longer; at 31 a known path turns bad at its old distance
  and an unknown one is not created; at any other distance the path is gone; and in every case all
  other paths are left alone.
\<close>

theorem learn_effect:
  assumes "table_reachable T" "\<not> learn_ignored t T"
  shows "filter (\<lambda>r. (rt_range r, rt_target r, rt_next r) \<noteq> (nt_range t, tgt, nxt)) (tb_routes (fst (learn t tgt nxt now T)))
      = filter (\<lambda>r. (rt_range r, rt_target r, rt_next r) \<noteq> (nt_range t, tgt, nxt)) (tb_routes T)
    \<and> filter (\<lambda>r. (rt_range r, rt_target r, rt_next r) = (nt_range t, tgt, nxt)) (tb_routes (fst (learn t tgt nxt now T)))
      = (if nt_distance t < 15
         then [\<lparr>rt_range = nt_range t, rt_extended = nt_extended t, rt_distance = nt_distance t + 1,
                rt_target = tgt, rt_next = nxt, rt_state = Good, rt_seen = now\<rparr>]
         else if nt_distance t = 31
         then map (\<lambda>r. r\<lparr>rt_extended := nt_extended t, rt_state := Bad, rt_seen := now\<rparr>)
                (filter (\<lambda>r. (rt_range r, rt_target r, rt_next r) = (nt_range t, tgt, nxt)) (tb_routes T))
         else [])"
proof -
  let ?rs = "tb_routes T" and ?p = "(nt_range t, tgt, nxt)"
  have dist: "distinct (map path_of ?rs)"
    using routes_okD(4) [OF tables_okD(1) [OF table_reachable_ok [OF assms(1)]]] .
  have upd: "tb_routes (fst (learn t tgt nxt now T)) = learn_routes t tgt nxt now ?rs"
    using assms(2) by (simp add: learn_update)
  have small: "nt_distance t \<noteq> 31" if "nt_distance t < 15" using that by auto
  have main: "filter (\<lambda>r. path_of r \<noteq> ?p) (learn_routes t tgt nxt now ?rs) = filter (\<lambda>r. path_of r \<noteq> ?p) ?rs
    \<and> filter (\<lambda>r. path_of r = ?p) (learn_routes t tgt nxt now ?rs)
      = (if nt_distance t < 15 then [new_route t tgt nxt now]
         else if nt_distance t = 31
         then map (refreshed t now) (filter (\<lambda>r. path_of r = ?p) ?rs) else [])"
  proof (cases "position (same_path t tgt nxt) ?rs")
    case None
    then have "filter (\<lambda>r. path_of r = ?p) ?rs = []"
      by (auto simp: position_None same_path_iff filter_empty_conv)
    moreover have "path_of (new_route t tgt nxt now) = ?p" by (simp add: new_route_def path_of_def)
    ultimately show ?thesis by (simp add: learn_routes_None [OF None] not_less)
  next
    case (Some i)
    have i: "i < length ?rs" and p: "path_of (?rs ! i) = ?p"
      using position_lt [OF Some] position_holds [OF Some] by (simp_all add: same_path_iff)
    have rp: "path_of (refreshed t now (?rs ! i)) = ?p" using p by (simp add: path_of_def)
    note one = path_unique(1,2) [OF dist i, unfolded p] path_unique(3) [OF dist i, unfolded p, OF rp]
    show ?thesis
    proof (cases "nt_distance t < 15")
      case True
      then show ?thesis
        using one refreshed_new [OF p True] small i p rp
        by (simp add: learn_routes_Some [OF Some] filter_list_update)
    next
      case False
      then show ?thesis
        using one i p rp
        by (simp add: learn_routes_Some [OF Some] filter_list_update filter_remove_at if_not_P not_less leD)
    qed
  qed
  have r31: "refreshed t now = (\<lambda>r. r\<lparr>rt_extended := nt_extended t, rt_state := Bad, rt_seen := now\<rparr>)"
    if "nt_distance t = 31" using that by (intro ext) (simp add: refreshed_def)
  show ?thesis
    using main r31 unfolding upd path_of_def new_route_def by (simp split: if_splits)
qed

theorem learn_effect_witness:
  "filter (\<lambda>r. (rt_range r, rt_target r, rt_next r) = ((20 :: u16, 25 :: u16), TPort 0, mk_addr 10 7))
     (tb_routes (fst (learn \<lparr>nt_range = (20, 25), nt_extended = True, nt_distance = 31\<rparr> (TPort 0) (mk_addr 10 7) 9
        example_tables)))
   = [\<lparr>rt_range = (20, 25), rt_extended = True, rt_distance = 3, rt_target = TPort 0,
       rt_next = mk_addr 10 7, rt_state = Bad, rt_seen = 9\<rparr>]"
proof -
  have "\<not> learn_ignored \<lparr>nt_range = (20, 25), nt_extended = True, nt_distance = 31\<rparr> example_tables"
    by (simp add: learn_ignored_def example_tables_eval overlaps_def direct_def)
  from conjunct2 [OF learn_effect [where tgt = "TPort 0" and nxt = "mk_addr 10 7" and now = 9,
        OF example_reachable this]]
  show ?thesis by (simp add: example_tables_eval)
qed

section \<open>The validity timer\<close>

lemma tb_routes_age [simp]: "tb_routes (fst (age now T)) = List.map_filter (age_route now) (tb_routes T)"
  by (simp add: age_update)

fun ages :: "instant list \<Rightarrow> tables \<Rightarrow> tables" where
  "ages [] T = T"
| "ages (now # nows) T = ages nows (fst (age now T))"

fun aged_by :: "instant list \<Rightarrow> route \<Rightarrow> route option" where
  "aged_by [] r = Some r"
| "aged_by (now # nows) r = (case age_route now r of Some q \<Rightarrow> aged_by nows q | None \<Rightarrow> None)"

lemma map_filter_comp:
  "List.map_filter g (List.map_filter f xs) = List.map_filter (\<lambda>x. case f x of Some y \<Rightarrow> g y | None \<Rightarrow> None) xs"
  by (induction xs) (auto simp: List.map_filter_simps split: option.split)

lemma routes_ages: "tb_routes (ages nows T) = List.map_filter (aged_by nows) (tb_routes T)"
proof (induction nows arbitrary: T)
  case Nil
  have "List.map_filter Some xs = xs" for xs :: "route list"
    by (induction xs) (simp_all add: List.map_filter_simps)
  then show ?case by simp
next
  case (Cons now nows)
  then show ?case by (simp add: map_filter_comp)
qed

definition mortal :: "route \<Rightarrow> bool" where
  "mortal r \<longleftrightarrow> is_port (rt_target r) \<and> rt_distance r \<noteq> 0"

lemma age_route_mortal:
  "mortal r \<Longrightarrow> rt_seen r + VALIDITY \<le> now \<Longrightarrow>
   age_route now r = map_option (\<lambda>s. r\<lparr>rt_seen := now, rt_state := s\<rparr>) (aged (rt_state r))"
  unfolding age_route_def mortal_def direct_def since_def by (auto simp: not_less split: option.split)

lemma age_route_immortal: "\<not> mortal r \<Longrightarrow> age_route now r = Some r"
  by (auto simp: age_route_def mortal_def direct_def)

lemma aged_by_immortal: "\<not> mortal r \<Longrightarrow> aged_by nows r = Some r"
  by (induction nows) (simp_all add: age_route_immortal)

lemma aged_by_mortal:
  assumes "mortal r" "rt_state r = Good"
    and "rt_seen r + VALIDITY \<le> t1" "t1 + VALIDITY \<le> t2" "t2 + VALIDITY \<le> t3" "t3 + VALIDITY \<le> t4"
  shows "aged_by [t1] r = Some (r\<lparr>rt_seen := t1, rt_state := Suspect\<rparr>)"
    and "aged_by [t1, t2] r = Some (r\<lparr>rt_seen := t2, rt_state := Bad\<rparr>)"
    and "aged_by [t1, t2, t3] r = Some (r\<lparr>rt_seen := t3, rt_state := Worst\<rparr>)"
    and "aged_by [t1, t2, t3, t4] r = None"
proof -
  have m: "mortal (r\<lparr>rt_seen := u, rt_state := s\<rparr>)" for u s using assms(1) by (simp add: mortal_def)
  show "aged_by [t1] r = Some (r\<lparr>rt_seen := t1, rt_state := Suspect\<rparr>)"
    "aged_by [t1, t2] r = Some (r\<lparr>rt_seen := t2, rt_state := Bad\<rparr>)"
    "aged_by [t1, t2, t3] r = Some (r\<lparr>rt_seen := t3, rt_state := Worst\<rparr>)"
    "aged_by [t1, t2, t3, t4] r = None"
    using assms(2-6) by (simp_all add: age_route_mortal [OF assms(1)] age_route_mortal [OF m])
qed

lemma aged_by_path: "aged_by nows r = Some q \<Longrightarrow> path_of q = path_of r"
  by (induction nows arbitrary: r) (auto split: option.splits dest!: age_route_props(1))

lemma ages_keep: "r \<in> set (tb_routes T) \<Longrightarrow> aged_by nows r = Some q \<Longrightarrow> q \<in> set (tb_routes (ages nows T))"
  by (auto simp: routes_ages set_map_filter)

text \<open>
  A route learned over a port and never confirmed again carries traffic for one expiry, is announced bad
  for two more, and is deleted at the fourth; our own networks and the routes learned from a tunnel
  peer are untouched by the timer, however often it runs.
\<close>

theorem validity_timer:
  assumes "table_reachable T" "r \<in> set (tb_routes T)"
  shows "(\<not> mortal r \<longrightarrow> r \<in> set (tb_routes (ages nows T)))
    \<and> (mortal r \<longrightarrow> rt_state r = Good \<longrightarrow>
         rt_seen r + VALIDITY \<le> t1 \<longrightarrow> t1 + VALIDITY \<le> t2 \<longrightarrow> t2 + VALIDITY \<le> t3 \<longrightarrow> t3 + VALIDITY \<le> t4 \<longrightarrow>
         r\<lparr>rt_seen := t1, rt_state := Suspect\<rparr> \<in> set (tb_routes (ages [t1] T))
         \<and> r\<lparr>rt_seen := t2, rt_state := Bad\<rparr> \<in> set (tb_routes (ages [t1, t2] T))
         \<and> r\<lparr>rt_seen := t3, rt_state := Worst\<rparr> \<in> set (tb_routes (ages [t1, t2, t3] T))
         \<and> path_of r \<notin> path_of ` set (tb_routes (ages [t1, t2, t3, t4] T)))"
proof (intro conjI impI)
  show "r \<in> set (tb_routes (ages nows T))" if "\<not> mortal r"
    using ages_keep [OF assms(2) aged_by_immortal [OF that]] .
  assume m: "mortal r" "rt_state r = Good"
    "rt_seen r + VALIDITY \<le> t1" "t1 + VALIDITY \<le> t2" "t2 + VALIDITY \<le> t3" "t3 + VALIDITY \<le> t4"
  note life = aged_by_mortal [OF m]
  show "r\<lparr>rt_seen := t1, rt_state := Suspect\<rparr> \<in> set (tb_routes (ages [t1] T))"
    "r\<lparr>rt_seen := t2, rt_state := Bad\<rparr> \<in> set (tb_routes (ages [t1, t2] T))"
    "r\<lparr>rt_seen := t3, rt_state := Worst\<rparr> \<in> set (tb_routes (ages [t1, t2, t3] T))"
    by (rule ages_keep [OF assms(2) life(1)] ages_keep [OF assms(2) life(2)] ages_keep [OF assms(2) life(3)])+
  show "path_of r \<notin> path_of ` set (tb_routes (ages [t1, t2, t3, t4] T))"
  proof
    assume "path_of r \<in> path_of ` set (tb_routes (ages [t1, t2, t3, t4] T))"
    then obtain q q0 where q: "path_of q = path_of r" "q0 \<in> set (tb_routes T)" "aged_by [t1, t2, t3, t4] q0 = Some q"
      by (auto simp: routes_ages set_map_filter)
    then have "path_of q0 = path_of r" using aged_by_path [OF q(3)] by simp
    moreover have "distinct (map path_of (tb_routes T))"
      using routes_okD(4) [OF tables_okD(1) [OF table_reachable_ok [OF assms(1)]]] .
    ultimately have "q0 = r" using q(2) assms(2) by (auto simp: distinct_map dest: inj_onD)
    with q(3) life(4) show False by simp
  qed
qed

theorem validity_timer_witness:
  "path_of (tb_routes example_tables ! 1) \<notin> path_of ` set (tb_routes (ages [secs 30, secs 60, secs 90, secs 120] example_tables))"
proof -
  have r: "tb_routes example_tables ! 1 \<in> set (tb_routes example_tables)"
    by (simp add: example_tables_eval)
  show ?thesis
    using validity_timer [OF example_reachable r, where ?t1.0 = "secs 30" and ?t2.0 = "secs 60" and ?t3.0 = "secs 90"
        and ?t4.0 = "secs 120"]
    by (simp add: example_tables_eval mortal_def VALIDITY_def secs_def)
qed

section \<open>Zone names\<close>

abbreviation no_twice :: "rstring list \<Rightarrow> bool" where
  "no_twice \<equiv> sorted_wrt (\<lambda>a b. \<not> eq_ignore_ascii_case a b)"

lemma no_twice_add_names: "no_twice held \<Longrightarrow> no_twice (add_names held names)"
  by (induction names arbitrary: held) (auto simp: sorted_wrt_append)

lemma add_names_keep: "h \<in> set held \<Longrightarrow> h \<in> set (add_names held names)"
  by (induction names arbitrary: held) auto

lemma add_names_cover: "n \<in> set names \<Longrightarrow> \<exists>h \<in> set (add_names held names). eq_ignore_ascii_case h n"
proof (induction names arbitrary: held)
  case (Cons m names)
  show ?case
  proof (cases "n = m")
    case True
    have "\<exists>h \<in> set (if \<exists>h \<in> set held. eq_ignore_ascii_case h m then held else held @ [m]).
        eq_ignore_ascii_case h m" by auto
    then obtain h where "h \<in> set (if \<exists>h \<in> set held. eq_ignore_ascii_case h m then held else held @ [m])"
      "eq_ignore_ascii_case h m" by blast
    then show ?thesis using True by (intro bexI [of _ h]) (simp_all add: add_names_keep)
  next
    case False
    with Cons show ?thesis by simp
  qed
qed simp

lemma add_names_from: "h \<in> set (add_names held names) \<Longrightarrow> h \<in> set held \<or> h \<in> set names"
proof (induction names arbitrary: held)
  case (Cons m names)
  have "h \<in> set (if \<exists>h \<in> set held. eq_ignore_ascii_case h m then held else held @ [m]) \<or> h \<in> set names"
    using Cons.IH Cons.prems by simp
  then show ?case by (auto split: if_splits)
qed simp

definition complete_list :: "tables \<Rightarrow> u16 \<Rightarrow> rstring list" where
  "complete_list T s = (case tb_zones T s of Some (_, z) \<Rightarrow> if zl_complete z then zl_names z else [] | None \<Rightarrow> [])"

lemma all_zones_fold: "all_zones T = fold (\<lambda>s out. add_names out (complete_list T s)) (starts T) []"
proof -
  have "(\<lambda>s out. case tb_zones T s of
      Some (_, z) \<Rightarrow> if zl_complete z then add_names out (zl_names z) else out | None \<Rightarrow> out)
    = (\<lambda>s out. add_names out (complete_list T s))"
    by (intro ext) (auto simp: complete_list_def split: option.split prod.split)
  then show ?thesis by (simp add: all_zones_def)
qed

lemma zone_fold:
  fixes f :: "u16 \<Rightarrow> rstring list"
  defines "out ss acc \<equiv> fold (\<lambda>s out. add_names out (f s)) ss acc"
  shows "no_twice acc \<Longrightarrow> no_twice (out ss acc)"
    and "h \<in> set acc \<Longrightarrow> h \<in> set (out ss acc)"
    and "s \<in> set ss \<Longrightarrow> n \<in> set (f s) \<Longrightarrow> \<exists>h \<in> set (out ss acc). eq_ignore_ascii_case h n"
    and "h \<in> set (out ss acc) \<Longrightarrow> h \<in> set acc \<or> (\<exists>s \<in> set ss. h \<in> set (f s))"
proof -
  have keep: "h \<in> set acc \<Longrightarrow> h \<in> set (out ss acc)" for h acc ss
    by (induction ss arbitrary: acc) (auto simp: out_def add_names_keep)
  then show "h \<in> set acc \<Longrightarrow> h \<in> set (out ss acc)" .
  show "no_twice acc \<Longrightarrow> no_twice (out ss acc)"
    by (induction ss arbitrary: acc) (auto simp: out_def no_twice_add_names)
  show "h \<in> set (out ss acc) \<Longrightarrow> h \<in> set acc \<or> (\<exists>s \<in> set ss. h \<in> set (f s))"
    by (induction ss arbitrary: acc) (auto simp: out_def dest: add_names_from)
  show "s \<in> set ss \<Longrightarrow> n \<in> set (f s) \<Longrightarrow> \<exists>h \<in> set (out ss acc). eq_ignore_ascii_case h n"
  proof (induction ss arbitrary: acc)
    case (Cons x ss)
    have step: "out (x # ss) acc = out ss (add_names acc (f x))" by (simp add: out_def)
    show ?case
    proof (cases "s = x")
      case True
      with Cons.prems(2) add_names_cover [of n "f x" acc] keep show ?thesis unfolding step by blast
    next
      case False
      with Cons show ?thesis unfolding step by simp
    qed
  qed simp
qed

text \<open>
  The list of zones a router answers with names every zone of every network whose zone list is complete,
  nothing else, and no zone twice, two spellings that differ in the case of ASCII letters being one zone.
\<close>

theorem all_zones_exact:
  "(\<forall>i j. i < j \<longrightarrow> j < length (all_zones T) \<longrightarrow> \<not> eq_ignore_ascii_case (all_zones T ! i) (all_zones T ! j))
   \<and> (\<forall>r \<in> set (tb_routes T). \<forall>e z. tb_zones T (rt_start r) = Some (e, z) \<longrightarrow> zl_complete z \<longrightarrow>
        (\<forall>n \<in> set (zl_names z). \<exists>h \<in> set (all_zones T). eq_ignore_ascii_case h n))
   \<and> (\<forall>h \<in> set (all_zones T). \<exists>r \<in> set (tb_routes T). \<exists>e z. tb_zones T (rt_start r) = Some (e, z)
        \<and> zl_complete z \<and> h \<in> set (zl_names z))"
proof (intro conjI ballI allI impI)
  fix i j assume "i < j" "j < length (all_zones T)"
  moreover have "no_twice (all_zones T)" unfolding all_zones_fold by (rule zone_fold(1)) simp
  ultimately show "\<not> eq_ignore_ascii_case (all_zones T ! i) (all_zones T ! j)"
    by (simp add: sorted_wrt_iff_nth_less)
next
  fix r e z n assume r: "r \<in> set (tb_routes T)" "tb_zones T (rt_start r) = Some (e, z)" "zl_complete z"
    "n \<in> set (zl_names z)"
  then have "n \<in> set (complete_list T (rt_start r))" by (simp add: complete_list_def)
  moreover have "rt_start r \<in> set (starts T)" using r(1) by (auto simp: set_starts)
  ultimately show "\<exists>h \<in> set (all_zones T). eq_ignore_ascii_case h n"
    unfolding all_zones_fold by (intro zone_fold(3))
next
  fix h assume "h \<in> set (all_zones T)"
  then obtain s where s: "s \<in> set (starts T)" "h \<in> set (complete_list T s)"
    unfolding all_zones_fold using zone_fold(4) [of h "complete_list T" "starts T" "[]"] by auto
  then show "\<exists>r \<in> set (tb_routes T). \<exists>e z. tb_zones T (rt_start r) = Some (e, z)
        \<and> zl_complete z \<and> h \<in> set (zl_names z)"
    by (cases "tb_zones T s") (auto simp: set_starts complete_list_def split: if_splits)
qed

theorem all_zones_exact_witness:
  "\<exists>h \<in> set (all_zones example_tables). eq_ignore_ascii_case h (lit ''Lab'')"
  using conjunct1 [OF conjunct2 [OF all_zones_exact [of example_tables]]]
  by (simp add: example_tables_eval zl_complete_def)

section \<open>Ranges nobody checked\<close>

text \<open>
  Why learning asks for a range the right way round.  A tuple whose first network is above its last
  overlaps nothing, so the guard that protects our own networks lets it through: it becomes a second
  entry that starts at a network of our own, and a datagram for that network still takes our port only
  because the incumbent is nearer.
\<close>

theorem inverted_range_slips_in:
  "let T = add_port 0 (6800, 6800) True [lit ''Home''] 0 tables_new;
       t = \<lparr>nt_range = (6800, 1), nt_extended = True, nt_distance = 0\<rparr>;
       T' = fst (learn t (TPort 1) (mk_addr 1 1) 5 T)
   in \<not> learn_ignored t T \<and> map rt_start (tb_routes T') = [6800, 6800]
      \<and> map direct (tb_routes T') = [True, False]
      \<and> \<not> range_ok (nt_range t) \<and> (\<exists>r. best_for_start T' 6800 = Some r \<and> direct r)"
proof -
  have "\<not> (6800 :: u16) \<le> 1" by (simp add: word_le_nat_alt)
  then show ?thesis by (simp add: table_eval range_ok_def)
qed

end
