(* ===== verification/Node.thy ===== *)
theory Node
  imports Wire_Decode
begin

text \<open>
  \<open>src/src/node.rs\<close>, the decisions: AARP (what a packet means for an address of ours), gleaning, the
  verdict on a GetNetInfo reply, and the collection of lookup replies.  They are free functions over
  a decoded packet in the code and here.  The methods of \<open>Node\<close> are in \<open>Node_Run\<close>.
\<close>

section \<open>Building datagrams and frames\<close>

definition BROADCAST_MAC :: macaddr where
  "BROADCAST_MAC = Mac 0x09 0x00 0x07 0xff 0xff 0xff"

definition mac_zero :: macaddr where
  "mac_zero = Mac 0 0 0 0 0 0"

definition OUR_SOCKET :: u8 where "OUR_SOCKET = 128"

definition datagram :: "addr \<Rightarrow> u8 \<Rightarrow> addr \<Rightarrow> u8 \<Rightarrow> u8 \<Rightarrow> bytes \<Rightarrow> ddp" where
  "datagram src src_socket dst dst_socket typ dat =
     \<lparr>d_hops = 0, d_length = 0, d_checksum = 0, d_dst = dst, d_dst_socket = dst_socket,
      d_src = src, d_src_socket = src_socket, d_typ = typ, d_data = dat\<rparr>"

definition node_frame :: "macaddr \<Rightarrow> macaddr \<Rightarrow> u16 \<Rightarrow> bytes \<Rightarrow> frame" where
  "node_frame src dst proto payload =
     \<lparr>f_dst = dst, f_src = src, f_proto = proto, f_snap = True, f_payload = payload\<rparr>"

definition pick_address :: "u64 \<Rightarrow> addr" where
  "pick_address seed =
     mk_addr (0xff00 + ucast (seed mod 0xff)) (1 + ucast (drop_bit 16 seed mod 253))"

section \<open>AARP\<close>

definition PROBE_TRIES :: u32 where "PROBE_TRIES = 10"
definition PROBE_INTERVAL :: duration where "PROBE_INTERVAL = millis 200"

definition probe :: "addr \<Rightarrow> macaddr \<Rightarrow> aarp" where
  "probe a hw =
     \<lparr>aa_op = 3, aa_src_hw = hw, aa_src = a, aa_dst_hw = mac_zero, aa_dst = a\<rparr>"

definition aarp_request :: "addr \<Rightarrow> macaddr \<Rightarrow> addr \<Rightarrow> aarp" where
  "aarp_request ours our_mac tgt =
     \<lparr>aa_op = 1, aa_src_hw = our_mac, aa_src = ours, aa_dst_hw = mac_zero, aa_dst = tgt\<rparr>"

definition aarp_response :: "addr \<Rightarrow> macaddr \<Rightarrow> addr \<Rightarrow> macaddr \<Rightarrow> aarp" where
  "aarp_response ours our_mac to to_mac =
     \<lparr>aa_op = 2, aa_src_hw = our_mac, aa_src = ours, aa_dst_hw = to_mac, aa_dst = to\<rparr>"

datatype aarp_action = Conflict | AnswerTo macaddr | IgnoreAarp

definition aarp_action :: "packet \<Rightarrow> addr \<Rightarrow> macaddr \<Rightarrow> bool \<Rightarrow> aarp_action" where
  "aarp_action p ours our_mac probing =
     (case pk_body p of
        BAarp a \<Rightarrow>
          if aa_op a = 2 \<and> aa_src a = ours then Conflict
          else if aa_op a = 3 \<and> aa_src a = ours \<and> aa_src_hw a \<noteq> our_mac then
            (if probing then Conflict else AnswerTo (aa_src_hw a))
          else if aa_op a = 1 \<and> aa_dst a = ours \<and> \<not> probing then AnswerTo (aa_src_hw a)
          else IgnoreAarp
      | _ \<Rightarrow> IgnoreAarp)"

section \<open>Gleaning\<close>

type_synonym amt = "addr \<rightharpoonup> macaddr"

definition glean :: "amt \<Rightarrow> packet \<Rightarrow> amt" where
  "glean amt p =
     (case pk_body p of
        BAarp a \<Rightarrow> if aa_op a \<noteq> 3 then amt(aa_src a \<mapsto> aa_src_hw a) else amt
      | BDdp d _ \<Rightarrow> amt(d_src d \<mapsto> f_src (pk_frame p))
      | BUnknown \<Rightarrow> amt)"

definition mac_for :: "amt \<Rightarrow> addr \<Rightarrow> macaddr" where
  "mac_for amt dst =
     (if a_node dst = 255 then BROADCAST_MAC
      else case amt dst of Some m \<Rightarrow> m | None \<Rightarrow> BROADCAST_MAC)"

section \<open>GetNetInfo\<close>

datatype net_info = Keep | Repick "u16 \<times> u16"

definition netinfo_verdict :: "packet \<Rightarrow> addr \<Rightarrow> rstring \<Rightarrow> (net_info \<times> rstring \<times> addr) option" where
  "netinfo_verdict p provisional requested_zone =
     (case pk_body p of
        BDdp d (BZip (ZipNetInfoReply flags rng zone mc default_zone)) \<Rightarrow>
          if a_node (d_dst d) \<noteq> 255 \<and> d_dst d \<noteq> provisional then None
          else if zone \<noteq> requested_zone then None
          else if snd rng < fst rng then None
          else
            let zone = (case default_zone of Some z \<Rightarrow> z | None \<Rightarrow> zone);
                verdict = (if fst rng \<le> a_net provisional \<and> a_net provisional \<le> snd rng
                           then Keep else Repick rng)
            in Some (verdict, zone, d_src d)
      | _ \<Rightarrow> None)"

section \<open>Lookups\<close>

definition lookup_request ::
    "nbp_func \<Rightarrow> u8 \<Rightarrow> addr \<Rightarrow> u8 \<Rightarrow> rstring \<Rightarrow> rstring \<Rightarrow> rstring \<Rightarrow> nbp" where
  "lookup_request func nid ours socket obj typ zone =
     \<lparr>n_func = func, n_id = nid,
      n_tuples = [\<lparr>nb_addr = ours, nb_socket = socket, nb_enumerator = 0,
                   nb_object = obj, nb_typ = typ, nb_zone = zone\<rparr>]\<rparr>"

definition lookup_replies :: "packet \<Rightarrow> u8 \<Rightarrow> nbp_tuple list" where
  "lookup_replies p nid =
     (case pk_body p of
        BDdp _ (BNbp n) \<Rightarrow> if n_func n = LkUpReply \<and> n_id n = nid then n_tuples n else []
      | _ \<Rightarrow> [])"

definition entity :: "nbp_tuple \<Rightarrow> addr \<times> u8 \<times> u8 \<times> rstring \<times> rstring" where
  "entity t = (nb_addr t, nb_socket t, nb_enumerator t, nb_object t, nb_typ t)"

fun merge :: "nbp_tuple list \<Rightarrow> nbp_tuple list \<Rightarrow> nbp_tuple list" where
  "merge into [] = into"
| "merge into (t # ts) =
     merge (if \<exists>e \<in> set into. entity e = entity t then into else into @ [t]) ts"

section \<open>What the decisions amount to\<close>

text \<open>A probing node answers nothing, whatever it hears.\<close>

lemma probing_silent: "aarp_action p ours hw True \<noteq> AnswerTo m"
  by (auto simp: aarp_action_def split: body.splits if_splits)

text \<open>Two nodes probing for one address: each sees a conflict in the other's probe, never in its own.\<close>

lemma probe_meets_probe:
  "pk_body p = BAarp (probe a m) \<Longrightarrow>
   aarp_action p a m' True = (if m = m' then IgnoreAarp else Conflict)"
  by (simp add: aarp_action_def probe_def)

text \<open>A holder answers the probe, and the prober reads the answer as a conflict.\<close>

lemma holder_answers_probe:
  "pk_body p = BAarp (probe a m) \<Longrightarrow> m \<noteq> m' \<Longrightarrow> aarp_action p a m' False = AnswerTo m"
  by (simp add: aarp_action_def probe_def)

lemma answer_is_conflict:
  "pk_body p = BAarp (aarp_response a m to to_mac) \<Longrightarrow> aarp_action p a m' probing = Conflict"
  by (simp add: aarp_action_def aarp_response_def)

text \<open>A tentative address is never gleaned.\<close>

lemma glean_probe: "pk_body p = BAarp (probe a m) \<Longrightarrow> glean amt p = amt"
  by (simp add: glean_def probe_def)

lemma glean_Some:
  "glean amt p a = Some m \<Longrightarrow>
   amt a = Some m
   \<or> (\<exists>x. pk_body p = BAarp x \<and> aa_op x \<noteq> 3 \<and> aa_src x = a \<and> aa_src_hw x = m)
   \<or> (\<exists>d b. pk_body p = BDdp d b \<and> d_src d = a \<and> f_src (pk_frame p) = m)"
  by (auto simp: glean_def split: body.splits if_splits)

text \<open>Merging keeps one tuple per entity, the first heard, in the order they were first heard.\<close>

definition push_entity :: "nbp_tuple list \<Rightarrow> nbp_tuple \<Rightarrow> nbp_tuple list" where
  "push_entity into t = (if entity t \<in> entity ` set into then into else into @ [t])"

lemma merge_fold: "merge into ts = fold (\<lambda>t i. push_entity i t) ts into"
proof (induction ts arbitrary: into)
  case (Cons t ts)
  have "(\<exists>e \<in> set into. entity e = entity t) \<longleftrightarrow> entity t \<in> entity ` set into"
    unfolding image_iff by metis
  then show ?case by (simp add: Cons.IH push_entity_def)
qed simp

lemma push_entity_facts:
  "distinct (map entity into) \<Longrightarrow> distinct (map entity (push_entity into t))"
  "entity ` set (push_entity into t) = insert (entity t) (entity ` set into)"
  "set (push_entity into t) \<subseteq> insert t (set into)"
  "\<exists>us. push_entity into t = into @ us"
  by (cases "entity t \<in> entity ` set into"; force simp: push_entity_def)+

lemma merge_spec:
  "distinct (map entity into) \<Longrightarrow> distinct (map entity (merge into ts))"
  "entity ` set (merge into ts) = entity ` set into \<union> entity ` set ts"
  "set (merge into ts) \<subseteq> set into \<union> set ts"
  "\<exists>us. merge into ts = into @ us"
proof -
  show "distinct (map entity into) \<Longrightarrow> distinct (map entity (merge into ts))"
    unfolding merge_fold by (induction ts arbitrary: into) (simp_all add: push_entity_facts(1))
  show "entity ` set (merge into ts) = entity ` set into \<union> entity ` set ts"
    unfolding merge_fold by (induction ts arbitrary: into) (simp_all add: push_entity_facts(2))
  show "set (merge into ts) \<subseteq> set into \<union> set ts"
    unfolding merge_fold
  proof (induction ts arbitrary: into)
    case (Cons t ts)
    show ?case using Cons.IH [of "push_entity into t"] push_entity_facts(3) [of into t] by auto
  qed simp
  show "\<exists>us. merge into ts = into @ us"
    unfolding merge_fold
  proof (induction ts arbitrary: into)
    case (Cons t ts)
    obtain us where "push_entity into t = into @ us" using push_entity_facts(4) by blast
    with Cons.IH [of "push_entity into t"] show ?case by auto
  qed simp
qed

text \<open>
  A GetNetInfo reply moves a node only when it answers this node's own question: it is broadcast or
  addressed to the node, it echoes the zone that was asked for and its range is the right way round;
  then the node keeps its address exactly when its network lies in that range, and the zone it
  adopts is the default zone when the reply names one.
\<close>

theorem netinfo_verdict_exact:
  "netinfo_verdict p ours asked = Some (v, zone, router) \<longleftrightarrow>
   (\<exists>d flags lo hi mc dz.
      pk_body p = BDdp d (BZip (ZipNetInfoReply flags (lo, hi) asked mc dz))
      \<and> (a_node (d_dst d) = 255 \<or> d_dst d = ours) \<and> lo \<le> hi \<and> router = d_src d
      \<and> zone = (case dz of Some z \<Rightarrow> z | None \<Rightarrow> asked)
      \<and> v = (if a_net ours \<in> {lo..hi} then Keep else Repick (lo, hi)))"
proof (cases "\<exists>d flags rng z mc dz. pk_body p = BDdp d (BZip (ZipNetInfoReply flags rng z mc dz))")
  case True
  then obtain d flags lo hi z mc dz where
    p: "pk_body p = BDdp d (BZip (ZipNetInfoReply flags (lo, hi) z mc dz))" by auto
  show ?thesis unfolding netinfo_verdict_def p by (auto simp: Let_def not_less)
next
  case False
  then have "netinfo_verdict p ours asked = None"
    unfolding netinfo_verdict_def by (auto split: body.split ddp_body.split zip.split)
  with False show ?thesis by auto
qed

end
