(* ===== verification/Router_Base.thy ===== *)
theory Router_Base
  imports Routing_Table Node
begin

text \<open>
  The vocabulary the router's parts share, from \<open>src/src/router/mod.rs\<close> and the two connection states
  of \<open>src/src/router/aurp.rs\<close>: where a datagram came from, what a service may ask for, and the actions
  handed to the run loop.  A log line keeps the values it prints; its wording is not modelled.
\<close>

section \<open>AURP connection states\<close>

datatype receiver = RUnconnected | RWaitOpenRsp | RWaitRiRsp | RConnected | RWaitTickleAck

datatype sender = SUnconnected | SConnected | SWaitRiRspAck | SWaitRiUpdAck | SWaitRdAck

datatype reason =
    OpenRspError i16
  | SequenceAhead
  | RouterDown i16
  | NoAnswer
  | TicklesUnanswered
  | NoAck

section \<open>Actions\<close>

datatype origin = OPort port_id | OPeer ipv4 | OLocal

fun origin_is :: "origin \<Rightarrow> target \<Rightarrow> bool" where
  "origin_is (OPort a) (TPort b) \<longleftrightarrow> a = b"
| "origin_is (OPeer a) (TPeer b) \<longleftrightarrow> a = b"
| "origin_is _ _ \<longleftrightarrow> False"

datatype dest = DNode u8 | DBroadcast | DZone rstring

datatype emit = EmitOn port_id dest ddp | EmitRoute ddp

datatype log_line =
    LogClaimed rstring addr
  | LogStolen rstring addr macaddr
  | LogRoute "u16 \<times> u16" "route option" "route option" "rstring list"
  | LogUnknownPeer ipv4
  | LogTooManyPeers ipv4
  | LogReceiver ipv4 receiver receiver "reason option"
  | LogSender ipv4 sender sender "reason option"
  | LogPingReport
  | LogDump

datatype action =
    ToEther port_id frame
  | ToLlap port_id llap
  | ToPeer ipv4 bytes
  | SetNode port_id "u8 option"
  | ALog log_line

definition is_log :: "action \<Rightarrow> bool" where
  "is_log a \<longleftrightarrow> (case a of ALog _ \<Rightarrow> True | _ \<Rightarrow> False)"

lemma origin_is_iff:
  "origin_is origin t \<longleftrightarrow> (\<exists>p. origin = OPort p \<and> t = TPort p) \<or> (\<exists>ip. origin = OPeer ip \<and> t = TPeer ip)"
  by (cases origin; cases t) auto

end
