(* ===== verification/Ports.thy ===== *)
theory Ports
  imports Router_Base
begin

text \<open>
  \<open>src/src/router/ports.rs\<close>: a port of the router, its claim on a node ID, and the framing of each kind
  of link.  The seed of a candidate is a hash of the clock, the port and its MAC whose algorithm the
  standard library leaves open: it is the parameter \<open>seed\<close> of the operations that draw one.  The
  order a hash map is iterated in is the parameter \<open>entries\<close>.
\<close>

section \<open>Data\<close>

definition ENQ_TRIES :: u32 where "ENQ_TRIES = 8"
definition ENQ_INTERVAL :: duration where "ENQ_INTERVAL = millis 250"

datatype kind = KEther macaddr | KLtoudp | KTashtalk

record claim =
  cl_node :: u8
  cl_tries :: u32
  cl_next :: instant
  cl_attempt :: u32

record port =
  p_id :: port_id
  p_name :: rstring
  p_kind :: kind
  p_range :: "u16 \<times> u16"
  p_zones :: "rstring list"
  p_node :: "u8 option"
  p_amt :: amt
  p_claim :: claim

datatype port_in = InDdp ddp | Handled | Ignored

type_synonym seeder = "port_id \<Rightarrow> kind \<Rightarrow> instant \<Rightarrow> u32 \<Rightarrow> u64"

section \<open>Candidates\<close>

fun id_range :: "kind \<Rightarrow> u8 \<times> u64" where
  "id_range (KEther _) = (1, 253)"
| "id_range _ = (128, 127)"

definition candidate :: "kind \<Rightarrow> u64 \<Rightarrow> u8" where
  "candidate kind s = (case id_range kind of (lo, span) \<Rightarrow> lo + ucast (s mod span))"

definition next_node :: "kind \<Rightarrow> u8 \<Rightarrow> u8" where
  "next_node kind node = (case id_range kind of (lo, span) \<Rightarrow> lo + ucast ((ucast (node - lo) + 1) mod span))"

section \<open>Operations\<close>

definition port_new ::
    "seeder \<Rightarrow> port_id \<Rightarrow> rstring \<Rightarrow> kind \<Rightarrow> u16 \<times> u16 \<Rightarrow> rstring list \<Rightarrow> instant \<Rightarrow> port" where
  "port_new seed i name kind rng zones now =
     \<lparr>p_id = i, p_name = name, p_kind = kind, p_range = rng, p_zones = zones, p_node = None,
      p_amt = Map.empty,
      p_claim = \<lparr>cl_node = candidate kind (seed i kind now 0), cl_tries = 0, cl_next = now, cl_attempt = 0\<rparr>\<rparr>"

fun kind_extended :: "kind \<Rightarrow> bool" where
  "kind_extended (KEther _) = True"
| "kind_extended _ = False"

definition port_extended :: "port \<Rightarrow> bool" where
  "port_extended p = kind_extended (p_kind p)"

definition port_addr :: "port \<Rightarrow> addr option" where
  "port_addr p = map_option (mk_addr (fst (p_range p))) (p_node p)"

definition default_zone :: "port \<Rightarrow> rstring" where
  "default_zone p = (case p_zones p of z # _ \<Rightarrow> z | [] \<Rightarrow> [])"

definition has_zone :: "port \<Rightarrow> rstring \<Rightarrow> bool" where
  "has_zone p z \<longleftrightarrow> (\<exists>ours \<in> set (p_zones p). eq_ignore_ascii_case ours z)"

definition claiming_node :: "port \<Rightarrow> u8" where
  "claiming_node p = (case p_node p of Some n \<Rightarrow> n | None \<Rightarrow> cl_node (p_claim p))"

fun schedule :: "kind \<Rightarrow> u32 \<times> duration" where
  "schedule (KEther _) = (PROBE_TRIES, PROBE_INTERVAL)"
| "schedule _ = (ENQ_TRIES, ENQ_INTERVAL)"

definition claimed :: "port \<Rightarrow> port \<times> action list" where
  "claimed p =
     (let node = cl_node (p_claim p);
          addr = mk_addr (fst (p_range p)) node
      in (p\<lparr>p_node := Some node\<rparr>,
          [ALog (LogClaimed (p_name p) addr)]
            @ (if p_kind p = KTashtalk then [SetNode (p_id p) (Some node)] else [])))"

definition restart :: "seeder \<Rightarrow> instant \<Rightarrow> port \<Rightarrow> port" where
  "restart seed now p =
     (let attempt = cl_attempt (p_claim p) + 1;
          node = candidate (p_kind p) (seed (p_id p) (p_kind p) now attempt);
          node = (if node = cl_node (p_claim p) then next_node (p_kind p) node else node)
      in p\<lparr>p_claim := \<lparr>cl_node = node, cl_tries = 0, cl_next = now, cl_attempt = attempt\<rparr>\<rparr>)"

definition port_tick :: "instant \<Rightarrow> port \<Rightarrow> port \<times> action list" where
  "port_tick now p =
     (if p_node p \<noteq> None \<or> now < cl_next (p_claim p) then (p, [])
      else case schedule (p_kind p) of (tries, interval) \<Rightarrow>
        if cl_tries (p_claim p) \<ge> tries then claimed p
        else
          let p = p\<lparr>p_claim := (p_claim p)\<lparr>cl_tries := cl_tries (p_claim p) + 1, cl_next := now + interval\<rparr>\<rparr>;
              node = cl_node (p_claim p)
          in (p, case p_kind p of
                   KEther hw \<Rightarrow>
                     [ToEther (p_id p) (node_frame hw BROADCAST_MAC AARP
                        (aarp_encode (probe (mk_addr (fst (p_range p)) node) hw)))]
                 | _ \<Rightarrow> [ToLlap (p_id p) (llap_control node node LLAP_ENQ)]))"

text \<open>Ethernet input.\<close>

definition inbound_ether :: "seeder \<Rightarrow> packet \<Rightarrow> instant \<Rightarrow> port \<Rightarrow> port_in \<times> action list \<times> port" where
  "inbound_ether seed pk now p =
     (case p_kind p of
        KEther hw \<Rightarrow>
          if f_src (pk_frame pk) = hw then (Ignored, [], p)
          else
            let p = p\<lparr>p_amt := glean (p_amt p) pk\<rparr> in
            (case pk_body pk of
               BAarp a \<Rightarrow>
                 let probing = (p_node p = None);
                     ours = mk_addr (fst (p_range p)) (claiming_node p)
                 in (case aarp_action pk ours hw probing of
                       Conflict \<Rightarrow>
                         if probing then (Handled, [], restart seed now p)
                         else (Handled, [ALog (LogStolen (p_name p) ours (aa_src_hw a))], p)
                     | AnswerTo to \<Rightarrow>
                         let r = aarp_response ours hw (aa_src a) to
                         in (Handled, [ToEther (p_id p) (node_frame hw to AARP (aarp_encode r))], p)
                     | IgnoreAarp \<Rightarrow> (Handled, [], p))
             | BDdp d _ \<Rightarrow> (InDdp d, [], p)
             | BUnknown \<Rightarrow> (Ignored, [], p))
      | _ \<Rightarrow> (Ignored, [], p))"

definition lifted :: "ddp option \<Rightarrow> port_in" where
  "lifted x = (case x of Some d \<Rightarrow> InDdp d | None \<Rightarrow> Ignored)"

text \<open>LocalTalk input.\<close>

definition inbound_llap :: "seeder \<Rightarrow> llap \<Rightarrow> instant \<Rightarrow> port \<Rightarrow> port_in \<times> action list \<times> port" where
  "inbound_llap seed l now p =
     (let ours = claiming_node p in
      if p_node p = None \<and> (l_typ l = LLAP_ENQ \<or> l_typ l = LLAP_ACK) \<and> l_dst l = ours
      then (Handled, [], restart seed now p)
      else if l_typ l = LLAP_ENQ \<and> p_node p = Some (l_dst l) then
        (if p_kind p = KTashtalk then (Handled, [], p)
         else (Handled, [ToLlap (p_id p) (llap_control (l_dst l) (l_dst l) LLAP_ACK)], p))
      else if l_typ l = LLAP_ENQ then (Handled, [], p)
      else if l_src l = ours \<and> p_node p \<noteq> None then (Ignored, [], p)
      else if l_typ l = LLAP_ACK then (Handled, [], p)
      else if l_typ l = LLAP_SHORT_DDP then
        (lifted (ddp_from_short (l_data l) (fst (p_range p)) (l_dst l) (l_src l)), [], p)
      else if l_typ l = LLAP_LONG_DDP then (lifted (ddp_parse (l_data l)), [], p)
      else (Ignored, [], p))"

definition mac_for_node :: "(amt \<Rightarrow> (addr \<times> macaddr) list) \<Rightarrow> port \<Rightarrow> u8 \<Rightarrow> u16 \<Rightarrow> macaddr" where
  "mac_for_node entries p node net =
     (let exact = mac_for (p_amt p) (mk_addr net node) in
      if exact \<noteq> BROADCAST_MAC then exact
      else
        case find (\<lambda>(a, _). a_node a = node \<and> fst (p_range p) \<le> a_net a \<and> a_net a \<le> snd (p_range p))
               (entries (p_amt p)) of
          Some (_, m) \<Rightarrow> m
        | None \<Rightarrow> BROADCAST_MAC)"

definition port_emit ::
    "(amt \<Rightarrow> (addr \<times> macaddr) list) \<Rightarrow> port \<Rightarrow> dest \<Rightarrow> ddp \<Rightarrow> action option" where
  "port_emit entries p dest d =
     do { node \<leftarrow> p_node p;
          case p_kind p of
            KEther hw \<Rightarrow>
              let dst = (case dest of
                           DNode n \<Rightarrow> mac_for_node entries p n (a_net (d_dst d))
                         | DBroadcast \<Rightarrow> BROADCAST_MAC
                         | DZone z \<Rightarrow> zone_multicast z)
              in Some (ToEther (p_id p) (node_frame hw dst DDP (ddp_encode d)))
          | _ \<Rightarrow>
              let dst = (case dest of DNode n \<Rightarrow> n | _ \<Rightarrow> 255);
                  short = (a_net (d_src d) = fst (p_range p)
                           \<and> (a_net (d_dst d) = fst (p_range p) \<or> a_net (d_dst d) = 0));
                  (typ, dat) = (if short then (LLAP_SHORT_DDP, ddp_to_short_bytes d)
                                else (LLAP_LONG_DDP, ddp_encode d))
              in Some (ToLlap (p_id p) \<lparr>l_dst = dst, l_src = node, l_typ = typ, l_data = dat\<rparr>) }"

end
