(* ===== verification/Port_Properties.thy ===== *)
theory Port_Properties
  imports Ports
begin

text \<open>
  What a port promises: a claim takes its full schedule of silence and lands on a legal node ID, a held
  address is never given up and is defended on the wire, and a datagram framed by one port is the
  datagram the port at the other end hands up.
\<close>

section \<open>Node IDs\<close>

definition valid_id :: "kind \<Rightarrow> u8 \<Rightarrow> bool" where
  "valid_id kind n \<longleftrightarrow> (case id_range kind of (lo, span) \<Rightarrow> unat lo \<le> unat n \<and> unat n < unat lo + unat span)"

lemma id_range_cases: "id_range kind = (1, 253) \<or> id_range kind = (128, 127)"
  by (cases kind) simp_all

lemma id_span:
  assumes "id_range kind = (lo, span)"
  shows "unat lo + unat span < 256" "1 < unat span" "unat span < 256"
  using id_range_cases [of kind] assms by auto

lemma unat_offset:
  assumes "id_range kind = (lo, span)" "unat (w :: u64) < unat span"
  shows "unat (lo + ucast w) = unat lo + unat w"
proof -
  note b = id_span [OF assms(1)]
  have "unat (ucast w :: u8) = unat w"
    using assms(2) b(3) by (simp add: unsigned_ucast_eq take_bit_nat_eq_self)
  then show ?thesis
    using assms(2) b(1) by (subst unat_word_ariths(1)) simp
qed

lemma unat_mod_span: "id_range kind = (lo, span) \<Longrightarrow> unat (w mod span) < unat span"
  using id_span(2) [of kind lo span] by (simp add: unat_mod)

lemma candidate_valid: "valid_id kind (candidate kind s)"
proof -
  obtain lo span where r: "id_range kind = (lo, span)" by fastforce
  show ?thesis
    using unat_offset [OF r unat_mod_span [OF r]] unat_mod_span [OF r, of s]
    by (simp add: valid_id_def candidate_def r)
qed

lemma next_node_valid:
  assumes "valid_id kind n"
  shows "valid_id kind (next_node kind n)" "next_node kind n \<noteq> n"
proof -
  obtain lo span where r: "id_range kind = (lo, span)" by fastforce
  note b = id_span [OF r]
  let ?k = "unat n - unat lo"
  from assms have n: "unat lo \<le> unat n" "?k < unat span" by (auto simp: valid_id_def r)
  have sub: "unat (n - lo) = ?k" using n(1) by (simp add: unat_sub word_le_nat_alt)
  have "unat (ucast (n - lo) :: u64) = ?k"
    using sub n(2) b(3) by (simp add: unsigned_ucast_eq take_bit_nat_eq_self)
  then have plus: "unat (ucast (n - lo) + 1 :: u64) = ?k + 1"
    using n(2) b(3) by (subst unat_word_ariths(1)) simp
  have md: "unat ((ucast (n - lo) + 1) mod span) = (?k + 1) mod unat span"
    by (simp only: unat_mod plus)
  have nxt: "unat (next_node kind n) = unat lo + (?k + 1) mod unat span"
    unfolding next_node_def r prod.case using unat_offset [OF r unat_mod_span [OF r]] md by simp
  with b(2) show "valid_id kind (next_node kind n)" by (simp add: valid_id_def r)
  show "next_node kind n \<noteq> n"
  proof
    assume "next_node kind n = n"
    with nxt n(1) have "(?k + 1) mod unat span = ?k" by simp
    moreover have "?k + 1 = unat span \<or> ?k + 1 < unat span" using n(2) by auto
    ultimately show False using b(2) by auto
  qed
qed

section \<open>The port as a transition system\<close>

datatype port_event = PTick instant | PEther packet instant | PLlap llap instant

fun port_step :: "seeder \<Rightarrow> port_event \<Rightarrow> port \<Rightarrow> port" where
  "port_step seed (PTick now) p = fst (port_tick now p)"
| "port_step seed (PEther pk now) p = snd (snd (inbound_ether seed pk now p))"
| "port_step seed (PLlap l now) p = snd (snd (inbound_llap seed l now p))"

definition tries_of :: "port \<Rightarrow> u32" where "tries_of p = fst (schedule (p_kind p))"
definition interval_of :: "port \<Rightarrow> duration" where "interval_of p = snd (schedule (p_kind p))"

definition port_ok :: "port \<Rightarrow> bool" where
  "port_ok p \<longleftrightarrow> valid_id (p_kind p) (cl_node (p_claim p)) \<and> cl_tries (p_claim p) \<le> tries_of p
     \<and> (\<forall>n. p_node p = Some n \<longrightarrow> n = cl_node (p_claim p))"

lemma port_new_ok: "port_ok (port_new seed i name kind rng zones now)"
  by (simp add: port_ok_def port_new_def candidate_valid tries_of_def)

lemma restart_simps [simp]:
  "p_kind (restart seed now p) = p_kind p" "p_node (restart seed now p) = p_node p"
  "p_range (restart seed now p) = p_range p" "p_id (restart seed now p) = p_id p"
  "p_zones (restart seed now p) = p_zones p" "p_amt (restart seed now p) = p_amt p"
  "cl_tries (p_claim (restart seed now p)) = 0" "cl_next (p_claim (restart seed now p)) = now"
  by (simp_all add: restart_def Let_def)

lemma restart_node:
  assumes "valid_id (p_kind p) (cl_node (p_claim p))"
  shows "valid_id (p_kind p) (cl_node (p_claim (restart seed now p)))"
    and "cl_node (p_claim (restart seed now p)) \<noteq> cl_node (p_claim p)"
  using next_node_valid [OF assms] candidate_valid by (auto simp: restart_def Let_def)

text \<open>What a tick does, in four cases.\<close>

definition sends :: "port \<Rightarrow> action" where
  "sends p =
     (case p_kind p of
        KEther hw \<Rightarrow> ToEther (p_id p) (node_frame hw BROADCAST_MAC AARP
                       (aarp_encode (probe (mk_addr (fst (p_range p)) (cl_node (p_claim p))) hw)))
      | _ \<Rightarrow> ToLlap (p_id p) (llap_control (cl_node (p_claim p)) (cl_node (p_claim p)) LLAP_ENQ))"

definition asked :: "instant \<Rightarrow> port \<Rightarrow> port" where
  "asked now p = p\<lparr>p_claim := (p_claim p)\<lparr>cl_tries := cl_tries (p_claim p) + 1, cl_next := now + interval_of p\<rparr>\<rparr>"

lemma port_tick_cases:
  "p_node p \<noteq> None \<Longrightarrow> port_tick now p = (p, [])"
  "now < cl_next (p_claim p) \<Longrightarrow> port_tick now p = (p, [])"
  "p_node p = None \<Longrightarrow> \<not> now < cl_next (p_claim p) \<Longrightarrow> tries_of p \<le> cl_tries (p_claim p) \<Longrightarrow>
     port_tick now p = claimed p"
  "p_node p = None \<Longrightarrow> \<not> now < cl_next (p_claim p) \<Longrightarrow> \<not> tries_of p \<le> cl_tries (p_claim p) \<Longrightarrow>
     port_tick now p = (asked now p, [sends p])"
  by (cases "p_kind p";
      simp add: port_tick_def tries_of_def interval_of_def asked_def sends_def Let_def)+

lemma claimed_simps [simp]:
  "p_node (fst (claimed p)) = Some (cl_node (p_claim p))" "p_claim (fst (claimed p)) = p_claim p"
  "p_kind (fst (claimed p)) = p_kind p" "p_range (fst (claimed p)) = p_range p"
  by (simp_all add: claimed_def Let_def)

lemma asked_simps [simp]:
  "p_node (asked now p) = p_node p" "p_kind (asked now p) = p_kind p" "p_range (asked now p) = p_range p"
  "cl_node (p_claim (asked now p)) = cl_node (p_claim p)"
  "cl_tries (p_claim (asked now p)) = cl_tries (p_claim p) + 1"
  "cl_next (p_claim (asked now p)) = now + interval_of p"
  "tries_of (asked now p) = tries_of p" "interval_of (asked now p) = interval_of p"
  by (simp_all add: asked_def tries_of_def interval_of_def)

lemma port_tick_consider:
  obtains (held) "p_node p \<noteq> None" "port_tick now p = (p, [])"
    | (early) "p_node p = None" "now < cl_next (p_claim p)" "port_tick now p = (p, [])"
    | (claim) "p_node p = None" "cl_next (p_claim p) \<le> now" "tries_of p \<le> cl_tries (p_claim p)"
        "port_tick now p = claimed p"
    | (ask) "p_node p = None" "cl_next (p_claim p) \<le> now" "cl_tries (p_claim p) < tries_of p"
        "port_tick now p = (asked now p, [sends p])"
  using port_tick_cases [where p = p and now = now] by (meson not_le)

text \<open>What an incoming frame does to the port's claim: nothing, or a restart when it holds no node.\<close>

definition same_claim :: "port \<Rightarrow> port \<Rightarrow> bool" where
  "same_claim p q \<longleftrightarrow> p_claim q = p_claim p \<and> p_node q = p_node p \<and> p_kind q = p_kind p
     \<and> p_range q = p_range p \<and> p_id q = p_id p"

lemma inbound_ether_claim:
  "same_claim p (snd (snd (inbound_ether seed pk now p)))
   \<or> p_node p = None \<and> (\<exists>q. same_claim p q \<and> snd (snd (inbound_ether seed pk now p)) = restart seed now q)"
proof -
  have g: "same_claim p (p\<lparr>p_amt := a\<rparr>)" for a by (simp add: same_claim_def)
  have r: "same_claim p p" by (simp add: same_claim_def)
  show ?thesis
    using g r
    by (auto simp: inbound_ether_def Let_def split: kind.splits body.splits aarp_action.splits)
qed

lemma inbound_llap_claim:
  "snd (snd (inbound_llap seed l now p)) = p
   \<or> p_node p = None \<and> snd (snd (inbound_llap seed l now p)) = restart seed now p"
  by (simp add: inbound_llap_def Let_def)

lemma same_claim_ok: "port_ok p \<Longrightarrow> same_claim p q \<Longrightarrow> port_ok q"
  by (simp add: port_ok_def same_claim_def tries_of_def)

lemma restart_ok: "port_ok p \<Longrightarrow> p_node p = None \<Longrightarrow> port_ok (restart seed now p)"
  using restart_node(1) by (simp add: port_ok_def tries_of_def)

lemma port_step_ok:
  assumes "port_ok p" shows "port_ok (port_step seed e p)"
proof (cases e)
  case (PTick now)
  show ?thesis
  proof (cases rule: port_tick_consider [where p = p and now = now])
    case ask
    with assms less_succ_u32 [OF ask(3)] show ?thesis by (simp add: PTick port_ok_def)
  next
    case claim
    with assms show ?thesis by (simp add: PTick port_ok_def tries_of_def)
  qed (use assms in \<open>simp_all add: PTick\<close>)
next
  case (PEther pk now)
  then show ?thesis
    using inbound_ether_claim [of p seed pk now] assms same_claim_ok restart_ok
    by (auto simp: same_claim_def)
next
  case (PLlap l now)
  then show ?thesis
    using inbound_llap_claim [of seed l now p] assms restart_ok by auto
qed

lemma port_step_keeps: "p_node p = Some n \<Longrightarrow> p_node (port_step seed e p) = Some n"
proof (cases e)
  case (PTick now)
  assume "p_node p = Some n"
  with PTick show ?thesis by (simp add: port_tick_cases(1))
next
  case (PEther pk now)
  assume "p_node p = Some n"
  with PEther inbound_ether_claim [of p seed pk now] show ?thesis by (auto simp: same_claim_def)
next
  case (PLlap l now)
  assume "p_node p = Some n"
  with PLlap inbound_llap_claim [of seed l now p] show ?thesis by auto
qed

inductive port_reachable :: "seeder \<Rightarrow> port \<Rightarrow> bool" for seed where
  new: "port_reachable seed (port_new seed i name kind rng zones now)"
| step: "port_reachable seed p \<Longrightarrow> port_reachable seed (port_step seed e p)"

lemma port_reachable_ok: "port_reachable seed p \<Longrightarrow> port_ok p"
  by (induction rule: port_reachable.induct) (simp_all add: port_new_ok port_step_ok)

text \<open>
  C31: Whatever clock readings and frames a port sees, the node ID it holds or asks for is one its link
  allows (1 to 253 on Ethernet, 128 to 254 on LocalTalk), and a node ID once held is held for ever.
\<close>

theorem port_claim_safe:
  assumes "port_reachable seed p"
  shows "(case p_kind p of KEther _ \<Rightarrow> 1 \<le> claiming_node p \<and> claiming_node p \<le> 253
          | _ \<Rightarrow> 128 \<le> claiming_node p \<and> claiming_node p \<le> 254)
    \<and> (\<forall>n es. p_node p = Some n \<longrightarrow> p_node (fold (port_step seed) es p) = Some n)"
proof
  from port_reachable_ok [OF assms] have "valid_id (p_kind p) (claiming_node p)"
    by (auto simp: port_ok_def claiming_node_def split: option.split)
  then show "case p_kind p of KEther _ \<Rightarrow> 1 \<le> claiming_node p \<and> claiming_node p \<le> 253
          | _ \<Rightarrow> 128 \<le> claiming_node p \<and> claiming_node p \<le> 254"
    by (auto simp: valid_id_def word_le_nat_alt split: kind.split)
  have "p_node p = Some n \<Longrightarrow> p_node (fold (port_step seed) es p) = Some n" for n es
    by (induction es arbitrary: p) (simp_all add: port_step_keeps)
  then show "\<forall>n es. p_node p = Some n \<longrightarrow> p_node (fold (port_step seed) es p) = Some n" by blast
qed

theorem port_claim_safe_witness:
  "128 \<le> claiming_node (port_new (\<lambda>_ _ _ _. 1000) 2 (lit ''ltoudp'') KLtoudp (5, 5) [] 0)"
  using port_claim_safe [OF port_reachable.new [of "\<lambda>_ _ _ _. 1000" 2 "lit ''ltoudp''" KLtoudp "(5, 5)" "[]" 0]]
  by (simp add: port_new_def)

section \<open>How long a claim takes\<close>

fun port_ticks :: "instant list \<Rightarrow> port \<Rightarrow> port \<times> action list" where
  "port_ticks [] p = (p, [])"
| "port_ticks (now # nows) p =
     (let (p, a) = port_tick now p; (p, b) = port_ticks nows p in (p, a @ b))"

definition asks :: "action \<Rightarrow> bool" where
  "asks a \<longleftrightarrow> (case a of ToEther _ _ \<Rightarrow> True | ToLlap _ _ \<Rightarrow> True | _ \<Rightarrow> False)"

lemma asks_sends [simp]: "asks (sends p)"
  by (simp add: asks_def sends_def split: kind.split)

lemma asks_claimed [simp]: "filter asks (snd (claimed p)) = []"
  by (simp add: claimed_def asks_def Let_def)

lemma held_ticks: "p_node p = Some n \<Longrightarrow> port_ticks nows p = (p, [])"
  by (induction nows) (simp_all add: port_tick_cases(1))

lemma unat_asked: "cl_tries (p_claim p) < tries_of p \<Longrightarrow>
    unat (cl_tries (p_claim (asked now p))) = Suc (unat (cl_tries (p_claim p)))"
  by (simp add: unat_succ_u32)

text \<open>Tries still to come, and the earliest time the claim can be made.\<close>

definition to_come :: "port \<Rightarrow> nat" where
  "to_come p = unat (tries_of p) - unat (cl_tries (p_claim p))"

lemma to_come_asked: "cl_tries (p_claim p) < tries_of p \<Longrightarrow> to_come p = Suc (to_come (asked now p))"
  by (simp add: to_come_def unat_succ_u32 word_less_nat_alt)

lemma claim_waits:
  assumes "p_node p = None" "port_ticks nows p = (q, acts)" "p_node q = Some n"
  shows "n = cl_node (p_claim p) \<and> length (filter asks acts) = to_come p
    \<and> (\<exists>t \<in> set nows. cl_next (p_claim p) + to_come p * interval_of p \<le> t)"
  using assms
proof (induction nows arbitrary: p acts)
  case (Cons now nows)
  obtain p' a where t: "port_tick now p = (p', a)" by fastforce
  obtain q' b where b: "port_ticks nows p' = (q', b)" by fastforce
  then have r: "port_ticks nows p' = (q, b)" and acts: "acts = a @ b"
    using Cons.prems(2) t by simp_all
  show ?case
  proof (cases rule: port_tick_consider [where p = p and now = now])
    case held
    with Cons.prems(1) show ?thesis by simp
  next
    case early
    with Cons.IH [of p b] Cons.prems t r acts show ?thesis by auto
  next
    case claim
    with t have p': "p' = fst (claimed p)" "a = snd (claimed p)" by simp_all
    then have "port_ticks nows p' = (p', [])" by (intro held_ticks) simp
    with r acts p' have "q = p'" "acts = snd (claimed p)" by simp_all
    with p' Cons.prems(3) claim show ?thesis by (simp add: to_come_def word_le_nat_alt)
  next
    case ask
    with t have p': "p' = asked now p" "a = [sends p]" by simp_all
    with Cons.prems ask have "p_node p' = None" by simp
    from Cons.IH [OF this r Cons.prems(3)]
    obtain t where n: "n = cl_node (p_claim p)" "length (filter asks b) = to_come p'"
      and t: "t \<in> set nows" "now + interval_of p + to_come p' * interval_of p \<le> t"
      by (auto simp: p')
    have more: "to_come p = Suc (to_come p')" unfolding p' using ask(3) by (rule to_come_asked)
    with t(2) ask(2) have "cl_next (p_claim p) + to_come p * interval_of p \<le> t" by simp
    with n t(1) more acts p' show ?thesis by auto
  qed
qed simp

fun spaced :: "duration \<Rightarrow> instant \<Rightarrow> instant list \<Rightarrow> bool" where
  "spaced d t [] \<longleftrightarrow> True"
| "spaced d t (u # us) \<longleftrightarrow> t \<le> u \<and> spaced d (u + d) us"

lemma claim_succeeds:
  assumes "p_node p = None" "spaced (interval_of p) (cl_next (p_claim p)) nows" "to_come p < length nows"
  shows "p_node (fst (port_ticks nows p)) = Some (cl_node (p_claim p))"
  using assms
proof (induction nows arbitrary: p)
  case (Cons now nows)
  show ?case
  proof (cases rule: port_tick_consider [where p = p and now = now])
    case claim
    have "port_ticks nows (fst (claimed p)) = (fst (claimed p), [])" by (rule held_ticks) simp
    with claim show ?thesis by (simp add: case_prod_beta)
  next
    case ask
    with Cons.IH [of "asked now p"] Cons.prems to_come_asked [OF ask(3), of now] show ?thesis
      by (simp add: case_prod_beta)
  qed (use Cons.prems in simp_all)
qed simp



section \<open>Defending an address\<close>

lemma node_frame_simps [simp]:
  "f_src (node_frame s d pr pl) = s" "f_dst (node_frame s d pr pl) = d"
  "f_proto (node_frame s d pr pl) = pr" "f_payload (node_frame s d pr pl) = pl"
  "f_snap (node_frame s d pr pl) = True"
  by (simp_all add: node_frame_def)

lemma decode_aarp_frame:
  "decode (frame_encode (node_frame s d AARP (aarp_encode a)))
   = Some \<lparr>pk_frame = node_frame s d AARP (aarp_encode a), pk_body = BAarp a\<rparr>"
  by (rule decode_frame_aarp) (simp_all add: wf_frame_def length_aarp_encode)

text \<open>
  A held address is defended on the wire.  When a port asks for an address that an Ethernet port on the
  same network holds, the probe it sends, decoded there, is answered with one frame; that frame,
  decoded by the asking port, makes it give the candidate up for another one, and it holds nothing
  yet; the holder's address has not moved.
\<close>

theorem address_defended:
  assumes holder: "p_kind p = KEther hw" "p_node p = Some n" "fst (p_range p) = net"
    and asker: "port_ok q" "p_kind q = KEther hw'" "p_node q = None" "fst (p_range q) = net"
      "cl_node (p_claim q) = n" "hw \<noteq> hw'"
  shows "\<exists>f pk r pk' p' q'.
      sends q = ToEther (p_id q) f \<and> decode (frame_encode f) = Some pk
      \<and> inbound_ether seed pk now p = (Handled, [ToEther (p_id p) r], p') \<and> p_node p' = Some n
      \<and> decode (frame_encode r) = Some pk'
      \<and> inbound_ether seed pk' now' q = (Handled, [], q') \<and> p_node q' = None \<and> claiming_node q' \<noteq> n"
proof -
  let ?a = "mk_addr net n"
  let ?f = "node_frame hw' BROADCAST_MAC AARP (aarp_encode (probe ?a hw'))"
  let ?pk = "\<lparr>pk_frame = ?f, pk_body = BAarp (probe ?a hw')\<rparr>"
  let ?r = "node_frame hw hw' AARP (aarp_encode (aarp_response ?a hw ?a hw'))"
  let ?pk' = "\<lparr>pk_frame = ?r, pk_body = BAarp (aarp_response ?a hw ?a hw')\<rparr>"
  let ?q = "q\<lparr>p_amt := glean (p_amt q) ?pk'\<rparr>"
  have "sends q = ToEther (p_id q) ?f" using asker by (simp add: sends_def)
  moreover have "decode (frame_encode ?f) = Some ?pk" by (rule decode_aarp_frame)
  moreover have "inbound_ether seed ?pk now p = (Handled, [ToEther (p_id p) ?r], p)"
  proof -
    have "glean (p_amt p) ?pk = p_amt p" by (rule glean_probe) simp
    moreover have "aarp_action ?pk ?a hw False = AnswerTo hw'"
      using asker(6) by (intro holder_answers_probe) auto
    ultimately show ?thesis
      using holder asker(6) by (simp add: inbound_ether_def claiming_node_def Let_def probe_def)
  qed
  moreover have "decode (frame_encode ?r) = Some ?pk'" by (rule decode_aarp_frame)
  moreover have "inbound_ether seed ?pk' now' q = (Handled, [], restart seed now' ?q)"
  proof -
    have "aarp_action ?pk' ?a hw' True = Conflict" by (rule answer_is_conflict) simp
    then show ?thesis
      using asker by (simp add: inbound_ether_def claiming_node_def Let_def)
  qed
  moreover have "claiming_node (restart seed now' ?q) \<noteq> n"
  proof -
    have "valid_id (p_kind ?q) (cl_node (p_claim ?q))" using asker(1) by (simp add: port_ok_def)
    from restart_node(2) [OF this, of seed now'] show ?thesis
      using asker by (simp add: claiming_node_def)
  qed
  moreover have "p_node p = Some n" "p_node (restart seed now' ?q) = None" using holder asker by simp_all
  ultimately show ?thesis by blast
qed

definition example_holder :: port where
  "example_holder =
     \<lparr>p_id = 0, p_name = lit ''eth0'', p_kind = KEther (Mac 2 0 0 0 0 1), p_range = (10, 12),
      p_zones = [lit ''Lab''], p_node = Some 7, p_amt = Map.empty,
      p_claim = \<lparr>cl_node = 7, cl_tries = 10, cl_next = 0, cl_attempt = 0\<rparr>\<rparr>"

definition example_asker :: port where
  "example_asker =
     \<lparr>p_id = 3, p_name = lit ''eth1'', p_kind = KEther (Mac 2 0 0 0 0 2), p_range = (10, 12),
      p_zones = [lit ''Lab''], p_node = None, p_amt = Map.empty,
      p_claim = \<lparr>cl_node = 7, cl_tries = 1, cl_next = 0, cl_attempt = 0\<rparr>\<rparr>"

theorem address_defended_witness:
  "\<exists>pk' q'. inbound_ether (\<lambda>_ _ _ _. 6) pk' 5 example_asker = (Handled, [], q') \<and> claiming_node q' \<noteq> 7"
proof -
  have "port_ok example_asker"
    by (simp add: example_asker_def port_ok_def valid_id_def tries_of_def PROBE_TRIES_def)
  from address_defended [where p = example_holder and q = example_asker and seed = "\<lambda>_ _ _ _. 6"
      and now = 5 and now' = 5, OF _ _ _ this, where n = 7 and net = 10
      and hw = "Mac 2 0 0 0 0 1" and hw' = "Mac 2 0 0 0 0 2"]
  show ?thesis by (auto simp: example_holder_def example_asker_def)
qed

text \<open>
  The same on LocalTalk: an LToUDP port answers the lapENQ for the node it holds with a lapACK, and that
  packet, parsed by the asking port, makes it give the candidate up.  A TashTalk port stays silent, its
  firmware answers for it.
\<close>

theorem enq_answered:
  assumes holder: "p_node p = Some n"
    and asker: "port_ok q" "\<not> kind_extended (p_kind q)" "p_node q = None" "cl_node (p_claim q) = n"
  shows "\<exists>l. sends q = ToLlap (p_id q) l \<and> llap_parse (llap_encode l) = Some l
      \<and> (if p_kind p = KTashtalk then inbound_llap seed l now p = (Handled, [], p)
         else \<exists>r q'. inbound_llap seed l now p = (Handled, [ToLlap (p_id p) r], p)
              \<and> llap_parse (llap_encode r) = Some r
              \<and> inbound_llap seed r now' q = (Handled, [], q') \<and> p_node q' = None \<and> claiming_node q' \<noteq> n)"
proof -
  let ?l = "llap_control n n LLAP_ENQ" and ?r = "llap_control n n LLAP_ACK"
  have wf: "llap_parse (llap_encode ?l) = Some ?l" "llap_parse (llap_encode ?r) = Some ?r"
    by (rule llap_parse_encode, rule wf_llap_control, simp add: control_typ_def)+
  have "sends q = ToLlap (p_id q) ?l" using asker by (cases "p_kind q") (auto simp: sends_def)
  moreover have "inbound_llap seed ?l now p = (Handled, if p_kind p = KTashtalk then [] else [ToLlap (p_id p) ?r], p)"
    using holder by (simp add: inbound_llap_def llap_control_def Let_def)
  moreover have "inbound_llap seed ?r now' q = (Handled, [], restart seed now' q)"
    using asker by (simp add: inbound_llap_def llap_control_def claiming_node_def Let_def)
  moreover have "p_node (restart seed now' q) = None" "claiming_node (restart seed now' q) \<noteq> n"
    using asker restart_node(2) [of q seed now'] by (simp_all add: port_ok_def claiming_node_def)
  ultimately show ?thesis using wf by auto
qed

theorem enq_answered_witness:
  "\<exists>l r q'. inbound_llap (\<lambda>_ _ _ _. 6) l 5 (example_holder\<lparr>p_kind := KLtoudp, p_node := Some 200\<rparr>)
      = (Handled, [ToLlap 0 r], example_holder\<lparr>p_kind := KLtoudp, p_node := Some 200\<rparr>)
    \<and> inbound_llap (\<lambda>_ _ _ _. 6) r 5 (port_new (\<lambda>_ _ _ _. 72) 2 (lit ''ltoudp'') KLtoudp (5, 5) [] 0) = (Handled, [], q')
    \<and> claiming_node q' \<noteq> 200"
proof -
  let ?q = "port_new (\<lambda>_ _ _ _. 72) 2 (lit ''ltoudp'') KLtoudp (5, 5) [] 0"
  let ?p = "example_holder\<lparr>p_kind := KLtoudp, p_node := Some 200\<rparr>"
  have "p_node ?p = Some 200" "port_ok ?q" "\<not> kind_extended (p_kind ?q)" "p_node ?q = None"
    "cl_node (p_claim ?q) = 200"
    by (simp add: example_holder_def, rule port_new_ok) (simp_all add: port_new_def candidate_def)
  from enq_answered [OF this, of "\<lambda>_ _ _ _. 6" 5 5] show ?thesis by (auto simp: example_holder_def)
qed

section \<open>Datagrams between ports\<close>

lemma decode_ddp_frame:
  assumes "wf_ddp d"
  shows "decode (frame_encode (node_frame s dst DDP (ddp_encode d)))
     = Some \<lparr>pk_frame = node_frame s dst DDP (ddp_encode d), pk_body = BDdp d (decode_ddp_body d)\<rparr>"
  using assms by (intro decode_frame_ddp) (simp_all add: wf_frame_def length_ddp_encode wf_ddp_def)

text \<open>
  A datagram put on Ethernet by one port is the datagram any other port on the cable hands up, whatever
  the destination, with its decode tree; a port that holds no node sends nothing.
\<close>

theorem ether_delivers:
  assumes "p_kind p = KEther hw" "p_kind q = KEther hw'" "hw \<noteq> hw'" "wf_ddp d"
  shows "port_emit entries (p\<lparr>p_node := None\<rparr>) dest d = None
    \<and> (\<exists>f pk q'. port_emit entries (p\<lparr>p_node := Some n\<rparr>) dest d = Some (ToEther (p_id p) f)
         \<and> decode (frame_encode f) = Some pk \<and> pk_body pk = BDdp d (decode_ddp_body d)
         \<and> inbound_ether seed pk now q = (InDdp d, [], q'))"
proof -
  obtain dst where e: "port_emit entries (p\<lparr>p_node := Some n\<rparr>) dest d
      = Some (ToEther (p_id p) (node_frame hw dst DDP (ddp_encode d)))"
    using assms(1) by (simp add: port_emit_def Let_def)
  show ?thesis
    using assms e decode_ddp_frame [OF assms(4), of hw dst]
    by (simp add: port_emit_def inbound_ether_def Let_def)
qed

definition example_ddp :: ddp where
  "example_ddp = \<lparr>d_hops = 3, d_length = 15, d_checksum = 0, d_dst = mk_addr 5 200, d_dst_socket = 4,
     d_src = mk_addr 5 130, d_src_socket = 4, d_typ = 4, d_data = [1, 7]\<rparr>"

lemma example_ddp_wf: "wf_ddp example_ddp"
  by (simp add: wf_ddp_def example_ddp_def)

theorem ether_delivers_witness:
  "\<exists>pk q'. inbound_ether (\<lambda>_ _ _ _. 6) pk 5 example_asker = (InDdp example_ddp, [], q')"
  using ether_delivers [where p = example_holder and q = example_asker and hw = "Mac 2 0 0 0 0 1"
      and hw' = "Mac 2 0 0 0 0 2" and d = example_ddp and seed = "\<lambda>_ _ _ _. 6" and now = 5 and n = 7
      and entries = "\<lambda>_. []" and dest = DBroadcast]
    example_ddp_wf
  by (auto simp: example_holder_def example_asker_def)

text \<open>What the short header does to a datagram: the network, the hops and the checksum go unsaid.\<close>

definition unsaid :: "u16 \<Rightarrow> u8 \<Rightarrow> u8 \<Rightarrow> ddp \<Rightarrow> ddp" where
  "unsaid net dn sn d = d\<lparr>d_hops := 0, d_checksum := 0, d_dst := mk_addr net dn, d_src := mk_addr net sn\<rparr>"

lemma wf_llap_ddp:
  assumes "typ = LLAP_SHORT_DDP \<or> typ = LLAP_LONG_DDP" "b0 AND 0x03 = (ucast (drop_bit 8 len) AND 0x03 :: u8)"
    and "len = (word_of_nat (2 + length dat) :: u16)" "2 + length dat \<le> 600"
  shows "wf_llap \<lparr>l_dst = dst, l_src = src, l_typ = typ, l_data = b0 # ucast len # dat\<rparr>"
proof -
  have "unat (u16_from_be (ucast (drop_bit 8 len) AND 0x03) (ucast len)) = 2 + length dat"
    unfolding u16_from_be_10bit assms(3) word_10bit by (subst unat_small_u16) (use assms(4) in auto)
  with assms show ?thesis
    by (auto simp: wf_llap_def control_typ_def llap_type_defs MAX_DATA_def)
qed

lemma llap_short_wf:
  "length (d_data d) \<le> 587 \<Longrightarrow>
   wf_llap \<lparr>l_dst = dst, l_src = src, l_typ = LLAP_SHORT_DDP, l_data = ddp_to_short_bytes d\<rparr>"
  unfolding ddp_to_short_bytes_def Let_def append_Cons append_Nil
  by (rule wf_llap_ddp) (simp_all add: and.assoc)

lemma llap_long_wf:
  "length (d_data d) \<le> 587 \<Longrightarrow>
   wf_llap \<lparr>l_dst = dst, l_src = src, l_typ = LLAP_LONG_DDP, l_data = ddp_encode d\<rparr>"
  unfolding ddp_encode_def Let_def append_Cons append_Nil
  by (rule wf_llap_ddp [OF disjI2 [OF refl] packed_len_hi]) (simp_all add: u16_to_be_def)

text \<open>
  On LocalTalk the datagram arrives too: whole, in the long form, when an end is on another network; and
  when both ends are on this cable, in the short form, with the network filled in from the cable and
  the node IDs from the link, hops and checksum gone.  The packet is one the LLAP parser accepts.
\<close>

theorem llap_delivers:
  assumes "\<not> kind_extended (p_kind p)" "p_node p = Some n"
    and "\<not> kind_extended (p_kind q)" "p_node q = Some m" "m \<noteq> n" "fst (p_range p) = net" "fst (p_range q) = net"
    and "wf_ddp d" "length (d_data d) \<le> 587"
  shows "\<exists>l. port_emit entries p dest d = Some (ToLlap (p_id p) l)
    \<and> llap_parse (llap_encode l) = Some l
    \<and> l_dst l = (case dest of DNode k \<Rightarrow> k | _ \<Rightarrow> 255)
    \<and> inbound_llap seed l now q =
        (InDdp (if a_net (d_src d) = net \<and> a_net (d_dst d) \<in> {0, net} then unsaid net (l_dst l) n d else d), [], q)"
proof -
  let ?dst = "case dest of DNode k \<Rightarrow> k | _ \<Rightarrow> 255"
  define short where "short \<longleftrightarrow> a_net (d_src d) = net \<and> a_net (d_dst d) \<in> {0, net}"
  let ?l = "\<lparr>l_dst = ?dst, l_src = n, l_typ = (if short then LLAP_SHORT_DDP else LLAP_LONG_DDP),
             l_data = (if short then ddp_to_short_bytes d else ddp_encode d)\<rparr>"
  have len: "d_length d = word_of_nat (13 + length (d_data d))" using assms(8) by (simp add: wf_ddp_def)
  have "port_emit entries p dest d = Some (ToLlap (p_id p) ?l)"
    using assms(1,2,6) by (cases "p_kind p") (auto simp: port_emit_def short_def Let_def)
  moreover have "wf_llap ?l" using llap_short_wf [OF assms(9)] llap_long_wf [OF assms(9)]
    by (cases short) simp_all
  moreover have "inbound_llap seed ?l now q = (lifted (if short then ddp_from_short (ddp_to_short_bytes d) net ?dst n
      else ddp_parse (ddp_encode d)), [], q)"
    using assms(4,5,7) by (simp add: inbound_llap_def claiming_node_def llap_type_defs Let_def)
  moreover have "ddp_from_short (ddp_to_short_bytes d) net ?dst n = Some (unsaid net ?dst n d)"
    using ddp_from_short_to_short [of d net ?dst n] assms(9) len by (cases d) (simp add: unsaid_def)
  moreover have "ddp_parse (ddp_encode d) = Some d" using assms(8) by (rule ddp_parse_encode)
  ultimately show ?thesis
    unfolding short_def [symmetric]
    by (intro exI [of _ ?l]) (cases short; simp add: llap_parse_encode lifted_def)
qed

theorem llap_delivers_witness:
  "\<exists>l. inbound_llap (\<lambda>_ _ _ _. 6) l 5 (example_holder\<lparr>p_kind := KTashtalk, p_range := (5, 5), p_node := Some 200\<rparr>)
     = (InDdp (unsaid 5 200 130 example_ddp), [], example_holder\<lparr>p_kind := KTashtalk, p_range := (5, 5), p_node := Some 200\<rparr>)"
  using llap_delivers [where p = "example_holder\<lparr>p_kind := KLtoudp, p_range := (5, 5), p_node := Some 130\<rparr>"
      and q = "example_holder\<lparr>p_kind := KTashtalk, p_range := (5, 5), p_node := Some 200\<rparr>" and n = 130 and m = 200
      and net = 5 and d = example_ddp and dest = "DNode 200" and seed = "\<lambda>_ _ _ _. 6" and now = 5 and entries = "\<lambda>_. []"]
    example_ddp_wf
  by (auto simp: example_holder_def example_ddp_def)

section \<open>Finding the hardware address\<close>

text \<open>
  The frame for a node goes to a hardware address that was gleaned for it: the exact address's when
  there is one, otherwise that of some address with the same node ID in the port's own range, and only
  when there is neither to everybody.  The iteration order of the table, which the language leaves
  open, does not matter for this.
\<close>

theorem mac_for_node_sound:
  assumes "set (entries (p_amt p)) = {(a, h). p_amt p a = Some h}"
  shows "let h = mac_for_node entries p n net; a = mk_addr net n;
             here = (\<lambda>b. a_node b = n \<and> fst (p_range p) \<le> a_net b \<and> a_net b \<le> snd (p_range p)) in
      (n \<noteq> 255 \<longrightarrow> p_amt p a \<notin> {None, Some BROADCAST_MAC} \<longrightarrow> p_amt p a = Some h)
    \<and> (h \<noteq> BROADCAST_MAC \<longrightarrow> (\<exists>b. (b = a \<or> here b) \<and> p_amt p b = Some h))
    \<and> (h = BROADCAST_MAC \<longrightarrow> (\<exists>b. here b \<and> p_amt p b = Some h) \<or> (\<forall>b. here b \<longrightarrow> p_amt p b = None))"
proof -
  let ?a = "mk_addr net n"
  let ?here = "\<lambda>b. a_node b = n \<and> fst (p_range p) \<le> a_net b \<and> a_net b \<le> snd (p_range p)"
  let ?find = "find (\<lambda>(b, _). ?here b) (entries (p_amt p))"
  have found: "?here b \<and> p_amt p b = Some h" if "?find = Some (b, h)" for b h
    using that assms by (force simp: find_Some_iff dest: nth_mem)
  have none: "p_amt p b = None" if "?find = None" "?here b" for b
  proof (rule ccontr)
    assume "p_amt p b \<noteq> None"
    then obtain h where "(b, h) \<in> set (entries (p_amt p))" using assms by auto
    with that show False by (auto simp: find_None_iff)
  qed
  show ?thesis
  proof (cases "mac_for (p_amt p) ?a = BROADCAST_MAC")
    case True
    then have x: "n \<noteq> 255 \<longrightarrow> p_amt p ?a \<in> {None, Some BROADCAST_MAC}"
      by (auto simp: mac_for_def split: option.splits)
    show ?thesis
    proof (cases ?find)
      case None
      then have "mac_for_node entries p n net = BROADCAST_MAC" using True by (simp add: mac_for_node_def)
      with x none [OF None] show ?thesis by (simp add: Let_def)
    next
      case (Some y)
      obtain b h where y: "y = (b, h)" by fastforce
      then have "mac_for_node entries p n net = h" using True Some by (simp add: mac_for_node_def)
      with x found [of b h] Some y show ?thesis by (auto simp: Let_def)
    qed
  next
    case False
    then have "mac_for_node entries p n net = mac_for (p_amt p) ?a" by (simp add: mac_for_node_def Let_def)
    moreover have "p_amt p ?a = Some (mac_for (p_amt p) ?a)"
      using False by (auto simp: mac_for_def split: if_splits option.splits)
    ultimately show ?thesis using False by (auto simp: Let_def)
  qed
qed

theorem mac_for_node_sound_witness:
  "mac_for_node (\<lambda>_. [(mk_addr 11 9, Mac 2 0 0 0 0 9)])
     (example_holder\<lparr>p_amt := [mk_addr 11 9 \<mapsto> Mac 2 0 0 0 0 9]\<rparr>) 9 44 = Mac 2 0 0 0 0 9"
proof -
  let ?p = "example_holder\<lparr>p_amt := [mk_addr 11 9 \<mapsto> Mac 2 0 0 0 0 9]\<rparr>"
  let ?e = "\<lambda>_ :: amt. [(mk_addr 11 9, Mac 2 0 0 0 0 9)]"
  have "set (?e (p_amt ?p)) = {(a, h). p_amt ?p a = Some h}" by (auto split: if_splits)
  from mac_for_node_sound [where p = ?p and entries = ?e and n = 9 and net = 44, OF this]
  show ?thesis by (auto simp: Let_def example_holder_def split: if_splits dest!: spec [of _ "mk_addr 11 9"])
qed

end
