(* ===== verification/Aurp_Peer.thy ===== *)
theory Aurp_Peer
  imports Router_Base
begin

text \<open>
  \<open>src/src/router/aurp.rs\<close>, one peer: the two one-way connections of a tunnel, as data receiver on the
  one we opened and as data sender on the one the peer opened.  Every operation takes the peer and
  returns it, together with the routing tables where it changes them, the actions and the route
  changes it adds and the reason it leaves for the log.  Body bytes go through \<open>aurp_encode\<close>, so a
  kept packet is kept verbatim.
\<close>

section \<open>Constants and data\<close>

definition RETRY :: duration where "RETRY = secs 10"
definition RETRIES :: u32 where "RETRIES = 5"
definition LAST_HEARD :: duration where "LAST_HEARD = secs 90"
definition TICKLE_RETRIES :: u32 where "TICKLE_RETRIES = 10"
definition UPDATE_INTERVAL :: duration where "UPDATE_INTERVAL = secs 10"
definition RECONNECT_BACKOFF :: duration where "RECONNECT_BACKOFF = secs 600"
definition MAX_BODY :: nat where "MAX_BODY = 1400"

definition NA :: u8 where "NA = 1"
definition ND :: u8 where "ND = 2"
definition NRC :: u8 where "NRC = 3"
definition NDC :: u8 where "NDC = 4"

lemmas event_code_defs = NA_def ND_def NRC_def NDC_def

definition NO_EVENT_TUPLE :: network_tuple where
  "NO_EVENT_TUPLE = \<lparr>nt_range = (0, 0), nt_extended = False, nt_distance = 0\<rparr>"

record outstanding =
  os_seq :: u16
  os_bytes :: bytes
  os_nets :: "u16 list"
  os_at :: instant
  os_tries :: u32

record peer =
  pe_addr :: ipv4
  pe_configured :: "rstring option"
  pe_di :: di
  pe_receiver :: receiver
  pe_sender :: sender
  pe_local :: di
  pe_conn_local :: u16
  pe_seq_recv :: u16
  pe_last_heard :: instant
  pe_recv_at :: instant
  pe_recv_tries :: u32
  pe_last_reconnect :: "instant option"
  pe_conn_remote :: u16
  pe_seq_send :: u16
  pe_outstanding :: "outstanding option"
  pe_pages :: "network_tuple list list"
  pe_pending :: "event_tuple list"
  pe_last_update :: instant
  pe_probing :: bool
  pe_pinged_at :: "instant option"
  pe_ping_rtt :: "duration option"

definition peer_new :: "ipv4 \<Rightarrow> rstring option \<Rightarrow> u16 \<Rightarrow> di \<Rightarrow> instant \<Rightarrow> peer" where
  "peer_new addr configured conn_local local now =
     \<lparr>pe_addr = addr, pe_configured = configured, pe_di = DiIp addr, pe_receiver = RUnconnected,
      pe_sender = SUnconnected, pe_local = local, pe_conn_local = conn_local, pe_seq_recv = 1,
      pe_last_heard = now, pe_recv_at = now, pe_recv_tries = 0, pe_last_reconnect = None,
      pe_conn_remote = 0, pe_seq_send = 0, pe_outstanding = None, pe_pages = [], pe_pending = [],
      pe_last_update = now, pe_probing = False, pe_pinged_at = None, pe_ping_rtt = None\<rparr>"

section \<open>Sequence numbers\<close>

definition succ :: "u16 \<Rightarrow> u16" where
  "succ n = (if n + 1 = 0 then 1 else n + 1)"

definition pred :: "u16 \<Rightarrow> u16" where
  "pred n = (if n - 1 = 0 then 65535 else n - 1)"

datatype seq = New | Dup | Ahead | Stale

definition check_seq :: "peer \<Rightarrow> u16 \<Rightarrow> seq" where
  "check_seq p seq =
     (if seq = 0 then Stale
      else if seq = pe_seq_recv p then New
      else if seq = pred (pe_seq_recv p) then Dup
      else if seq = succ (pe_seq_recv p) then Ahead
      else Stale)"

section \<open>Sending\<close>

definition peer_bytes :: "peer \<Rightarrow> u16 \<Rightarrow> u16 \<Rightarrow> cmd \<Rightarrow> bytes" where
  "peer_bytes p conn seq cmd =
     aurp_encode (ARouting \<lparr>dh_dst = pe_di p, dh_src = pe_local p\<rparr> conn seq cmd)"

definition peer_send :: "peer \<Rightarrow> u16 \<Rightarrow> u16 \<Rightarrow> cmd \<Rightarrow> action" where
  "peer_send p conn seq cmd = ToPeer (pe_addr p) (peer_bytes p conn seq cmd)"

definition send_sequenced :: "cmd \<Rightarrow> u16 list \<Rightarrow> instant \<Rightarrow> peer \<Rightarrow> peer \<times> action list" where
  "send_sequenced cmd nets now p =
     (let p = p\<lparr>pe_seq_send := succ (pe_seq_send p)\<rparr>;
          bs = peer_bytes p (pe_conn_remote p) (pe_seq_send p) cmd
      in (p\<lparr>pe_outstanding := Some \<lparr>os_seq = pe_seq_send p, os_bytes = bs, os_nets = nets,
                                    os_at = now, os_tries = 1\<rparr>\<rparr>,
          [ToPeer (pe_addr p) bs]))"

definition peer_open :: "instant \<Rightarrow> peer \<Rightarrow> peer \<times> action list" where
  "peer_open now p =
     (let p = p\<lparr>pe_seq_recv := 1, pe_receiver := RWaitOpenRsp, pe_recv_at := now, pe_recv_tries := 1,
                pe_last_reconnect := Some now\<rparr>
      in (p, [peer_send p (pe_conn_local p) 0 (OpenReq ALL_SUI 1 [])]))"

definition close_receiver :: "peer \<Rightarrow> peer" where
  "close_receiver p =
     p\<lparr>pe_receiver := RUnconnected, pe_conn_local := succ (pe_conn_local p), pe_seq_recv := 1, pe_recv_tries := 0\<rparr>"

definition close_sender :: "peer \<Rightarrow> peer" where
  "close_sender p =
     p\<lparr>pe_sender := SUnconnected, pe_conn_remote := 0, pe_seq_send := 0, pe_outstanding := None,
       pe_pages := [], pe_pending := [], pe_probing := False\<rparr>"

definition receiver_open :: "peer \<Rightarrow> bool" where
  "receiver_open p \<longleftrightarrow> pe_receiver p \<noteq> RUnconnected \<and> pe_receiver p \<noteq> RWaitOpenRsp"

definition open_rsp :: "peer \<Rightarrow> u16 \<Rightarrow> i16 \<Rightarrow> action" where
  "open_rsp p conn rate_or_err = peer_send p conn 0 (OpenRsp 0 rate_or_err [])"

definition null_upd :: cmd where
  "null_upd = RiUpd [\<lparr>ev_code = 0, ev_tuple = NO_EVENT_TUPLE\<rparr>]"

section \<open>Pending events\<close>

definition ev_start :: "event_tuple \<Rightarrow> u16" where
  "ev_start e = fst (nt_range (ev_tuple e))"

definition queue_events :: "event_tuple \<Rightarrow> event_tuple list \<Rightarrow> event_tuple list" where
  "queue_events ev pending =
     (case position (\<lambda>p. ev_start p = ev_start ev) pending of
        None \<Rightarrow> pending @ [ev]
      | Some i \<Rightarrow>
          let was = ev_code (pending ! i); new = ev_code ev in
          if was = NA \<and> (new = ND \<or> new = NRC) then remove_at i pending
          else if was = NA \<and> new = NDC then pending[i := (pending ! i)\<lparr>ev_tuple := ev_tuple ev\<rparr>]
          else if (was = ND \<or> was = NRC) \<and> new = NA then pending[i := ev\<lparr>ev_code := NDC\<rparr>]
          else pending[i := ev])"

definition queue :: "event_tuple \<Rightarrow> peer \<Rightarrow> peer" where
  "queue ev p = p\<lparr>pe_pending := queue_events ev (pe_pending p)\<rparr>"

section \<open>Pages\<close>

text \<open>\<open>split_tuples\<close>: the pages finished so far, the page being filled and the bytes in it.\<close>

definition tuple_size :: "network_tuple \<Rightarrow> nat" where
  "tuple_size t = (if nt_extended t then 6 else 3)"

fun split_loop :: "network_tuple list \<Rightarrow> nat \<Rightarrow> network_tuple list \<Rightarrow> network_tuple list list" where
  "split_loop page used [] = [page]"
| "split_loop page used (t # ts) =
     (let n = tuple_size t in
      if used + n > MAX_BODY then page # split_loop [t] n ts
      else split_loop (page @ [t]) (used + n) ts)"

definition split_tuples :: "network_tuple list \<Rightarrow> network_tuple list list" where
  "split_tuples ts = split_loop [] 0 ts"

definition name_size :: "rstring \<Rightarrow> nat" where
  "name_size n = 3 + utf8_len n"

text \<open>The chunks of one network's own list when it overflows a packet.\<close>

fun chunk_loop :: "u16 \<Rightarrow> (u16 \<times> rstring) list \<Rightarrow> nat \<Rightarrow> rstring list \<Rightarrow> (u16 \<times> rstring) list list" where
  "chunk_loop net chunk chunked [] = (if chunk \<noteq> [] then [chunk] else [])"
| "chunk_loop net chunk chunked (n # ns) =
     (let s = name_size n in
      if chunked + s > MAX_BODY \<and> chunk \<noteq> []
      then chunk # chunk_loop net [(net, n)] s ns
      else chunk_loop net (chunk @ [(net, n)]) (chunked + s) ns)"

fun zi_loop :: "tables \<Rightarrow> (u16 \<times> rstring) list \<Rightarrow> nat \<Rightarrow> u16 list \<Rightarrow> cmd list" where
  "zi_loop T page used [] = (if page \<noteq> [] then [ZiRsp None page] else [])"
| "zi_loop T page used (net # nets) =
     (case zones_of T net of
        None \<Rightarrow> zi_loop T page used nets
      | Some z \<Rightarrow>
          if zl_names z = [] then zi_loop T page used nets
          else
            let total = sum_list (map name_size (zl_names z)) in
            if total > MAX_BODY then
              (let count = word_of_nat (length (zl_names z))
               in (if page \<noteq> [] then [ZiRsp None page] else [])
                  @ map (ZiRsp (Some count)) (chunk_loop net [] 0 (zl_names z))
                  @ zi_loop T [] (if page \<noteq> [] then 0 else used) nets)
            else
              let here = map (Pair net) (zl_names z) in
              if used + total > MAX_BODY \<and> page \<noteq> []
              then ZiRsp None page # zi_loop T here total nets
              else zi_loop T (page @ here) (used + total) nets)"

definition zi_pages :: "u16 list \<Rightarrow> tables \<Rightarrow> cmd list" where
  "zi_pages nets T = zi_loop T [] 0 nets"

definition send_page :: "instant \<Rightarrow> peer \<Rightarrow> peer \<times> action list" where
  "send_page now p =
     (case pe_pages p of
        [] \<Rightarrow> (p, [])
      | tuples # rest \<Rightarrow>
          let p = p\<lparr>pe_pages := rest\<rparr>;
              (p, acts) = send_sequenced (RiRsp (rest = []) tuples)
                            (map (\<lambda>t. fst (nt_range t)) tuples) now p
          in (p\<lparr>pe_sender := SWaitRiRspAck\<rparr>, acts))"

section \<open>One routing packet\<close>

text \<open>What handling a packet or a timer did: \<open>Out\<close>, with the peer and the tables it left behind.\<close>

record effect =
  ef_peer :: peer
  ef_tables :: tables
  ef_acts :: "action list"
  ef_chs :: "route_change list"
  ef_reason :: "reason option"

definition quiet :: "peer \<Rightarrow> tables \<Rightarrow> effect" where
  "quiet p T = \<lparr>ef_peer = p, ef_tables = T, ef_acts = [], ef_chs = [], ef_reason = None\<rparr>"

definition acting :: "tables \<Rightarrow> peer \<times> action list \<Rightarrow> effect" where
  "acting T x = (case x of (p, acts) \<Rightarrow> (quiet p T)\<lparr>ef_acts := acts\<rparr>)"

definition apply_event :: "peer \<Rightarrow> event_tuple \<Rightarrow> tables \<Rightarrow> instant \<Rightarrow> tables \<times> route_change list" where
  "apply_event p e T now =
     (let tgt = TPeer (pe_addr p);
          t = ev_tuple e;
          start = ev_start e;
          known = (\<exists>r \<in> set (tb_routes T). rt_target r = tgt \<and> rt_start r = start)
      in if ev_code e = NA \<and> nt_distance t < 15 then learn t tgt NO_NEXT now T
         else if ev_code e = ND \<or> ev_code e = NRC then remove_route tgt start T
         else if ev_code e = NDC \<and> nt_distance t \<ge> 15 then remove_route tgt start T
         else if ev_code e = NDC \<and> \<not> known then learn t tgt NO_NEXT now T
         else if ev_code e = NDC then set_distance tgt start (nt_distance t + 1) now T
         else (T, []))"

fun apply_events :: "peer \<Rightarrow> event_tuple list \<Rightarrow> tables \<Rightarrow> instant \<Rightarrow> tables \<times> route_change list" where
  "apply_events p [] T now = (T, [])"
| "apply_events p (e # es) T now =
     (let (T, c) = apply_event p e T now; (T, cs) = apply_events p es T now in (T, c @ cs))"

fun learn_all :: "peer \<Rightarrow> network_tuple list \<Rightarrow> tables \<Rightarrow> instant \<Rightarrow> tables \<times> route_change list" where
  "learn_all p [] T now = (T, [])"
| "learn_all p (t # ts) T now =
     (let (T, c) = (if nt_distance t < 15 then learn t (TPeer (pe_addr p)) NO_NEXT now T else (T, []));
          (T, cs) = learn_all p ts T now
      in (T, c @ cs))"

definition open_req :: "u16 \<Rightarrow> u16 \<Rightarrow> (u8 \<times> bytes) list \<Rightarrow> instant \<Rightarrow> peer \<Rightarrow> peer \<times> action list" where
  "open_req conn version options now p =
     (if version \<noteq> 1 then (p, [open_rsp p conn (- 5)])
      else if options \<noteq> [] then (p, [open_rsp p conn (- 4)])
      else if pe_sender p \<noteq> SUnconnected \<and> conn \<noteq> pe_conn_remote p then
        (if \<not> pe_probing p \<and> pe_outstanding p = None then
           let p = p\<lparr>pe_probing := True\<rparr>;
               (p, acts) = send_sequenced null_upd [] now p
           in (p\<lparr>pe_sender := SWaitRiUpdAck\<rparr>, acts)
         else (p, []))
      else
        let p = p\<lparr>pe_conn_remote := conn, pe_seq_send := 0, pe_outstanding := None, pe_pages := [],
                  pe_sender := SConnected\<rparr>;
            acts = [open_rsp p conn 1]
        in if pe_receiver p = RUnconnected
           then (let (p, more) = peer_open now p in (p, acts @ more))
           else (p, acts))"

definition ri_ack :: "u16 \<Rightarrow> bool \<Rightarrow> tables \<Rightarrow> instant \<Rightarrow> peer \<Rightarrow> peer \<times> action list" where
  "ri_ack seq szi T now p =
     (case pe_outstanding p of
        None \<Rightarrow> (p, [])
      | Some o' \<Rightarrow>
          if os_seq o' \<noteq> seq then (p, [])
          else
            let nets = os_nets o';
                p = p\<lparr>pe_outstanding := None\<rparr>;
                acts = (if szi then map (peer_send p (pe_conn_remote p) 0) (zi_pages nets T) else [])
            in case pe_sender p of
                 SWaitRiRspAck \<Rightarrow>
                   if pe_pages p \<noteq> [] then (let (p, more) = send_page now p in (p, acts @ more))
                   else (p\<lparr>pe_sender := SConnected, pe_probing := False\<rparr>, acts)
               | SWaitRiUpdAck \<Rightarrow> (p\<lparr>pe_sender := SConnected, pe_probing := False\<rparr>, acts)
               | SWaitRdAck \<Rightarrow> (close_sender p, acts)
               | _ \<Rightarrow> (p, acts))"

text \<open>The names of one network, in the order the packet gives them, and the networks in order.\<close>

definition zi_names :: "(u16 \<times> rstring) list \<Rightarrow> u16 \<Rightarrow> rstring list" where
  "zi_names zones net = map snd (filter (\<lambda>(n, _). n = net) zones)"

fun zi_store :: "u16 option \<Rightarrow> (u16 \<times> rstring) list \<Rightarrow> u16 list \<Rightarrow> tables \<Rightarrow> tables \<times> route_change list" where
  "zi_store extended zones [] T = (T, [])"
| "zi_store extended zones (net # nets) T =
     (if (case best T net of Some r \<Rightarrow> is_port (rt_target r) | None \<Rightarrow> False)
      then zi_store extended zones nets T
      else
        let (T, c) = add_zones net (zi_names zones net) (map_option unat extended) T;
            (T, cs) = zi_store extended zones nets T
        in (T, c @ cs))"

definition zi_rsp :: "u16 option \<Rightarrow> (u16 \<times> rstring) list \<Rightarrow> tables \<Rightarrow> tables \<times> route_change list" where
  "zi_rsp extended zones T = zi_store extended zones (push_new [] (map fst zones)) T"

text \<open>A sequenced packet on the connection we opened: RI-Rsp, when it is not the next one.\<close>

definition sequence_ahead :: "tables \<Rightarrow> peer \<Rightarrow> effect" where
  "sequence_ahead T p = (quiet (close_receiver p) T)\<lparr>ef_reason := Some SequenceAhead\<rparr>"

definition on_ri_rsp :: "u16 \<Rightarrow> u16 \<Rightarrow> bool \<Rightarrow> network_tuple list \<Rightarrow> tables \<Rightarrow> instant \<Rightarrow> peer \<Rightarrow> effect" where
  "on_ri_rsp conn seq fin tuples T now p =
     (let p = p\<lparr>pe_last_heard := now\<rparr> in
      case check_seq p seq of
        New \<Rightarrow>
          let (T, chs) = learn_all p tuples T now;
              p = p\<lparr>pe_seq_recv := succ seq\<rparr>;
              acts = [peer_send p conn seq (RiAck True)];
              p = (if fin then p\<lparr>pe_receiver := RConnected\<rparr> else p)
          in \<lparr>ef_peer = p, ef_tables = T, ef_acts = acts, ef_chs = chs, ef_reason = None\<rparr>
      | Dup \<Rightarrow> acting T (p, [peer_send p conn seq (RiAck True)])
      | Ahead \<Rightarrow> sequence_ahead T p
      | Stale \<Rightarrow> quiet p T)"

definition on_ri_upd :: "u16 \<Rightarrow> u16 \<Rightarrow> event_tuple list \<Rightarrow> tables \<Rightarrow> instant \<Rightarrow> peer \<Rightarrow> effect" where
  "on_ri_upd conn seq events T now p =
     (let p = p\<lparr>pe_last_heard := now\<rparr> in
      case check_seq p seq of
        New \<Rightarrow>
          let (T, chs) = apply_events p events T now;
              szi = (\<exists>e \<in> set events. ev_code e = NA);
              p = p\<lparr>pe_seq_recv := succ seq\<rparr>
          in \<lparr>ef_peer = p, ef_tables = T, ef_acts = [peer_send p conn seq (RiAck szi)], ef_chs = chs, ef_reason = None\<rparr>
      | Dup \<Rightarrow> acting T (p, [peer_send p conn seq (RiAck True)])
      | Ahead \<Rightarrow> sequence_ahead T p
      | Stale \<Rightarrow> quiet p T)"

definition routing :: "u16 \<Rightarrow> u16 \<Rightarrow> cmd \<Rightarrow> tables \<Rightarrow> instant \<Rightarrow> peer \<Rightarrow> effect" where
  "routing conn seq cmd T now p =
     (case cmd of
        OpenReq _ version options \<Rightarrow> acting T (open_req conn version options now p)
      | RiReq _ \<Rightarrow>
          if conn = pe_conn_remote p
             \<and> (pe_sender p = SConnected \<or> pe_sender p = SWaitRiRspAck \<or> pe_sender p = SWaitRiUpdAck)
          then acting T (send_page now
                 (p\<lparr>pe_seq_send := 0, pe_outstanding := None, pe_pages := split_tuples (export T)\<rparr>))
          else quiet p T
      | RiAck szi \<Rightarrow>
          if conn = pe_conn_remote p then acting T (ri_ack seq szi T now p) else quiet p T
      | Tickle \<Rightarrow>
          if conn = pe_conn_remote p \<and> pe_sender p \<noteq> SUnconnected
          then acting T (p, [peer_send p conn 0 TickleAck]) else quiet p T
      | ZiReq nets \<Rightarrow>
          if conn = pe_conn_remote p \<and> pe_sender p \<noteq> SUnconnected
          then acting T (p, map (peer_send p conn 0) (zi_pages nets T)) else quiet p T
      | GznReq zone \<Rightarrow>
          if conn = pe_conn_remote p \<and> pe_sender p \<noteq> SUnconnected
          then acting T (p, [peer_send p conn 0 (GznRsp zone None)]) else quiet p T
      | GdzlReq _ \<Rightarrow>
          if conn = pe_conn_remote p \<and> pe_sender p \<noteq> SUnconnected
          then acting T (p, [peer_send p conn 0 (GdzlRsp True (- 1) [])]) else quiet p T
      | OpenRsp _ rate_or_err _ \<Rightarrow>
          if conn = pe_conn_local p \<and> pe_receiver p = RWaitOpenRsp then
            (if rate_or_err <s 0
             then (quiet (close_receiver p) T)\<lparr>ef_reason := Some (OpenRspError rate_or_err)\<rparr>
             else
               let p = p\<lparr>pe_receiver := RWaitRiRsp, pe_seq_recv := 1, pe_recv_tries := 1,
                         pe_recv_at := now, pe_last_heard := now\<rparr>
               in acting T (p, [peer_send p (pe_conn_local p) 0 (RiReq ALL_SUI)]))
          else quiet p T
      | RiRsp fin tuples \<Rightarrow>
          if conn = pe_conn_local p \<and> receiver_open p then on_ri_rsp conn seq fin tuples T now p
          else quiet p T
      | RiUpd events \<Rightarrow>
          if conn = pe_conn_local p \<and> receiver_open p then on_ri_upd conn seq events T now p
          else quiet p T
      | Rd code \<Rightarrow>
          if conn = pe_conn_local p \<and> receiver_open p then
            let acts = [peer_send p conn seq (RiAck False)];
                (T, chs) = remove_target (TPeer (pe_addr p)) T
            in \<lparr>ef_peer = close_sender (close_receiver p), ef_tables = T, ef_acts = acts, ef_chs = chs,
                ef_reason = Some (RouterDown code)\<rparr>
          else quiet p T
      | ZiRsp extended zones \<Rightarrow>
          if conn = pe_conn_local p \<and> receiver_open p then
            let p = p\<lparr>pe_last_heard := now\<rparr>; (T, chs) = zi_rsp extended zones T
            in (quiet p T)\<lparr>ef_chs := chs\<rparr>
          else quiet p T
      | TickleAck \<Rightarrow>
          if conn = pe_conn_local p \<and> pe_receiver p = RWaitTickleAck then
            let p = p\<lparr>pe_receiver := RConnected, pe_recv_tries := 0, pe_last_heard := now\<rparr>
            in quiet (case pe_pinged_at p of
                        Some at \<Rightarrow> p\<lparr>pe_pinged_at := None, pe_ping_rtt := Some (since now at)\<rparr>
                      | None \<Rightarrow> p) T
          else quiet p T
      | _ \<Rightarrow> quiet p T)"

section \<open>Timers\<close>

definition reconnect :: "instant \<Rightarrow> peer \<Rightarrow> peer \<times> action list" where
  "reconnect now p =
     (if pe_configured p = None \<or> pe_receiver p \<noteq> RUnconnected then (p, [])
      else if (case pe_last_reconnect p of Some t \<Rightarrow> since now t \<le> RECONNECT_BACKOFF | None \<Rightarrow> False) then (p, [])
      else peer_open now p)"

definition receiver_timers :: "tables \<Rightarrow> instant \<Rightarrow> peer \<Rightarrow> effect" where
  "receiver_timers T now p =
     (if (pe_receiver p = RWaitOpenRsp \<or> pe_receiver p = RWaitRiRsp) \<and> since now (pe_recv_at p) \<ge> RETRY then
        (if pe_recv_tries p \<ge> RETRIES then (quiet (close_receiver p) T)\<lparr>ef_reason := Some NoAnswer\<rparr>
         else
           let p = p\<lparr>pe_recv_tries := pe_recv_tries p + 1, pe_recv_at := now\<rparr>;
               cmd = (if pe_receiver p = RWaitOpenRsp then OpenReq ALL_SUI 1 [] else RiReq ALL_SUI)
           in acting T (p, [peer_send p (pe_conn_local p) 0 cmd]))
      else if pe_receiver p = RConnected \<and> since now (pe_last_heard p) > LAST_HEARD then
        let p = p\<lparr>pe_receiver := RWaitTickleAck, pe_recv_tries := 1, pe_recv_at := now\<rparr>
        in acting T (p, [peer_send p (pe_conn_local p) 0 Tickle])
      else if pe_receiver p = RWaitTickleAck \<and> since now (pe_recv_at p) \<ge> RETRY then
        (if pe_recv_tries p \<ge> TICKLE_RETRIES then
           let (T, chs) = remove_target (TPeer (pe_addr p)) T;
               p = close_receiver p;
               (p, acts) = (if pe_sender p = SConnected
                            then (let (p, acts) = send_sequenced null_upd [] now p
                                  in (p\<lparr>pe_sender := SWaitRiUpdAck\<rparr>, acts))
                            else (p, []))
           in \<lparr>ef_peer = p, ef_tables = T, ef_acts = acts, ef_chs = chs, ef_reason = Some TicklesUnanswered\<rparr>
         else
           let p = p\<lparr>pe_recv_tries := pe_recv_tries p + 1, pe_recv_at := now\<rparr>
           in acting T (p, [peer_send p (pe_conn_local p) 0 Tickle]))
      else quiet p T)"

definition sender_timers :: "instant \<Rightarrow> peer \<Rightarrow> peer \<times> action list \<times> reason option" where
  "sender_timers now p =
     (case pe_outstanding p of
        Some o' \<Rightarrow>
          if since now (os_at o') \<ge> RETRY then
            (if os_tries o' \<ge> RETRIES then (close_sender p, [], Some NoAck)
             else (p\<lparr>pe_outstanding := Some (o'\<lparr>os_tries := os_tries o' + 1, os_at := now\<rparr>)\<rparr>,
                   [ToPeer (pe_addr p) (os_bytes o')], None))
          else (p, [], None)
      | None \<Rightarrow>
          if pe_sender p = SConnected \<and> pe_pending p \<noteq> [] \<and> since now (pe_last_update p) \<ge> UPDATE_INTERVAL then
            let events = pe_pending p;
                nets = map ev_start (filter (\<lambda>e. ev_code e = NA) events);
                p = p\<lparr>pe_pending := [], pe_last_update := now\<rparr>;
                (p, acts) = send_sequenced (RiUpd events) nets now p
            in (p\<lparr>pe_sender := SWaitRiUpdAck\<rparr>, acts, None)
          else (p, [], None))"

definition zi_rerequest :: "tables \<Rightarrow> peer \<Rightarrow> action list" where
  "zi_rerequest T p =
     (if \<not> receiver_open p then []
      else
        let nets = map rt_start (filter (\<lambda>r. rt_target r = TPeer (pe_addr p)) (zoneless T))
        in map (\<lambda>chunk. peer_send p (pe_conn_local p) 0 (ZiReq chunk)) (chunks ((MAX_BODY - 2) div 2) nets))"

definition report :: "peer \<Rightarrow> receiver \<times> sender \<Rightarrow> reason option \<Rightarrow> action list" where
  "report p was why =
     (if fst was \<noteq> pe_receiver p then [ALog (LogReceiver (pe_addr p) (fst was) (pe_receiver p) why)] else [])
     @ (if snd was \<noteq> pe_sender p then [ALog (LogSender (pe_addr p) (snd was) (pe_sender p) why)] else [])"

end
