(* ===== verification/Aurp_Peers.thy ===== *)
theory Aurp_Peers
  imports Aurp_Peer
begin

text \<open>
  \<open>src/src/router/aurp.rs\<close>, all the peers: the table of tunnel connections, the datagrams and timers
  that drive them, and the events a route change queues for them.  The table is an ordered map in the
  code and an association list sorted by address here, so every pass visits the peers in the same
  order.  The starting connection ID is drawn from the wall clock, which is the parameter \<open>nanos\<close>.
\<close>

section \<open>The ordered map\<close>

type_synonym peer_map = "(ipv4 \<times> peer) list"

fun bt_insert :: "ipv4 \<Rightarrow> peer \<Rightarrow> peer_map \<Rightarrow> peer_map" where
  "bt_insert k v [] = [(k, v)]"
| "bt_insert k v ((k', v') # m) =
     (if k < k' then (k, v) # (k', v') # m
      else if k = k' then (k, v) # m
      else (k', v') # bt_insert k v m)"

section \<open>Data\<close>

definition PING_GRACE :: duration where "PING_GRACE = secs 2"
definition RECONNECT_SCAN :: duration where "RECONNECT_SCAN = secs 10"
definition ZI_REREQUEST :: duration where "ZI_REREQUEST = secs 30"
definition LOG_EVERY :: duration where "LOG_EVERY = secs 60"
definition MAX_OPEN_PEERS :: nat where "MAX_OPEN_PEERS = 256"

record peers =
  ps_local :: di
  ps_open_peering :: bool
  ps_peers :: peer_map
  ps_configured :: "rstring list"
  ps_next_conn :: u16
  ps_last_scan :: instant
  ps_last_zi :: instant
  ps_logged :: "ipv4 \<rightharpoonup> instant"

definition seed_conn :: "u32 \<Rightarrow> u16" where
  "seed_conn nanos = succ (ucast nanos)"

definition peers_new :: "u32 \<Rightarrow> di \<Rightarrow> bool \<Rightarrow> rstring list \<Rightarrow> instant \<Rightarrow> peers" where
  "peers_new nanos local open_peering configured now =
     \<lparr>ps_local = local, ps_open_peering = open_peering, ps_peers = [], ps_configured = configured,
      ps_next_conn = seed_conn nanos, ps_last_scan = now, ps_last_zi = now, ps_logged = Map.empty\<rparr>"

definition take_conn :: "peers \<Rightarrow> peers \<times> u16" where
  "take_conn ps = (ps\<lparr>ps_next_conn := succ (ps_next_conn ps)\<rparr>, ps_next_conn ps)"

text \<open>A fresh peer enters the table under the next connection ID.\<close>

definition add_peer :: "ipv4 \<Rightarrow> rstring option \<Rightarrow> instant \<Rightarrow> peers \<Rightarrow> peers" where
  "add_peer addr configured now ps =
     (let (ps, conn) = take_conn ps
      in ps\<lparr>ps_peers := bt_insert addr (peer_new addr configured conn (ps_local ps) now) (ps_peers ps)\<rparr>)"

definition resolved :: "rstring \<Rightarrow> ipv4 \<Rightarrow> instant \<Rightarrow> peers \<Rightarrow> peers" where
  "resolved name addr now ps =
     (case map_of (ps_peers ps) addr of
        Some p \<Rightarrow> ps\<lparr>ps_peers := bt_insert addr (p\<lparr>pe_configured := Some name\<rparr>) (ps_peers ps)\<rparr>
      | None \<Rightarrow>
          add_peer addr (Some name) now
            (ps\<lparr>ps_peers := filter (\<lambda>(_, p). pe_configured p \<noteq> Some name) (ps_peers ps)\<rparr>))"

definition log_unknown :: "ipv4 \<Rightarrow> instant \<Rightarrow> peers \<Rightarrow> peers \<times> bool" where
  "log_unknown from now ps =
     (let logged = (\<lambda>ip. case ps_logged ps ip of
                           Some t \<Rightarrow> if since now t < LOG_EVERY then Some t else None
                         | None \<Rightarrow> None)
      in if logged from \<noteq> None then (ps\<lparr>ps_logged := logged\<rparr>, False)
         else (ps\<lparr>ps_logged := logged(from \<mapsto> now)\<rparr>, True))"

definition named_by :: "di \<Rightarrow> ipv4 \<Rightarrow> di" where
  "named_by src from = (case src of DiNull \<Rightarrow> DiIp from | _ \<Rightarrow> src)"

section \<open>A datagram from the socket\<close>

text \<open>What a packet does once the peer is in the table.\<close>

definition peer_packet ::
    "ipv4 \<Rightarrow> aurp \<Rightarrow> tables \<Rightarrow> instant \<Rightarrow> peers \<Rightarrow> peers \<times> tables \<times> action list \<times> route_change list \<times> bytes option" where
  "peer_packet from pkt T now ps =
     (case map_of (ps_peers ps) from of
        None \<Rightarrow> (ps, T, [], [], None)
      | Some p \<Rightarrow>
          (case pkt of
             AData dh d \<Rightarrow>
               let p = p\<lparr>pe_di := named_by (dh_src dh) from, pe_last_heard := now\<rparr>
               in (ps\<lparr>ps_peers := bt_insert from p (ps_peers ps)\<rparr>, T, [], [], Some d)
           | ARouting dh conn seq cmd \<Rightarrow>
               let p = p\<lparr>pe_di := named_by (dh_src dh) from\<rparr>;
                   was = (pe_receiver p, pe_sender p);
                   e = routing conn seq cmd T now p
               in (ps\<lparr>ps_peers := bt_insert from (ef_peer e) (ps_peers ps)\<rparr>, ef_tables e,
                   ef_acts e @ report (ef_peer e) was (ef_reason e), ef_chs e, None)))"

definition packet ::
    "ipv4 \<Rightarrow> bytes \<Rightarrow> tables \<Rightarrow> instant \<Rightarrow> peers \<Rightarrow> peers \<times> tables \<times> action list \<times> route_change list \<times> bytes option" where
  "packet from bs T now ps =
     (case aurp_parse bs of
        None \<Rightarrow> (ps, T, [], [], None)
      | Some pkt \<Rightarrow>
          if map_of (ps_peers ps) from = None then
            (if \<not> ps_open_peering ps then
               (let (ps, named) = log_unknown from now ps
                in (ps, T, if named then [ALog (LogUnknownPeer from)] else [], [], None))
             else if length (ps_peers ps) \<ge> MAX_OPEN_PEERS then
               (let (ps, named) = log_unknown from now ps
                in (ps, T, if named then [ALog (LogTooManyPeers from)] else [], [], None))
             else peer_packet from pkt T now (add_peer from None now ps))
          else peer_packet from pkt T now ps)"

section \<open>Timers\<close>

definition tick_peer :: "bool \<Rightarrow> bool \<Rightarrow> tables \<Rightarrow> instant \<Rightarrow> peer \<Rightarrow> peer \<times> tables \<times> action list \<times> route_change list" where
  "tick_peer scan zi T now p =
     (let was = (pe_receiver p, pe_sender p);
          (p, a1) = (if scan then reconnect now p else (p, []));
          e = receiver_timers T now p;
          T = ef_tables e;
          (p, a3, why) = sender_timers now (ef_peer e);
          a4 = (if zi then zi_rerequest T p else []);
          a5 = report p was (case why of Some w \<Rightarrow> Some w | None \<Rightarrow> ef_reason e)
      in (p, T, a1 @ ef_acts e @ a3 @ a4 @ a5, ef_chs e))"

fun tick_loop :: "bool \<Rightarrow> bool \<Rightarrow> instant \<Rightarrow> peer_map \<Rightarrow> tables \<Rightarrow> peer_map \<times> tables \<times> action list \<times> route_change list" where
  "tick_loop scan zi now [] T = ([], T, [], [])"
| "tick_loop scan zi now ((k, p) # m) T =
     (let (p, T, a, c) = tick_peer scan zi T now p;
          (m, T, as, cs) = tick_loop scan zi now m T
      in ((k, p) # m, T, a @ as, c @ cs))"

definition kept :: "instant \<Rightarrow> peer \<Rightarrow> bool" where
  "kept now p \<longleftrightarrow> pe_configured p \<noteq> None \<or> pe_receiver p \<noteq> RUnconnected \<or> pe_sender p \<noteq> SUnconnected
     \<or> since now (pe_last_heard p) < LAST_HEARD"

definition peers_tick :: "tables \<Rightarrow> instant \<Rightarrow> peers \<Rightarrow> peers \<times> tables \<times> action list \<times> route_change list" where
  "peers_tick T now ps =
     (let scan = (since now (ps_last_scan ps) \<ge> RECONNECT_SCAN);
          ps = (if scan then ps\<lparr>ps_last_scan := now\<rparr> else ps);
          zi = (since now (ps_last_zi ps) \<ge> ZI_REREQUEST);
          ps = (if zi then ps\<lparr>ps_last_zi := now\<rparr> else ps);
          (m, T, acts, chs) = tick_loop scan zi now (ps_peers ps) T
      in (ps\<lparr>ps_peers := filter (\<lambda>(_, p). kept now p) m\<rparr>, T, acts, chs))"

section \<open>Route changes\<close>

definition was_exported :: "route option \<Rightarrow> bool" where
  "was_exported r = (case r of Some r \<Rightarrow> is_port (rt_target r) \<and> rt_distance r < 15 | None \<Rightarrow> False)"

definition is_exported :: "tables \<Rightarrow> route option \<Rightarrow> bool" where
  "is_exported T r =
     (case r of
        Some r \<Rightarrow> is_port (rt_target r) \<and> rt_distance r < 15
          \<and> (case zones_of T (rt_start r) of Some z \<Rightarrow> zl_complete z | None \<Rightarrow> False)
      | None \<Rightarrow> False)"

definition change_event :: "tables \<Rightarrow> route_change \<Rightarrow> event_tuple option" where
  "change_event T c =
     (case (was_exported (rc_old c), is_exported T (rc_new c), rc_old c, rc_new c) of
        (False, True, _, Some new) \<Rightarrow> Some \<lparr>ev_code = NA, ev_tuple = route_tuple new\<rparr>
      | (True, False, Some old, new) \<Rightarrow>
          let code = (case new of Some r \<Rightarrow> if is_port (rt_target r) then ND else NRC | None \<Rightarrow> ND)
          in Some \<lparr>ev_code = code, ev_tuple = (route_tuple old)\<lparr>nt_distance := 0\<rparr>\<rparr>
      | (True, True, Some old, Some new) \<Rightarrow>
          if rt_distance old = rt_distance new then None
          else Some \<lparr>ev_code = NDC, ev_tuple = route_tuple new\<rparr>
      | _ \<Rightarrow> None)"

definition queue_all :: "event_tuple \<Rightarrow> peers \<Rightarrow> peers" where
  "queue_all ev ps =
     ps\<lparr>ps_peers := map (\<lambda>(k, p). (k, if pe_sender p \<noteq> SUnconnected then queue ev p else p)) (ps_peers ps)\<rparr>"

definition route_changed :: "route_change list \<Rightarrow> tables \<Rightarrow> peers \<Rightarrow> peers" where
  "route_changed chs T ps =
     fold (\<lambda>c ps. case change_event T c of None \<Rightarrow> ps | Some ev \<Rightarrow> queue_all ev ps) chs ps"

section \<open>Forwarding, shutdown and the operator's ping\<close>

definition peers_forward :: "ipv4 \<Rightarrow> bytes \<Rightarrow> peers \<Rightarrow> action" where
  "peers_forward ip d ps =
     (let dst = (case map_of (ps_peers ps) ip of Some p \<Rightarrow> pe_di p | None \<Rightarrow> DiIp ip)
      in ToPeer ip (aurp_encode (AData \<lparr>dh_dst = dst, dh_src = ps_local ps\<rparr> d)))"

definition shutdown_peer :: "instant \<Rightarrow> peer \<Rightarrow> peer \<times> action list" where
  "shutdown_peer now p =
     (if pe_sender p = SUnconnected \<or> pe_sender p = SWaitRdAck then (p, [])
      else
        let (p, acts) = send_sequenced (Rd (- 1)) [] now (p\<lparr>pe_outstanding := None, pe_pages := []\<rparr>)
        in (p\<lparr>pe_sender := SWaitRdAck\<rparr>, acts))"

definition ping_peer :: "instant \<Rightarrow> peer \<Rightarrow> peer \<times> action list" where
  "ping_peer now p =
     (if pe_receiver p \<noteq> RConnected \<and> pe_receiver p \<noteq> RWaitTickleAck then (p, [])
      else
        let p = (if pe_receiver p = RConnected
                 then p\<lparr>pe_receiver := RWaitTickleAck, pe_recv_tries := 1, pe_recv_at := now\<rparr> else p);
            p = p\<lparr>pe_pinged_at := Some now, pe_ping_rtt := None\<rparr>
        in (p, [peer_send p (pe_conn_local p) 0 Tickle]))"

fun each_peer :: "(peer \<Rightarrow> peer \<times> action list) \<Rightarrow> peer_map \<Rightarrow> peer_map \<times> action list" where
  "each_peer f [] = ([], [])"
| "each_peer f ((k, p) # m) = (let (p, a) = f p; (m, as) = each_peer f m in ((k, p) # m, a @ as))"

definition shutdown :: "instant \<Rightarrow> peers \<Rightarrow> peers \<times> action list" where
  "shutdown now ps = (let (m, acts) = each_peer (shutdown_peer now) (ps_peers ps) in (ps\<lparr>ps_peers := m\<rparr>, acts))"

definition ping :: "instant \<Rightarrow> peers \<Rightarrow> peers \<times> action list" where
  "ping now ps = (let (m, acts) = each_peer (ping_peer now) (ps_peers ps) in (ps\<lparr>ps_peers := m\<rparr>, acts))"

text \<open>The rows of the ping report, as the values they print; taking a row clears it.\<close>

datatype ping_result = PingMs duration | PingNoReply | PingBlank

definition ping_take :: "peer \<Rightarrow> peer \<times> ping_result" where
  "ping_take p =
     (p\<lparr>pe_ping_rtt := None, pe_pinged_at := None\<rparr>,
      case (pe_ping_rtt p, pe_pinged_at p) of
        (Some rtt, _) \<Rightarrow> PingMs rtt
      | (None, Some _) \<Rightarrow> PingNoReply
      | (None, None) \<Rightarrow> PingBlank)"

type_synonym ping_row = "rstring option \<times> (ipv4 \<times> receiver \<times> ping_result) option"

fun configured_rows :: "rstring list \<Rightarrow> peer_map \<Rightarrow> peer_map \<times> ping_row list" where
  "configured_rows [] m = (m, [])"
| "configured_rows (name # names) m =
     (case find (\<lambda>(_, p). pe_configured p = Some name) m of
        None \<Rightarrow> (let (m, rows) = configured_rows names m in (m, (Some name, None) # rows))
      | Some (k, p) \<Rightarrow>
          let (p', res) = ping_take p;
              (m, rows) = configured_rows names (bt_insert k p' m)
          in (m, (Some name, Some (pe_addr p, pe_receiver p, res)) # rows))"

fun stranger_rows :: "peer_map \<Rightarrow> peer_map \<times> ping_row list" where
  "stranger_rows [] = ([], [])"
| "stranger_rows ((k, p) # m) =
     (let (m, rows) = stranger_rows m in
      if pe_configured p \<noteq> None then ((k, p) # m, rows)
      else let (p', res) = ping_take p
           in ((k, p') # m, (None, Some (pe_addr p, pe_receiver p, res)) # rows))"

definition ping_report :: "peers \<Rightarrow> peers \<times> ping_row list" where
  "ping_report ps =
     (let (m, rows) = configured_rows (ps_configured ps) (ps_peers ps);
          (m, more) = stranger_rows m
      in (ps\<lparr>ps_peers := m\<rparr>, rows @ more))"

end
