(* ===== verification/Aurp_Queue.thy ===== *)
theory Aurp_Queue
  imports Aurp_Peers
begin

text \<open>
  The two buffers of an AURP data sender.  The pending events are compared with what their reader makes
  of them: a view of the sender's networks, changed event by event, for which collapsing a new event
  into the queue is invisible.  The pages of an export are shown to lose nothing and to fit.
\<close>

section \<open>What a peer makes of events\<close>

type_synonym view = "u16 \<rightharpoonup> network_tuple"

definition hear :: "event_tuple \<Rightarrow> view \<Rightarrow> view" where
  "hear e V =
     (let t = ev_tuple e; start = ev_start e in
      if ev_code e = NA \<and> nt_distance t < 15 then V(start \<mapsto> t)
      else if ev_code e = ND \<or> ev_code e = NRC then V(start := None)
      else if ev_code e = NDC \<and> nt_distance t \<ge> 15 then V(start := None)
      else if ev_code e = NDC then V(start \<mapsto> t)
      else V)"

definition hear_all :: "event_tuple list \<Rightarrow> view \<Rightarrow> view" where
  "hear_all es V = fold hear es V"

lemma hear_all_simps [simp]:
  "hear_all [] V = V" "hear_all (e # es) V = hear_all es (hear e V)"
  "hear_all (es @ fs) V = hear_all fs (hear_all es V)"
  by (simp_all add: hear_all_def)

lemma hear_other: "s \<noteq> ev_start e \<Longrightarrow> hear e V s = V s"
  by (simp add: hear_def Let_def)

lemma hear_all_other: "s \<notin> ev_start ` set es \<Longrightarrow> hear_all es V s = V s"
  by (induction es arbitrary: V) (simp_all add: hear_other)

text \<open>What the event does to its own network, when it is one a sender queues.\<close>

definition sent_event :: "event_tuple \<Rightarrow> bool" where
  "sent_event e \<longleftrightarrow> ev_code e \<in> {NA, ND, NRC, NDC} \<and> (ev_code e \<in> {NA, NDC} \<longrightarrow> nt_distance (ev_tuple e) < 15)"

definition outcome :: "event_tuple \<Rightarrow> network_tuple option" where
  "outcome e = (if ev_code e \<in> {NA, NDC} then Some (ev_tuple e) else None)"

lemma hear_sent: "sent_event e \<Longrightarrow> hear e V = V(ev_start e := outcome e)"
  by (auto simp: hear_def sent_event_def outcome_def event_code_defs Let_def)

lemma hear_all_sent:
  "\<forall>e \<in> set es. sent_event e \<Longrightarrow> distinct (map ev_start es) \<Longrightarrow>
   hear_all es V s = (case find (\<lambda>e. ev_start e = s) es of Some e \<Rightarrow> outcome e | None \<Rightarrow> V s)"
proof (induction es arbitrary: V)
  case (Cons e es)
  then have "find (\<lambda>x. ev_start x = ev_start e) es = None"
    unfolding find_None_iff by (metis distinct.simps(2) image_eqI list.simps(9) set_map)
  with Cons show ?case by (auto simp: hear_sent split: option.split)
qed simp

section \<open>Collapsing is invisible\<close>

definition queue_ok :: "event_tuple list \<Rightarrow> bool" where
  "queue_ok es \<longleftrightarrow> distinct (map ev_start es) \<and> (\<forall>e \<in> set es. sent_event e)"

lemma queue_ok_replace:
  "queue_ok es \<Longrightarrow> i < length es \<Longrightarrow> sent_event e \<Longrightarrow> ev_start e = ev_start (es ! i) \<Longrightarrow> queue_ok (es[i := e])"
  unfolding queue_ok_def
  using map_update [of ev_start es i e] set_update_subset_insert [of es i e]
  by (auto simp: list_update_id map_update)
    (metis list_update_id nth_map)+

lemma remove_at_split: "i < length xs \<Longrightarrow> remove_at i xs = take i xs @ drop (Suc i) xs"
  by (simp add: remove_at_def)

lemma queue_ok_remove: "queue_ok es \<Longrightarrow> i < length es \<Longrightarrow> queue_ok (remove_at i es)"
proof -
  assume ok: "queue_ok es" and i: "i < length es"
  have "es = take i es @ es ! i # drop (Suc i) es" using i by (rule list_split_at)
  with ok have "distinct (map ev_start (take i es @ es ! i # drop (Suc i) es))" unfolding queue_ok_def by simp
  then have "distinct (map ev_start (remove_at i es))" by (auto simp: remove_at_def)
  with ok set_remove_at_subset [of i es] show ?thesis by (auto simp: queue_ok_def)
qed

text \<open>The three outcomes of queueing an event for a network that is already pending, and the fourth.\<close>

lemma queue_events_cases:
  assumes "queue_ok es" "sent_event e"
  obtains (fresh) "ev_start e \<notin> ev_start ` set es" "queue_events e es = es @ [e]"
    | (cancel) i where "i < length es" "ev_start (es ! i) = ev_start e" "ev_code (es ! i) = NA"
        "outcome e = None" "queue_events e es = remove_at i es"
    | (replace) i f where "i < length es" "ev_start (es ! i) = ev_start e" "ev_start f = ev_start e"
        "sent_event f" "outcome f = outcome e" "queue_events e es = es[i := f]"
proof (cases "position (\<lambda>p. ev_start p = ev_start e) es")
  case None
  show ?thesis
  proof (rule fresh)
    show "ev_start e \<notin> ev_start ` set es" using None by (auto simp: position_None)
    show "queue_events e es = es @ [e]" by (simp add: queue_events_def None)
  qed
next
  case (Some i)
  have i: "i < length es" "ev_start (es ! i) = ev_start e"
    using position_lt [OF Some] position_holds [OF Some] by simp_all
  let ?was = "ev_code (es ! i)" and ?new = "ev_code e"
  have sent: "sent_event (es ! i)" using assms(1) i(1) by (auto simp: queue_ok_def)
  consider (a) "?was = NA" "?new = ND \<or> ?new = NRC" | (b) "?was = NA" "?new = NDC"
    | (c) "?was = ND \<or> ?was = NRC" "?new = NA"
    | (d) "\<not> (?was = NA \<and> (?new = ND \<or> ?new = NRC))" "\<not> (?was = NA \<and> ?new = NDC)"
        "\<not> ((?was = ND \<or> ?was = NRC) \<and> ?new = NA)"
    by blast
  then show ?thesis
  proof cases
    case a
    then show ?thesis
      using i Some by (intro cancel [of i]) (auto simp: queue_events_def outcome_def event_code_defs Let_def)
  next
    case b
    let ?f = "(es ! i)\<lparr>ev_tuple := ev_tuple e\<rparr>"
    have "queue_events e es = es[i := ?f]"
      using b Some by (simp add: queue_events_def event_code_defs Let_def)
    with b i assms(2) show ?thesis
      by (intro replace [of i ?f]) (auto simp: sent_event_def outcome_def ev_start_def)
  next
    case c
    let ?f = "e\<lparr>ev_code := NDC\<rparr>"
    have "queue_events e es = es[i := ?f]"
      using c Some by (auto simp: queue_events_def event_code_defs Let_def)
    with c i assms(2) show ?thesis
      by (intro replace [of i ?f]) (auto simp: sent_event_def outcome_def ev_start_def)
  next
    case d
    have "queue_events e es = es[i := e]"
      using d Some by (auto simp: queue_events_def Let_def)
    with i assms(2) show ?thesis by (intro replace [of i e]) auto
  qed
qed

lemma queue_events_ok:
  assumes "queue_ok es" "sent_event e" shows "queue_ok (queue_events e es)"
  using assms
proof (cases rule: queue_events_cases)
  case fresh
  with assms show ?thesis by (auto simp: queue_ok_def)
qed (use assms in \<open>auto intro: queue_ok_remove queue_ok_replace\<close>)

lemma find_at:
  assumes "distinct (map ev_start es)" "i < length es"
  shows "find (\<lambda>e. ev_start e = s) es =
     (if s = ev_start (es ! i) then Some (es ! i) else find (\<lambda>e. ev_start e = s) (remove_at i es))"
    and "ev_start f = ev_start (es ! i) \<Longrightarrow> find (\<lambda>e. ev_start e = s) (es[i := f]) =
     (if s = ev_start (es ! i) then Some f else find (\<lambda>e. ev_start e = s) (remove_at i es))"
    and "find (\<lambda>e. ev_start e = ev_start (es ! i)) (remove_at i es) = None"
proof -
  define us x vs where "us = take i es" and "x = es ! i" and "vs = drop (Suc i) es"
  have es: "es = us @ x # vs" "i = length us"
    using list_split_at [OF assms(2)] assms(2) by (simp_all add: us_def x_def vs_def)
  have nth: "es ! i = x" by (simp add: x_def)
  have no: "ev_start x \<notin> ev_start ` set us" "ev_start x \<notin> ev_start ` set vs"
    using assms(1) by (auto simp: es(1))
  have skip: "find P (ys @ zs) = (case find P ys of Some y \<Rightarrow> Some y | None \<Rightarrow> find P zs)"
    for P and ys zs :: "event_tuple list" by (induction ys) auto
  have none: "find (\<lambda>e. ev_start e = ev_start x) us = None" "find (\<lambda>e. ev_start e = ev_start x) vs = None"
    using no unfolding find_None_iff by (metis image_eqI)+
  show "find (\<lambda>e. ev_start e = s) es =
     (if s = ev_start (es ! i) then Some (es ! i) else find (\<lambda>e. ev_start e = s) (remove_at i es))"
    "ev_start f = ev_start (es ! i) \<Longrightarrow> find (\<lambda>e. ev_start e = s) (es[i := f]) =
     (if s = ev_start (es ! i) then Some f else find (\<lambda>e. ev_start e = s) (remove_at i es))"
    "find (\<lambda>e. ev_start e = ev_start (es ! i)) (remove_at i es) = None"
    using none unfolding nth by (auto simp: es remove_at_def skip split: option.split)
qed

lemma queue_events_transparent:
  assumes ok: "queue_ok es" and e: "sent_event e"
    and unknown: "\<And>p. p \<in> set es \<Longrightarrow> ev_code p = NA \<Longrightarrow> V (ev_start p) = None"
  shows "hear_all (queue_events e es) V = hear e (hear_all es V)"
proof
  fix s
  note es = ok [unfolded queue_ok_def]
  have rhs: "hear e (hear_all es V) s = (if s = ev_start e then outcome e else hear_all es V s)"
    using e by (simp add: hear_sent)
  note lhs = hear_all_sent [of "queue_events e es" V s]
  have q: "\<forall>e \<in> set (queue_events e es). sent_event e" "distinct (map ev_start (queue_events e es))"
    using queue_events_ok [OF ok e] by (auto simp: queue_ok_def)
  show "hear_all (queue_events e es) V s = hear e (hear_all es V) s"
    using ok e
  proof (cases rule: queue_events_cases)
    case fresh
    then show ?thesis by simp
  next
    case (cancel i)
    have "V (ev_start e) = None" using unknown [of "es ! i"] cancel by simp
    with lhs q rhs cancel es find_at [of es i] show ?thesis
      by (auto simp: hear_all_sent split: option.split)
  next
    case (replace i f)
    with lhs q rhs es find_at(1) [of es i s] find_at(2) [of es i f s] show ?thesis
      by (auto simp: hear_all_sent split: option.split)
  qed
qed

section \<open>Pages\<close>

lemma split_loop_concat: "concat (split_loop page used ts) = page @ ts"
  by (induction page used ts rule: split_loop.induct) (simp_all add: Let_def)

lemma split_loop_nonempty: "split_loop page used ts \<noteq> []"
  by (induction page used ts rule: split_loop.induct) (simp_all add: Let_def)

lemma tuple_size_le: "tuple_size t \<le> 6"
  by (simp add: tuple_size_def)

lemma split_loop_fits:
  "used = sum_list (map tuple_size page) \<Longrightarrow> used \<le> MAX_BODY \<Longrightarrow> page' \<in> set (split_loop page used ts) \<Longrightarrow>
   sum_list (map tuple_size page') \<le> MAX_BODY"
proof (induction page used ts rule: split_loop.induct)
  case (2 page used t ts)
  have "tuple_size t \<le> MAX_BODY" using tuple_size_le [of t] by (simp add: MAX_BODY_def)
  with 2 show ?case by (auto simp: Let_def not_less split: if_splits)
qed simp

lemma length_pages: "sum_list (map tuple_size ts) = length (concat (map (network_tuple_encode_with 0) ts))"
  by (induction ts) (simp_all add: tuple_size_def length_tuple_encode)

lemma split_loop_full:
  "page \<noteq> [] \<or> ts = [] \<Longrightarrow> [] \<in> set (split_loop page used ts) \<Longrightarrow> page = [] \<and> ts = []"
proof (induction page used ts rule: split_loop.induct)
  case (2 page used t ts)
  then show ?case by (auto simp: Let_def split: if_splits)
qed auto

text \<open>
  An export is split into RI-Rsp pages without losing, repeating or reordering a tuple, into at least one
  page, every page's encoded body within the 1400 bytes that keep it from fragmenting, and no page
  empty unless there is nothing to export.
\<close>

theorem split_tuples_exact:
  "concat (split_tuples ts) = ts \<and> split_tuples ts \<noteq> []
   \<and> (\<forall>page \<in> set (split_tuples ts). length (encode_body (RiRsp fin page)) \<le> 1400 \<and> (page = [] \<longrightarrow> ts = []))"
proof (intro conjI ballI impI)
  show "concat (split_tuples ts) = ts" by (simp add: split_tuples_def split_loop_concat)
  show "split_tuples ts \<noteq> []" by (simp add: split_tuples_def split_loop_nonempty)
  fix page assume page: "page \<in> set (split_tuples ts)"
  then show "length (encode_body (RiRsp fin page)) \<le> 1400"
    using split_loop_fits [of 0 "[]" page ts] by (simp add: split_tuples_def length_pages MAX_BODY_def)
  assume "page = []"
  show "ts = []"
  proof (cases ts)
    case (Cons t us)
    then have "split_tuples ts = split_loop [t] (tuple_size t) us"
      using tuple_size_le [of t] by (simp add: split_tuples_def MAX_BODY_def Let_def)
    with page \<open>page = []\<close> split_loop_full [of "[t]" us "tuple_size t"] show ?thesis by auto
  qed simp
qed

theorem split_tuples_exact_witness:
  "length (encode_body (RiRsp True
     (hd (split_tuples (replicate 300 \<lparr>nt_range = (1, 2), nt_extended = True, nt_distance = 0\<rparr>))))) \<le> 1400"
  using split_tuples_exact [of "replicate 300 \<lparr>nt_range = (1, 2), nt_extended = True, nt_distance = 0\<rparr>" True]
    hd_in_set [of "split_tuples (replicate 300 \<lparr>nt_range = (1, 2), nt_extended = True, nt_distance = 0\<rparr>)"]
  by blast


definition example_peer :: peer where
  "example_peer = peer_new (ipv4_new 192 0 2 7) None 9 (DiIp (ipv4_new 192 0 2 1)) 0"

definition example_add :: event_tuple where
  "example_add = \<lparr>ev_code = NA, ev_tuple = \<lparr>nt_range = (5, 6), nt_extended = True, nt_distance = 2\<rparr>\<rparr>"


end
