(* ===== verification/Aurp_Invariants.thy ===== *)
theory Aurp_Invariants
  imports Aurp_Queue Routing_Properties
begin

text \<open>
  The invariant of a tunnel peer, one half for each of its connections, and every operation keeps it.  The
  two halves read disjoint fields, so an operation on one connection keeps the other's half by
  evaluation.
\<close>

section \<open>Sequence numbers\<close>

lemma succ_nonzero [simp]: "succ n \<noteq> 0"
  by (simp add: succ_def)

lemma pred_nonzero [simp]: "pred n \<noteq> 0"
  by (simp add: pred_def)

lemma pred_succ: "n \<noteq> 0 \<Longrightarrow> pred (succ n) = n"
proof (cases "n + 1 = 0")
  case True
  then have "n = - 1" by (simp add: eq_neg_iff_add_eq_0)
  then show ?thesis by (simp add: succ_def pred_def)
qed (simp add: succ_def pred_def)

lemma succ_pred: "n \<noteq> 0 \<Longrightarrow> succ (pred n) = n"
  by (cases "n = 1") (simp_all add: succ_def pred_def)

section \<open>The invariant\<close>

definition sender_ok :: "peer \<Rightarrow> bool" where
  "sender_ok p \<longleftrightarrow>
     (pe_outstanding p = None \<longleftrightarrow> pe_sender p = SUnconnected \<or> pe_sender p = SConnected)
     \<and> (\<forall>o'. pe_outstanding p = Some o' \<longrightarrow> os_seq o' = pe_seq_send p \<and> os_seq o' \<noteq> 0
              \<and> 1 \<le> os_tries o' \<and> os_tries o' \<le> RETRIES)
     \<and> (pe_pages p \<noteq> [] \<longrightarrow> pe_sender p = SWaitRiRspAck)
     \<and> (pe_sender p = SUnconnected \<longrightarrow>
          pe_conn_remote p = 0 \<and> pe_seq_send p = 0 \<and> pe_pending p = [] \<and> \<not> pe_probing p)
     \<and> queue_ok (pe_pending p)"

definition receiver_ok :: "peer \<Rightarrow> bool" where
  "receiver_ok p \<longleftrightarrow> pe_conn_local p \<noteq> 0 \<and> pe_seq_recv p \<noteq> 0
     \<and> (pe_receiver p = RWaitOpenRsp \<or> pe_receiver p = RWaitRiRsp \<longrightarrow> 1 \<le> pe_recv_tries p \<and> pe_recv_tries p \<le> RETRIES)
     \<and> (pe_receiver p = RWaitTickleAck \<longrightarrow> 1 \<le> pe_recv_tries p \<and> pe_recv_tries p \<le> TICKLE_RETRIES)"

definition peer_ok :: "peer \<Rightarrow> bool" where
  "peer_ok p \<longleftrightarrow> sender_ok p \<and> receiver_ok p"

lemmas ok_defs = sender_ok_def receiver_ok_def RETRIES_def TICKLE_RETRIES_def

lemma peer_new_ok: "c \<noteq> 0 \<Longrightarrow> peer_ok (peer_new addr conf c local now)"
  by (simp add: peer_ok_def ok_defs peer_new_def queue_ok_def)

text \<open>Fields neither half reads.\<close>

lemma sender_ok_irrelevant [simp]:
  "sender_ok (p\<lparr>pe_configured := a\<rparr>) = sender_ok p" "sender_ok (p\<lparr>pe_di := b\<rparr>) = sender_ok p"
  "sender_ok (p\<lparr>pe_receiver := c\<rparr>) = sender_ok p" "sender_ok (p\<lparr>pe_conn_local := d\<rparr>) = sender_ok p"
  "sender_ok (p\<lparr>pe_seq_recv := d\<rparr>) = sender_ok p" "sender_ok (p\<lparr>pe_last_heard := e\<rparr>) = sender_ok p"
  "sender_ok (p\<lparr>pe_recv_at := e\<rparr>) = sender_ok p" "sender_ok (p\<lparr>pe_recv_tries := f\<rparr>) = sender_ok p"
  "sender_ok (p\<lparr>pe_last_reconnect := g\<rparr>) = sender_ok p" "sender_ok (p\<lparr>pe_last_update := e\<rparr>) = sender_ok p"
  "sender_ok (p\<lparr>pe_pinged_at := h\<rparr>) = sender_ok p" "sender_ok (p\<lparr>pe_ping_rtt := i\<rparr>) = sender_ok p"
  by (simp_all add: sender_ok_def)

lemma receiver_ok_irrelevant [simp]:
  "receiver_ok (p\<lparr>pe_configured := a\<rparr>) = receiver_ok p" "receiver_ok (p\<lparr>pe_di := b\<rparr>) = receiver_ok p"
  "receiver_ok (p\<lparr>pe_sender := s\<rparr>) = receiver_ok p" "receiver_ok (p\<lparr>pe_last_heard := e\<rparr>) = receiver_ok p"
  "receiver_ok (p\<lparr>pe_recv_at := e\<rparr>) = receiver_ok p" "receiver_ok (p\<lparr>pe_last_reconnect := g\<rparr>) = receiver_ok p"
  "receiver_ok (p\<lparr>pe_conn_remote := c\<rparr>) = receiver_ok p" "receiver_ok (p\<lparr>pe_seq_send := c\<rparr>) = receiver_ok p"
  "receiver_ok (p\<lparr>pe_outstanding := o'\<rparr>) = receiver_ok p" "receiver_ok (p\<lparr>pe_pages := l\<rparr>) = receiver_ok p"
  "receiver_ok (p\<lparr>pe_pending := m\<rparr>) = receiver_ok p" "receiver_ok (p\<lparr>pe_last_update := e\<rparr>) = receiver_ok p"
  "receiver_ok (p\<lparr>pe_probing := t\<rparr>) = receiver_ok p" "receiver_ok (p\<lparr>pe_pinged_at := h\<rparr>) = receiver_ok p"
  "receiver_ok (p\<lparr>pe_ping_rtt := i\<rparr>) = receiver_ok p"
  by (simp_all add: receiver_ok_def)

section \<open>The shared steps\<close>

lemma send_sequenced_simps [simp]:
  "pe_receiver (fst (send_sequenced cmd nets now p)) = pe_receiver p"
  "pe_sender (fst (send_sequenced cmd nets now p)) = pe_sender p"
  "pe_addr (fst (send_sequenced cmd nets now p)) = pe_addr p"
  "pe_pages (fst (send_sequenced cmd nets now p)) = pe_pages p"
  "pe_pending (fst (send_sequenced cmd nets now p)) = pe_pending p"
  "pe_probing (fst (send_sequenced cmd nets now p)) = pe_probing p"
  "pe_conn_remote (fst (send_sequenced cmd nets now p)) = pe_conn_remote p"
  "pe_conn_local (fst (send_sequenced cmd nets now p)) = pe_conn_local p"
  "pe_configured (fst (send_sequenced cmd nets now p)) = pe_configured p"
  "receiver_ok (fst (send_sequenced cmd nets now p)) = receiver_ok p"
  by (simp_all add: send_sequenced_def Let_def)

lemma send_sequenced_ok:
  assumes "s \<in> {SWaitRiRspAck, SWaitRiUpdAck, SWaitRdAck}" "queue_ok (pe_pending p)"
    and "pe_pages p \<noteq> [] \<Longrightarrow> s = SWaitRiRspAck"
  shows "sender_ok ((fst (send_sequenced cmd nets now p))\<lparr>pe_sender := s\<rparr>)"
  using assms by (auto simp: sender_ok_def send_sequenced_def RETRIES_def Let_def)

lemma close_sender_ok [simp]: "sender_ok (close_sender p)" "receiver_ok (close_sender p) = receiver_ok p"
  by (simp_all add: close_sender_def ok_defs queue_ok_def)

lemma close_receiver_ok [simp]: "sender_ok (close_receiver p) = sender_ok p" "receiver_ok (close_receiver p)"
  by (simp_all add: close_receiver_def ok_defs)

lemma peer_open_ok:
  "sender_ok (fst (peer_open now p)) = sender_ok p"
  "receiver_ok p \<Longrightarrow> receiver_ok (fst (peer_open now p))"
  by (simp_all add: peer_open_def ok_defs Let_def)

lemma send_page_ok:
  assumes "queue_ok (pe_pending p)" "pe_pages p \<noteq> []"
  shows "sender_ok (fst (send_page now p))" "receiver_ok (fst (send_page now p)) = receiver_ok p"
  using assms by (auto simp: send_page_def case_prod_beta Let_def split: list.split intro!: send_sequenced_ok)

lemma sender_okD:
  assumes "sender_ok p"
  shows "queue_ok (pe_pending p)"
    and "pe_outstanding p = None \<Longrightarrow> pe_sender p = SUnconnected \<or> pe_sender p = SConnected"
    and "pe_outstanding p = None \<Longrightarrow> pe_pages p = []"
    and "pe_sender p = SConnected \<Longrightarrow> pe_pages p = []"
    and "pe_outstanding p = Some o' \<Longrightarrow> os_seq o' = pe_seq_send p \<and> os_seq o' \<noteq> 0"
  using assms by (auto simp: sender_ok_def)

definition accepted :: "u16 \<Rightarrow> peer \<Rightarrow> peer" where
  "accepted conn p = p\<lparr>pe_conn_remote := conn, pe_seq_send := 0, pe_outstanding := None, pe_pages := [],
                       pe_sender := SConnected\<rparr>"

lemma open_req_consider:
  obtains (refuse) acts where "open_req conn version options now p = (p, acts)"
    | (probe) "pe_sender p \<noteq> SUnconnected" "pe_outstanding p = None" "\<not> pe_probing p"
      "open_req conn version options now p =
        ((fst (send_sequenced null_upd [] now (p\<lparr>pe_probing := True\<rparr>)))\<lparr>pe_sender := SWaitRiUpdAck\<rparr>,
         snd (send_sequenced null_upd [] now (p\<lparr>pe_probing := True\<rparr>)))"
    | (accept) "version = 1" "options = []" "pe_sender p = SUnconnected \<or> conn = pe_conn_remote p"
      "open_req conn version options now p =
        (let p' = accepted conn p; acts = [open_rsp p' conn 1]
         in if pe_receiver p' = RUnconnected then (fst (peer_open now p'), acts @ snd (peer_open now p'))
            else (p', acts))"
proof -
  consider (a) "version \<noteq> 1 \<or> options \<noteq> []"
    | (b) "version = 1" "options = []" "pe_sender p \<noteq> SUnconnected" "conn \<noteq> pe_conn_remote p"
    | (c) "version = 1" "options = []" "pe_sender p = SUnconnected \<or> conn = pe_conn_remote p" by blast
  then show ?thesis
  proof cases
    case a
    then show ?thesis
      using refuse [of "[open_rsp p conn (- 5)]"] refuse [of "[open_rsp p conn (- 4)]"]
      by (cases "version = 1") (simp_all add: open_req_def)
  next
    case b
    show ?thesis
    proof (cases "\<not> pe_probing p \<and> pe_outstanding p = None")
      case True
      with b show ?thesis by (intro probe) (simp_all add: open_req_def case_prod_beta Let_def)
    next
      case False
      with b show ?thesis by (intro refuse [of "[]"]) (auto simp: open_req_def)
    qed
  next
    case c
    then show ?thesis
      by (intro accept) (auto simp: open_req_def accepted_def case_prod_beta Let_def)
  qed
qed

lemma accepted_ok:
  "sender_ok p \<Longrightarrow> sender_ok (accepted conn p)" "receiver_ok (accepted conn p) = receiver_ok p"
  by (simp_all add: accepted_def sender_ok_def)

lemma open_req_ok:
  assumes "peer_ok p" shows "peer_ok (fst (open_req conn version options now p))"
proof -
  have s: "sender_ok p" and r: "receiver_ok p" using assms by (simp_all add: peer_ok_def)
  show ?thesis
  proof (cases rule: open_req_consider [where conn = conn and version = version and options = options and now = now and p = p])
    case refuse
    with assms show ?thesis by simp
  next
    case probe
    have "sender_ok ((fst (send_sequenced null_upd [] now (p\<lparr>pe_probing := True\<rparr>)))\<lparr>pe_sender := SWaitRiUpdAck\<rparr>)"
      by (rule send_sequenced_ok) (use sender_okD [OF s] probe in simp_all)
    with probe r show ?thesis by (simp add: peer_ok_def)
  next
    case accept
    with s r show ?thesis by (simp add: peer_ok_def peer_open_ok accepted_ok Let_def)
  qed
qed

lemma ri_ack_ok:
  assumes "peer_ok p" shows "peer_ok (fst (ri_ack seq szi T now p))"
proof (cases "pe_outstanding p")
  case None
  with assms show ?thesis by (simp add: ri_ack_def)
next
  case (Some o')
  have s: "sender_ok p" and r: "receiver_ok p" using assms by (simp_all add: peer_ok_def)
  let ?p = "p\<lparr>pe_outstanding := None\<rparr>"
  have c: "sender_ok (?p\<lparr>pe_sender := SConnected, pe_probing := False\<rparr>)" if "pe_pages p = []"
    using that sender_okD(1) [OF s] by (simp add: sender_ok_def)
  have not: "pe_sender p \<noteq> SUnconnected" "pe_sender p \<noteq> SConnected"
    and pages: "pe_sender p \<noteq> SWaitRiRspAck \<Longrightarrow> pe_pages p = []"
    using s Some by (auto simp: sender_ok_def)
  show ?thesis
    using s r c not pages send_page_ok [of ?p now] sender_okD(1) [OF s] assms
    by (cases "pe_sender p") (simp_all add: ri_ack_def Some peer_ok_def case_prod_beta Let_def)
qed

section \<open>Every packet\<close>

lemma effect_simps [simp]:
  "ef_peer (quiet p T) = p" "ef_tables (quiet p T) = T" "ef_acts (quiet p T) = []" "ef_chs (quiet p T) = []"
  "ef_reason (quiet p T) = None"
  "ef_peer (acting T x) = fst x" "ef_tables (acting T x) = T" "ef_acts (acting T x) = snd x"
  "ef_chs (acting T x) = []" "ef_reason (acting T x) = None"
  by (simp_all add: quiet_def acting_def case_prod_beta)

lemma receiver_ok_next:
  "receiver_ok p \<Longrightarrow> n \<noteq> 0 \<Longrightarrow> receiver_ok (p\<lparr>pe_seq_recv := n\<rparr>)"
  "receiver_ok p \<Longrightarrow> receiver_ok (p\<lparr>pe_receiver := RConnected\<rparr>)"
  by (simp_all add: receiver_ok_def)

lemma on_ri_rsp_ok: "peer_ok p \<Longrightarrow> peer_ok (ef_peer (on_ri_rsp conn seq fin tuples T now p))"
  by (simp add: on_ri_rsp_def peer_ok_def sequence_ahead_def receiver_ok_next case_prod_beta Let_def
      split: seq.split)

lemma on_ri_upd_ok: "peer_ok p \<Longrightarrow> peer_ok (ef_peer (on_ri_upd conn seq events T now p))"
  by (simp add: on_ri_upd_def peer_ok_def sequence_ahead_def receiver_ok_next case_prod_beta Let_def
      split: seq.split)

lemma routing_ok:
  assumes "peer_ok p" shows "peer_ok (ef_peer (routing conn seq cmd T now p))"
proof -
  have s: "sender_ok p" and r: "receiver_ok p" using assms by (simp_all add: peer_ok_def)
  have q: "queue_ok (pe_pending p)" using sender_okD(1) [OF s] .
  let ?q = "p\<lparr>pe_seq_send := 0, pe_outstanding := None, pe_pages := split_tuples (export T)\<rparr>"
  have page: "peer_ok (fst (send_page now ?q))"
    using send_page_ok [of ?q now] q r split_loop_nonempty by (simp add: peer_ok_def split_tuples_def)
  have open_: "receiver_open p \<Longrightarrow> pe_receiver p \<noteq> RUnconnected" by (simp add: receiver_open_def)
  show ?thesis
  proof (cases cmd)
    case (OpenRsp env rate opts)
    have "receiver_ok (p\<lparr>pe_receiver := RWaitRiRsp, pe_seq_recv := 1, pe_recv_tries := 1\<rparr>)"
      using r by (simp add: ok_defs)
    with OpenRsp s r show ?thesis by (simp add: routing_def peer_ok_def Let_def)
  next
    case TickleAck
    have "receiver_ok (p\<lparr>pe_receiver := RConnected, pe_recv_tries := 0\<rparr>)"
      using r by (simp add: ok_defs)
    with TickleAck s r show ?thesis
      by (simp add: routing_def peer_ok_def Let_def split: option.split)
  qed (use assms s r page open_req_ok ri_ack_ok on_ri_rsp_ok on_ri_upd_ok open_ in
        \<open>simp_all add: routing_def peer_ok_def case_prod_beta Let_def\<close>)
qed

section \<open>Every timer\<close>

lemma reconnect_ok: "peer_ok p \<Longrightarrow> peer_ok (fst (reconnect now p))"
  using peer_open_ok(1) [of now p] peer_open_ok(2) [of p now]
  by (simp add: reconnect_def peer_ok_def split: option.split)

lemma tries_step: "(t :: u32) < n \<Longrightarrow> 1 \<le> t \<Longrightarrow> 1 \<le> t + 1 \<and> t + 1 \<le> n"
  using unat_succ_u32 [of t n] inc_le [of t n] by (auto simp: word_le_nat_alt)

text \<open>What the receiver's timers do, in six cases.\<close>

definition retried :: "instant \<Rightarrow> peer \<Rightarrow> peer" where
  "retried now p = p\<lparr>pe_recv_tries := pe_recv_tries p + 1, pe_recv_at := now\<rparr>"

definition tickled :: "instant \<Rightarrow> peer \<Rightarrow> peer" where
  "tickled now p = p\<lparr>pe_receiver := RWaitTickleAck, pe_recv_tries := 1, pe_recv_at := now\<rparr>"

definition probed :: "instant \<Rightarrow> peer \<Rightarrow> peer" where
  "probed now p = (if pe_sender p = SConnected
     then (fst (send_sequenced null_upd [] now p))\<lparr>pe_sender := SWaitRiUpdAck\<rparr> else p)"

lemma receiver_timers_consider:
  obtains (retry) acts where "pe_receiver p = RWaitOpenRsp \<or> pe_receiver p = RWaitRiRsp"
      "RETRY \<le> since now (pe_recv_at p)" "pe_recv_tries p < RETRIES"
      "receiver_timers T now p = acting T (retried now p, acts)"
    | (give_up) "pe_receiver p = RWaitOpenRsp \<or> pe_receiver p = RWaitRiRsp"
      "RETRY \<le> since now (pe_recv_at p)" "RETRIES \<le> pe_recv_tries p"
      "receiver_timers T now p = (quiet (close_receiver p) T)\<lparr>ef_reason := Some NoAnswer\<rparr>"
    | (tickle) "pe_receiver p = RConnected" "LAST_HEARD < since now (pe_last_heard p)"
      "receiver_timers T now p = acting T (tickled now p, [peer_send p (pe_conn_local p) 0 Tickle])"
    | (again) "pe_receiver p = RWaitTickleAck" "RETRY \<le> since now (pe_recv_at p)"
      "pe_recv_tries p < TICKLE_RETRIES"
      "receiver_timers T now p = acting T (retried now p, [peer_send p (pe_conn_local p) 0 Tickle])"
    | (dead) acts where "pe_receiver p = RWaitTickleAck" "RETRY \<le> since now (pe_recv_at p)"
      "TICKLE_RETRIES \<le> pe_recv_tries p"
      "receiver_timers T now p =
         \<lparr>ef_peer = probed now (close_receiver p), ef_tables = fst (remove_target (TPeer (pe_addr p)) T),
          ef_acts = acts, ef_chs = snd (remove_target (TPeer (pe_addr p)) T), ef_reason = Some TicklesUnanswered\<rparr>"
    | (idle) "receiver_timers T now p = quiet p T"
proof -
  have send: "peer_send (p\<lparr>pe_recv_tries := t, pe_recv_at := n\<rparr>) = peer_send p"
    "peer_send (p\<lparr>pe_receiver := c, pe_recv_tries := t, pe_recv_at := n\<rparr>) = peer_send p" for t n c
    by (simp_all add: fun_eq_iff peer_send_def peer_bytes_def)
  note defs = receiver_timers_def retried_def tickled_def probed_def send Let_def case_prod_beta
  consider (a) "pe_receiver p = RWaitOpenRsp \<or> pe_receiver p = RWaitRiRsp" "RETRY \<le> since now (pe_recv_at p)"
    | (b) "pe_receiver p = RConnected" "LAST_HEARD < since now (pe_last_heard p)"
    | (c) "pe_receiver p = RWaitTickleAck" "RETRY \<le> since now (pe_recv_at p)"
    | (d) "\<not> ((pe_receiver p = RWaitOpenRsp \<or> pe_receiver p = RWaitRiRsp) \<and> RETRY \<le> since now (pe_recv_at p))"
        "\<not> (pe_receiver p = RConnected \<and> LAST_HEARD < since now (pe_last_heard p))"
        "\<not> (pe_receiver p = RWaitTickleAck \<and> RETRY \<le> since now (pe_recv_at p))"
    by blast
  then show ?thesis
  proof cases
    case a
    show ?thesis
    proof (cases "RETRIES \<le> pe_recv_tries p")
      case True
      with a show ?thesis by (intro give_up) (simp_all add: defs)
    next
      case False
      with a show ?thesis
        by (intro retry [of "[peer_send p (pe_conn_local p) 0
              (if pe_receiver p = RWaitOpenRsp then OpenReq ALL_SUI 1 [] else RiReq ALL_SUI)]"])
          (auto simp: defs not_le leD)
    qed
  next
    case b
    then show ?thesis by (intro tickle) (simp_all add: defs)
  next
    case c
    show ?thesis
    proof (cases "TICKLE_RETRIES \<le> pe_recv_tries p")
      case True
      with c show ?thesis by (intro dead) (simp_all add: defs)
    next
      case False
      with c show ?thesis by (intro again) (auto simp: defs not_le leD)
    qed
  next
    case d
    then have "receiver_timers T now p = quiet p T" unfolding receiver_timers_def by argo
    then show ?thesis by (rule idle)
  qed
qed

lemma retried_ok:
  "receiver_ok p \<Longrightarrow> pe_receiver p = RWaitOpenRsp \<or> pe_receiver p = RWaitRiRsp \<Longrightarrow>
     pe_recv_tries p < RETRIES \<Longrightarrow> receiver_ok (retried now p)"
  "receiver_ok p \<Longrightarrow> pe_receiver p = RWaitTickleAck \<Longrightarrow>
     pe_recv_tries p < TICKLE_RETRIES \<Longrightarrow> receiver_ok (retried now p)"
  "sender_ok (retried now p) = sender_ok p"
  using tries_step [of "pe_recv_tries p" RETRIES] tries_step [of "pe_recv_tries p" TICKLE_RETRIES]
  by (auto simp: receiver_ok_def retried_def)

lemma probed_ok:
  assumes "sender_ok p" shows "sender_ok (probed now p)" "receiver_ok (probed now p) = receiver_ok p"
proof -
  show "sender_ok (probed now p)"
  proof (cases "pe_sender p = SConnected")
    case True
    have "sender_ok ((fst (send_sequenced null_upd [] now p))\<lparr>pe_sender := SWaitRiUpdAck\<rparr>)"
      by (rule send_sequenced_ok) (use sender_okD(1,4) [OF assms] True in simp_all)
    with True show ?thesis by (simp add: probed_def)
  qed (use assms in \<open>simp add: probed_def\<close>)
  show "receiver_ok (probed now p) = receiver_ok p" by (simp add: probed_def)
qed

lemma receiver_timers_ok:
  assumes "peer_ok p" shows "peer_ok (ef_peer (receiver_timers T now p))"
proof -
  have s: "sender_ok p" and r: "receiver_ok p" using assms by (simp_all add: peer_ok_def)
  show ?thesis
  proof (cases rule: receiver_timers_consider [where p = p and now = now and T = T])
    case retry
    with s r show ?thesis by (simp add: peer_ok_def retried_ok)
  next
    case give_up
    with s r show ?thesis by (simp add: peer_ok_def)
  next
    case tickle
    have "receiver_ok (tickled now p)" "sender_ok (tickled now p)"
      using r s by (simp_all add: tickled_def receiver_ok_def TICKLE_RETRIES_def)
    with tickle show ?thesis by (simp add: peer_ok_def)
  next
    case again
    with s r show ?thesis by (simp add: peer_ok_def retried_ok)
  next
    case dead
    with s r show ?thesis by (simp add: peer_ok_def probed_ok)
  next
    case idle
    with assms show ?thesis by simp
  qed
qed

lemma sender_timers_ok:
  assumes "peer_ok p" shows "peer_ok (fst (sender_timers now p))"
proof (cases "pe_outstanding p")
  case (Some o')
  have s: "sender_ok p" and r: "receiver_ok p" using assms by (simp_all add: peer_ok_def)
  have "1 \<le> os_tries o'" using s Some by (auto simp: sender_ok_def)
  then have "sender_ok (p\<lparr>pe_outstanding := Some (o'\<lparr>os_tries := os_tries o' + 1, os_at := now\<rparr>)\<rparr>)"
    if "os_tries o' < RETRIES"
    using s Some tries_step [OF that] by (auto simp: sender_ok_def)
  with assms s r Some show ?thesis by (simp add: sender_timers_def peer_ok_def not_le)
next
  case None
  have s: "sender_ok p" and r: "receiver_ok p" using assms by (simp_all add: peer_ok_def)
  have "sender_ok ((fst (send_sequenced cmd nets now (p\<lparr>pe_pending := [], pe_last_update := now\<rparr>)))
      \<lparr>pe_sender := SWaitRiUpdAck\<rparr>)" for cmd nets
    by (rule send_sequenced_ok) (use sender_okD(3) [OF s None] in \<open>simp_all add: queue_ok_def\<close>)
  with assms s r None show ?thesis by (simp add: sender_timers_def peer_ok_def case_prod_beta Let_def)
qed

lemma queue_ok_peer: "peer_ok p \<Longrightarrow> sent_event ev \<Longrightarrow> pe_sender p \<noteq> SUnconnected \<Longrightarrow> peer_ok (queue ev p)"
  using queue_events_ok [of "pe_pending p" ev] by (auto simp: peer_ok_def sender_ok_def queue_def)

lemma shutdown_peer_ok:
  assumes "peer_ok p" shows "peer_ok (fst (shutdown_peer now p))"
proof -
  have q: "queue_ok (pe_pending p)" using assms sender_okD(1) by (simp add: peer_ok_def)
  have "sender_ok ((fst (send_sequenced (Rd (- 1)) [] now (p\<lparr>pe_outstanding := None, pe_pages := []\<rparr>)))
      \<lparr>pe_sender := SWaitRdAck\<rparr>)"
    by (rule send_sequenced_ok) (use q in simp_all)
  with assms show ?thesis by (simp add: shutdown_peer_def peer_ok_def case_prod_beta Let_def)
qed

lemma ping_peer_ok: "peer_ok p \<Longrightarrow> peer_ok (fst (ping_peer now p))"
  by (auto simp: ping_peer_def peer_ok_def receiver_ok_def TICKLE_RETRIES_def Let_def)

lemma ping_take_ok: "peer_ok (fst (ping_take p)) = peer_ok p"
  by (simp add: ping_take_def peer_ok_def)

lemma peer_ok_irrelevant [simp]:
  "peer_ok (p\<lparr>pe_configured := a\<rparr>) = peer_ok p" "peer_ok (p\<lparr>pe_di := b\<rparr>) = peer_ok p"
  "peer_ok (p\<lparr>pe_last_heard := e\<rparr>) = peer_ok p"
  by (simp_all add: peer_ok_def)

lemma tick_peer_ok:
  assumes "peer_ok p" shows "peer_ok (fst (tick_peer scan zi T now p))"
proof -
  obtain q where q: "q = (if scan then fst (reconnect now p) else p)" by simp
  have "peer_ok q" using assms reconnect_ok by (simp add: q)
  from sender_timers_ok [OF receiver_timers_ok [OF this, of T now], of now]
  show ?thesis by (cases scan) (simp_all add: tick_peer_def q case_prod_beta Let_def)
qed

end
