(* ===== verification/Routing_Shares.thy ===== *)
theory Routing_Shares
  imports Routing_Properties
begin

text \<open>
  The routes of everyone but one target: an operation on that target's routes leaves them alone, in
  their order, and the operations on zones leave every route alone.
\<close>

definition others :: "target \<Rightarrow> tables \<Rightarrow> route list" where
  "others tgt T = filter (\<lambda>r. rt_target r \<noteq> tgt) (tb_routes T)"

lemma others_learn [simp]: "others tgt (fst (learn t tgt nxt now T)) = others tgt T"
proof (cases "position (same_path t tgt nxt) (tb_routes T)")
  case None
  then show ?thesis by (simp add: others_def learn_update learn_routes_None new_route_def)
next
  case (Some i)
  have "rt_target (tb_routes T ! i) = tgt" "i < length (tb_routes T)"
    using position_holds [OF Some] position_lt [OF Some] by (simp_all add: same_path_def)
  then show ?thesis
    by (simp add: others_def learn_update learn_routes_Some [OF Some] filter_list_update filter_remove_at)
qed

lemma others_remove [simp]:
  "others tgt (fst (remove_route tgt s T)) = others tgt T"
  "others tgt (fst (remove_target tgt T)) = others tgt T"
  by (auto simp: others_def remove_route_update remove_target_update intro: filter_cong)

lemma others_set_distance [simp]: "others tgt (fst (set_distance tgt s d now T)) = others tgt T"
proof -
  have "filter (\<lambda>r. rt_target r \<noteq> tgt) (map (\<lambda>r. if rt_target r = tgt \<and> rt_start r = s
      then r\<lparr>rt_distance := d, rt_seen := now\<rparr> else r) rs) = filter (\<lambda>r. rt_target r \<noteq> tgt) rs" for rs
    by (induction rs) auto
  then show ?thesis by (simp add: others_def set_distance_update)
qed

lemma tb_routes_add_zones [simp]: "tb_routes (fst (add_zones s names e T)) = tb_routes T"
  by (simp add: add_zones_fst Let_def split: option.split)

end
