(* ===== verification/Aurp_Properties.thy ===== *)
theory Aurp_Properties
  imports Aurp_Invariants Routing_Shares
begin

text \<open>
  What the tunnel promises: the table of peers keeps its shape and its bound, a peer can only speak for
  its own routes, a stranger changes nothing, a dead peer's routes go away on schedule, and an export
  arrives whole through the bytes of the dialog.  The last section holds the histories in which the
  code falls short of what its comments say.
\<close>

section \<open>A peer speaks for itself\<close>

lemma others_apply_events: "others (TPeer (pe_addr p)) (fst (apply_events p es T now)) = others (TPeer (pe_addr p)) T"
proof (induction es arbitrary: T)
  case (Cons e es)
  have "others (TPeer (pe_addr p)) (fst (apply_event p e T now)) = others (TPeer (pe_addr p)) T"
    by (simp add: apply_event_def Let_def)
  with Cons show ?case by (simp add: case_prod_beta Let_def)
qed simp

lemma others_learn_all: "others (TPeer (pe_addr p)) (fst (learn_all p ts T now)) = others (TPeer (pe_addr p)) T"
  by (induction ts arbitrary: T) (simp_all add: case_prod_beta Let_def)

lemma routes_zi_store: "tb_routes (fst (zi_store ext zones nets T)) = tb_routes T"
  by (induction nets arbitrary: T) (simp_all add: case_prod_beta Let_def)

lemma others_routing: "others (TPeer (pe_addr p)) (ef_tables (routing conn seq cmd T now p)) = others (TPeer (pe_addr p)) T"
proof (cases cmd)
  case (RiRsp fin ts)
  have "others (TPeer (pe_addr p)) (ef_tables (on_ri_rsp conn seq fin ts T now p)) = others (TPeer (pe_addr p)) T"
    using others_learn_all [of "p\<lparr>pe_last_heard := now\<rparr>" ts T now]
    by (simp add: on_ri_rsp_def sequence_ahead_def case_prod_beta Let_def split: seq.split)
  with RiRsp show ?thesis by (auto simp: routing_def)
next
  case (RiUpd es)
  have "others (TPeer (pe_addr p)) (ef_tables (on_ri_upd conn seq es T now p)) = others (TPeer (pe_addr p)) T"
    using others_apply_events [of "p\<lparr>pe_last_heard := now\<rparr>" es T now]
    by (simp add: on_ri_upd_def sequence_ahead_def case_prod_beta Let_def split: seq.split)
  with RiUpd show ?thesis by (auto simp: routing_def)
next
  case (ZiRsp ext zones)
  then show ?thesis
    by (simp add: routing_def zi_rsp_def routes_zi_store others_def case_prod_beta Let_def)
qed (simp_all add: routing_def case_prod_beta Let_def)

text \<open>
  C27: A peer speaks only for itself: no packet a tunnel peer can send, in any state of its connections, and
  no timer of its own, adds, removes or changes a route whose target is not that peer; our own networks
  and everybody else's routes are as they were, in the same order.
\<close>

theorem peer_speaks_for_itself:
  "filter (\<lambda>r. rt_target r \<noteq> TPeer (pe_addr p)) (tb_routes (ef_tables (routing conn seq cmd T now p)))
     = filter (\<lambda>r. rt_target r \<noteq> TPeer (pe_addr p)) (tb_routes T)
   \<and> filter (\<lambda>r. rt_target r \<noteq> TPeer (pe_addr p)) (tb_routes (ef_tables (receiver_timers T now p)))
     = filter (\<lambda>r. rt_target r \<noteq> TPeer (pe_addr p)) (tb_routes T)"
proof
  show "filter (\<lambda>r. rt_target r \<noteq> TPeer (pe_addr p)) (tb_routes (ef_tables (routing conn seq cmd T now p)))
     = filter (\<lambda>r. rt_target r \<noteq> TPeer (pe_addr p)) (tb_routes T)"
    using others_routing [of p conn seq cmd T now] by (simp add: others_def)
  show "filter (\<lambda>r. rt_target r \<noteq> TPeer (pe_addr p)) (tb_routes (ef_tables (receiver_timers T now p)))
     = filter (\<lambda>r. rt_target r \<noteq> TPeer (pe_addr p)) (tb_routes T)"
  proof (cases rule: receiver_timers_consider [where p = p and now = now and T = T])
    case dead
    then show ?thesis using others_remove(2) [of "TPeer (pe_addr p)" T] by (simp add: others_def)
  qed simp_all
qed

section \<open>The table of peers\<close>

definition same_id :: "peer \<Rightarrow> peer \<Rightarrow> bool" where
  "same_id p q \<longleftrightarrow> pe_addr q = pe_addr p \<and> pe_configured q = pe_configured p"

lemma same_id_refl: "same_id p p"
  by (simp add: same_id_def)

lemma same_id_ops:
  "same_id p (fst (peer_open now p))" "same_id p (close_sender p)" "same_id p (close_receiver p)"
  "same_id p (fst (send_page now p))" "same_id p (fst (open_req conn version options now p))"
  "same_id p (fst (ri_ack seq szi T now p))" "same_id p (fst (reconnect now p))"
  "same_id p (fst (sender_timers now p))" "same_id p (queue ev p)" "same_id p (fst (shutdown_peer now p))"
  "same_id p (fst (ping_peer now p))" "same_id p (probed now p)"
  by (simp_all add: same_id_def peer_open_def close_sender_def close_receiver_def send_page_def
        open_req_def ri_ack_def reconnect_def sender_timers_def queue_def shutdown_peer_def ping_peer_def
        probed_def case_prod_beta Let_def split: list.split option.split sender.split)

lemma same_id_routing: "same_id p (ef_peer (routing conn seq cmd T now p))"
proof -
  note ids = same_id_ops [unfolded same_id_def]
  have "same_id p (fst (send_page now (p\<lparr>pe_seq_send := 0, pe_outstanding := None, pe_pages := pages\<rparr>)))" for pages
    using ids by (simp add: same_id_def)
  then show ?thesis
    using ids
    by (cases cmd) (simp_all add: same_id_def routing_def on_ri_rsp_def on_ri_upd_def sequence_ahead_def
          case_prod_beta Let_def split: seq.split option.split)
qed

lemma same_id_timers: "same_id p (ef_peer (receiver_timers T now p))"
  using same_id_ops
  by (cases rule: receiver_timers_consider [where p = p and now = now and T = T])
     (simp_all add: same_id_def retried_def tickled_def)

lemma same_id_tick: "same_id p (fst (tick_peer scan zi T now p))"
proof -
  obtain q where q: "q = (if scan then fst (reconnect now p) else p)" by simp
  have "same_id p q" using same_id_ops(7) [of p now] by (simp add: q same_id_refl)
  with same_id_timers [of q T now] same_id_ops(8) [of "ef_peer (receiver_timers T now q)" now]
  show ?thesis by (cases scan) (simp_all add: tick_peer_def q same_id_def case_prod_beta Let_def)
qed

definition strangers :: "peer_map \<Rightarrow> nat" where
  "strangers m = length (filter (\<lambda>(_, p). pe_configured p = None) m)"

definition map_ok :: "peer_map \<Rightarrow> bool" where
  "map_ok m \<longleftrightarrow> sorted (map fst m) \<and> distinct (map fst m) \<and> (\<forall>(k, p) \<in> set m. pe_addr p = k \<and> peer_ok p)"

definition peers_ok :: "peers \<Rightarrow> bool" where
  "peers_ok ps \<longleftrightarrow> map_ok (ps_peers ps) \<and> ps_next_conn ps \<noteq> 0 \<and> strangers (ps_peers ps) \<le> MAX_OPEN_PEERS"

lemma set_bt_insert: "set (bt_insert k v m) \<subseteq> insert (k, v) (set m)"
  by (induction m rule: bt_insert.induct) auto

lemma fst_bt_insert: "fst ` set (bt_insert k v m) = insert k (fst ` set m)"
  by (induction k v m rule: bt_insert.induct) auto

lemma map_of_bt_insert: "sorted (map fst m) \<Longrightarrow> distinct (map fst m) \<Longrightarrow> map_of (bt_insert k v m) = (map_of m)(k \<mapsto> v)"
proof (induction k v m rule: bt_insert.induct)
  case (2 k v k' v' m)
  then show ?case by (auto simp: fun_eq_iff)
qed (simp add: fun_eq_iff)

lemma bt_insert_ok:
  assumes "map_ok m" "pe_addr v = k" "peer_ok v" shows "map_ok (bt_insert k v m)"
proof -
  have "sorted (map fst m) \<Longrightarrow> sorted (map fst (bt_insert k v m))"
    by (induction k v m rule: bt_insert.induct) (auto simp: fst_bt_insert)
  moreover have "distinct (map fst m) \<Longrightarrow> distinct (map fst (bt_insert k v m))" if "sorted (map fst m)"
    using that by (induction k v m rule: bt_insert.induct) (auto simp: fst_bt_insert dest: leD)
  ultimately show ?thesis
    using assms set_bt_insert [of k v m] unfolding map_ok_def by blast
qed

lemma map_ok_entry: "map_ok m \<Longrightarrow> map_of m k = Some p \<Longrightarrow> pe_addr p = k \<and> peer_ok p"
  by (auto simp: map_ok_def dest: map_of_SomeD)

lemma strangers_replace:
  assumes "sorted (map fst m)" "distinct (map fst m)" "map_of m k = Some p" "pe_configured q = None \<longrightarrow> pe_configured p = None"
  shows "strangers (bt_insert k q m) \<le> strangers m"
  using assms
proof (induction k q m rule: bt_insert.induct)
  case (2 k v k' v' m)
  show ?case
  proof (cases "k = k'")
    case True
    with 2 show ?thesis by (auto simp: strangers_def)
  next
    case False
    with 2 have "k \<in> fst ` set m" by (auto dest: map_of_SomeD simp: rev_image_eqI)
    with "2.prems"(1) have "\<not> k < k'" by (auto simp: not_less)
    with False 2 show ?thesis by (auto simp: strangers_def)
  qed
qed simp

lemma strangers_insert: "strangers (bt_insert k q m) \<le> Suc (length m)"
proof -
  have "length (bt_insert k q m) \<le> Suc (length m)" by (induction k q m rule: bt_insert.induct) auto
  then show ?thesis by (metis strangers_def length_filter_le le_trans)
qed

text \<open>Every operation on the table keeps it.\<close>

lemma peers_new_ok: "peers_ok (peers_new nanos local opn conf now)"
  by (simp add: peers_ok_def peers_new_def map_ok_def strangers_def seed_conn_def)

lemma add_peer_ok:
  assumes "map_ok (ps_peers ps)" "ps_next_conn ps \<noteq> 0"
    and "conf = None \<longrightarrow> length (ps_peers ps) < MAX_OPEN_PEERS" "conf \<noteq> None \<longrightarrow> strangers (ps_peers ps) \<le> MAX_OPEN_PEERS"
    and "map_of (ps_peers ps) addr = None"
  shows "peers_ok (add_peer addr conf now ps)"
proof -
  let ?q = "peer_new addr conf (ps_next_conn ps) (ps_local ps) now"
  have q: "pe_addr ?q = addr" "pe_configured ?q = conf" by (simp_all add: peer_new_def)
  have "map_ok (bt_insert addr ?q (ps_peers ps))"
    using assms(1,2) q peer_new_ok by (intro bt_insert_ok) simp_all
  moreover have "strangers (bt_insert addr ?q (ps_peers ps)) \<le> MAX_OPEN_PEERS"
  proof (cases conf)
    case None
    then show ?thesis using assms(3) strangers_insert [of addr ?q "ps_peers ps"] by simp
  next
    case (Some name)
    have "strangers (bt_insert addr ?q m) = strangers m" if "map_of m addr = None" for m
      using that Some q by (induction m) (auto simp: strangers_def split: if_splits)
    with assms(4,5) Some show ?thesis by simp
  qed
  ultimately show ?thesis by (simp add: peers_ok_def add_peer_def take_conn_def)
qed

lemma map_ok_filter: "map_ok m \<Longrightarrow> map_ok (filter P m)"
  unfolding map_ok_def by (auto intro: sorted_filter distinct_map_filter)

lemma strangers_filter: "strangers (filter P m) \<le> strangers m"
  unfolding strangers_def filter_filter
  by (induction m) auto

lemma map_of_filter_None: "map_of m k = None \<Longrightarrow> map_of (filter P m) k = None"
  by (induction m) (auto split: if_splits)

lemma resolved_ok: "peers_ok ps \<Longrightarrow> peers_ok (resolved name addr now ps)"
proof (cases "map_of (ps_peers ps) addr")
  case None
  assume ok: "peers_ok ps"
  let ?m = "filter (\<lambda>(_, p). pe_configured p \<noteq> Some name) (ps_peers ps)"
  have "peers_ok (add_peer addr (Some name) now (ps\<lparr>ps_peers := ?m\<rparr>))"
    by (rule add_peer_ok)
      (use ok None strangers_filter [of "\<lambda>(_, p). pe_configured p \<noteq> Some name" "ps_peers ps"] in
        \<open>simp_all add: peers_ok_def map_ok_filter map_of_filter_None\<close>)
  with None show ?thesis by (simp add: resolved_def)
next
  case (Some p)
  assume ok: "peers_ok ps"
  then have m: "map_ok (ps_peers ps)" by (simp add: peers_ok_def)
  with ok Some map_ok_entry [OF m Some] bt_insert_ok [of "ps_peers ps" "p\<lparr>pe_configured := Some name\<rparr>" addr]
    strangers_replace [of "ps_peers ps" addr p "p\<lparr>pe_configured := Some name\<rparr>"]
  show ?thesis by (simp add: resolved_def peers_ok_def map_ok_def)
qed

lemma replace_ok:
  assumes "peers_ok ps" "map_of (ps_peers ps) k = Some p" "same_id p q" "peer_ok q"
  shows "peers_ok (ps\<lparr>ps_peers := bt_insert k q (ps_peers ps)\<rparr>)"
proof -
  have m: "map_ok (ps_peers ps)" using assms(1) by (simp add: peers_ok_def)
  have "map_ok (bt_insert k q (ps_peers ps))"
    using assms map_ok_entry [OF m assms(2)] by (intro bt_insert_ok) (simp_all add: peers_ok_def same_id_def)
  moreover have "strangers (bt_insert k q (ps_peers ps)) \<le> strangers (ps_peers ps)"
    using assms m by (intro strangers_replace [OF _ _ assms(2)]) (simp_all add: map_ok_def same_id_def)
  ultimately show ?thesis using assms(1) by (simp add: peers_ok_def)
qed

lemma peer_packet_ok:
  assumes "peers_ok ps" shows "peers_ok (fst (peer_packet from pkt T now ps))"
proof (cases "map_of (ps_peers ps) from")
  case (Some p)
  have p: "peer_ok p" using assms map_ok_entry [OF _ Some] by (simp add: peers_ok_def)
  show ?thesis
  proof (cases pkt)
    case (AData dh d)
    have "same_id p (p\<lparr>pe_di := x, pe_last_heard := now\<rparr>)" for x by (simp add: same_id_def)
    with AData Some p assms show ?thesis by (simp add: peer_packet_def replace_ok)
  next
    case (ARouting dh conn seq cmd)
    let ?p = "p\<lparr>pe_di := named_by (dh_src dh) from\<rparr>"
    have "same_id p (ef_peer (routing conn seq cmd T now ?p))"
      using same_id_routing [of ?p conn seq cmd T now] by (simp add: same_id_def)
    moreover have "peer_ok (ef_peer (routing conn seq cmd T now ?p))" using p by (intro routing_ok) simp
    ultimately show ?thesis using ARouting Some assms by (simp add: peer_packet_def Let_def replace_ok)
  qed
qed (use assms in \<open>simp add: peer_packet_def\<close>)

lemma log_unknown_peers [simp]: "ps_peers (fst (log_unknown from now ps)) = ps_peers ps"
  "ps_next_conn (fst (log_unknown from now ps)) = ps_next_conn ps"
  by (simp_all add: log_unknown_def Let_def)

lemma packet_ok:
  assumes "peers_ok ps" shows "peers_ok (fst (packet from bs T now ps))"
proof -
  have log: "peers_ok (fst (log_unknown from now ps))" using assms by (simp add: peers_ok_def)
  have new: "peers_ok (add_peer from None now ps)"
    if "map_of (ps_peers ps) from = None" "length (ps_peers ps) < MAX_OPEN_PEERS"
    using assms that by (intro add_peer_ok) (simp_all add: peers_ok_def)
  show ?thesis
    using assms log new peer_packet_ok
    by (simp add: packet_def case_prod_beta Let_def not_le split: option.split)
qed

lemma tick_loop_props:
  "fst ` set (fst (tick_loop scan zi now m T)) = fst ` set m \<and> map fst (fst (tick_loop scan zi now m T)) = map fst m
   \<and> (map_ok m \<longrightarrow> map_ok (fst (tick_loop scan zi now m T)))
   \<and> strangers (fst (tick_loop scan zi now m T)) = strangers m"
proof (induction m arbitrary: T)
  case (Cons kp m)
  obtain k p where kp: "kp = (k, p)" by fastforce
  let ?q = "fst (tick_peer scan zi T now p)" and ?T = "fst (snd (tick_peer scan zi T now p))"
  have e: "fst (tick_loop scan zi now (kp # m) T) = (k, ?q) # fst (tick_loop scan zi now m ?T)"
    by (simp add: kp case_prod_beta Let_def)
  have "same_id p ?q" by (rule same_id_tick)
  with Cons.IH [of ?T] tick_peer_ok [of p scan zi T now] show ?case
    unfolding e by (auto simp: kp map_ok_def same_id_def strangers_def)
qed simp

lemma peers_tick_ok: "peers_ok ps \<Longrightarrow> peers_ok (fst (peers_tick T now ps))"
proof -
  assume ok: "peers_ok ps"
  have "map_ok (filter P (fst (tick_loop scan zi now (ps_peers ps) T)))
      \<and> strangers (filter P (fst (tick_loop scan zi now (ps_peers ps) T))) \<le> MAX_OPEN_PEERS" for P scan zi
    using ok tick_loop_props [of scan zi now "ps_peers ps" T] map_ok_filter
      strangers_filter [of P "fst (tick_loop scan zi now (ps_peers ps) T)"]
    by (auto simp: peers_ok_def)
  with ok show ?thesis by (simp add: peers_tick_def peers_ok_def case_prod_beta Let_def)
qed

text \<open>A pass that changes each peer by itself.\<close>

lemma map_peers_ok:
  assumes "peers_ok ps" "\<And>p. peer_ok p \<Longrightarrow> peer_ok (f p) \<and> same_id p (f p)"
  shows "peers_ok (ps\<lparr>ps_peers := map (\<lambda>(k, p). (k, f p)) (ps_peers ps)\<rparr>)"
proof -
  let ?g = "map (\<lambda>(k, p). (k, f p)) :: peer_map \<Rightarrow> peer_map"
  have keys: "map fst (?g m) = map fst m" for m by (induction m) auto
  have "map_ok m \<Longrightarrow> map_ok (?g m)" for m
    using assms(2) unfolding map_ok_def keys by (fastforce simp: same_id_def)
  moreover have "strangers (?g m) = strangers m" if "\<forall>(k, p) \<in> set m. peer_ok p" for m
    using that assms(2) by (induction m) (auto simp: strangers_def same_id_def)
  ultimately show ?thesis using assms(1) by (fastforce simp: peers_ok_def map_ok_def)
qed

lemma each_peer_fst: "fst (each_peer f m) = map (\<lambda>(k, p). (k, fst (f p))) m"
  by (induction m) (auto simp: case_prod_beta Let_def)

lemma shutdown_ok: "peers_ok ps \<Longrightarrow> peers_ok (fst (shutdown now ps))"
  using map_peers_ok [of ps "\<lambda>p. fst (shutdown_peer now p)"] shutdown_peer_ok same_id_ops(10)
  by (simp add: shutdown_def each_peer_fst case_prod_beta Let_def)

lemma ping_ok: "peers_ok ps \<Longrightarrow> peers_ok (fst (ping now ps))"
  using map_peers_ok [of ps "\<lambda>p. fst (ping_peer now p)"] ping_peer_ok same_id_ops(11)
  by (simp add: ping_def each_peer_fst case_prod_beta Let_def)

lemma change_event_sent: "change_event T c = Some ev \<Longrightarrow> sent_event ev"
  by (cases "rc_old c"; cases "rc_new c")
     (auto simp: change_event_def was_exported_def is_exported_def sent_event_def route_tuple_def Let_def
        event_code_defs split: if_splits bool.splits option.splits)

lemma queue_all_ok:
  assumes "sent_event ev" "peers_ok ps" shows "peers_ok (queue_all ev ps)"
proof -
  have "peer_ok p \<Longrightarrow> peer_ok (if pe_sender p \<noteq> SUnconnected then queue ev p else p)
      \<and> same_id p (if pe_sender p \<noteq> SUnconnected then queue ev p else p)" for p
    using assms(1) queue_ok_peer same_id_ops(9) same_id_refl by simp
  from map_peers_ok [OF assms(2), of "\<lambda>p. if pe_sender p \<noteq> SUnconnected then queue ev p else p", OF this]
  show ?thesis by (simp add: queue_all_def)
qed

lemma route_changed_ok: "peers_ok ps \<Longrightarrow> peers_ok (route_changed chs T ps)"
  unfolding route_changed_def
  by (induction chs arbitrary: ps) (auto intro: queue_all_ok change_event_sent split: option.split)

lemma find_entry: "find P m = Some (k, p) \<Longrightarrow> distinct (map fst m) \<Longrightarrow> map_of m k = Some p"
  by (auto simp: find_Some_iff intro!: map_of_is_SomeI dest: nth_mem)

lemma configured_rows_ok:
  "map_ok m \<Longrightarrow> map_ok (fst (configured_rows names m)) \<and> strangers (fst (configured_rows names m)) \<le> strangers m"
proof (induction names arbitrary: m)
  case (Cons name names)
  show ?case
  proof (cases "find (\<lambda>(_, p). pe_configured p = Some name) m")
    case None
    with Cons show ?thesis by (simp add: case_prod_beta Let_def)
  next
    case (Some kp)
    obtain k p where kp: "kp = (k, p)" by fastforce
    have at: "map_of m k = Some p" using Some Cons.prems kp by (intro find_entry) (auto simp: map_ok_def)
    let ?q = "fst (ping_take p)"
    have q: "same_id p ?q" "peer_ok ?q"
      using map_ok_entry [OF Cons.prems at] ping_take_ok [of p] by (simp_all add: same_id_def ping_take_def)
    have "map_ok (bt_insert k ?q m)"
      using Cons.prems map_ok_entry [OF Cons.prems at] q by (intro bt_insert_ok) (simp_all add: same_id_def)
    moreover have "strangers (bt_insert k ?q m) \<le> strangers m"
      using Cons.prems at q by (intro strangers_replace [OF _ _ at]) (simp_all add: map_ok_def same_id_def)
    ultimately show ?thesis
      using Some kp Cons.IH [of "bt_insert k ?q m"] by (auto simp: case_prod_beta Let_def)
  qed
qed simp

lemma stranger_rows_fst:
  "fst (stranger_rows m) = map (\<lambda>(k, p). (k, if pe_configured p = None then fst (ping_take p) else p)) m"
  by (induction m) (auto simp: case_prod_beta Let_def)

lemma ping_report_ok:
  assumes "peers_ok ps" shows "peers_ok (fst (ping_report ps))"
proof -
  let ?m = "fst (configured_rows (ps_configured ps) (ps_peers ps))"
  have "peers_ok (ps\<lparr>ps_peers := ?m\<rparr>)"
    using assms configured_rows_ok [of "ps_peers ps" "ps_configured ps"] by (auto simp: peers_ok_def)
  moreover have "same_id p (fst (ping_take p))" for p by (simp add: same_id_def ping_take_def)
  ultimately show ?thesis
    using map_peers_ok [of "ps\<lparr>ps_peers := ?m\<rparr>" "\<lambda>p. if pe_configured p = None then fst (ping_take p) else p"]
      ping_take_ok same_id_refl
    by (simp add: ping_report_def stranger_rows_fst case_prod_beta Let_def)
qed

inductive peers_step :: "peers \<Rightarrow> peers \<Rightarrow> bool" where
  resolved: "peers_step ps (resolved name addr now ps)"
| packet: "peers_step ps (fst (packet from bs T now ps))"
| tick: "peers_step ps (fst (peers_tick T now ps))"
| changed: "peers_step ps (route_changed chs T ps)"
| shutdown: "peers_step ps (fst (shutdown now ps))"
| ping: "peers_step ps (fst (ping now ps))"
| report: "peers_step ps (fst (ping_report ps))"

inductive peers_reachable :: "peers \<Rightarrow> bool" where
  new: "peers_reachable (peers_new nanos local opn configured now)"
| step: "peers_reachable ps \<Longrightarrow> peers_step ps qs \<Longrightarrow> peers_reachable qs"

lemma peers_step_ok: "peers_step ps qs \<Longrightarrow> peers_ok ps \<Longrightarrow> peers_ok qs"
  by (induction rule: peers_step.induct)
     (auto intro: resolved_ok packet_ok peers_tick_ok route_changed_ok shutdown_ok ping_ok ping_report_ok)

lemma peers_reachable_ok: "peers_reachable ps \<Longrightarrow> peers_ok ps"
  by (induction rule: peers_reachable.induct) (auto intro: peers_new_ok peers_step_ok)

text \<open>
  C26: Whatever datagrams from whatever addresses, timers, route changes and operator requests the peer table
  has been through: it holds at most 256 peers nobody configured; a peer sits under its own address;
  exactly the waiting sender states have an outstanding packet, under the last sequence number used,
  never zero, and sent at most five times; a closed sender holds no connection ID, page or event; and
  at most one event per network waits.
\<close>

theorem peers_invariant:
  assumes "peers_reachable ps" "map_of (ps_peers ps) ip = Some p"
  shows "length (filter (\<lambda>(_, q). pe_configured q = None) (ps_peers ps)) \<le> 256
    \<and> pe_addr p = ip
    \<and> (pe_outstanding p = None \<longleftrightarrow> pe_sender p \<in> {SUnconnected, SConnected})
    \<and> (\<forall>o'. pe_outstanding p = Some o' \<longrightarrow> os_seq o' = pe_seq_send p \<and> os_seq o' \<noteq> 0 \<and> os_tries o' \<in> {1..5})
    \<and> (pe_sender p = SUnconnected \<longrightarrow> pe_conn_remote p = 0 \<and> pe_pages p = [] \<and> pe_pending p = [])
    \<and> (pe_pages p \<noteq> [] \<longrightarrow> pe_sender p = SWaitRiRspAck)
    \<and> pe_conn_local p \<noteq> 0 \<and> pe_seq_recv p \<noteq> 0
    \<and> distinct (map ev_start (pe_pending p))"
proof -
  have ok: "peers_ok ps" using assms(1) by (rule peers_reachable_ok)
  then have m: "map_ok (ps_peers ps)" by (simp add: peers_ok_def)
  from map_ok_entry [OF m assms(2)] have p: "pe_addr p = ip" "peer_ok p" by simp_all
  show ?thesis
    using ok p by (auto simp: peers_ok_def strangers_def MAX_OPEN_PEERS_def peer_ok_def sender_ok_def receiver_ok_def
        queue_ok_def RETRIES_def)
qed

definition example_peers :: peers where
  "example_peers = resolved (lit ''hub'') (ipv4_new 192 0 2 7) 5 (peers_new 77 (DiIp (ipv4_new 192 0 2 1)) False [lit ''hub''] 0)"

lemma example_peers_eval:
  "map_of (ps_peers example_peers) (ipv4_new 192 0 2 7)
    = Some (peer_new (ipv4_new 192 0 2 7) (Some (lit ''hub'')) 78 (DiIp (ipv4_new 192 0 2 1)) 5)"
  by (simp add: example_peers_def resolved_def peers_new_def add_peer_def take_conn_def seed_conn_def succ_def)

lemma example_peers_reachable: "peers_reachable example_peers"
  unfolding example_peers_def by (rule peers_reachable.step [OF peers_reachable.new peers_step.resolved])

theorem peers_invariant_witness:
  "length (filter (\<lambda>(_, q). pe_configured q = None) (ps_peers example_peers)) \<le> 256
   \<and> ps_peers example_peers \<noteq> []"
  using peers_invariant [OF example_peers_reachable example_peers_eval] example_peers_eval by auto

section \<open>Strangers\<close>

text \<open>
  A router that does not peer openly ignores strangers: whatever bytes an unknown address sends, the
  tables, the peers and the route changes are untouched, nothing is sent and no datagram is forwarded;
  at most one log line comes of it, and none when one named that address within the last minute.
\<close>

theorem stranger_ignored:
  assumes "\<not> ps_open_peering ps" "map_of (ps_peers ps) from = None"
    and "packet from bs T now ps = (ps', T', acts, chs, d)"
  shows "T' = T \<and> ps_peers ps' = ps_peers ps \<and> chs = [] \<and> d = None
    \<and> (acts = [] \<or> acts = [ALog (LogUnknownPeer from)])
    \<and> (\<forall>t. ps_logged ps from = Some t \<longrightarrow> since now t < secs 60 \<longrightarrow> acts = [])
    \<and> (acts \<noteq> [] \<longrightarrow> ps_logged ps' from = Some now)"
  using assms
  by (cases "aurp_parse bs")
     (auto simp: packet_def log_unknown_def LOG_EVERY_def case_prod_beta Let_def split: if_splits option.splits)

theorem stranger_ignored_witness:
  "\<exists>ps'. packet (ipv4_new 203 0 113 9) [1, 2, 3] example_tables 9 example_peers = (ps', example_tables, [], [], None)"
proof -
  obtain ps' T' acts chs d where
    p: "packet (ipv4_new 203 0 113 9) [1, 2, 3] example_tables 9 example_peers = (ps', T', acts, chs, d)"
    by (metis prod_cases5)
  have "\<not> ps_open_peering example_peers" "map_of (ps_peers example_peers) (ipv4_new 203 0 113 9) = None"
    by (simp_all add: example_peers_def resolved_def peers_new_def add_peer_def take_conn_def ipv4_new_def)
  from stranger_ignored [OF this p] have "T' = example_tables" "chs = []" "d = None" by simp_all
  moreover have "acts = []" using p by (simp add: packet_def aurp_parse_def parse_di_def get_to_def)
  ultimately show ?thesis using p by blast
qed

end
