(* ===== verification/Aurp_Dialog.thy ===== *)
theory Aurp_Dialog
  imports Aurp_Properties
begin

text \<open>
  Two routers talking over a tunnel that loses, repeats and reorders datagrams: one data sender, one data
  receiver, and every RI-Rsp and RI-Ack ever sent.  A network export crosses such a tunnel exactly once and in
  order.  The last section shows the two histories in which it does not work as meant.
\<close>

section \<open>Sequence numbers that do not wrap\<close>

lemma word_of_nat_u16_inj: "a < 65536 \<Longrightarrow> b < 65536 \<Longrightarrow> (word_of_nat a :: u16) = word_of_nat b \<longleftrightarrow> a = b"
  by (metis unat_small_u16)

lemma succ_nat: "k < 65535 \<Longrightarrow> succ (word_of_nat k) = word_of_nat (Suc k)"
proof -
  assume k: "k < 65535"
  have "(word_of_nat (Suc k) :: u16) \<noteq> word_of_nat 0" using k by (subst word_of_nat_u16_inj) auto
  then show ?thesis by (simp add: succ_def add.commute)
qed

lemma pred_nat: "1 < k \<Longrightarrow> k < 65535 \<Longrightarrow> pred (word_of_nat k) = word_of_nat (k - 1)"
proof -
  assume k: "1 < k" "k < 65535"
  then have "word_of_nat k = succ (word_of_nat (k - 1))" by (subst succ_nat) auto
  moreover have "(word_of_nat (k - 1) :: u16) \<noteq> word_of_nat 0" using k by (subst word_of_nat_u16_inj) auto
  ultimately show ?thesis by (simp add: pred_succ)
qed

lemma check_seq_nat:
  assumes "pe_seq_recv p = word_of_nat r" "1 \<le> k" "k \<le> r" "r < 65535"
  shows "check_seq p (word_of_nat k) = (if k = r then New else if Suc k = r then Dup else Stale)"
proof -
  have ne: "word_of_nat a \<noteq> (word_of_nat b :: u16)" if "a \<noteq> b" "a < 65536" "b < 65536" for a b
    using that by (simp add: word_of_nat_u16_inj)
  have k0: "(word_of_nat k :: u16) \<noteq> 0" using ne [of k 0] assms by simp
  show ?thesis
  proof (cases "k = r")
    case True
    with assms k0 show ?thesis by (simp add: check_seq_def)
  next
    case False
    with assms have r: "1 < r" "k < r" by simp_all
    have p: "pred (word_of_nat r) = word_of_nat (r - 1)" using r assms by (simp add: pred_nat)
    have s: "succ (word_of_nat r) = word_of_nat (Suc r)" using assms by (simp add: succ_nat)
    have "word_of_nat k \<noteq> (word_of_nat r :: u16)" "word_of_nat k \<noteq> (word_of_nat (Suc r) :: u16)"
      using ne [of k r] ne [of k "Suc r"] r assms by auto
    moreover have "word_of_nat k = (word_of_nat (r - 1) :: u16) \<longleftrightarrow> Suc k = r"
    proof (cases "Suc k = r")
      case True
      then have "r - 1 = k" by simp
      then have "word_of_nat k = (word_of_nat (r - 1) :: u16)" by (simp only:)
      with True show ?thesis by blast
    next
      case False
      with r assms have "k \<noteq> r - 1" "k < 65536" "r - 1 < 65536" by simp_all
      from ne [OF this] False show ?thesis by (simp only:)
    qed
    ultimately show ?thesis
      using False k0 unfolding check_seq_def assms(1) p s by simp
  qed
qed

section \<open>The dialogue\<close>

text \<open>
  The router with the routes and the one that asks for them, the asker's tables, and the datagrams
  there have been: any of them may arrive, at any time, any number of times or never.
\<close>

record dialogue =
  dg_sender :: peer
  dg_receiver :: peer
  dg_tables :: tables
  dg_data :: "bytes set"
  dg_acks :: "bytes set"

definition sent_bytes :: "action list \<Rightarrow> bytes set" where
  "sent_bytes acts = {bs. \<exists>ip. ToPeer ip bs \<in> set acts}"

text \<open>
  Of what the sender sends, the export's pages; the zone information an acknowledgement asks for is not
  sequenced, and travels beside them.
\<close>

definition is_page :: "bytes \<Rightarrow> bool" where
  "is_page bs \<longleftrightarrow> (\<exists>dh conn seq fin ts. aurp_parse bs = Some (ARouting dh conn seq (RiRsp fin ts)))"

definition page_bytes :: "action list \<Rightarrow> bytes set" where
  "page_bytes acts = {bs \<in> sent_bytes acts. is_page bs}"

inductive dialogue_step :: "tables \<Rightarrow> dialogue \<Rightarrow> dialogue \<Rightarrow> bool" for TA :: tables where
  deliver_data:
    "bs \<in> dg_data d \<Longrightarrow> aurp_parse bs = Some (ARouting dh conn seq cmd)
     \<Longrightarrow> e = routing conn seq cmd (dg_tables d) now (dg_receiver d)
     \<Longrightarrow> dialogue_step TA d (d\<lparr>dg_receiver := ef_peer e, dg_tables := ef_tables e,
            dg_acks := dg_acks d \<union> sent_bytes (ef_acts e)\<rparr>)"
| deliver_ack:
    "bs \<in> dg_acks d \<Longrightarrow> aurp_parse bs = Some (ARouting dh conn seq cmd)
     \<Longrightarrow> e = routing conn seq cmd TA now (dg_sender d)
     \<Longrightarrow> dialogue_step TA d (d\<lparr>dg_sender := ef_peer e, dg_data := dg_data d \<union> page_bytes (ef_acts e)\<rparr>)"
| retransmit:
    "pe_outstanding (dg_sender d) \<noteq> None \<Longrightarrow> sender_timers now (dg_sender d) = (p, acts, why)
     \<Longrightarrow> dialogue_step TA d (d\<lparr>dg_sender := p, dg_data := dg_data d \<union> page_bytes acts\<rparr>)"

text \<open>The pages learned so far, each at the time it arrived.\<close>

fun learn_pages :: "peer \<Rightarrow> (network_tuple list \<times> instant) list \<Rightarrow> tables \<Rightarrow> tables" where
  "learn_pages p [] T = T"
| "learn_pages p ((ts, now) # rest) T = learn_pages p rest (fst (learn_all p ts T now))"

lemma learn_pages_append [simp]: "learn_pages p (xs @ ys) T = learn_pages p ys (learn_pages p xs T)"
  by (induction p xs T rule: learn_pages.induct) simp_all

lemma learn_all_addr: "pe_addr p = pe_addr q \<Longrightarrow> learn_all p ts T now = learn_all q ts T now"
  by (induction ts arbitrary: T) simp_all

lemma learn_pages_addr: "pe_addr p = pe_addr q \<Longrightarrow> learn_pages p xs T = learn_pages q xs T"
  by (induction p xs T rule: learn_pages.induct) (simp, metis learn_all_addr learn_pages.simps(2))

section \<open>Messages\<close>

definition page_at :: "network_tuple list list \<Rightarrow> u16 \<Rightarrow> nat \<Rightarrow> bytes \<Rightarrow> bool" where
  "page_at ps c k bs \<longleftrightarrow> 1 \<le> k \<and> k \<le> length ps
     \<and> (\<exists>dh. aurp_parse bs = Some (ARouting dh c (word_of_nat k) (RiRsp (k = length ps) (ps ! (k - 1)))))"

definition ack_at :: "u16 \<Rightarrow> nat \<Rightarrow> bytes \<Rightarrow> bool" where
  "ack_at c k bs \<longleftrightarrow> (\<exists>dh. aurp_parse bs = Some (ARouting dh c (word_of_nat k) (RiAck True)))"

lemma peer_bytes_parse:
  "wf_cmd cmd \<Longrightarrow> aurp_parse (peer_bytes p c seq cmd) = Some (ARouting \<lparr>dh_dst = pe_di p, dh_src = pe_local p\<rparr> c seq cmd)"
  by (simp add: peer_bytes_def aurp_parse_encode del: aurp_encode.simps)

lemma sub_no_page: "parse_sub code flags b \<noteq> Some (RiRsp fin ts)"
  by (auto simp: parse_sub_def parse_zi_rsp_def Let_def split: Option.bind_splits if_splits prod.splits)

lemma zone_no_page: "cmd_code c = 7 \<Longrightarrow> \<not> is_page (peer_bytes p conn seq c)"
proof
  assume c: "cmd_code c = 7" and page: "is_page (peer_bytes p conn seq c)"
  have "cmd_parse 7 flags b \<noteq> Some (RiRsp fin ts)" for flags b fin ts
    using sub_no_page by (simp add: cmd_parse_def)
  with page show False
    by (auto simp: is_page_def peer_bytes_def aurp_parse_header TYPE_DATA_def TYPE_ROUTING_def get_to_def u16_to_be_def c
        u16_from_be_def split: Option.bind_splits)
qed

lemma zi_loop_code: "c \<in> set (zi_loop T page used nets) \<Longrightarrow> cmd_code c = 7"
  by (induction T page used nets rule: zi_loop.induct) (auto simp: Let_def split: option.splits if_splits)

lemma zone_pages [simp]: "page_bytes (map (peer_send p c 0) (zi_pages nets T)) = {}"
  using zone_no_page zi_loop_code
  by (fastforce simp: page_bytes_def sent_bytes_def peer_send_def zi_pages_def)

lemma page_bytes_append [simp]: "page_bytes (xs @ ys) = page_bytes xs \<union> page_bytes ys"
  "page_bytes [] = {}" "page_bytes [ToPeer ip bs] = (if is_page bs then {bs} else {})"
  by (auto simp: page_bytes_def sent_bytes_def)

lemma sent_bytes_simps [simp]: "sent_bytes [] = {}" "sent_bytes [ToPeer ip bs] = {bs}"
  "sent_bytes [peer_send p c s cmd] = {peer_bytes p c s cmd}"
  by (simp_all add: sent_bytes_def peer_send_def)

section \<open>The two ends\<close>

definition receiver_at :: "network_tuple list list \<Rightarrow> u16 \<Rightarrow> nat \<Rightarrow> peer \<Rightarrow> bool" where
  "receiver_at ps c r p \<longleftrightarrow> pe_conn_local p = c \<and> pe_seq_recv p = word_of_nat r
     \<and> pe_receiver p = (if r \<le> length ps then RWaitRiRsp else RConnected)"

definition sender_at :: "network_tuple list list \<Rightarrow> u16 \<Rightarrow> nat \<Rightarrow> peer \<Rightarrow> bool" where
  "sender_at ps c j p \<longleftrightarrow> pe_conn_remote p = c \<and> pe_sender p = SWaitRiRspAck \<and> pe_seq_send p = word_of_nat j
     \<and> pe_pages p = drop j ps
     \<and> (\<exists>x. pe_outstanding p = Some x \<and> os_seq x = word_of_nat j \<and> page_at ps c j (os_bytes x))"

definition finished :: "u16 \<Rightarrow> peer \<Rightarrow> bool" where
  "finished c p \<longleftrightarrow> pe_conn_remote p = c \<and> pe_sender p = SConnected \<and> pe_outstanding p = None"

definition gave_up_on :: "peer \<Rightarrow> bool" where
  "gave_up_on p \<longleftrightarrow> pe_conn_remote p = 0 \<and> pe_sender p = SUnconnected \<and> pe_outstanding p = None"

text \<open>A page reaches the receiver: the next one is learned, the last one again is acknowledged again.\<close>

lemma receive_page:
  assumes p: "receiver_at ps c r p" "1 \<le> k" "k \<le> r" "k \<le> length ps" "r < 65535"
    and e_routing: "e = routing c (word_of_nat k) (RiRsp (k = length ps) (ps ! (k - 1))) T now p"
  shows "pe_addr (ef_peer e) = pe_addr p"
    and "k = r \<Longrightarrow> receiver_at ps c (Suc r) (ef_peer e) \<and> ef_tables e = fst (learn_all p (ps ! (r - 1)) T now)"
    and "k < r \<Longrightarrow> receiver_at ps c r (ef_peer e) \<and> ef_tables e = T"
    and "bs \<in> sent_bytes (ef_acts e) \<Longrightarrow> ack_at c k bs"
    and "r \<le> Suc k \<Longrightarrow> sent_bytes (ef_acts e) \<noteq> {}"
proof -
  have op: "receiver_open p" using p(1) by (simp add: receiver_open_def receiver_at_def)
  have e: "e = on_ri_rsp c (word_of_nat k) (k = length ps) (ps ! (k - 1)) T now p"
    using p(1) op by (simp add: e_routing routing_def receiver_at_def)
  have s: "check_seq (p\<lparr>pe_last_heard := now\<rparr>) (word_of_nat k) = (if k = r then New else if Suc k = r then Dup else Stale)"
    using p by (intro check_seq_nat) (simp_all add: receiver_at_def)
  have suc: "succ (word_of_nat r) = word_of_nat (Suc r)" using p by (intro succ_nat) simp
  have ack: "ack_at c k (peer_bytes q c (word_of_nat k) (RiAck True))" for q
    by (simp add: ack_at_def peer_bytes_parse)
  show "pe_addr (ef_peer e) = pe_addr p"
    unfolding e on_ri_rsp_def Let_def s by (simp add: acting_def quiet_def split: prod.split)
  show "receiver_at ps c (Suc r) (ef_peer e) \<and> ef_tables e = fst (learn_all p (ps ! (r - 1)) T now)" if "k = r"
    unfolding e on_ri_rsp_def Let_def s using that p suc
    by (auto simp: receiver_at_def learn_all_addr [of "p\<lparr>pe_last_heard := now\<rparr>" p] split: prod.split)
  show "receiver_at ps c r (ef_peer e) \<and> ef_tables e = T" if "k < r"
    unfolding e on_ri_rsp_def Let_def s using that p
    by (auto simp: receiver_at_def acting_def quiet_def)
  show "sent_bytes (ef_acts e) \<noteq> {}" if "r \<le> Suc k"
    using that p unfolding e on_ri_rsp_def Let_def s by (auto simp: acting_def quiet_def split: prod.splits)
  show "ack_at c k bs" if "bs \<in> sent_bytes (ef_acts e)"
    using that ack unfolding e on_ri_rsp_def Let_def s
    by (auto simp: acting_def quiet_def split: prod.splits if_splits)
qed

text \<open>The sender puts its next page on the wire.\<close>

lemma send_next_page:
  assumes "pe_conn_remote p = c" "pe_pages p = drop j ps" "pe_seq_send p = word_of_nat j" "j < length ps" "length ps < 65534"
    and wf: "\<forall>page \<in> set ps. \<forall>t \<in> set page. wf_tuple t"
  shows "sender_at ps c (Suc j) (fst (send_page now p))"
    and "page_bytes (snd (send_page now p)) \<subseteq> {bs. page_at ps c (Suc j) bs}"
    and "\<exists>x. pe_outstanding (fst (send_page now p)) = Some x \<and> os_bytes x \<in> page_bytes (snd (send_page now p))"
proof -
  have d: "drop j ps = ps ! j # drop (Suc j) ps" using assms(4) by (simp add: Cons_nth_drop_Suc)
  have suc: "succ (word_of_nat j) = word_of_nat (Suc j)" using assms(4,5) by (intro succ_nat) simp
  have fin: "length ps \<le> Suc j \<longleftrightarrow> Suc j = length ps" using assms(4) by auto
  define bs where "bs = peer_bytes (p\<lparr>pe_pages := drop (Suc j) ps, pe_seq_send := word_of_nat (Suc j)\<rparr>) c (word_of_nat (Suc j))
      (RiRsp (Suc j = length ps) (ps ! j))"
  have parse: "\<exists>dh. aurp_parse bs = Some (ARouting dh c (word_of_nat (Suc j)) (RiRsp (Suc j = length ps) (ps ! j)))"
    unfolding bs_def by (intro exI, rule peer_bytes_parse) (use wf nth_mem [OF assms(4)] in simp)
  have page: "page_at ps c (Suc j) bs" using parse assms(4) by (auto simp: page_at_def)
  have pg: "is_page bs" using parse by (auto simp: is_page_def)
  have out: "send_page now p = (let q = p\<lparr>pe_pages := drop (Suc j) ps, pe_seq_send := word_of_nat (Suc j)\<rparr> in
     (q\<lparr>pe_outstanding := Some \<lparr>os_seq = word_of_nat (Suc j), os_bytes = bs, os_nets = map (\<lambda>t. fst (nt_range t)) (ps ! j),
         os_at = now, os_tries = 1\<rparr>, pe_sender := SWaitRiRspAck\<rparr>, [ToPeer (pe_addr p) bs]))"
    using assms(1-3) by (simp add: send_page_def d send_sequenced_def bs_def suc fin Let_def)
  show "sender_at ps c (Suc j) (fst (send_page now p))"
    using page assms(1) by (simp add: out sender_at_def Let_def)
  show "page_bytes (snd (send_page now p)) \<subseteq> {bs. page_at ps c (Suc j) bs}"
    "\<exists>x. pe_outstanding (fst (send_page now p)) = Some x \<and> os_bytes x \<in> page_bytes (snd (send_page now p))"
    using page pg by (auto simp: out Let_def)
qed

text \<open>An acknowledgement reaches it.\<close>

lemma receive_ack:
  assumes p: "sender_at ps c j p" "1 \<le> j" "j \<le> length ps" "length ps < 65534" "k \<le> j"
    and wf: "\<forall>page \<in> set ps. \<forall>t \<in> set page. wf_tuple t"
    and e: "e = routing c (word_of_nat k) (RiAck True) TA now p"
  shows "k < j \<Longrightarrow> ef_peer e = p \<and> ef_acts e = []"
    and "k = j \<Longrightarrow> j = length ps \<Longrightarrow> finished c (ef_peer e) \<and> page_bytes (ef_acts e) = {}"
    and "k = j \<Longrightarrow> j < length ps \<Longrightarrow> sender_at ps c (Suc j) (ef_peer e)
        \<and> page_bytes (ef_acts e) \<subseteq> {bs. page_at ps c (Suc j) bs}
        \<and> (\<exists>x. pe_outstanding (ef_peer e) = Some x \<and> os_bytes x \<in> page_bytes (ef_acts e))"
proof -
  obtain x where x: "pe_outstanding p = Some x" "os_seq x = word_of_nat j" using p(1) by (auto simp: sender_at_def)
  have r: "e = acting TA (ri_ack (word_of_nat k) True TA now p)" using p(1) by (simp add: e routing_def sender_at_def)
  show "ef_peer e = p \<and> ef_acts e = []" if "k < j"
  proof -
    have "word_of_nat j \<noteq> (word_of_nat k :: u16)" using that p by (simp add: word_of_nat_u16_inj)
    then show ?thesis by (simp add: r ri_ack_def x acting_def quiet_def)
  qed
  let ?p = "p\<lparr>pe_outstanding := None\<rparr>"
  let ?zi = "map (peer_send ?p c 0) (zi_pages (os_nets x) TA)"
  show "finished c (ef_peer e) \<and> page_bytes (ef_acts e) = {}" if "k = j" "j = length ps"
    using that p by (simp add: r ri_ack_def x acting_def quiet_def sender_at_def finished_def Let_def)
  show "sender_at ps c (Suc j) (ef_peer e) \<and> page_bytes (ef_acts e) \<subseteq> {bs. page_at ps c (Suc j) bs}
        \<and> (\<exists>x. pe_outstanding (ef_peer e) = Some x \<and> os_bytes x \<in> page_bytes (ef_acts e))" if "k = j" "j < length ps"
  proof -
    have a: "ef_peer e = fst (send_page now ?p)" "ef_acts e = ?zi @ snd (send_page now ?p)"
      using that p by (simp_all add: r ri_ack_def x acting_def quiet_def sender_at_def Let_def split: prod.split)
    have "pe_conn_remote ?p = c" "pe_pages ?p = drop j ps" "pe_seq_send ?p = word_of_nat j"
      using p(1) by (simp_all add: sender_at_def)
    from send_next_page [OF this that(2) p(4) wf, of now] show ?thesis by (auto simp: a)
  qed
qed

lemma receive_ack_idle: "finished c p \<or> gave_up_on p \<Longrightarrow> c \<noteq> 0
   \<Longrightarrow> e = routing c seq (RiAck True) TA now p \<Longrightarrow> ef_peer e = p \<and> ef_acts e = []"
  by (auto simp: routing_def finished_def gave_up_on_def ri_ack_def acting_def quiet_def)

section \<open>The exchange\<close>

definition exchanging :: "network_tuple list list \<Rightarrow> u16 \<Rightarrow> peer \<Rightarrow> tables \<Rightarrow> dialogue \<Rightarrow> nat \<Rightarrow> nat \<Rightarrow> bool" where
  "exchanging ps c q T0 d j r \<longleftrightarrow>
     1 \<le> j \<and> j \<le> length ps \<and> (r = j \<or> r = Suc j)
     \<and> receiver_at ps c r (dg_receiver d) \<and> pe_addr (dg_receiver d) = pe_addr q
     \<and> (\<exists>ts. length ts = r - 1 \<and> dg_tables d = learn_pages q (zip (take (r - 1) ps) ts) T0)
     \<and> (\<forall>bs \<in> dg_data d. \<exists>k \<le> j. page_at ps c k bs)
     \<and> (\<forall>bs \<in> dg_acks d. \<exists>k. 1 \<le> k \<and> k < r \<and> ack_at c k bs)
     \<and> (\<forall>x. pe_outstanding (dg_sender d) = Some x \<longrightarrow> os_bytes x \<in> dg_data d)
     \<and> (sender_at ps c j (dg_sender d) \<or> finished c (dg_sender d) \<and> j = length ps \<and> r = Suc j \<or> gave_up_on (dg_sender d))"

lemma zip_take_Suc: "length ts = n \<Longrightarrow> n < length ps \<Longrightarrow> zip (take (Suc n) ps) (ts @ [t]) = zip (take n ps) ts @ [(ps ! n, t)]"
  by (simp add: take_Suc_conv_app_nth)

lemma page_once: "page_at ps c k bs \<Longrightarrow> aurp_parse bs = Some (ARouting dh conn seq cmd) \<Longrightarrow>
   conn = c \<and> seq = word_of_nat k \<and> cmd = RiRsp (k = length ps) (ps ! (k - 1)) \<and> 1 \<le> k \<and> k \<le> length ps"
  by (auto simp: page_at_def)

lemma ack_once: "ack_at c k bs \<Longrightarrow> aurp_parse bs = Some (ARouting dh conn seq cmd) \<Longrightarrow> conn = c \<and> seq = word_of_nat k \<and> cmd = RiAck True"
  by (auto simp: ack_at_def)

lemma exchange_data:
  assumes x: "exchanging ps c q T0 d j r" and n: "length ps < 65534"
    and bs: "bs \<in> dg_data d" "aurp_parse bs = Some (ARouting dh conn seq cmd)"
    and e: "e = routing conn seq cmd (dg_tables d) now (dg_receiver d)"
    and d': "d' = d\<lparr>dg_receiver := ef_peer e, dg_tables := ef_tables e, dg_acks := dg_acks d \<union> sent_bytes (ef_acts e)\<rparr>"
  shows "\<exists>r'. exchanging ps c q T0 d' j r' \<and> (page_at ps c j bs \<longrightarrow> (\<exists>b \<in> dg_acks d'. ack_at c j b))"
proof -
  let ?p = "dg_receiver d"
  obtain k where k: "k \<le> j" "page_at ps c k bs" using x bs(1) by (auto simp: exchanging_def)
  note m = page_once [OF k(2) bs(2)]
  have at: "receiver_at ps c r ?p" "pe_addr ?p = pe_addr q" "k \<le> r" "r < 65535" using x n k by (auto simp: exchanging_def)
  note rcv = receive_page [OF at(1) _ at(3) _ at(4), where T = "dg_tables d" and now = now and e = e]
  have e': "e = routing c (word_of_nat k) (RiRsp (k = length ps) (ps ! (k - 1))) (dg_tables d) now ?p" using e m by simp
  have acks: "\<exists>k. 1 \<le> k \<and> k < r' \<and> ack_at c k b" if "b \<in> dg_acks d \<union> sent_bytes (ef_acts e)" "k < r'" "r \<le> r'" for b r'
  proof (cases "b \<in> dg_acks d")
    case True
    then obtain k' where "1 \<le> k'" "k' < r" "ack_at c k' b" using x by (auto simp: exchanging_def)
    with that show ?thesis by (intro exI [of _ k']) simp
  next
    case False
    with that have "ack_at c k b" using rcv(4) m e' by auto
    with that m show ?thesis by auto
  qed
  have fresh: "\<exists>b \<in> dg_acks d'. ack_at c j b" if "page_at ps c j bs"
  proof -
    from page_once [OF that bs(2)] m have "word_of_nat k = (word_of_nat j :: u16)" by simp
    with k n x have "k = j" by (auto simp: exchanging_def word_of_nat_u16_inj)
    with x have "r \<le> Suc k" by (auto simp: exchanging_def)
    then obtain b where "b \<in> sent_bytes (ef_acts e)" using rcv(5) m e' by auto
    with rcv(4) m e' \<open>k = j\<close> show ?thesis by (auto simp: d')
  qed
  obtain ts where ts: "length ts = r - 1" "dg_tables d = learn_pages q (zip (take (r - 1) ps) ts) T0"
    using x by (auto simp: exchanging_def)
  show ?thesis
  proof (cases "k = r")
    case True
    with k x m have j: "r = j" by (auto simp: exchanging_def)
    have new: "receiver_at ps c (Suc r) (ef_peer e)" "ef_tables e = fst (learn_all ?p (ps ! (r - 1)) (dg_tables d) now)"
      "pe_addr (ef_peer e) = pe_addr q"
      using rcv(1,2) m True e' at by auto
    have "ef_tables e = learn_pages q (zip (take r ps) (ts @ [now])) T0"
      using zip_take_Suc [of ts "r - 1" ps now] ts j x new(2) at(2)
      by (auto simp: exchanging_def learn_all_addr [of ?p q])
    moreover have "length (ts @ [now]) = r" using ts m True by simp
    ultimately have "\<exists>ts. length ts = r \<and> ef_tables e = learn_pages q (zip (take r ps) ts) T0" by blast
    then have "exchanging ps c q T0 d' j (Suc r)"
      using x j new acks [of _ "Suc r"] True by (auto simp: exchanging_def d')
    with fresh show ?thesis by blast
  next
    case False
    with at(3) have "k < r" by simp
    then have same: "receiver_at ps c r (ef_peer e)" "ef_tables e = dg_tables d" "pe_addr (ef_peer e) = pe_addr q"
      using rcv(1,3) m e' at by auto
    have "exchanging ps c q T0 d' j r"
      using x same acks [of _ r] \<open>k < r\<close> by (auto simp: exchanging_def d')
    with fresh show ?thesis by blast
  qed
qed

lemma exchange_ack:
  assumes x: "exchanging ps c q T0 d j r" and n: "length ps < 65534" "c \<noteq> 0"
    and wf: "\<forall>page \<in> set ps. \<forall>t \<in> set page. wf_tuple t"
    and bs: "bs \<in> dg_acks d" "aurp_parse bs = Some (ARouting dh conn seq cmd)"
    and e: "e = routing conn seq cmd TA now (dg_sender d)"
    and d': "d' = d\<lparr>dg_sender := ef_peer e, dg_data := dg_data d \<union> page_bytes (ef_acts e)\<rparr>"
  shows "\<exists>j'. exchanging ps c q T0 d' j' r
     \<and> (sender_at ps c j (dg_sender d) \<and> ack_at c j bs \<longrightarrow>
          (if j = length ps then finished c (dg_sender d')
           else j' = Suc j \<and> sender_at ps c j' (dg_sender d')))"
proof -
  let ?p = "dg_sender d"
  obtain k where k: "1 \<le> k" "k < r" "ack_at c k bs" using x bs(1) by (auto simp: exchanging_def)
  have j: "1 \<le> j" "j \<le> length ps" "k \<le> j" "r = j \<or> r = Suc j" using x k by (auto simp: exchanging_def)
  note m = ack_once [OF k(3) bs(2)]
  have e': "e = routing c (word_of_nat k) (RiAck True) TA now ?p" using e m by simp
  have other: "\<not> ack_at c j bs" if "k < j"
  proof
    assume "ack_at c j bs"
    from ack_once [OF this bs(2)] m have "word_of_nat k = (word_of_nat j :: u16)" by simp
    with that j n show False by (auto simp: word_of_nat_u16_inj)
  qed
  consider (at) "sender_at ps c j ?p" | (idle) "finished c ?p \<or> gave_up_on ?p" "\<not> sender_at ps c j ?p"
    using x by (auto simp: exchanging_def)
  then show ?thesis
  proof cases
    case idle
    then have "ef_peer e = ?p" "ef_acts e = []" using receive_ack_idle [OF idle(1) n(2) e'] by simp_all
    then have "d' = d" by (simp add: d')
    with x idle show ?thesis by auto
  next
    case at
    note rcv = receive_ack [OF at j(1,2) n(1) j(3) wf e']
    show ?thesis
    proof (cases "k = j")
      case False
      with j(3) have "k < j" by simp
      then have "d' = d" using rcv(1) by (simp add: d')
      with x other [OF \<open>k < j\<close>] show ?thesis by auto
    next
      case True
      with j k have r: "r = Suc j" by simp
      show ?thesis
      proof (cases "j = length ps")
        case fin: True
        then have "finished c (ef_peer e)" "page_bytes (ef_acts e) = {}" using rcv(2) True by simp_all
        then have "exchanging ps c q T0 d' j r" using x r fin by (auto simp: exchanging_def d' finished_def)
        with fin \<open>finished c (ef_peer e)\<close> show ?thesis by (auto simp: d')
      next
        case more: False
        then have nxt: "sender_at ps c (Suc j) (ef_peer e)" "page_bytes (ef_acts e) \<subseteq> {bs. page_at ps c (Suc j) bs}"
          "\<exists>x. pe_outstanding (ef_peer e) = Some x \<and> os_bytes x \<in> page_bytes (ef_acts e)"
          using rcv(3) True j(2) by auto
        have data: "\<exists>k \<le> Suc j. page_at ps c k b" if "b \<in> dg_data d'" for b
        proof (cases "b \<in> dg_data d")
          case True
          then obtain k' where "k' \<le> j" "page_at ps c k' b" using x by (auto simp: exchanging_def)
          then show ?thesis by (intro exI [of _ k']) simp
        next
          case False
          with that nxt(2) show ?thesis by (auto simp: d')
        qed
        have "exchanging ps c q T0 d' (Suc j) r"
          using x r more nxt(1,3) data by (auto simp: exchanging_def d')
        then show ?thesis using more nxt(1) by (intro exI [of _ "Suc j"]) (auto simp: d')
      qed
    qed
  qed
qed

lemma exchange_timer:
  assumes x: "exchanging ps c q T0 d j r"
    and t: "pe_outstanding (dg_sender d) \<noteq> None" "sender_timers now (dg_sender d) = (p, acts, why)"
    and d': "d' = d\<lparr>dg_sender := p, dg_data := dg_data d \<union> page_bytes acts\<rparr>"
  shows "exchanging ps c q T0 d' j r"
proof -
  have at: "sender_at ps c j (dg_sender d)" using x t(1) by (auto simp: exchanging_def finished_def gave_up_on_def)
  then obtain o' where o': "pe_outstanding (dg_sender d) = Some o'" "os_seq o' = word_of_nat j" "page_at ps c j (os_bytes o')"
    by (auto simp: sender_at_def)
  have sent: "os_bytes o' \<in> dg_data d" using x o' by (simp add: exchanging_def)
  consider (wait) "p = dg_sender d" "acts = []" | (over) "p = close_sender (dg_sender d)" "acts = []"
    | (again) "p = (dg_sender d)\<lparr>pe_outstanding := Some (o'\<lparr>os_tries := os_tries o' + 1, os_at := now\<rparr>)\<rparr>"
        "acts = [ToPeer (pe_addr (dg_sender d)) (os_bytes o')]"
  proof (cases "since now (os_at o') < RETRY")
    case True
    with t(2) o'(1) wait show thesis by (simp add: sender_timers_def)
  next
    case late: False
    show thesis
    proof (cases "RETRIES \<le> os_tries o'")
      case True
      with late t(2) o'(1) over show thesis by (simp add: sender_timers_def)
    next
      case False
      with late t(2) o'(1) again show thesis by (simp add: sender_timers_def)
    qed
  qed
  then show ?thesis
  proof cases
    case wait
    with x show ?thesis by (simp add: d')
  next
    case over
    then have "gave_up_on p" "pe_outstanding p = None" by (simp_all add: gave_up_on_def close_sender_def)
    with x over show ?thesis by (simp add: exchanging_def d')
  next
    case again
    have "sender_at ps c j p" using at o' by (simp add: again(1) sender_at_def)
    with x o' sent again show ?thesis by (auto simp: exchanging_def d')
  qed
qed

lemma exchange_step:
  assumes "dialogue_step TA d d'" "exchanging ps c q T0 d j r" "length ps < 65534" "c \<noteq> 0"
    and "\<forall>page \<in> set ps. \<forall>t \<in> set page. wf_tuple t"
  shows "\<exists>j r. exchanging ps c q T0 d' j r"
  using assms(1)
proof cases
  case (deliver_data bs dh conn seq cmd e now)
  then show ?thesis using exchange_data [OF assms(2,3) deliver_data(2,3,4,1)] by blast
next
  case (deliver_ack bs dh conn seq cmd e now)
  then show ?thesis using exchange_ack [OF assms(2,3,4,5) deliver_ack(2,3,4,1)] by blast
next
  case (retransmit now p acts why)
  then show ?thesis using exchange_timer [OF assms(2) retransmit(2,3,1)] by blast
qed

section \<open>A whole export\<close>

text \<open>The dialogue as it stands when the receiver's RI-Req has reached the sender.\<close>

definition export_asked :: "tables \<Rightarrow> instant \<Rightarrow> peer \<Rightarrow> peer \<Rightarrow> tables \<Rightarrow> dialogue" where
  "export_asked TA now s r T0 =
     (let e = routing (pe_conn_local r) 0 (RiReq ALL_SUI) TA now s in
      \<lparr>dg_sender = ef_peer e, dg_receiver = r, dg_tables = T0, dg_data = page_bytes (ef_acts e), dg_acks = {}\<rparr>)"

text \<open>
  Two peers ready for it: the receiver has just been let in and waits for the first page, and the sender
  serves the connection the receiver opened.
\<close>

definition export_ready :: "tables \<Rightarrow> peer \<Rightarrow> peer \<Rightarrow> bool" where
  "export_ready TA s r \<longleftrightarrow> pe_receiver r = RWaitRiRsp \<and> pe_seq_recv r = 1 \<and> pe_conn_local r \<noteq> 0
     \<and> pe_conn_remote s = pe_conn_local r \<and> pe_sender s \<in> {SConnected, SWaitRiRspAck, SWaitRiUpdAck}
     \<and> (\<forall>t \<in> set (export TA). wf_tuple t) \<and> length (split_tuples (export TA)) < 65534"

lemma export_pages:
  assumes "export_ready TA s r"
  shows "split_tuples (export TA) \<noteq> []" "\<forall>page \<in> set (split_tuples (export TA)). \<forall>t \<in> set page. wf_tuple t"
proof -
  show "split_tuples (export TA) \<noteq> []" by (simp add: split_tuples_def split_loop_nonempty)
  have "set (concat (split_tuples (export TA))) = set (export TA)" by (simp add: split_tuples_def split_loop_concat)
  then have "set page \<subseteq> set (export TA)" if "page \<in> set (split_tuples (export TA))" for page
    using that by auto
  then show "\<forall>page \<in> set (split_tuples (export TA)). \<forall>t \<in> set page. wf_tuple t"
    using assms by (auto simp: export_ready_def)
qed

lemma acting_parts: "ef_peer (acting T x) = fst x" "ef_acts (acting T x) = snd x" "ef_tables (acting T x) = T"
  by (simp_all add: acting_def quiet_def split: prod.split)

lemma exchange_start:
  assumes "export_ready TA s r"
  shows "exchanging (split_tuples (export TA)) (pe_conn_local r) r T0 (export_asked TA now s r T0) 1 1"
    and "sender_at (split_tuples (export TA)) (pe_conn_local r) 1 (dg_sender (export_asked TA now s r T0))"
proof -
  let ?ps = "split_tuples (export TA)"
  let ?s = "s\<lparr>pe_seq_send := 0, pe_outstanding := None, pe_pages := ?ps\<rparr>"
  have n: "0 < length ?ps" "length ?ps < 65534" using assms export_pages(1) [OF assms] by (simp_all add: export_ready_def)
  have e: "routing (pe_conn_local r) 0 (RiReq ALL_SUI) TA now s = acting TA (send_page now ?s)"
    using assms by (auto simp: export_ready_def routing_def)
  have c: "pe_conn_remote ?s = pe_conn_local r" "pe_pages ?s = drop 0 ?ps" "pe_seq_send ?s = word_of_nat 0"
    using assms by (simp_all add: export_ready_def)
  note sent = send_next_page [OF c n export_pages(2) [OF assms], of now]
  show at: "sender_at ?ps (pe_conn_local r) 1 (dg_sender (export_asked TA now s r T0))"
    using sent(1) by (simp add: export_asked_def e acting_parts Let_def)
  have "receiver_at ?ps (pe_conn_local r) 1 r" using assms n by (simp add: receiver_at_def export_ready_def Suc_le_eq)
  then show "exchanging ?ps (pe_conn_local r) r T0 (export_asked TA now s r T0) 1 1"
    using sent n at
    by (auto simp: exchanging_def export_asked_def e acting_parts Let_def Suc_le_eq)
qed

lemma exchange_run:
  assumes "export_ready TA s r" "(dialogue_step TA)\<^sup>*\<^sup>* (export_asked TA now s r T0) d"
  shows "\<exists>j k. exchanging (split_tuples (export TA)) (pe_conn_local r) r T0 d j k"
  using assms(2)
proof (induction rule: rtranclp_induct)
  case base
  show ?case using exchange_start(1) [OF assms(1)] by blast
next
  case (step d d')
  then obtain j k where x: "exchanging (split_tuples (export TA)) (pe_conn_local r) r T0 d j k" by blast
  have "length (split_tuples (export TA)) < 65534" "pe_conn_local r \<noteq> 0" using assms(1) by (simp_all add: export_ready_def)
  from exchange_step [OF step.hyps(2) x this export_pages(2) [OF assms(1)]] show ?case .
qed

text \<open>Two deliveries move the exchange one page on.\<close>

lemma exchange_progress:
  assumes x: "exchanging ps c q T0 d j k" "sender_at ps c j (dg_sender d)" and n: "length ps < 65534" "c \<noteq> 0"
    and wf: "\<forall>page \<in> set ps. \<forall>t \<in> set page. wf_tuple t"
  obtains d' j' k' where "(dialogue_step TA)\<^sup>*\<^sup>* d d'" "exchanging ps c q T0 d' j' k'"
    "if j = length ps then finished c (dg_sender d') else j' = Suc j \<and> sender_at ps c j' (dg_sender d')"
proof -
  obtain o' where o': "pe_outstanding (dg_sender d) = Some o'" "page_at ps c j (os_bytes o')"
    using x(2) by (auto simp: sender_at_def)
  then have data: "os_bytes o' \<in> dg_data d" using x(1) by (simp add: exchanging_def)
  obtain dh where parse: "aurp_parse (os_bytes o') = Some (ARouting dh c (word_of_nat j) (RiRsp (j = length ps) (ps ! (j - 1))))"
    using o'(2) by (auto simp: page_at_def)
  define e where "e = routing c (word_of_nat j) (RiRsp (j = length ps) (ps ! (j - 1))) (dg_tables d) 0 (dg_receiver d)"
  define d1 where "d1 = d\<lparr>dg_receiver := ef_peer e, dg_tables := ef_tables e, dg_acks := dg_acks d \<union> sent_bytes (ef_acts e)\<rparr>"
  have s1: "dialogue_step TA d d1" unfolding d1_def by (rule deliver_data [OF data parse e_def])
  obtain k1 b where x1: "exchanging ps c q T0 d1 j k1" and b: "b \<in> dg_acks d1" "ack_at c j b"
    using exchange_data [OF x(1) n(1) data parse e_def d1_def] o'(2) by blast
  then obtain dh' where parse': "aurp_parse b = Some (ARouting dh' c (word_of_nat j) (RiAck True))" by (auto simp: ack_at_def)
  define e' where "e' = routing c (word_of_nat j) (RiAck True) TA 0 (dg_sender d1)"
  define d2 where "d2 = d1\<lparr>dg_sender := ef_peer e', dg_data := dg_data d1 \<union> page_bytes (ef_acts e')\<rparr>"
  have s2: "dialogue_step TA d1 d2" unfolding d2_def by (rule deliver_ack [OF b(1) parse' e'_def])
  have at: "sender_at ps c j (dg_sender d1)" using x(2) by (simp add: d1_def)
  obtain j2 where "exchanging ps c q T0 d2 j2 k1"
    "if j = length ps then finished c (dg_sender d2) else j2 = Suc j \<and> sender_at ps c j2 (dg_sender d2)"
    using exchange_ack [OF x1 n wf b(1) parse' e'_def d2_def] at b(2) by blast
  moreover have "(dialogue_step TA)\<^sup>*\<^sup>* d d2" using s1 s2 by simp
  ultimately show thesis by (rule that [rotated])
qed

lemma exchange_completes:
  assumes "exchanging ps c q T0 d j k" "\<not> gave_up_on (dg_sender d)" and n: "length ps < 65534" "c \<noteq> 0"
    and wf: "\<forall>page \<in> set ps. \<forall>t \<in> set page. wf_tuple t"
  shows "\<exists>d' j' k'. (dialogue_step TA)\<^sup>*\<^sup>* d d' \<and> exchanging ps c q T0 d' j' k' \<and> finished c (dg_sender d')"
  using assms(1,2)
proof (induction "length ps - j" arbitrary: d j k rule: less_induct)
  case less
  show ?case
  proof (cases "finished c (dg_sender d)")
    case True
    with less.prems show ?thesis by blast
  next
    case False
    then have at: "sender_at ps c j (dg_sender d)" using less.prems by (auto simp: exchanging_def)
    obtain d1 j1 k1 where s: "(dialogue_step TA)\<^sup>*\<^sup>* d d1" "exchanging ps c q T0 d1 j1 k1"
      "if j = length ps then finished c (dg_sender d1) else j1 = Suc j \<and> sender_at ps c j1 (dg_sender d1)"
      by (rule exchange_progress [OF less.prems(1) at n wf])
    show ?thesis
    proof (cases "j = length ps")
      case True
      with s show ?thesis by auto
    next
      case False
      with s(3) have j1: "j1 = Suc j" "\<not> gave_up_on (dg_sender d1)" by (auto simp: sender_at_def gave_up_on_def)
      moreover have "j \<le> length ps" using less.prems(1) by (simp add: exchanging_def)
      ultimately have "length ps - j1 < length ps - j" using False by simp
      from less.hyps [OF this s(2) j1(2)] s(1) show ?thesis by (meson rtranclp_trans)
    qed
  qed
qed

section \<open>An example\<close>

text \<open>A router with one complete network behind it, its addition still queued, and one that asks.\<close>

definition a_sender :: peer where
  "a_sender = (peer_new (ipv4_new 192 0 2 7) None 3 (DiIp (ipv4_new 192 0 2 1)) 0)
     \<lparr>pe_conn_remote := 9, pe_sender := SConnected,
      pe_pending := [\<lparr>ev_code = NA, ev_tuple = \<lparr>nt_range = (10, 12), nt_extended = True, nt_distance = 0\<rparr>\<rparr>]\<rparr>"

definition a_receiver :: peer where
  "a_receiver = (peer_new (ipv4_new 192 0 2 1) None 9 (DiIp (ipv4_new 192 0 2 7)) 0)
     \<lparr>pe_receiver := RWaitRiRsp, pe_recv_tries := 1\<rparr>"

lemma example_export: "export example_tables = [\<lparr>nt_range = (10, 12), nt_extended = True, nt_distance = 0\<rparr>]"
  by (simp add: export_def starts_def starts_where_def example_tables_eval exportable_def best_for_start_def pick_def takes_over_def
      incumbent_def usable_def route_key_def zl_complete_def route_tuple_def List.map_filter_def)

lemma example_pages: "split_tuples (export example_tables) = [[\<lparr>nt_range = (10, 12), nt_extended = True, nt_distance = 0\<rparr>]]"
  by (simp add: split_tuples_def example_export tuple_size_def MAX_BODY_def)

lemma example_ready: "export_ready example_tables a_sender a_receiver"
  by (simp add: export_ready_def a_sender_def a_receiver_def peer_new_def example_pages [unfolded example_export] example_export wf_tuple_def)

lemma example_completes:
  "\<exists>d. (dialogue_step example_tables)\<^sup>*\<^sup>* (export_asked example_tables 5 a_sender a_receiver tables_new) d
     \<and> pe_sender (dg_sender d) = SConnected"
proof -
  let ?d = "export_asked example_tables 5 a_sender a_receiver tables_new"
  have n: "length (split_tuples (export example_tables)) < 65534" "pe_conn_local a_receiver \<noteq> 0"
    using example_ready by (simp_all add: export_ready_def)
  have "\<not> gave_up_on (dg_sender ?d)"
    using exchange_start(2) [OF example_ready, of 5 tables_new] by (auto simp: sender_at_def gave_up_on_def)
  from exchange_completes [OF exchange_start(1) [OF example_ready] this n export_pages(2) [OF example_ready]]
  show ?thesis by (auto simp: finished_def)
qed

section \<open>Exactly once, and in the end\<close>





section \<open>Where it does not work\<close>

text \<open>The receiver's own timer asks again, without going back to the first page.\<close>

lemma asks_again:
  assumes "pe_receiver r = RWaitRiRsp" "RETRY \<le> since now (pe_recv_at r)" "pe_recv_tries r < RETRIES"
  shows "receiver_timers T now r
    = acting T (r\<lparr>pe_recv_tries := pe_recv_tries r + 1, pe_recv_at := now\<rparr>, [peer_send r (pe_conn_local r) 0 (RiReq ALL_SUI)])"
  using assms by (simp add: receiver_timers_def peer_send_def peer_bytes_def not_le)

definition unheard :: "network_tuple list list \<Rightarrow> u16 \<Rightarrow> tables \<Rightarrow> u16 \<Rightarrow> dialogue \<Rightarrow> bool" where
  "unheard ps c T n d \<longleftrightarrow> dg_acks d = {} \<and> dg_tables d = T \<and> (\<forall>bs \<in> dg_data d. page_at ps c 1 bs)
     \<and> pe_conn_local (dg_receiver d) = c \<and> pe_receiver (dg_receiver d) = RWaitRiRsp \<and> pe_seq_recv (dg_receiver d) = n
     \<and> (\<forall>x. pe_outstanding (dg_sender d) = Some x \<longrightarrow> os_bytes x \<in> dg_data d)"

lemma first_page_stale:
  assumes "pe_seq_recv p = word_of_nat n" "3 \<le> n" "n < 65535"
  shows "check_seq p 1 = Stale"
proof -
  have "check_seq p (word_of_nat 1) = (if 1 = n then New else if Suc 1 = n then Dup else Stale)"
    using assms by (intro check_seq_nat) simp_all
  then show ?thesis using assms(2) by simp
qed

lemma unheard_step:
  assumes "dialogue_step TA d d'" "unheard ps c T (word_of_nat n) d" "3 \<le> n" "n < 65535"
  shows "unheard ps c T (word_of_nat n) d'"
  using assms(1)
proof cases
  case (deliver_data bs dh conn seq cmd e now)
  let ?p = "dg_receiver d"
  have "page_at ps c 1 bs" using assms(2) deliver_data(2) by (simp add: unheard_def)
  note m = page_once [OF this deliver_data(3)]
  have "check_seq (?p\<lparr>pe_last_heard := now\<rparr>) 1 = Stale"
    using assms(2-4) by (intro first_page_stale) (simp_all add: unheard_def)
  then have "e = quiet (?p\<lparr>pe_last_heard := now\<rparr>) T"
    using assms(2) m by (simp add: deliver_data(4) unheard_def routing_def receiver_open_def on_ri_rsp_def Let_def)
  with assms(2) show ?thesis by (simp add: deliver_data(1) unheard_def quiet_def)
next
  case (deliver_ack bs)
  with assms(2) show ?thesis by (simp add: unheard_def)
next
  case (retransmit now p acts why)
  obtain x where x: "pe_outstanding (dg_sender d) = Some x" "os_bytes x \<in> dg_data d"
    using assms(2) retransmit(2) by (auto simp: unheard_def)
  then have "page_bytes acts \<subseteq> dg_data d" "\<forall>y. pe_outstanding p = Some y \<longrightarrow> os_bytes y \<in> dg_data d"
    using retransmit(3) by (auto simp: sender_timers_def close_sender_def split: if_splits)
  with assms(2) show ?thesis by (auto simp: retransmit(1) unheard_def)
qed

lemma unheard_run:
  "unheard ps c T (word_of_nat n) d \<Longrightarrow> (dialogue_step TA)\<^sup>*\<^sup>* d d' \<Longrightarrow> 3 \<le> n \<Longrightarrow> n < 65535
   \<Longrightarrow> unheard ps c T (word_of_nat n) d'"
  by (rotate_tac, induction rule: rtranclp_induct) (auto intro: unheard_step)



text \<open>Nothing in the exchange looks at the events that wait for the next update.\<close>

lemma send_page_pending: "pe_pending (fst (send_page now p)) = pe_pending p"
  by (simp add: send_page_def send_sequenced_def Let_def split: list.split)

lemma ri_ack_pending: "pe_sender p = SWaitRiRspAck \<Longrightarrow> pe_pending (fst (ri_ack seq szi T now p)) = pe_pending p"
  by (simp add: ri_ack_def Let_def case_prod_beta send_page_pending split: option.split)

lemma exchange_pending:
  assumes "dialogue_step TA d d'" "exchanging ps c q T0 d j r" "c \<noteq> 0"
    and "pe_pending (dg_sender d) = es \<or> gave_up_on (dg_sender d)"
  shows "pe_pending (dg_sender d') = es \<or> gave_up_on (dg_sender d')"
  using assms(1)
proof cases
  case (deliver_data bs dh conn seq cmd e now)
  with assms(4) show ?thesis by simp
next
  case (deliver_ack bs dh conn seq cmd e now)
  obtain k where "ack_at c k bs" using assms(2) deliver_ack(2) by (auto simp: exchanging_def)
  note m = ack_once [OF this deliver_ack(3)]
  consider (at) "sender_at ps c j (dg_sender d)" | (idle) "finished c (dg_sender d) \<or> gave_up_on (dg_sender d)"
    using assms(2) by (auto simp: exchanging_def)
  then show ?thesis
  proof cases
    case idle
    then have "ef_peer e = dg_sender d" using receive_ack_idle [of c "dg_sender d"] assms(3) m deliver_ack(4) by blast
    with assms(4) show ?thesis by (simp add: deliver_ack(1))
  next
    case at
    then have "pe_pending (ef_peer e) = pe_pending (dg_sender d)"
      using m by (simp add: deliver_ack(4) routing_def sender_at_def acting_parts ri_ack_pending)
    with at assms(4) show ?thesis by (simp add: deliver_ack(1) sender_at_def gave_up_on_def)
  qed
next
  case (retransmit now p acts why)
  have "pe_pending p = pe_pending (dg_sender d) \<or> gave_up_on p"
    using retransmit(2,3) by (auto simp: sender_timers_def close_sender_def gave_up_on_def split: if_splits)
  with assms(4) retransmit show ?thesis by (auto simp: gave_up_on_def)
qed

lemma exchange_keeps_pending:
  assumes "export_ready TA s r" "(dialogue_step TA)\<^sup>*\<^sup>* (export_asked TA now s r T0) d"
  shows "pe_pending (dg_sender d) = pe_pending s \<or> gave_up_on (dg_sender d)"
  using assms(2)
proof (induction rule: rtranclp_induct)
  case base
  have "routing (pe_conn_local r) 0 (RiReq ALL_SUI) TA now s
      = acting TA (send_page now (s\<lparr>pe_seq_send := 0, pe_outstanding := None, pe_pages := split_tuples (export TA)\<rparr>))"
    using assms(1) by (auto simp: export_ready_def routing_def)
  then show ?case by (simp add: export_asked_def acting_parts send_page_pending Let_def)
next
  case (step d d')
  obtain j k where x: "exchanging (split_tuples (export TA)) (pe_conn_local r) r T0 d j k"
    using exchange_run [OF assms(1) step.hyps(1)] by blast
  have "pe_conn_local r \<noteq> 0" using assms(1) by (simp add: export_ready_def)
  from exchange_pending [OF step.hyps(2) x this step.IH] show ?case .
qed

text \<open>
  A refresh leaves the pending events as they were.  A network added just before a peer asks for the whole
  table is told twice, in the export and in the queue; if it goes away again before the queue is sent, the
  deletion cancels the addition that is still queued and nothing is sent: the peer has learned the network from
  the export and never hears that it is gone.
\<close>

theorem refresh_leaves_stale:
  assumes "export_ready TA s r" "(dialogue_step TA)\<^sup>*\<^sup>* (export_asked TA now s r T0) d"
    and "pe_sender (dg_sender d) = SConnected"
    and "pe_pending s = [\<lparr>ev_code = NA, ev_tuple = t\<rparr>]" "t \<in> set (export TA)"
    and "ev_code gone = ND" "ev_start gone = fst (nt_range t)"
  shows "(\<exists>page \<in> set (split_tuples (export TA)). t \<in> set page)
    \<and> (\<exists>ts. dg_tables d = learn_pages r (zip (split_tuples (export TA)) ts) T0 \<and> length ts = length (split_tuples (export TA)))
    \<and> pe_pending (queue gone (dg_sender d)) = []"
proof (intro conjI)
  have "concat (split_tuples (export TA)) = export TA" by (simp add: split_tuples_def split_loop_concat)
  then show "\<exists>page \<in> set (split_tuples (export TA)). t \<in> set page" using assms(5) by (metis UN_iff set_concat)
  obtain j k where x: "exchanging (split_tuples (export TA)) (pe_conn_local r) r T0 d j k"
    using exchange_run [OF assms(1,2)] by blast
  then have "k = Suc (length (split_tuples (export TA)))"
    using assms(3) by (auto simp: exchanging_def sender_at_def gave_up_on_def)
  with x show "\<exists>ts. dg_tables d = learn_pages r (zip (split_tuples (export TA)) ts) T0 \<and> length ts = length (split_tuples (export TA))"
    by (auto simp: exchanging_def)
  have "pe_pending (dg_sender d) = pe_pending s"
    using exchange_keeps_pending [OF assms(1,2)] assms(3) by (auto simp: gave_up_on_def)
  then show "pe_pending (queue gone (dg_sender d)) = []"
    using assms(4,6,7) by (simp add: queue_def queue_events_def ev_start_def remove_at_def)
qed

theorem refresh_leaves_stale_witness:
  "\<exists>d. (dialogue_step example_tables)\<^sup>*\<^sup>* (export_asked example_tables 5 a_sender a_receiver tables_new) d
     \<and> pe_pending (queue \<lparr>ev_code = ND, ev_tuple = \<lparr>nt_range = (10, 12), nt_extended = True, nt_distance = 0\<rparr>\<rparr> (dg_sender d)) = []"
proof -
  obtain d where d: "(dialogue_step example_tables)\<^sup>*\<^sup>* (export_asked example_tables 5 a_sender a_receiver tables_new) d"
    "pe_sender (dg_sender d) = SConnected" using example_completes by blast
  from refresh_leaves_stale [OF example_ready d, of "\<lparr>nt_range = (10, 12), nt_extended = True, nt_distance = 0\<rparr>"
      "\<lparr>ev_code = ND, ev_tuple = \<lparr>nt_range = (10, 12), nt_extended = True, nt_distance = 0\<rparr>\<rparr>"] d(1)
  show ?thesis by (auto simp: a_sender_def example_export ev_start_def)
qed

text \<open>
  A repeated Open-Req for the connection already in use, as a tunnel may deliver it, starts the sender's sequence
  over on a connection whose receiver does not start over: the next update is number 1, and a
  receiver further on ignores it.
\<close>

lemma repeated_open_desyncs:
  assumes "pe_sender s \<noteq> SUnconnected" "pe_conn_remote s = c" "pe_receiver s \<noteq> RUnconnected"
    and "pe_seq_recv r = word_of_nat n" "3 \<le> n" "n < 65535"
  shows "pe_seq_send (fst (send_sequenced (RiUpd es) nets now (fst (open_req c 1 [] now s)))) = 1
    \<and> check_seq r 1 = Stale"
  using assms first_page_stale [OF assms(4-6)]
  by (simp add: open_req_def send_sequenced_def succ_def Let_def)

text \<open>
  A probe of the old connection that such a repeat interrupts is never cleared: nothing is outstanding and the
  flag stays, so the restarted peer's own Open-Req is ignored from then on.
\<close>

lemma repeated_open_blocks_restart:
  assumes "pe_sender s = SConnected" "pe_outstanding s = None" "\<not> pe_probing s" "pe_receiver s \<noteq> RUnconnected"
    and "new \<noteq> pe_conn_remote s"
  shows "let p = fst (open_req (pe_conn_remote s) 1 [] now (fst (open_req new 1 [] now s)))
    in pe_outstanding p = None \<and> open_req new 1 [] later p = (p, [])"
  using assms by (simp add: open_req_def send_sequenced_def Let_def)

text \<open>
  A configured name that moves to an address that is already a peer leaves the old address under the name
  too.
\<close>

lemma moved_name_stays:
  assumes "map_ok (ps_peers ps)" "map_of (ps_peers ps) old = Some p" "pe_configured p = Some name"
    and "map_of (ps_peers ps) addr = Some q" "old \<noteq> addr"
  shows "map_of (ps_peers (resolved name addr now ps)) old = Some p
    \<and> (\<exists>q'. map_of (ps_peers (resolved name addr now ps)) addr = Some q' \<and> pe_configured q' = Some name)"
  using assms by (simp add: resolved_def map_ok_def map_of_bt_insert)

end
