(* ===== verification/Local_Services.thy ===== *)
theory Local_Services
  imports Ports Wire_Decode
begin

text \<open>
  \<open>src/src/router/local.rs\<close>: the services a router owes its cables, RTMP, ZIP, NBP and echo.  \<open>handle\<close>
  and \<open>tick\<close> read the ports and the tables and return the datagrams to send, with the tables
  changed and the route changes where there are any.
\<close>

section \<open>Constants and data\<close>

definition RTMP_INTERVAL :: duration where "RTMP_INTERVAL = secs 10"
definition ZIP_QUERY_INTERVAL :: duration where "ZIP_QUERY_INTERVAL = secs 10"
definition RTMP_SOCKET :: u8 where "RTMP_SOCKET = 1"
definition NBP_SOCKET :: u8 where "NBP_SOCKET = 2"
definition AEP_SOCKET :: u8 where "AEP_SOCKET = 4"
definition ZIP_SOCKET :: u8 where "ZIP_SOCKET = 6"
definition DDP_MAX :: nat where "DDP_MAX = 586"
definition ATP_MAX :: nat where "ATP_MAX = 578"
definition ZIP_HEAD :: nat where "ZIP_HEAD = 2"
definition ROUTER_TYPE :: rstring where "ROUTER_TYPE = lit ''AppleRouter''"
definition ROUTER_SOCKET :: u8 where "ROUTER_SOCKET = 253"

lemmas socket_defs = RTMP_SOCKET_def NBP_SOCKET_def AEP_SOCKET_def ZIP_SOCKET_def ROUTER_SOCKET_def

record local =
  lo_name :: rstring
  lo_last_beacon :: "instant option"
  lo_last_query :: "instant option"

definition local_new :: "rstring \<Rightarrow> local" where
  "local_new name = \<lparr>lo_name = name, lo_last_beacon = None, lo_last_query = None\<rparr>"

section \<open>Datagrams from our sockets\<close>

definition from_port :: "port \<Rightarrow> u8 \<Rightarrow> addr \<Rightarrow> u8 \<Rightarrow> u8 \<Rightarrow> bytes \<Rightarrow> ddp option" where
  "from_port p src_socket dst dst_socket typ body =
     map_option (\<lambda>a. datagram a src_socket dst dst_socket typ body) (port_addr p)"

definition due :: "instant option \<Rightarrow> instant \<Rightarrow> duration \<Rightarrow> bool" where
  "due fin now every \<longleftrightarrow> (case fin of None \<Rightarrow> True | Some t \<Rightarrow> every \<le> since now t)"

section \<open>RTMP\<close>

text \<open>\<open>chunk\<close>: the batch being filled and the bytes in it.\<close>

fun rtmp_chunk_loop ::
    "addr \<Rightarrow> (u16 \<times> u16) option \<Rightarrow> nat \<Rightarrow> network_tuple list \<Rightarrow> nat \<Rightarrow> network_tuple list \<Rightarrow> rtmp list" where
  "rtmp_chunk_loop sender rng base batch used [] = [RtmpData sender rng batch]"
| "rtmp_chunk_loop sender rng base batch used (t # ts) =
     (let n = (if nt_extended t then 6 else 3) in
      if used + n > DDP_MAX \<and> batch \<noteq> []
      then RtmpData sender rng batch # rtmp_chunk_loop sender rng base [t] (base + n) ts
      else rtmp_chunk_loop sender rng base (batch @ [t]) (used + n) ts)"

definition rtmp_chunk :: "addr \<Rightarrow> (u16 \<times> u16) option \<Rightarrow> network_tuple list \<Rightarrow> rtmp list" where
  "rtmp_chunk sender rng tuples =
     (let base = 4 + (if rng \<noteq> None then 6 else 3) in rtmp_chunk_loop sender rng base [] base tuples)"

definition rtmp_data :: "port \<Rightarrow> dest \<Rightarrow> addr \<Rightarrow> u8 \<Rightarrow> network_tuple list \<Rightarrow> emit list" where
  "rtmp_data p dest dst dst_socket tuples =
     (case port_addr p of
        None \<Rightarrow> []
      | Some sender \<Rightarrow>
          let rng = then_some (port_extended p) (p_range p)
          in map (\<lambda>r. EmitOn (p_id p) dest
                  (datagram sender RTMP_SOCKET dst dst_socket (rtmp_ddp_type r) (rtmp_encode r)))
               (rtmp_chunk sender rng tuples))"

definition advertisable :: "tables \<Rightarrow> port list \<Rightarrow> network_tuple list \<Rightarrow> network_tuple list" where
  "advertisable T ports tuples =
     filter (\<lambda>t. (\<exists>p \<in> set ports. p_range p = nt_range t)
              \<or> (case zones_of T (fst (nt_range t)) of Some z \<Rightarrow> zl_complete z | None \<Rightarrow> False)) tuples"

text \<open>\<open>no_port\<close>: the first port ID that no port holds, in the order of the range.\<close>

definition no_port :: "port list \<Rightarrow> port_id" where
  "no_port ports =
     (case find (\<lambda>i. \<forall>p \<in> set ports. p_id p \<noteq> i) (map word_of_nat [0..<256]) of
        Some i \<Rightarrow> i
      | None \<Rightarrow> 255)"

definition data_to :: "port \<Rightarrow> ddp \<Rightarrow> network_tuple list \<Rightarrow> emit list" where
  "data_to p d tuples = rtmp_data p (DNode (a_node (d_src d))) (d_src d) (d_src_socket d) tuples"

fun learn_tuples :: "port_id \<Rightarrow> addr \<Rightarrow> instant \<Rightarrow> network_tuple list \<Rightarrow> tables \<Rightarrow> tables \<times> route_change list" where
  "learn_tuples i sender now [] T = (T, [])"
| "learn_tuples i sender now (t # ts) T =
     (let (T, c) = learn t (TPort i) sender now T;
          (T, cs) = learn_tuples i sender now ts T
      in (T, c @ cs))"

type_synonym served = "tables \<times> emit list \<times> route_change list"

definition local_rtmp :: "port \<Rightarrow> port list \<Rightarrow> ddp \<Rightarrow> rtmp \<Rightarrow> instant \<Rightarrow> tables \<Rightarrow> served" where
  "local_rtmp p ports d r now T =
     (case r of
        RtmpData sender _ tuples \<Rightarrow>
          if Some sender = port_addr p then (T, [], [])
          else (let (T, chs) = learn_tuples (p_id p) sender now tuples T in (T, [], chs))
      | RtmpRequest \<Rightarrow> (T, data_to p d [], [])
      | RtmpRdr split_horizon \<Rightarrow>
          let tuples = tuples_for (if split_horizon then p_id p else no_port ports) T
          in (T, data_to p d (advertisable T ports tuples), []))"

section \<open>ZIP\<close>

definition pair_bytes :: "rstring \<Rightarrow> nat" where
  "pair_bytes name = 2 + 1 + min (utf8_len name) 32"

text \<open>One network's list over Extended Replies; the batch being filled and the bytes in it.\<close>

fun ext_pages_loop :: "u8 option \<Rightarrow> (u16 \<times> rstring) list \<Rightarrow> nat \<Rightarrow> (u16 \<times> rstring) list \<Rightarrow> zip list" where
  "ext_pages_loop tot batch used [] = (if batch \<noteq> [] then [ZipReply batch tot] else [])"
| "ext_pages_loop tot batch used (p # ps) =
     (let n = pair_bytes (snd p) in
      if used + n > DDP_MAX \<and> batch \<noteq> []
      then ZipReply batch tot # ext_pages_loop tot [p] (ZIP_HEAD + n) ps
      else ext_pages_loop tot (batch @ [p]) (used + n) ps)"

definition ext_pages :: "(u16 \<times> rstring) list \<Rightarrow> zip list" where
  "ext_pages pairs =
     (let tot = Some (if length pairs < 256 then word_of_nat (length pairs) else 255)
      in ext_pages_loop tot [] ZIP_HEAD pairs)"

definition complete_zones :: "tables \<Rightarrow> u16 \<Rightarrow> rstring list option" where
  "complete_zones T net =
     (case zones_of T net of Some z \<Rightarrow> if zl_complete z then Some (zl_names z) else None | None \<Rightarrow> None)"

fun query_loop :: "tables \<Rightarrow> (u16 \<times> rstring) list \<Rightarrow> nat \<Rightarrow> u16 list \<Rightarrow> zip list" where
  "query_loop T batch used [] = (if batch \<noteq> [] then [ZipReply batch None] else [])"
| "query_loop T batch used (net # nets) =
     (case complete_zones T net of
        None \<Rightarrow> query_loop T batch used nets
      | Some names \<Rightarrow>
          let pairs = map (Pair net) names;
              n = sum_list (map (\<lambda>(_, nm). pair_bytes nm) pairs);
              alone = (ZIP_HEAD + n > DDP_MAX);
              flush = (batch \<noteq> [] \<and> (alone \<or> used + n > DDP_MAX));
              out = (if flush then [ZipReply batch None] else []);
              batch = (if flush then [] else batch);
              used = (if flush then ZIP_HEAD else used)
          in if alone then out @ ext_pages pairs @ query_loop T batch used nets
             else out @ query_loop T (batch @ pairs) (used + n) nets)"

definition query_replies :: "tables \<Rightarrow> u16 list \<Rightarrow> zip list" where
  "query_replies T nets = query_loop T [] ZIP_HEAD nets"

definition query_reply :: "port \<Rightarrow> ddp \<Rightarrow> u16 list \<Rightarrow> tables \<Rightarrow> emit list" where
  "query_reply p d nets T =
     List.map_filter (\<lambda>r. map_option EmitRoute
         (from_port p ZIP_SOCKET (d_src d) (d_src_socket d) DDP_ZIP (zip_encode r)))
       (query_replies T nets)"

fun store_zones :: "nat option \<Rightarrow> (u16 \<times> rstring list) list \<Rightarrow> tables \<Rightarrow> tables \<times> route_change list" where
  "store_zones expected [] T = (T, [])"
| "store_zones expected ((net, names) # gs) T =
     (let (T, c) = add_zones net names expected T;
          (T, cs) = store_zones expected gs T
      in (T, c @ cs))"

definition learn_zones :: "(u16 \<times> rstring) list \<Rightarrow> u8 option \<Rightarrow> tables \<Rightarrow> tables \<times> route_change list" where
  "learn_zones zones tot T = store_zones (map_option unat tot) (grouped zones) T"

definition net_info_body :: "port \<Rightarrow> rstring \<Rightarrow> zip" where
  "net_info_body p zone =
     (let valid = (zone \<noteq> [] \<and> has_zone p zone);
          flags = (0 :: u8);
          flags = (if \<not> valid then flags OR 0x80 else flags);
          flags = (if length (p_zones p) = 1 then flags OR 0x20 else flags);
          effective = (if valid then zone else default_zone p);
          multicast = (if port_extended p then Some (zone_multicast effective) else None);
          flags = (if port_extended p then flags else flags OR 0x40)
      in ZipNetInfoReply flags (p_range p) zone multicast (then_some (\<not> valid) (default_zone p)))"

definition net_info_dest :: "port \<Rightarrow> ddp \<Rightarrow> dest" where
  "net_info_dest p d =
     (if fst (p_range p) \<le> a_net (d_src d) \<and> a_net (d_src d) \<le> snd (p_range p)
      then DNode (a_node (d_src d)) else DBroadcast)"

definition net_info_reply :: "port \<Rightarrow> ddp \<Rightarrow> rstring \<Rightarrow> emit option" where
  "net_info_reply p d zone =
     map_option (EmitOn (p_id p) (net_info_dest p d))
       (from_port p ZIP_SOCKET (d_src d) (d_src_socket d) DDP_ZIP (zip_encode (net_info_body p zone)))"

definition local_zip :: "port \<Rightarrow> ddp \<Rightarrow> zip \<Rightarrow> tables \<Rightarrow> served" where
  "local_zip p d z T =
     (case z of
        ZipQuery nets \<Rightarrow> (T, query_reply p d nets T, [])
      | ZipReply zones tot \<Rightarrow> (let (T, chs) = learn_zones zones tot T in (T, [], chs))
      | ZipGetNetInfo zone \<Rightarrow> (T, (case net_info_reply p d zone of Some e \<Rightarrow> [e] | None \<Rightarrow> []), [])
      | ZipNetInfoReply _ _ _ _ _ \<Rightarrow> (T, [], [])
      | ZipNotify \<Rightarrow> (T, [], []))"

text \<open>The names that fit one ATP response.\<close>

fun fit_names :: "nat \<Rightarrow> rstring list \<Rightarrow> rstring list" where
  "fit_names used [] = []"
| "fit_names used (n # ns) =
     (let used = used + (1 + min (utf8_len n) 32) in if used > ATP_MAX then [] else n # fit_names used ns)"

definition zone_page :: "rstring list \<Rightarrow> u16 \<Rightarrow> bool \<times> rstring list" where
  "zone_page every start =
     (let rest = (case get_from every (unat start - 1) of Some r \<Rightarrow> r | None \<Rightarrow> []);
          names = fit_names 0 rest
      in (length names = length rest, names))"

definition zone_list_reply :: "port \<Rightarrow> ddp \<Rightarrow> atp \<Rightarrow> tables \<Rightarrow> emit option" where
  "zone_list_reply p d a T =
     (if t_func a \<noteq> Req then None
      else do {
        z \<leftarrow> zip_atp_parse_request (t_user_bytes a);
        (every, start) \<leftarrow> (case z of
            GetZoneList start \<Rightarrow> Some (all_zones T, start)
          | GetLocalZones start \<Rightarrow> Some (p_zones p, start)
          | GetMyZone \<Rightarrow> Some ([default_zone p], 1)
          | ZReply _ _ \<Rightarrow> None);
        let (fin, names) = zone_page every start;
        let (user, dat) = reply_parts fin names;
        d' \<leftarrow> from_port p ZIP_SOCKET (d_src d) (d_src_socket d) DDP_ATP
               (atp_encode (atp_response (t_tid a) 0 True False user dat));
        Some (EmitRoute d') })"

section \<open>NBP\<close>

definition direct_port :: "port list \<Rightarrow> target \<Rightarrow> u16 \<Rightarrow> port option" where
  "direct_port ports tgt start =
     (case tgt of
        TPort i \<Rightarrow> find (\<lambda>p. p_id p = i \<and> fst (p_range p) = start) ports
      | TPeer _ \<Rightarrow> None)"

definition retarget :: "nbp \<Rightarrow> nbp_func \<Rightarrow> rstring \<Rightarrow> nbp" where
  "retarget n func zone =
     \<lparr>n_func = func, n_id = n_id n, n_tuples = map (\<lambda>t. t\<lparr>nb_zone := zone\<rparr>) (n_tuples n)\<rparr>"

definition lkup :: "port \<Rightarrow> nbp \<Rightarrow> rstring \<Rightarrow> emit option" where
  "lkup q n zone =
     map_option (EmitOn (p_id q) (DZone zone))
       (from_port q NBP_SOCKET (mk_addr 0 255) NBP_SOCKET DDP_NBP (nbp_encode (retarget n LkUp zone)))"

definition fwd_req :: "ddp \<Rightarrow> nbp \<Rightarrow> u16 \<Rightarrow> rstring \<Rightarrow> emit" where
  "fwd_req d n start zone =
     EmitRoute (datagram (d_src d) (d_src_socket d) (mk_addr start 0) NBP_SOCKET DDP_NBP
       (nbp_encode (retarget n FwdReq zone)))"

definition nbp_reply :: "local \<Rightarrow> port \<Rightarrow> nbp \<Rightarrow> nbp_tuple \<Rightarrow> emit option" where
  "nbp_reply lo p n t =
     (let obj = (nb_object t = lit ''='' \<or> eq_ignore_ascii_case (nb_object t) (lo_name lo));
          typ = (nb_typ t = lit ''='' \<or> eq_ignore_ascii_case (nb_typ t) ROUTER_TYPE);
          zone = (nb_zone t = [] \<or> nb_zone t = lit ''*'' \<or> has_zone p (nb_zone t))
      in if \<not> (obj \<and> typ \<and> zone) then None
         else do {
           addr \<leftarrow> port_addr p;
           let body = \<lparr>n_func = LkUpReply, n_id = n_id n,
                       n_tuples = [\<lparr>nb_addr = addr, nb_socket = ROUTER_SOCKET, nb_enumerator = 0,
                                    nb_object = lo_name lo, nb_typ = ROUTER_TYPE, nb_zone = default_zone p\<rparr>]\<rparr>;
           map_option EmitRoute
             (from_port p NBP_SOCKET (nb_addr t) (nb_socket t) DDP_NBP (nbp_encode body)) })"

definition the_list :: "'a option \<Rightarrow> 'a list" where
  "the_list x = (case x of Some y \<Rightarrow> [y] | None \<Rightarrow> [])"

definition wanted_zone :: "port \<Rightarrow> nbp_tuple \<Rightarrow> rstring" where
  "wanted_zone p t = (if nb_zone t = [] \<or> nb_zone t = lit ''*'' then default_zone p else nb_zone t)"

definition local_nbp :: "local \<Rightarrow> port \<Rightarrow> port list \<Rightarrow> ddp \<Rightarrow> nbp \<Rightarrow> tables \<Rightarrow> emit list" where
  "local_nbp lo p ports d n T =
     (case n_tuples n of
        [] \<Rightarrow> []
      | t # _ \<Rightarrow>
          let zone = wanted_zone p t;
              back = the_list (nbp_reply lo p n t)
          in case n_func n of
               BrRq \<Rightarrow>
                 concat (map (\<lambda>(start, tgt). case direct_port ports tgt start of
                                Some q \<Rightarrow> the_list (lkup q n zone)
                              | None \<Rightarrow> [fwd_req d n start zone]) (nets_in_zone zone T)) @ back
             | FwdReq \<Rightarrow>
                 concat (map (\<lambda>q. the_list (lkup q n zone)) (filter (\<lambda>q. has_zone q zone) ports)) @ back
             | LkUp \<Rightarrow> back
             | LkUpReply \<Rightarrow> [])"

section \<open>Echo\<close>

definition echo_reply :: "port \<Rightarrow> ddp \<Rightarrow> aep \<Rightarrow> emit option" where
  "echo_reply p d a =
     (if ae_func a \<noteq> EchoRequest then None
      else map_option EmitRoute
        (from_port p AEP_SOCKET (d_src d) (d_src_socket d) DDP_AEP
           (aep_encode \<lparr>ae_func = EchoReply, ae_data = ae_data a\<rparr>)))"

section \<open>A datagram for this router\<close>

definition handle ::
    "local \<Rightarrow> port option \<Rightarrow> port \<Rightarrow> port list \<Rightarrow> ddp \<Rightarrow> ddp_body \<Rightarrow> instant \<Rightarrow> tables \<Rightarrow> served" where
  "handle lo arrived_on concerning ports d body now T =
     (let here = (case arrived_on of Some p \<Rightarrow> p | None \<Rightarrow> concerning) in
      case body of
        BRtmp r \<Rightarrow>
          if d_dst_socket d = RTMP_SOCKET then
            (case arrived_on of
               Some p \<Rightarrow> if p_id p = p_id concerning then local_rtmp p ports d r now T else (T, [], [])
             | None \<Rightarrow> (T, [], []))
          else (T, [], [])
      | BZip z \<Rightarrow> if d_dst_socket d = ZIP_SOCKET then local_zip here d z T else (T, [], [])
      | BAtp a \<Rightarrow>
          if d_dst_socket d = ZIP_SOCKET then (T, the_list (zone_list_reply here d a T), []) else (T, [], [])
      | BNbp n \<Rightarrow>
          if d_dst_socket d = NBP_SOCKET then (T, local_nbp lo here ports d n T, []) else (T, [], [])
      | BAep a \<Rightarrow>
          if d_dst_socket d = AEP_SOCKET then (T, the_list (echo_reply concerning d a), []) else (T, [], [])
      | BUnknownDdp \<Rightarrow> (T, [], []))"

section \<open>Timers\<close>

text \<open>One Query per next-hop router and batch of at most 255 networks.\<close>

definition owed :: "tables \<Rightarrow> ((port_id \<times> addr) \<times> u16 list) list" where
  "owed T =
     grouped (List.map_filter (\<lambda>r. case rt_target r of TPort i \<Rightarrow> Some ((i, rt_next r), rt_start r) | TPeer _ \<Rightarrow> None)
       (zoneless T))"

definition zip_queries :: "port list \<Rightarrow> tables \<Rightarrow> emit list" where
  "zip_queries ports T =
     concat (map (\<lambda>((i, nxt), nets).
       case find (\<lambda>p. p_id p = i) ports of
         None \<Rightarrow> []
       | Some p \<Rightarrow>
           List.map_filter (\<lambda>batch. map_option (EmitOn i (DNode (a_node nxt)))
               (from_port p ZIP_SOCKET nxt ZIP_SOCKET DDP_ZIP (zip_encode (ZipQuery batch))))
             (chunks 255 nets)) (owed T))"

definition beacon :: "tables \<Rightarrow> port list \<Rightarrow> port \<Rightarrow> emit list" where
  "beacon T ports p =
     rtmp_data p DBroadcast (mk_addr (fst (p_range p)) 255) RTMP_SOCKET
       (advertisable T ports (tuples_for (p_id p) T))"

definition local_tick :: "port list \<Rightarrow> tables \<Rightarrow> instant \<Rightarrow> local \<Rightarrow> local \<times> emit list" where
  "local_tick ports T now lo =
     (let (lo, a) = (if due (lo_last_beacon lo) now RTMP_INTERVAL
                     then (lo\<lparr>lo_last_beacon := Some now\<rparr>,
                           concat (map (beacon T ports) (filter (\<lambda>p. p_node p \<noteq> None) ports)))
                     else (lo, []));
          (lo, b) = (if due (lo_last_query lo) now ZIP_QUERY_INTERVAL
                     then (lo\<lparr>lo_last_query := Some now\<rparr>, zip_queries ports T)
                     else (lo, []))
      in (lo, a @ b))"

end
