(* ===== verification/Node_Client.thy ===== *)
theory Node_Client
  imports Node Session
begin

text \<open>
  The questions of \<open>src/src/node.rs\<close>: the echo a ping matches, and the walk through a router's zone list,
  one page a transaction.  What came back for a page, after its retries, is the parameter \<open>ask\<close>.
\<close>

section \<open>Echo\<close>

definition u32_to_be :: "u32 \<Rightarrow> bytes" where
  "u32_to_be n = [ucast (drop_bit 24 n), ucast (drop_bit 16 n), ucast (drop_bit 8 n), ucast n]"

definition u32_from_be :: "u8 \<Rightarrow> u8 \<Rightarrow> u8 \<Rightarrow> u8 \<Rightarrow> u32" where
  "u32_from_be a b c d =
     push_bit 24 (ucast a) OR push_bit 16 (ucast b) OR push_bit 8 (ucast c) OR ucast d"

definition u32_at :: "bytes \<Rightarrow> nat \<Rightarrow> u32 option" where
  "u32_at p i =
     do { h \<leftarrow> get_range p i (i + 4); Some (u32_from_be (h ! 0) (h ! 1) (h ! 2) (h ! 3)) }"

definition echo_data :: "u32 \<Rightarrow> u32 \<Rightarrow> bytes" where
  "echo_data magic seq = u32_to_be magic @ u32_to_be seq"

definition echo_match :: "packet \<Rightarrow> u32 \<Rightarrow> (addr \<times> u32) option" where
  "echo_match p magic =
     (case pk_body p of
        BDdp d (BAep a) \<Rightarrow>
          if ae_func a \<noteq> EchoReply then None
          else do {
            m \<leftarrow> u32_at (ae_data a) 0;
            seq \<leftarrow> u32_at (ae_data a) 4;
            then_some (m = magic) (d_src d, seq) }
      | _ \<Rightarrow> None)"

lemma u32_from_to_be [simp]:
  "u32_from_be (ucast (drop_bit 24 n)) (ucast (drop_bit 16 n)) (ucast (drop_bit 8 n)) (ucast n) = n"
proof (rule bit_word_eqI)
  fix i assume i: "i < LENGTH(32)"
  consider "i < 8" | "8 \<le> i" "i < 16" | "16 \<le> i" "i < 24" | "24 \<le> i" by linarith
  then show "bit (u32_from_be (ucast (drop_bit 24 n)) (ucast (drop_bit 16 n)) (ucast (drop_bit 8 n)) (ucast n)) i
      = bit n i"
    using i by cases (auto simp: u32_from_be_def bit_simps)
qed

lemma u32_at_data:
  "u32_at (echo_data magic seq) 0 = Some magic" "u32_at (echo_data magic seq) 4 = Some seq"
  by (simp_all add: u32_at_def echo_data_def u32_to_be_def get_range_def)

section \<open>The zone list\<close>

definition MAX_ZONE_PAGES :: nat where "MAX_ZONE_PAGES = 1000"

definition zone_list_request :: "u16 \<Rightarrow> u16 \<Rightarrow> atp" where
  "zone_list_request tid start = atp_request tid 1 None ([8, 0] @ u16_to_be start) []"

definition next_start :: "u16 \<Rightarrow> zip_atp \<Rightarrow> u16 option" where
  "next_start start reply =
     (case reply of
        ZReply fin zones \<Rightarrow>
          if \<not> fin \<and> zones \<noteq> [] then
            (let n = unat start + unat (word_of_nat (length zones) :: u16)
             in if n < 65536 then Some (word_of_nat n) else None)
          else None
      | _ \<Rightarrow> None)"

definition zone_reply_matches :: "packet \<Rightarrow> addr \<Rightarrow> u16 \<Rightarrow> bool" where
  "zone_reply_matches p router tid =
     (case pk_body p of
        BDdp d (BAtp a) \<Rightarrow> d_src d = router \<and> t_func a = Resp \<and> t_tid a = tid
      | _ \<Rightarrow> False)"

definition page_names :: "zip_atp \<Rightarrow> rstring list" where
  "page_names reply = (case reply of ZReply _ names \<Rightarrow> names | _ \<Rightarrow> [])"

fun zone_walk ::
    "(u16 \<Rightarrow> u16 \<Rightarrow> zip_atp option) \<Rightarrow> nat \<Rightarrow> u16 \<Rightarrow> u16 \<Rightarrow> rstring list \<Rightarrow> rstring list option" where
  "zone_walk ask 0 tid start zones = Some zones"
| "zone_walk ask (Suc pages) tid start zones =
     (let tid = tid + 1 in
      case ask tid start of
        None \<Rightarrow> None
      | Some reply \<Rightarrow>
          let zones = push_new zones (page_names reply) in
          case next_start start reply of
            Some nxt \<Rightarrow> zone_walk ask pages tid nxt zones
          | None \<Rightarrow> Some zones)"

definition node_zone_list :: "(u16 \<Rightarrow> u16 \<Rightarrow> zip_atp option) \<Rightarrow> addr option \<Rightarrow> u16 \<Rightarrow> rstring list option" where
  "node_zone_list ask router tid =
     (case router of None \<Rightarrow> Some [] | Some _ \<Rightarrow> zone_walk ask MAX_ZONE_PAGES tid 1 [])"

end
