(* ===== verification/Service_Pages.thy ===== *)
theory Service_Pages
  imports Local_Services Routing_Properties Port_Properties Node_Client
begin

text \<open>
  The lists a router answers with, cut into packets: RTMP Data, ZIP Replies and the pages of a zone list.
  Nothing is lost, repeated or reordered, nothing exceeds a DDP datagram, and the reader that follows
  the pages ends with the whole list.
\<close>

section \<open>RTMP Data\<close>

fun rtmp_tuples :: "rtmp \<Rightarrow> network_tuple list" where
  "rtmp_tuples (RtmpData _ _ ts) = ts"
| "rtmp_tuples _ = []"

definition wire_size :: "network_tuple \<Rightarrow> nat" where
  "wire_size t = (if nt_extended t then 6 else 3)"

definition rtmp_base :: "(u16 \<times> u16) option \<Rightarrow> nat" where
  "rtmp_base rng = 4 + (if rng \<noteq> None then 6 else 3)"

lemma length_rtmp_data:
  "length (rtmp_encode (RtmpData sender rng ts)) = rtmp_base rng + sum_list (map wire_size ts)"
proof -
  have "length (concat (map (network_tuple_encode_with RTMP_TRAILER) ts)) = sum_list (map wire_size ts)"
    by (induction ts) (simp_all add: wire_size_def length_tuple_encode)
  then show ?thesis
    by (cases rng) (simp_all add: rtmp_base_def rtmp_first_def length_tuple_encode)
qed

lemma rtmp_chunk_loop_concat:
  "concat (map rtmp_tuples (rtmp_chunk_loop sender rng base batch used ts)) = batch @ ts"
  by (induction sender rng base batch used ts rule: rtmp_chunk_loop.induct) (simp_all add: Let_def)

lemma rtmp_chunk_loop_nonempty: "rtmp_chunk_loop sender rng base batch used ts \<noteq> []"
  by (induction sender rng base batch used ts rule: rtmp_chunk_loop.induct) (simp_all add: Let_def)

lemma rtmp_chunk_loop_data:
  "r \<in> set (rtmp_chunk_loop sender rng base batch used ts) \<Longrightarrow> \<exists>us. r = RtmpData sender rng us"
  by (induction sender rng base batch used ts rule: rtmp_chunk_loop.induct) (auto simp: Let_def split: if_splits)

lemma rtmp_chunk_loop_Cons:
  "rtmp_chunk_loop sender rng base batch used (t # ts) =
     (if used + wire_size t > DDP_MAX \<and> batch \<noteq> []
      then RtmpData sender rng batch # rtmp_chunk_loop sender rng base [t] (base + wire_size t) ts
      else rtmp_chunk_loop sender rng base (batch @ [t]) (used + wire_size t) ts)"
  unfolding wire_size_def rtmp_chunk_loop.simps Let_def by (rule refl)

lemma rtmp_chunk_loop_fits:
  assumes "base = rtmp_base rng" "used = base + sum_list (map wire_size batch)" "used \<le> DDP_MAX"
    and "r \<in> set (rtmp_chunk_loop sender rng base batch used ts)"
  shows "length (rtmp_encode r) \<le> DDP_MAX"
  using assms(2-)
proof (induction ts arbitrary: batch used)
  case Nil
  with assms(1) show ?case by (simp add: length_rtmp_data del: rtmp_encode.simps)
next
  case (Cons t ts)
  have small: "base + wire_size t \<le> DDP_MAX"
    by (simp add: assms(1) rtmp_base_def wire_size_def DDP_MAX_def)
  show ?case
  proof (cases "used + wire_size t > DDP_MAX \<and> batch \<noteq> []")
    case True
    from True Cons.prems(3) consider "r = RtmpData sender rng batch"
      | "r \<in> set (rtmp_chunk_loop sender rng base [t] (base + wire_size t) ts)"
      unfolding rtmp_chunk_loop_Cons by auto
    then show ?thesis
    proof cases
      case 1
      with Cons.prems assms(1) show ?thesis by (simp add: length_rtmp_data del: rtmp_encode.simps)
    next
      case 2
      show ?thesis by (rule Cons.IH [OF _ small 2]) simp
    qed
  next
    case False
    then have "used + wire_size t \<le> DDP_MAX"
      using small Cons.prems(1) by (cases "batch = []") simp_all
    moreover have "r \<in> set (rtmp_chunk_loop sender rng base (batch @ [t]) (used + wire_size t) ts)"
      using Cons.prems(3) False unfolding rtmp_chunk_loop_Cons by (simp only: if_False)
    ultimately show ?thesis by (intro Cons.IH) (use Cons.prems(1) in simp_all)
  qed
qed

lemma rtmp_chunk_unfold: "rtmp_chunk sender rng ts = rtmp_chunk_loop sender rng (rtmp_base rng) [] (rtmp_base rng) ts"
  unfolding rtmp_chunk_def rtmp_base_def Let_def by (rule refl)

lemma rtmp_chunk_exact:
  "concat (map rtmp_tuples (rtmp_chunk sender rng ts)) = ts" "rtmp_chunk sender rng ts \<noteq> []"
  "r \<in> set (rtmp_chunk sender rng ts) \<Longrightarrow> \<exists>us. r = RtmpData sender rng us"
  "r \<in> set (rtmp_chunk sender rng ts) \<Longrightarrow> length (rtmp_encode r) \<le> 586"
proof -
  show "concat (map rtmp_tuples (rtmp_chunk sender rng ts)) = ts" "rtmp_chunk sender rng ts \<noteq> []"
    "r \<in> set (rtmp_chunk sender rng ts) \<Longrightarrow> \<exists>us. r = RtmpData sender rng us"
    unfolding rtmp_chunk_unfold
    by (simp_all add: rtmp_chunk_loop_concat rtmp_chunk_loop_nonempty rtmp_chunk_loop_data)
  have "rtmp_base rng \<le> DDP_MAX" by (simp add: rtmp_base_def DDP_MAX_def)
  moreover assume "r \<in> set (rtmp_chunk sender rng ts)"
  ultimately have "length (rtmp_encode r) \<le> DDP_MAX"
    unfolding rtmp_chunk_unfold by (intro rtmp_chunk_loop_fits) simp_all
  then show "length (rtmp_encode r) \<le> 586" by (simp add: DDP_MAX_def)
qed

section \<open>ZIP Replies\<close>

fun reply_pairs :: "zip \<Rightarrow> (u16 \<times> rstring) list" where
  "reply_pairs (ZipReply zs _) = zs"
| "reply_pairs _ = []"

definition pairs_bytes :: "(u16 \<times> rstring) list \<Rightarrow> nat" where
  "pairs_bytes zs = sum_list (map (\<lambda>z. pair_bytes (snd z)) zs)"

lemma pairs_bytes_simps [simp]:
  "pairs_bytes [] = 0" "pairs_bytes (xs @ ys) = pairs_bytes xs + pairs_bytes ys"
  "pairs_bytes (z # zs) = pair_bytes (snd z) + pairs_bytes zs"
  by (simp_all add: pairs_bytes_def)

lemma length_pair_encode: "length (zone_pair_encode z) \<le> pair_bytes (snd z)"
  using length_le_utf8_len [of "snd z"] by (simp add: zone_pair_encode_def pair_bytes_def)

lemma length_reply: "length (zip_encode (ZipReply zs tot)) \<le> ZIP_HEAD + pairs_bytes zs"
proof -
  have "length (concat (map zone_pair_encode zs)) \<le> pairs_bytes zs"
    by (induction zs) (use length_pair_encode in \<open>auto intro: add_mono\<close>)
  then show ?thesis by (simp add: ZIP_HEAD_def)
qed

lemma pair_fits: "ZIP_HEAD + pair_bytes nm \<le> DDP_MAX"
  by (simp add: ZIP_HEAD_def pair_bytes_def DDP_MAX_def)

definition page_of :: "u8 option \<Rightarrow> zip \<Rightarrow> bool" where
  "page_of tot r \<longleftrightarrow> (\<exists>zs. r = ZipReply zs tot \<and> zs \<noteq> [] \<and> ZIP_HEAD + pairs_bytes zs \<le> DDP_MAX)"

lemma ext_pages_loop_Cons:
  "ext_pages_loop tot batch used (p # ps) =
     (if used + pair_bytes (snd p) > DDP_MAX \<and> batch \<noteq> []
      then ZipReply batch tot # ext_pages_loop tot [p] (ZIP_HEAD + pair_bytes (snd p)) ps
      else ext_pages_loop tot (batch @ [p]) (used + pair_bytes (snd p)) ps)"
  unfolding ext_pages_loop.simps Let_def by (rule refl)

lemma ext_pages_loop_spec:
  assumes "used = ZIP_HEAD + pairs_bytes batch" "used \<le> DDP_MAX"
  shows "concat (map reply_pairs (ext_pages_loop tot batch used ps)) = batch @ ps
    \<and> (\<forall>r \<in> set (ext_pages_loop tot batch used ps). page_of tot r)"
  using assms
proof (induction ps arbitrary: batch used)
  case Nil
  then show ?case by (simp add: page_of_def)
next
  case (Cons p ps)
  note small = pair_fits [of "snd p"]
  show ?case
  proof (cases "used + pair_bytes (snd p) > DDP_MAX \<and> batch \<noteq> []")
    case True
    with Cons.IH [of "ZIP_HEAD + pair_bytes (snd p)" "[p]"] Cons.prems small show ?thesis
      by (simp add: page_of_def ext_pages_loop_Cons del: ext_pages_loop.simps)
  next
    case False
    then have "used + pair_bytes (snd p) \<le> DDP_MAX" using Cons.prems small by (cases "batch = []") auto
    with Cons.IH [of "used + pair_bytes (snd p)" "batch @ [p]"] Cons.prems False show ?thesis
      unfolding ext_pages_loop_Cons by auto
  qed
qed

definition whole :: "tables \<Rightarrow> u16 \<Rightarrow> (u16 \<times> rstring) list" where
  "whole T net = (case complete_zones T net of Some names \<Rightarrow> map (Pair net) names | None \<Rightarrow> [])"

text \<open>A plain Reply holds whole lists; a page of an Extended one announces the size of its list.\<close>

definition proper_reply :: "tables \<Rightarrow> u16 list \<Rightarrow> zip \<Rightarrow> bool" where
  "proper_reply T nets r \<longleftrightarrow>
     (\<exists>ns. set ns \<subseteq> set nets \<and> page_of None r \<and> reply_pairs r = concat (map (whole T) ns))
     \<or> (\<exists>net names t. net \<in> set nets \<and> complete_zones T net = Some names \<and> page_of (Some t) r
          \<and> unat t = min 255 (length names) \<and> fst ` set (reply_pairs r) = {net}
          \<and> ZIP_HEAD + pairs_bytes (whole T net) > DDP_MAX)"

lemma ext_pages_spec:
  assumes "r \<in> set (ext_pages pairs)"
  shows "\<exists>t. page_of (Some t) r \<and> unat t = min 255 (length pairs)" "set (reply_pairs r) \<subseteq> set pairs"
    "reply_pairs r \<noteq> []"
proof -
  note spec = ext_pages_loop_spec [of ZIP_HEAD "[]" "Some (if length pairs < 256 then word_of_nat (length pairs) else 255)" pairs]
  have p: "page_of (Some (if length pairs < 256 then word_of_nat (length pairs) else 255)) r"
    using assms spec by (simp add: ext_pages_def Let_def ZIP_HEAD_def DDP_MAX_def)
  moreover have "unat (if length pairs < 256 then word_of_nat (length pairs) else 255 :: u8) = min 255 (length pairs)"
    by (cases "length pairs < 256") (auto simp: unat_small_u8 simp del: unsigned_of_nat)
  ultimately show "\<exists>t. page_of (Some t) r \<and> unat t = min 255 (length pairs)" by blast
  show "reply_pairs r \<noteq> []" using p by (auto simp: page_of_def)
  have "concat (map reply_pairs (ext_pages pairs)) = pairs"
    using spec by (simp add: ext_pages_def Let_def ZIP_HEAD_def DDP_MAX_def)
  moreover have "set (reply_pairs r) \<subseteq> set (concat (map reply_pairs (ext_pages pairs)))" using assms by auto
  ultimately show "set (reply_pairs r) \<subseteq> set pairs" by simp
qed

lemma concat_ext_pages: "concat (map reply_pairs (ext_pages pairs)) = pairs"
  using ext_pages_loop_spec [of ZIP_HEAD "[]" "Some (if length pairs < 256 then word_of_nat (length pairs) else 255)" pairs]
  by (simp add: ext_pages_def Let_def ZIP_HEAD_def DDP_MAX_def)

lemma whole_Some: "complete_zones T net = Some names \<Longrightarrow> whole T net = map (Pair net) names \<and> names \<noteq> []"
  by (auto simp: whole_def complete_zones_def zl_complete_def split: option.splits if_splits)

lemma query_loop_Cons:
  assumes "complete_zones T net = Some names"
  shows "ZIP_HEAD + pairs_bytes (whole T net) > DDP_MAX \<Longrightarrow>
      query_loop T batch used (net # nets) =
        (if batch \<noteq> [] then ZipReply batch None # ext_pages (whole T net) @ query_loop T [] ZIP_HEAD nets
         else ext_pages (whole T net) @ query_loop T [] used nets)"
    and "ZIP_HEAD + pairs_bytes (whole T net) \<le> DDP_MAX \<Longrightarrow>
      query_loop T batch used (net # nets) =
        (if batch \<noteq> [] \<and> used + pairs_bytes (whole T net) > DDP_MAX
         then ZipReply batch None # query_loop T (whole T net) (ZIP_HEAD + pairs_bytes (whole T net)) nets
         else query_loop T (batch @ whole T net) (used + pairs_bytes (whole T net)) nets)"
proof -
  have n: "sum_list (map (\<lambda>(_, nm). pair_bytes nm) (map (Pair net) names)) = pairs_bytes (whole T net)"
    using whole_Some [OF assms] by (simp add: pairs_bytes_def comp_def)
  show "ZIP_HEAD + pairs_bytes (whole T net) > DDP_MAX \<Longrightarrow>
      query_loop T batch used (net # nets) =
        (if batch \<noteq> [] then ZipReply batch None # ext_pages (whole T net) @ query_loop T [] ZIP_HEAD nets
         else ext_pages (whole T net) @ query_loop T [] used nets)"
    using whole_Some [OF assms] assms n by simp
  show "ZIP_HEAD + pairs_bytes (whole T net) \<le> DDP_MAX \<Longrightarrow>
      query_loop T batch used (net # nets) =
        (if batch \<noteq> [] \<and> used + pairs_bytes (whole T net) > DDP_MAX
         then ZipReply batch None # query_loop T (whole T net) (ZIP_HEAD + pairs_bytes (whole T net)) nets
         else query_loop T (batch @ whole T net) (used + pairs_bytes (whole T net)) nets)"
    using whole_Some [OF assms] assms n by (simp add: Let_def)
qed

definition of_wholes :: "tables \<Rightarrow> u16 list \<Rightarrow> (u16 \<times> rstring) list \<Rightarrow> bool" where
  "of_wholes T nets zs \<longleftrightarrow> (\<exists>ns. set ns \<subseteq> set nets \<and> zs = concat (map (whole T) ns))"

lemma of_wholes:
  "of_wholes T nets []" "net \<in> set nets \<Longrightarrow> of_wholes T nets (whole T net)"
  "of_wholes T nets xs \<Longrightarrow> of_wholes T nets ys \<Longrightarrow> of_wholes T nets (xs @ ys)"
proof -
  show "of_wholes T nets []" unfolding of_wholes_def by (rule exI [of _ "[]"]) simp
  show "net \<in> set nets \<Longrightarrow> of_wholes T nets (whole T net)"
    unfolding of_wholes_def by (rule exI [of _ "[net]"]) simp
  assume "of_wholes T nets xs" "of_wholes T nets ys"
  then obtain ns ms where "set ns \<subseteq> set nets" "xs = concat (map (whole T) ns)"
    "set ms \<subseteq> set nets" "ys = concat (map (whole T) ms)" by (auto simp: of_wholes_def)
  then show "of_wholes T nets (xs @ ys)" unfolding of_wholes_def by (intro exI [of _ "ns @ ms"]) simp
qed

lemma proper_batch:
  "of_wholes T nets zs \<Longrightarrow> zs \<noteq> [] \<Longrightarrow> ZIP_HEAD + pairs_bytes zs \<le> DDP_MAX \<Longrightarrow>
   proper_reply T nets (ZipReply zs None)"
  by (auto simp: proper_reply_def of_wholes_def page_of_def)

lemma proper_ext:
  assumes "complete_zones T net = Some names" "net \<in> set nets" "r \<in> set (ext_pages (whole T net))"
    and "ZIP_HEAD + pairs_bytes (whole T net) > DDP_MAX"
  shows "proper_reply T nets r"
proof -
  from ext_pages_spec(1) [OF assms(3)] whole_Some [OF assms(1)]
  obtain t where t: "page_of (Some t) r" "unat t = min 255 (length names)" by auto
  have "fst ` set (reply_pairs r) = {net}"
    using ext_pages_spec(2,3) [OF assms(3)] whole_Some [OF assms(1)] by (cases "reply_pairs r") auto
  with t assms(1,2,4) show ?thesis unfolding proper_reply_def by blast
qed

lemma query_loop_spec:
  assumes "used = ZIP_HEAD + pairs_bytes batch" "used \<le> DDP_MAX" "of_wholes T N batch" "set nets \<subseteq> set N"
  shows "concat (map reply_pairs (query_loop T batch used nets)) = batch @ concat (map (whole T) nets)
    \<and> (\<forall>r \<in> set (query_loop T batch used nets). proper_reply T N r)"
  using assms
proof (induction nets arbitrary: batch used)
  case Nil
  then show ?case by (simp add: proper_batch)
next
  case (Cons net nets)
  show ?case
  proof (cases "complete_zones T net")
    case None
    with Cons.IH [of used batch] Cons.prems show ?thesis by (simp add: whole_def)
  next
    case (Some names)
    note step = query_loop_Cons [OF Some, of batch used nets]
    have w: "of_wholes T N (whole T net)" and N: "set nets \<subseteq> set N" "net \<in> set N"
      using Cons.prems(4) by (simp_all add: of_wholes)
    have head: "ZIP_HEAD \<le> DDP_MAX" by (simp add: ZIP_HEAD_def DDP_MAX_def)
    show ?thesis
    proof (cases "ZIP_HEAD + pairs_bytes (whole T net) > DDP_MAX")
      case True
      have "concat (map reply_pairs (query_loop T [] ZIP_HEAD nets)) = concat (map (whole T) nets)
          \<and> (\<forall>r \<in> set (query_loop T [] ZIP_HEAD nets). proper_reply T N r)"
        using Cons.IH [of ZIP_HEAD "[]"] N head of_wholes(1) by simp
      then show ?thesis
        using step(1) [OF True] Cons.prems True proper_ext [OF Some N(2)]
        by (auto simp: concat_ext_pages proper_batch)
    next
      case False
      then have small: "ZIP_HEAD + pairs_bytes (whole T net) \<le> DDP_MAX" by simp
      show ?thesis
      proof (cases "batch \<noteq> [] \<and> used + pairs_bytes (whole T net) > DDP_MAX")
        case True
        with step(2) [OF small] Cons.IH [of "ZIP_HEAD + pairs_bytes (whole T net)" "whole T net"]
          Cons.prems small w N
        show ?thesis by (simp add: proper_batch)
      next
        case False
        then have le: "used + pairs_bytes (whole T net) \<le> DDP_MAX"
          using small Cons.prems(1) by (cases "batch = []") simp_all
        from False have "query_loop T batch used (net # nets)
            = query_loop T (batch @ whole T net) (used + pairs_bytes (whole T net)) nets"
          unfolding step(2) [OF small] by (simp only: if_False)
        with Cons.IH [of "used + pairs_bytes (whole T net)" "batch @ whole T net"] Cons.prems le w N
        show ?thesis by (simp add: of_wholes(3))
      qed
    qed
  qed
qed

section \<open>The pages of a zone list\<close>

lemma fit_names_take: "\<exists>k. fit_names used ns = take k ns \<and> k \<le> length ns"
proof (induction ns arbitrary: used)
  case (Cons n ns)
  obtain k where "fit_names (used + (1 + min (utf8_len n) 32)) ns = take k ns" "k \<le> length ns"
    using Cons.IH by blast
  then have "fit_names used (n # ns) = take 0 (n # ns) \<or> fit_names used (n # ns) = take (Suc k) (n # ns)"
    by (simp add: Let_def)
  with \<open>k \<le> length ns\<close> show ?case by (metis Suc_le_mono le0 length_Cons)
qed simp

lemma fit_names_progress: "ns \<noteq> [] \<Longrightarrow> fit_names 0 ns \<noteq> []"
  by (cases ns) (simp_all add: Let_def ATP_MAX_def)

text \<open>Seventeen names of the greatest length fit.\<close>

lemma fit_names_many:
  "used + 33 * k \<le> ATP_MAX \<Longrightarrow> min k (length ns) \<le> length (fit_names used ns)"
proof (induction ns arbitrary: used k)
  case (Cons n ns)
  show ?case
  proof (cases k)
    case (Suc j)
    have "used + (1 + min (utf8_len n) 32) + 33 * j \<le> ATP_MAX" using Cons.prems Suc by simp
    with Cons.IH [OF this] show ?thesis by (simp add: Let_def Suc)
  qed simp
qed simp

lemma fit_names_bytes:
  "used \<le> ATP_MAX \<Longrightarrow> used + length (concat (map put_pstring (fit_names used ns))) \<le> ATP_MAX"
proof (induction ns arbitrary: used)
  case (Cons n ns)
  have "length (put_pstring n) \<le> 1 + min (utf8_len n) 32"
    using length_le_utf8_len [of n] by simp
  with Cons.IH [of "used + (1 + min (utf8_len n) 32)"] Cons.prems show ?case
    by (auto simp: Let_def not_less min_def split: if_splits)
qed simp

lemma zone_page_spec:
  assumes "1 \<le> unat start"
  shows "\<exists>k. zone_page every start = (unat start - 1 + k \<ge> length every, take k (drop (unat start - 1) every))
    \<and> k \<le> length every - (unat start - 1) \<and> min 17 (length every - (unat start - 1)) \<le> k
    \<and> length (concat (map put_pstring (snd (zone_page every start)))) \<le> 578"
proof -
  define rest where "rest = drop (unat start - 1) every"
  have r: "(case get_from every (unat start - 1) of Some r \<Rightarrow> r | None \<Rightarrow> []) = rest"
    by (simp add: get_from_def rest_def)
  obtain k where k: "fit_names 0 rest = take k rest" "k \<le> length rest" using fit_names_take by blast
  have "min 17 (length rest) \<le> length (fit_names 0 rest)"
    by (rule fit_names_many) (simp add: ATP_MAX_def)
  moreover have "length (concat (map put_pstring (fit_names 0 rest))) \<le> 578"
    using fit_names_bytes [of 0 rest] by (simp add: ATP_MAX_def)
  moreover have "zone_page every start = (length (take k rest) = length rest, take k rest)"
    unfolding zone_page_def r by (simp add: k(1) Let_def)
  moreover have "(length (take k rest) = length rest) = (unat start - 1 + k \<ge> length every)"
    using k(2) by (auto simp: rest_def)
  ultimately show ?thesis
    using k by (intro exI [of _ k]) (simp add: rest_def)
qed

text \<open>What the router's answer to the page request is, once decoded again.\<close>

definition served_page :: "port \<Rightarrow> ddp \<Rightarrow> tables \<Rightarrow> u16 \<Rightarrow> u16 \<Rightarrow> zip_atp option" where
  "served_page p d T tid start =
     (case zone_list_reply p d (zone_list_request tid start) T of
        Some (EmitRoute d') \<Rightarrow>
          (case atp_parse (d_data d') of
             Some a \<Rightarrow> if t_func a = Resp \<and> t_tid a = tid then zip_atp_parse_reply (t_user_bytes a) (t_data a) else None
           | None \<Rightarrow> None)
      | _ \<Rightarrow> None)"

lemma served_page_eq:
  assumes "port_addr p \<noteq> None" "\<forall>z \<in> set (all_zones T). wf_name z" "length (all_zones T) < 65536"
  shows "served_page p d T tid start
    = Some (ZReply (fst (zone_page (all_zones T) start)) (snd (zone_page (all_zones T) start)))"
proof -
  obtain fin names where z: "zone_page (all_zones T) start = (fin, names)" by fastforce
  obtain k where "fit_names 0 (case get_from (all_zones T) (unat start - 1) of Some r \<Rightarrow> r | None \<Rightarrow> [])
      = take k (case get_from (all_zones T) (unat start - 1) of Some r \<Rightarrow> r | None \<Rightarrow> [])"
    using fit_names_take by blast
  then have names: "names = take k (drop (unat start - 1) (all_zones T))"
    using z by (auto simp: zone_page_def get_from_def Let_def split: if_splits)
  have wf: "\<forall>n \<in> set names. wf_name n" "length names < 65536"
    using assms(2,3) by (auto simp: names dest: in_set_takeD in_set_dropD)
  obtain user dat where parts: "reply_parts fin names = (user, dat)" by fastforce
  have dec: "zip_atp_parse_reply user dat = Some (ZReply fin names)"
    using zip_atp_reply_parts [OF wf, of fin] parts by simp
  have len: "length user = 4" using parts by (auto simp: reply_parts_def u16_to_be_def)
  have req: "zip_atp_parse_request (t_user_bytes (zone_list_request tid start)) = Some (GetZoneList start)"
    "t_func (zone_list_request tid start) = Req" "t_tid (zone_list_request tid start) = tid"
    by (simp_all add: zone_list_request_def atp_request_def zip_atp_parse_request_def get_to_def u16_to_be_def)
  obtain a where a: "port_addr p = Some a" using assms(1) by auto
  have rsp: "atp_parse (atp_encode (atp_response tid 0 True False user dat)) = Some (atp_response tid 0 True False user dat)"
    using len by (intro atp_parse_encode wf_atp_response)
  have fields: "t_func (atp_response tid 0 True False user dat) = Resp" "t_tid (atp_response tid 0 True False user dat) = tid"
    "t_user_bytes (atp_response tid 0 True False user dat) = user" "t_data (atp_response tid 0 True False user dat) = dat"
    by (simp_all add: atp_response_def Let_def)
  show ?thesis
    by (simp add: served_page_def zone_list_reply_def req z parts from_port_def a datagram_def rsp fields dec)
qed

text \<open>The reader that follows the pages from a router that pages a list.\<close>

lemma zone_walk_pages:
  assumes ask: "\<And>tid start. 1 \<le> unat start \<Longrightarrow>
      ask tid start = Some (ZReply (fst (zone_page every start)) (snd (zone_page every start)))"
    and short: "length every \<le> 65000"
  shows "unat start = 1 + i \<Longrightarrow> i \<le> length every \<Longrightarrow> length every - i < 17 * pages \<Longrightarrow>
    zone_walk ask pages tid start (push_new [] (take i every)) = Some (push_new [] every)"
proof (induction pages arbitrary: tid start i)
  case (Suc pages)
  have push: "push_new (push_new [] xs) ys = push_new [] (xs @ ys)" for xs ys :: "rstring list"
  proof -
    have "push_new (push_new out xs) ys = push_new out (xs @ ys)" for out
      by (induction xs arbitrary: out) simp_all
    then show ?thesis .
  qed
  obtain k where k: "zone_page every start = (i + k \<ge> length every, take k (drop i every))"
    "k \<le> length every - i" "min 17 (length every - i) \<le> k"
    using zone_page_spec [of start every] Suc.prems(1) by auto
  have names: "push_new (push_new [] (take i every)) (take k (drop i every)) = push_new [] (take (i + k) every)"
    by (simp add: push take_add)
  show ?case
  proof (cases "i + k \<ge> length every")
    case True
    then have "take (i + k) every = every" by simp
    with True k(1) ask [of start] Suc.prems(1) names show ?thesis
      by (simp add: next_start_def page_names_def Let_def)
  next
    case False
    then have k17: "17 \<le> k" "k < 65000" using k(2,3) short by auto
    then have ne: "take k (drop i every) \<noteq> []" "length (take k (drop i every)) = k" using k(2) by auto
    have u: "unat (word_of_nat k :: u16) = k" by (rule unat_small_u16) (use k17 in simp)
    have lt: "1 + i + k < 65536" using False short by simp
    have n: "unat (word_of_nat (1 + i + k) :: u16) = 1 + i + k" by (rule unat_small_u16) (use lt in simp)
    have "next_start start (ZReply False (take k (drop i every))) = Some (word_of_nat (1 + i + k))"
      using ne u lt Suc.prems(1) by (simp add: next_start_def Let_def del: unsigned_of_nat of_nat_add of_nat_Suc)
    moreover have "zone_walk ask pages (tid + 1) (word_of_nat (1 + i + k)) (push_new [] (take (i + k) every))
        = Some (push_new [] every)"
      by (rule Suc.IH) (use n False Suc.prems(3) k17 in \<open>simp_all del: unsigned_of_nat of_nat_add of_nat_Suc\<close>)
    ultimately show ?thesis
      using False k(1) ask [of start] Suc.prems(1) names
      by (simp add: page_names_def Let_def del: unsigned_of_nat of_nat_add of_nat_Suc)
  qed
qed simp

lemma no_twice_distinct: "no_twice xs \<Longrightarrow> distinct xs"
  by (induction xs) auto

lemma push_new_distinct: "distinct (out @ xs) \<Longrightarrow> push_new out xs = out @ xs"
  by (induction xs arbitrary: out) auto

section \<open>A Query answered and heard\<close>

definition hear_reply :: "bytes \<Rightarrow> tables \<Rightarrow> tables" where
  "hear_reply bs T = (case zip_parse bs of Some (ZipReply zs tot) \<Rightarrow> fst (learn_zones zs tot T) | _ \<Rightarrow> T)"

lemma grouped_single:
  assumes "xs \<noteq> []" "\<And>x. x \<in> set xs \<Longrightarrow> fst x = k"
  shows "grouped xs = [(k, map snd xs)]"
proof -
  have "push_new [k] ys = [k]" if "\<And>y. y \<in> set ys \<Longrightarrow> y = k" for ys
    using that by (induction ys) auto
  from this [of "map fst (tl xs)"] have keys: "map fst (grouped xs) = [k]"
    using assms by (cases xs) (auto simp: grouped_keys)
  then obtain vs where g: "grouped xs = [(k, vs)]" by (cases "grouped xs") auto
  have "filter (\<lambda>(k', _). k' = k) xs = xs" by (rule filter_True) (use assms(2) in auto)
  moreover have "k \<in> fst ` set xs" using assms by (cases xs) auto
  ultimately show ?thesis using map_of_grouped [of xs k] g by simp
qed

lemma add_names_new: "no_twice (held @ ns) \<Longrightarrow> add_names held ns = held @ ns"
proof (induction ns arbitrary: held)
  case (Cons n ns)
  then have "\<not> (\<exists>h \<in> set held. eq_ignore_ascii_case h n)" by (auto simp: sorted_wrt_append)
  with Cons.IH [of "held @ [n]"] Cons.prems show ?case by simp
qed simp

definition held_names :: "tables \<Rightarrow> u16 \<Rightarrow> rstring list" where
  "held_names T net = (case tb_zones T net of Some (_, z) \<Rightarrow> zl_names z | None \<Rightarrow> [])"

lemma learn_one_list:
  assumes "zs \<noteq> []" "\<And>z. z \<in> set zs \<Longrightarrow> fst z = net" "first_with_start T net = Some r0"
    and "no_twice (held_names T net @ map snd zs)"
  shows "\<exists>e x. tb_zones (fst (learn_zones zs tot T)) net
      = Some (e, \<lparr>zl_names = held_names T net @ map snd zs, zl_expected = x\<rparr>)
    \<and> (tot \<noteq> None \<longrightarrow> x = map_option unat tot) \<and> (tot = None \<longrightarrow> tb_zones T net = None \<longrightarrow> x = None)
    \<and> tb_routes (fst (learn_zones zs tot T)) = tb_routes T"
proof -
  have l: "fst (learn_zones zs tot T) = fst (add_zones net (map snd zs) (map_option unat tot) T)"
    by (simp add: learn_zones_def grouped_single [OF assms(1,2)] case_prod_beta Let_def)
  show ?thesis
  proof (cases "tb_zones T net")
    case None
    with add_names_new [OF assms(4)] assms(3) show ?thesis
      by (auto simp: l add_zones_fst held_names_def zl_default_def Let_def)
  next
    case (Some ez)
    obtain e z where z: "ez = (e, z)" by fastforce
    with Some add_names_new [OF assms(4)] assms(3) show ?thesis
      by (cases z) (auto simp: l add_zones_fst held_names_def Let_def)
  qed
qed

lemma first_with_start_routes: "tb_routes T' = tb_routes T \<Longrightarrow> first_with_start T' s = first_with_start T s"
  by (simp add: first_with_start_def)

lemma hear_page:
  assumes "page_of tot r" "\<And>z. z \<in> set (reply_pairs r) \<Longrightarrow> fst z = net \<and> wf_name (snd z)"
    and "first_with_start T net = Some r0" "no_twice (held_names T net @ map snd (reply_pairs r))"
  shows "\<exists>e x. tb_zones (hear_reply (zip_encode r) T) net
      = Some (e, \<lparr>zl_names = held_names T net @ map snd (reply_pairs r), zl_expected = x\<rparr>)
    \<and> (tot \<noteq> None \<longrightarrow> x = map_option unat tot) \<and> (tot = None \<longrightarrow> tb_zones T net = None \<longrightarrow> x = None)
    \<and> tb_routes (hear_reply (zip_encode r) T) = tb_routes T"
proof -
  obtain zs where zs: "r = ZipReply zs tot" "zs \<noteq> []" "ZIP_HEAD + pairs_bytes zs \<le> DDP_MAX"
    using assms(1) by (auto simp: page_of_def)
  have "3 * length zs \<le> pairs_bytes zs" by (induction zs) (simp_all add: pair_bytes_def)
  with zs(3) have "length zs \<le> 255" by (simp add: ZIP_HEAD_def DDP_MAX_def)
  then have "zip_parse (zip_encode r) = Some (ZipReply zs tot)"
    unfolding zs(1) by (intro zip_parse_encode) (use assms(2) zs(1) in auto)
  then have "hear_reply (zip_encode r) T = fst (learn_zones zs tot T)" by (simp add: hear_reply_def)
  with learn_one_list [OF zs(2) _ assms(3), of tot] assms(2,4) zs(1) show ?thesis by simp
qed

lemma hear_pages:
  assumes "\<forall>r \<in> set rs. page_of (Some t) r" "rs \<noteq> []"
    and "\<forall>r \<in> set rs. \<forall>z \<in> set (reply_pairs r). fst z = net \<and> wf_name (snd z)"
    and "first_with_start T net = Some r0"
    and "no_twice (held_names T net @ map snd (concat (map reply_pairs rs)))"
  shows "\<exists>e. tb_zones (fold (\<lambda>r. hear_reply (zip_encode r)) rs T) net
      = Some (e, \<lparr>zl_names = held_names T net @ map snd (concat (map reply_pairs rs)), zl_expected = Some (unat t)\<rparr>)"
  using assms
proof (induction rs arbitrary: T)
  case (Cons r rs)
  have nt: "no_twice (held_names T net @ map snd (reply_pairs r))"
    using Cons.prems(5) by (auto simp: sorted_wrt_append)
  obtain e where e: "tb_zones (hear_reply (zip_encode r) T) net
      = Some (e, \<lparr>zl_names = held_names T net @ map snd (reply_pairs r), zl_expected = Some (unat t)\<rparr>)"
    "tb_routes (hear_reply (zip_encode r) T) = tb_routes T"
    using hear_page [of "Some t" r net T r0] Cons.prems(1,3,4) nt by auto
  then have h: "held_names (hear_reply (zip_encode r) T) net = held_names T net @ map snd (reply_pairs r)"
    by (simp add: held_names_def)
  show ?case
  proof (cases "rs = []")
    case True
    with e show ?thesis by simp
  next
    case False
    with Cons.IH [of "hear_reply (zip_encode r) T"] Cons.prems h first_with_start_routes [OF e(2)]
    show ?thesis by simp
  qed
qed simp

section \<open>What the answers promise\<close>

text \<open>
  A ZIP Query is answered exactly: the replies, read in order, hold the names of every network asked
  about whose list is complete, in the order asked, and nothing else; no reply exceeds a DDP datagram; a
  plain Reply holds only whole lists, and a list that would not fit one is cut into Extended Replies of
  that network alone, each announcing the size of the whole list.
\<close>

theorem query_exact:
  "concat (map reply_pairs (query_replies T nets)) = concat (map (whole T) nets)
   \<and> (\<forall>r \<in> set (query_replies T nets). proper_reply T nets r \<and> length (zip_encode r) \<le> 586)"
proof -
  have spec: "concat (map reply_pairs (query_replies T nets)) = concat (map (whole T) nets)
    \<and> (\<forall>r \<in> set (query_replies T nets). proper_reply T nets r)"
    using query_loop_spec [of ZIP_HEAD "[]" T nets nets] of_wholes(1)
    by (simp add: query_replies_def ZIP_HEAD_def DDP_MAX_def)
  moreover have "length (zip_encode r) \<le> 586" if p: "proper_reply T nets r" for r
  proof -
    obtain zs tot where "r = ZipReply zs tot" "ZIP_HEAD + pairs_bytes zs \<le> DDP_MAX"
      using p unfolding proper_reply_def page_of_def by blast
    with length_reply [of zs tot] show ?thesis by (simp add: DDP_MAX_def)
  qed
  ultimately show ?thesis by blast
qed

theorem query_exact_witness:
  "concat (map reply_pairs (query_replies example_tables [10, 20])) = [(10, lit ''Lab'')]"
  using conjunct1 [OF query_exact [of example_tables "[10, 20]"]]
  by (simp add: whole_def complete_zones_def zones_of_def example_tables_eval zl_complete_def)

text \<open>
  The zones of a network travel whole: a router that knows a network but none of its zones, and hears
  the replies to its Query for it decoded from their bytes, ends with exactly the list the answering
  router holds, in the same order, and holds it for complete.
\<close>

theorem zip_exchange:
  assumes "complete_zones S net = Some names" "\<forall>n \<in> set names. wf_name n"
    and "\<forall>i j. i < j \<longrightarrow> j < length names \<longrightarrow> \<not> eq_ignore_ascii_case (names ! i) (names ! j)"
    and "\<exists>r \<in> set (tb_routes T). rt_start r = net" "tb_zones T net = None"
  shows "complete_zones (fold (\<lambda>r. hear_reply (zip_encode r)) (query_replies S [net]) T) net = Some names"
proof -
  obtain r0 where r0: "first_with_start T net = Some r0"
    using assms(4) by (cases "first_with_start T net") (auto simp: first_with_start_def find_None_iff)
  have nt: "no_twice names" using assms(3) by (simp add: sorted_wrt_iff_nth_less)
  have held: "held_names T net = []" using assms(5) by (simp add: held_names_def)
  have w: "whole S net = map (Pair net) names" "names \<noteq> []" using whole_Some [OF assms(1)] by auto
  have snd: "map snd (whole S net) = names" by (simp add: w comp_def)
  show ?thesis
  proof (cases "ZIP_HEAD + pairs_bytes (whole S net) > DDP_MAX")
    case True
    have q: "query_replies S [net] = ext_pages (whole S net)"
      using query_loop_Cons(1) [OF assms(1) True, of "[]" ZIP_HEAD "[]"] by (simp add: query_replies_def)
    define t where "t = (if length (whole S net) < 256 then word_of_nat (length (whole S net)) else 255 :: u8)"
    have pages: "\<forall>r \<in> set (ext_pages (whole S net)). page_of (Some t) r"
      using ext_pages_loop_spec [of ZIP_HEAD "[]" "Some t" "whole S net"]
      by (simp add: ext_pages_def t_def Let_def ZIP_HEAD_def DDP_MAX_def)
    have t: "unat t \<le> length names"
    proof (cases "length names < 256")
      case True
      then show ?thesis using unat_small_u8 [of "length names"] by (simp add: t_def w del: unsigned_of_nat)
    qed (simp add: t_def w)
    have "ext_pages (whole S net) \<noteq> []" using concat_ext_pages [of "whole S net"] w by auto
    moreover have "\<forall>r \<in> set (ext_pages (whole S net)). \<forall>z \<in> set (reply_pairs r). fst z = net \<and> wf_name (snd z)"
    proof (intro ballI)
      fix r z assume "r \<in> set (ext_pages (whole S net))" "z \<in> set (reply_pairs r)"
      with ext_pages_spec(2) have "z \<in> set (whole S net)" by blast
      with assms(2) show "fst z = net \<and> wf_name (snd z)" by (auto simp: w)
    qed
    moreover have "no_twice (held_names T net @ map snd (concat (map reply_pairs (ext_pages (whole S net)))))"
      using nt by (simp add: held concat_ext_pages snd)
    ultimately obtain e where "tb_zones (fold (\<lambda>r. hear_reply (zip_encode r)) (query_replies S [net]) T) net
        = Some (e, \<lparr>zl_names = names, zl_expected = Some (unat t)\<rparr>)"
      using hear_pages [OF pages _ _ r0] by (auto simp: held concat_ext_pages snd q)
    with t w show ?thesis by (simp add: complete_zones_def zones_of_def zl_complete_def)
  next
    case False
    then have small: "ZIP_HEAD + pairs_bytes (whole S net) \<le> DDP_MAX" by simp
    have q: "query_replies S [net] = [ZipReply (whole S net) None]"
      using query_loop_Cons(2) [OF assms(1) small, of "[]" ZIP_HEAD "[]"] w by (simp add: query_replies_def)
    have page: "page_of None (ZipReply (whole S net) None)" using w small by (simp add: page_of_def)
    have "\<And>z. z \<in> set (reply_pairs (ZipReply (whole S net) None)) \<Longrightarrow> fst z = net \<and> wf_name (snd z)"
      using assms(2) by (auto simp: w)
    from hear_page [OF page this r0] have "\<exists>e x. tb_zones (hear_reply (zip_encode (ZipReply (whole S net) None)) T) net
        = Some (e, \<lparr>zl_names = names, zl_expected = x\<rparr>) \<and> x = None"
      using assms(5) nt held snd by (auto simp del: zip_encode.simps)
    with w q show ?thesis by (auto simp: complete_zones_def zones_of_def zl_complete_def)
  qed
qed

definition zoneless_tables :: tables where
  "zoneless_tables =
     fst (learn \<lparr>nt_range = (10, 12), nt_extended = True, nt_distance = 0\<rparr> (TPort 3) (mk_addr 30 9) 5 tables_new)"

theorem zip_exchange_witness:
  "complete_zones (fold (\<lambda>r. hear_reply (zip_encode r)) (query_replies example_tables [10]) zoneless_tables) 10
   = Some [lit ''Lab'']"
proof (rule zip_exchange)
  show "complete_zones example_tables 10 = Some [lit ''Lab'']"
    by (simp add: complete_zones_def zones_of_def example_tables_eval zl_complete_def)
  show "\<forall>n \<in> set [lit ''Lab'']. wf_name n" by (simp add: wf_name_def latin1_def lit_def of_char_def)
  show "\<exists>r \<in> set (tb_routes zoneless_tables). rt_start r = 10" "tb_zones zoneless_tables 10 = None"
    by (simp_all add: zoneless_tables_def table_eval)
qed simp

text \<open>
  C33: Walking a router's zone list page by page, each page the ATP response the router makes for the index
  asked, decoded from its bytes, ends with the router's whole list: every zone once, in the router's
  order, well within the pages a node is ready to ask for; every response fits ATP.
\<close>

theorem zone_list_complete:
  assumes "port_addr p \<noteq> None" "\<forall>z \<in> set (all_zones T). wf_name z" "length (all_zones T) < 17000"
  shows "node_zone_list (served_page p d T) (Some router) tid = Some (all_zones T)
    \<and> (\<forall>start. length (concat (map put_pstring (snd (zone_page (all_zones T) start)))) \<le> 578)"
proof
  have nt: "no_twice (all_zones T)" unfolding all_zones_fold by (rule zone_fold(1)) simp
  then have "distinct (all_zones T)" by (rule no_twice_distinct)
  then have push: "push_new [] (all_zones T) = all_zones T" using push_new_distinct [of "[]"] by simp
  have "zone_walk (served_page p d T) 1000 tid 1 (push_new [] (take 0 (all_zones T))) = Some (push_new [] (all_zones T))"
    by (rule zone_walk_pages) (use assms served_page_eq [OF assms(1,2)] in simp_all)
  then show "node_zone_list (served_page p d T) (Some router) tid = Some (all_zones T)"
    by (simp add: node_zone_list_def MAX_ZONE_PAGES_def push)
  show "\<forall>start. length (concat (map put_pstring (snd (zone_page (all_zones T) start)))) \<le> 578"
  proof
    fix start :: u16
    have "zone_page (all_zones T) 0 = zone_page (all_zones T) 1" by (simp add: zone_page_def)
    then show "length (concat (map put_pstring (snd (zone_page (all_zones T) start)))) \<le> 578"
      using zone_page_spec [of 1 "all_zones T"] zone_page_spec [of start "all_zones T"]
      by (cases "start = 0") (auto simp: unat_gt_0 Suc_le_eq)
  qed
qed

theorem zone_list_complete_witness:
  "node_zone_list (served_page example_holder example_ddp example_tables) (Some (mk_addr 10 7)) 1 = Some [lit ''Lab'']"
proof -
  have all: "all_zones example_tables = [lit ''Lab'']"
    by (simp add: all_zones_def starts_def starts_where_def example_tables_eval zl_complete_def)
  have "port_addr example_holder \<noteq> None" by (simp add: port_addr_def example_holder_def)
  moreover have "\<forall>z \<in> set (all_zones example_tables). wf_name z"
    by (simp add: all wf_name_def latin1_def lit_def of_char_def)
  ultimately show ?thesis
    using zone_list_complete [of example_holder example_tables] all by simp
qed

end
