(* ===== verification/Service_Properties.thy ===== *)
theory Service_Properties
  imports Service_Pages Routing_Shares
begin

text \<open>
  What the services promise beyond the cutting of lists: which datagrams may change the tables, what a
  neighbour makes of a beacon, what a booting node makes of a NetInfoReply, and how a lookup reaches
  the cables of its zone.
\<close>

section \<open>Who may change the tables\<close>

lemma learn_tuples_others:
  "filter (\<lambda>r. rt_target r \<noteq> TPort i) (tb_routes (fst (learn_tuples i sender now ts T)))
   = filter (\<lambda>r. rt_target r \<noteq> TPort i) (tb_routes T)"
proof (induction ts arbitrary: T)
  case (Cons t ts)
  have "filter (\<lambda>r. rt_target r \<noteq> TPort i) (tb_routes (fst (learn t (TPort i) sender now T)))
      = filter (\<lambda>r. rt_target r \<noteq> TPort i) (tb_routes T)"
    using others_learn [of "TPort i" t sender now T] by (simp add: others_def)
  with Cons show ?case by (simp add: case_prod_beta Let_def)
qed simp

lemma store_zones_routes: "tb_routes (fst (store_zones e gs T)) = tb_routes T"
  proof (induction gs arbitrary: T)
  case (Cons g gs)
  then show ?case by (cases g) (simp add: case_prod_beta Let_def)
qed simp

lemma handle_cases:
  obtains (rtmp) p sender rng ts where "d_dst_socket d = RTMP_SOCKET" "arrived_on = Some p" "p_id p = p_id q"
      "body = BRtmp (RtmpData sender rng ts)" "Some sender \<noteq> port_addr p"
      "handle lo arrived_on q ports d body now T
        = (fst (learn_tuples (p_id p) sender now ts T), [], snd (learn_tuples (p_id p) sender now ts T))"
    | (zip) zs tot where "d_dst_socket d = ZIP_SOCKET" "body = BZip (ZipReply zs tot)"
      "handle lo arrived_on q ports d body now T = (fst (learn_zones zs tot T), [], snd (learn_zones zs tot T))"
    | (quiet) emits where "handle lo arrived_on q ports d body now T = (T, emits, [])"
proof (cases body)
  case (BRtmp r)
  show thesis
  proof (cases "d_dst_socket d = RTMP_SOCKET \<and> (\<exists>p. arrived_on = Some p \<and> p_id p = p_id q)")
    case True
    then obtain p where p: "d_dst_socket d = RTMP_SOCKET" "arrived_on = Some p" "p_id p = p_id q" by blast
    show thesis
    proof (cases r)
      case (RtmpData sender rng ts)
      with BRtmp p rtmp [of p sender rng ts] quiet [of "[]"] show thesis
        by (cases "Some sender = port_addr p") (simp_all add: handle_def local_rtmp_def case_prod_beta)
    qed (use BRtmp p quiet in \<open>simp_all add: handle_def local_rtmp_def\<close>)
  next
    case False
    with BRtmp quiet [of "[]"] show thesis
      by (cases arrived_on) (auto simp: handle_def split: if_splits)
  qed
next
  case (BZip z)
  show thesis
  proof (cases "d_dst_socket d = ZIP_SOCKET")
    case True
    with BZip zip quiet show thesis
      by (cases z) (simp_all add: handle_def local_zip_def case_prod_beta Let_def)
  qed (use BZip quiet in \<open>simp add: handle_def\<close>)
next
  case (BAtp a)
  show thesis by (cases "d_dst_socket d = ZIP_SOCKET") (use BAtp quiet in \<open>simp_all add: handle_def\<close>)
next
  case (BNbp n)
  show thesis by (cases "d_dst_socket d = NBP_SOCKET") (use BNbp quiet in \<open>simp_all add: handle_def\<close>)
next
  case (BAep a)
  show thesis by (cases "d_dst_socket d = AEP_SOCKET") (use BAep quiet in \<open>simp_all add: handle_def\<close>)
next
  case BUnknownDdp
  with quiet show thesis by (simp add: handle_def)
qed

text \<open>
  A datagram addressed to the router changes the routes only as RTMP Data on the RTMP socket, off the very
  cable it names and not our own beacon heard back, and then only the routes through that port; it
  changes the zones only as a ZIP Reply on the ZIP socket, which leaves every route alone.  Nothing
  that came out of a tunnel or was broadcast at another cable installs a route.
\<close>

theorem service_effects:
  assumes "handle lo arrived_on q ports d body now T = (T', emits, chs)"
  shows "(T' = T \<and> chs = [])
    \<or> (\<exists>p sender rng ts. d_dst_socket d = 1 \<and> arrived_on = Some p \<and> p_id p = p_id q
         \<and> body = BRtmp (RtmpData sender rng ts) \<and> port_addr p \<noteq> Some sender \<and> emits = []
         \<and> filter (\<lambda>r. rt_target r \<noteq> TPort (p_id q)) (tb_routes T')
             = filter (\<lambda>r. rt_target r \<noteq> TPort (p_id q)) (tb_routes T))
    \<or> (\<exists>zs tot. d_dst_socket d = 6 \<and> body = BZip (ZipReply zs tot) \<and> emits = [] \<and> tb_routes T' = tb_routes T)"
proof (cases rule: handle_cases [where d = d and arrived_on = arrived_on and q = q and body = body and lo = lo
      and ports = ports and now = now and T = T])
  case (rtmp p sender rng ts)
  then have "T' = fst (learn_tuples (p_id p) sender now ts T)" "emits = []" using assms by simp_all
  with rtmp learn_tuples_others [of "p_id p" sender now ts T] show ?thesis
    by (auto simp: RTMP_SOCKET_def)
next
  case (zip zs tot)
  then have "T' = fst (learn_zones zs tot T)" "emits = []" using assms by simp_all
  with zip store_zones_routes show ?thesis by (auto simp: ZIP_SOCKET_def learn_zones_def)
next
  case quiet
  with assms show ?thesis by simp
qed

theorem service_effects_witness:
  "fst (handle (local_new (lit ''r'')) None example_holder [example_holder]
     (example_ddp\<lparr>d_dst_socket := 1\<rparr>) (BRtmp (RtmpData (mk_addr 10 9) None [\<lparr>nt_range = (66, 66), nt_extended = False, nt_distance = 0\<rparr>]))
     9 example_tables) = example_tables"
proof -
  let ?d = "example_ddp\<lparr>d_dst_socket := 1\<rparr>"
  let ?b = "BRtmp (RtmpData (mk_addr 10 9) None [\<lparr>nt_range = (66, 66), nt_extended = False, nt_distance = 0\<rparr>])"
  obtain T' emits chs where h: "handle (local_new (lit ''r'')) None example_holder [example_holder] ?d ?b 9 example_tables
      = (T', emits, chs)" by (metis prod_cases3)
  with service_effects [OF h] show ?thesis by auto
qed

section \<open>GetNetInfo\<close>

lemma wf_net_info:
  assumes "wf_name zone" "wf_name (default_zone p)"
  shows "wf_zip (net_info_body p zone)"
proof -
  have flag: "(if one then f OR 0x20 else f) AND 0x80 = f AND (0x80 :: u8)" "(f OR 0x40) AND 0x80 = f AND (0x80 :: u8)"
    for f one by (simp_all add: bit.conj_disj_distrib2)
  show ?thesis
    using assms
    by (cases "zone \<noteq> [] \<and> has_zone p zone"; cases "length (p_zones p) = 1"; cases "port_extended p")
       (simp_all add: net_info_body_def Let_def flag then_some_def)
qed

text \<open>
  What a booting node makes of the router's answer.  Whatever provisional address and zone it asks
  with, the reply, once decoded from its bytes, is accepted by that node: it keeps its address exactly
  when its network lies in the cable's range and is told that range otherwise, it adopts the zone it
  asked for when that is a zone of the cable and the cable's default zone when not, and it learns
  the router's address.  The reply goes to its node when its network is on the cable, else to the
  whole cable.
\<close>

theorem net_info_accepted:
  assumes "port_addr p = Some a" "fst (p_range p) \<le> snd (p_range p)" "wf_name zone" "wf_name (default_zone p)"
  shows "\<exists>d'. net_info_reply p d zone
        = Some (EmitOn (p_id p) (if a_net (d_src d) \<in> {fst (p_range p)..snd (p_range p)}
                                 then DNode (a_node (d_src d)) else DBroadcast) d')
      \<and> (\<forall>pk. pk_body pk = BDdp d' (decode_ddp_body d') \<longrightarrow>
           netinfo_verdict pk (d_src d) zone
             = Some (if a_net (d_src d) \<in> {fst (p_range p)..snd (p_range p)} then Keep else Repick (p_range p),
                     if zone \<noteq> [] \<and> has_zone p zone then zone else default_zone p, a))"
proof -
  define d' where "d' = datagram a ZIP_SOCKET (d_src d) (d_src_socket d) DDP_ZIP (zip_encode (net_info_body p zone))"
  have r: "net_info_reply p d zone = Some (EmitOn (p_id p) (net_info_dest p d) d')"
    by (simp add: net_info_reply_def from_port_def assms(1) d'_def)
  have body: "decode_ddp_body d' = BZip (net_info_body p zone)"
    by (rule decode_ddp_body_encode) (use assms wf_net_info in \<open>simp_all add: d'_def datagram_def\<close>)
  obtain flags mc where b: "net_info_body p zone = ZipNetInfoReply flags (p_range p) zone mc
      (then_some (\<not> (zone \<noteq> [] \<and> has_zone p zone)) (default_zone p))"
    by (simp add: net_info_body_def Let_def)
  have src: "d_src d' = a" "d_dst d' = d_src d" by (simp_all add: d'_def datagram_def)
  show ?thesis
    using r assms(2)
    by (intro exI [of _ d']) (auto simp: net_info_dest_def netinfo_verdict_def body b src then_some_def)
qed

theorem net_info_accepted_witness:
  "\<exists>d'. net_info_reply example_holder example_ddp [] = Some (EmitOn 0 DBroadcast d')
     \<and> netinfo_verdict \<lparr>pk_frame = node_frame (Mac 2 0 0 0 0 1) BROADCAST_MAC DDP (ddp_encode d'),
          pk_body = BDdp d' (decode_ddp_body d')\<rparr> (d_src example_ddp) [] = Some (Repick (10, 12), lit ''Lab'', mk_addr 10 7)"
proof -
  have h: "port_addr example_holder = Some (mk_addr 10 7)" "fst (p_range example_holder) \<le> snd (p_range example_holder)"
    "wf_name []" "wf_name (default_zone example_holder)"
    by (simp_all add: port_addr_def example_holder_def default_zone_def wf_name_def latin1_def lit_def of_char_def)
  from net_info_accepted [OF h, of example_ddp] show ?thesis
    by (auto simp: example_ddp_def example_holder_def default_zone_def)
qed

section \<open>Beacons\<close>

definition hear_beacon :: "local \<Rightarrow> port \<Rightarrow> port list \<Rightarrow> instant \<Rightarrow> emit \<Rightarrow> tables \<Rightarrow> tables" where
  "hear_beacon lo q ports now e T =
     (case e of
        EmitOn _ _ d \<Rightarrow> fst (handle lo (Some q) q ports d (decode_ddp_body d) now T)
      | EmitRoute _ \<Rightarrow> T)"

lemma learn_tuples_append:
  "fst (learn_tuples i s now (ts @ us) T) = fst (learn_tuples i s now us (fst (learn_tuples i s now ts T)))"
  by (induction ts arbitrary: T) (simp_all add: case_prod_beta Let_def)

lemma hear_chunks:
  assumes "port_addr q \<noteq> Some a" "\<forall>r \<in> set rs. \<exists>us. r = RtmpData a rng us"
    and "\<forall>t \<in> set (concat (map rtmp_tuples rs)). wf_tuple t"
  shows "fold (hear_beacon lo q ports now)
      (map (\<lambda>r. EmitOn i dest (datagram a RTMP_SOCKET dst RTMP_SOCKET (rtmp_ddp_type r) (rtmp_encode r))) rs) T
    = fst (learn_tuples (p_id q) a now (concat (map rtmp_tuples rs)) T)"
  using assms
proof (induction rs arbitrary: T)
  case (Cons r rs)
  then obtain us where us: "r = RtmpData a rng us" by auto
  define d where "d = datagram a RTMP_SOCKET dst RTMP_SOCKET (rtmp_ddp_type r) (rtmp_encode r)"
  have "decode_ddp_body d = BRtmp r"
    by (rule decode_ddp_body_encode) (use Cons.prems(3) us in \<open>simp_all add: d_def datagram_def\<close>)
  moreover have "d_dst_socket d = RTMP_SOCKET" by (simp add: d_def datagram_def)
  ultimately have "hear_beacon lo q ports now (EmitOn i dest d) T = fst (learn_tuples (p_id q) a now us T)"
    using Cons.prems(1) us by (auto simp: hear_beacon_def handle_def local_rtmp_def case_prod_beta)
  moreover have "fold (hear_beacon lo q ports now)
      (map (\<lambda>r. EmitOn i dest (datagram a RTMP_SOCKET dst RTMP_SOCKET (rtmp_ddp_type r) (rtmp_encode r))) rs) T'
    = fst (learn_tuples (p_id q) a now (concat (map rtmp_tuples rs)) T')" for T'
    using Cons.IH Cons.prems by simp
  ultimately show ?case by (simp add: d_def us learn_tuples_append)
qed simp

lemma advertisable_iff:
  "t \<in> set (advertisable T ports ts) \<longleftrightarrow> t \<in> set ts
     \<and> ((\<exists>p \<in> set ports. p_range p = nt_range t) \<or> complete_zones T (fst (nt_range t)) \<noteq> None)"
  by (auto simp: advertisable_def complete_zones_def split: option.splits)

text \<open>
  A neighbour on the cable that hears all of a port's beacon packets, decoded from their bytes, has learned
  exactly the tuples the router advertises there, from that router, in order, however many packets
  they took; and what is advertised is split from its horizon and never a network whose zones
  are not all known, our own cables apart.
\<close>

theorem beacon_heard:
  assumes "port_addr p = Some a" "port_addr q \<noteq> Some a"
    and "\<forall>t \<in> set (advertisable T ports (tuples_for (p_id p) T)). wf_tuple t"
  shows "fold (hear_beacon lo q ports' now) (beacon T ports p) T2
      = fst (learn_tuples (p_id q) a now (advertisable T ports (tuples_for (p_id p) T)) T2)
    \<and> (\<forall>t \<in> set (advertisable T ports (tuples_for (p_id p) T)).
        (\<exists>r \<in> set (tb_routes T). rt_range r = nt_range t \<and> rt_target r \<noteq> TPort (p_id p))
        \<and> ((\<exists>p' \<in> set ports. p_range p' = nt_range t) \<or> complete_zones T (fst (nt_range t)) \<noteq> None))"
proof
  define ts where "ts = advertisable T ports (tuples_for (p_id p) T)"
  define rs where "rs = rtmp_chunk a (then_some (port_extended p) (p_range p)) ts"
  have "beacon T ports p = map (\<lambda>r. EmitOn (p_id p) DBroadcast (datagram a RTMP_SOCKET
      (mk_addr (fst (p_range p)) 255) RTMP_SOCKET (rtmp_ddp_type r) (rtmp_encode r))) rs"
    by (simp add: beacon_def rtmp_data_def assms(1) rs_def ts_def Let_def)
  moreover have "concat (map rtmp_tuples rs) = ts" "\<forall>r \<in> set rs. \<exists>us. r = RtmpData a (then_some (port_extended p) (p_range p)) us"
    using rtmp_chunk_exact(1,3) by (simp_all add: rs_def)
  ultimately show "fold (hear_beacon lo q ports' now) (beacon T ports p) T2
      = fst (learn_tuples (p_id q) a now (advertisable T ports (tuples_for (p_id p) T)) T2)"
    using hear_chunks [OF assms(2), of rs] assms(3) by (simp add: ts_def)
  show "\<forall>t \<in> set (advertisable T ports (tuples_for (p_id p) T)).
        (\<exists>r \<in> set (tb_routes T). rt_range r = nt_range t \<and> rt_target r \<noteq> TPort (p_id p))
        \<and> ((\<exists>p' \<in> set ports. p_range p' = nt_range t) \<or> complete_zones T (fst (nt_range t)) \<noteq> None)"
  proof (intro ballI conjI)
    fix t assume t: "t \<in> set (advertisable T ports (tuples_for (p_id p) T))"
    then show "(\<exists>p' \<in> set ports. p_range p' = nt_range t) \<or> complete_zones T (fst (nt_range t)) \<noteq> None"
      by (simp add: advertisable_iff)
    from t obtain s where "tuple_for_start (p_id p) T s = Some t" by (auto simp: advertisable_iff tuples_for_iff)
    then show "\<exists>r \<in> set (tb_routes T). rt_range r = nt_range t \<and> rt_target r \<noteq> TPort (p_id p)"
    proof (cases rule: tuple_for_start_Some)
      case (good r)
      with best_for_start_in [OF good(1)] show ?thesis by (intro bexI [of _ r]) (auto simp: route_tuple_def)
    next
      case (bad r)
      with first_with_start_Some [OF bad(2)] show ?thesis by (intro bexI [of _ r]) (auto simp: route_tuple_def)
    qed
  qed
qed

definition example_port_b :: port where
  "example_port_b = example_holder\<lparr>p_id := 1, p_range := (30, 30), p_kind := KLtoudp, p_zones := [lit ''Annex''], p_node := Some 130\<rparr>"

lemma example_advert:
  "advertisable example_tables [example_holder, example_port_b] (tuples_for 1 example_tables)
   = [\<lparr>nt_range = (10, 12), nt_extended = True, nt_distance = 0\<rparr>]"
  by (simp add: tuples_for_def starts_def starts_where_def example_tables_eval List.map_filter_simps
        tuple_for_start_def best_for_start_def pick_def usable_def takes_over_def route_tuple_def
        advertisable_def example_holder_def example_port_b_def zones_of_def zl_complete_def)

theorem beacon_heard_witness:
  "map rt_range (tb_routes (fold (hear_beacon (local_new []) (example_port_b\<lparr>p_id := 4, p_node := Some 131\<rparr>) [] 9)
     (beacon example_tables [example_holder, example_port_b] example_port_b) tables_new)) = [(10, 12)]"
proof -
  have a: "port_addr example_port_b = Some (mk_addr 30 130)"
    "port_addr (example_port_b\<lparr>p_id := 4, p_node := Some 131\<rparr>) \<noteq> Some (mk_addr 30 130)"
    by (simp_all add: port_addr_def example_port_b_def example_holder_def mk_addr_def)
  have i: "p_id example_port_b = 1" by (simp add: example_port_b_def)
  have w: "\<forall>t \<in> set (advertisable example_tables [example_holder, example_port_b]
      (tuples_for (p_id example_port_b) example_tables)). wf_tuple t"
    unfolding i example_advert by (simp add: wf_tuple_def)
  from conjunct1 [OF beacon_heard [OF a w, of "local_new []" "[]" 9 tables_new]] show ?thesis
    unfolding i example_advert by (simp add: table_eval)
qed

section \<open>Lookups\<close>

lemma wf_retarget: "wf_nbp n \<Longrightarrow> wf_name zone \<Longrightarrow> wf_nbp (retarget n func zone)"
  by (auto simp: wf_nbp_def retarget_def wf_nbp_tuple_def)

lemma decode_nbp: "wf_nbp n \<Longrightarrow> decode_ddp_body (datagram a s b t DDP_NBP (nbp_encode n)) = BNbp n"
  by (rule decode_ddp_body_encode) (simp_all add: datagram_def)

lemma lkup_mem:
  assumes "q \<in> set ports" "has_zone q zone" "port_addr q = Some b" "n_tuples n = t # ts" "n_func n = FwdReq"
    and "wanted_zone p t = zone"
  shows "EmitOn (p_id q) (DZone zone) (datagram b NBP_SOCKET (mk_addr 0 255) NBP_SOCKET DDP_NBP
      (nbp_encode (retarget n LkUp zone))) \<in> set (local_nbp lo p ports d n T)"
  using assms by (auto simp: local_nbp_def lkup_def from_port_def the_list_def Let_def intro!: bexI [of _ q])

text \<open>
  C34: A lookup reaches the cables of its zone.  For every network of the zone that is not a cable of this
  router, a BrRq becomes a FwdReq addressed to any router on that network, with the requester's own
  source; and the router that gets it, decoded from its bytes, puts a LkUp on every cable of its own
  that has the zone, with the requester's tuple and the same ID, however the request reached it.
\<close>

theorem lookup_reaches_zone:
  assumes "n_func n = BrRq" "n_tuples n = t # ts" "wf_nbp n" "zone = wanted_zone p t" "wf_name zone"
    and "zone \<noteq> []" "zone \<noteq> lit ''*''"
    and "(start, tgt) \<in> set (nets_in_zone zone T)" "direct_port ports tgt start = None"
    and "q \<in> set ports'" "has_zone q zone" "port_addr q = Some b"
  shows "\<exists>d'. EmitRoute d' \<in> set (local_nbp lo p ports d n T)
    \<and> d_dst d' = mk_addr start 0 \<and> d_dst_socket d' = 2 \<and> d_src d' = d_src d \<and> d_src_socket d' = d_src_socket d
    \<and> (\<exists>d''. EmitOn (p_id q) (DZone zone) d'' \<in> set (fst (snd (handle lo' arrived_on c ports' d' (decode_ddp_body d') now T')))
         \<and> d_src d'' = b
         \<and> decode_ddp_body d'' = BNbp \<lparr>n_func = LkUp, n_id = n_id n, n_tuples = map (\<lambda>u. u\<lparr>nb_zone := zone\<rparr>) (n_tuples n)\<rparr>)"
proof -
  define f where "f = retarget n FwdReq zone"
  define d' where "d' = datagram (d_src d) (d_src_socket d) (mk_addr start 0) NBP_SOCKET DDP_NBP (nbp_encode f)"
  define here where "here = (case arrived_on of Some p \<Rightarrow> p | None \<Rightarrow> c)"
  have wf: "wf_nbp f" using wf_retarget [OF assms(3,5)] by (simp add: f_def)
  have fwd: "fwd_req d n start zone = EmitRoute d'" by (simp add: fwd_req_def d'_def f_def)
  have sent: "EmitRoute d' \<in> set (local_nbp lo p ports d n T)"
    using assms(1,2,8,9) fwd by (force simp: local_nbp_def Let_def assms(4))
  have f: "n_func f = FwdReq" "n_id f = n_id n" "n_tuples f = t\<lparr>nb_zone := zone\<rparr> # map (\<lambda>u. u\<lparr>nb_zone := zone\<rparr>) ts"
    using assms(2) by (simp_all add: f_def retarget_def)
  have "wanted_zone here (t\<lparr>nb_zone := zone\<rparr>) = zone" using assms(6,7) by (simp add: wanted_zone_def)
  from lkup_mem [OF assms(10-12) f(3,1) this]
  have lk: "EmitOn (p_id q) (DZone zone) (datagram b NBP_SOCKET (mk_addr 0 255) NBP_SOCKET DDP_NBP
      (nbp_encode (retarget f LkUp zone))) \<in> set (local_nbp lo' here ports' d' f T')" .
  have "retarget f LkUp zone = \<lparr>n_func = LkUp, n_id = n_id n, n_tuples = map (\<lambda>u. u\<lparr>nb_zone := zone\<rparr>) (n_tuples n)\<rparr>"
    using assms(2) by (simp add: retarget_def f)
  moreover have "handle lo' arrived_on c ports' d' (decode_ddp_body d') now T' = (T', local_nbp lo' here ports' d' f T', [])"
    using decode_nbp [OF wf] by (simp add: d'_def handle_def here_def datagram_def)
  ultimately show ?thesis
    using sent lk decode_nbp [OF wf_retarget [OF wf assms(5), of LkUp], of b NBP_SOCKET "mk_addr 0 255" NBP_SOCKET]
    by (intro exI [of _ d']) (auto simp: d'_def datagram_def NBP_SOCKET_def)
qed

definition example_brrq :: nbp where
  "example_brrq = lookup_request BrRq 5 (mk_addr 30 131) 128 (lit ''='') (lit ''='') (lit ''Lab'')"

theorem lookup_reaches_zone_witness:
  "\<exists>d'. EmitRoute d' \<in> set (local_nbp (local_new []) example_port_b [example_port_b] example_ddp example_brrq example_tables)
     \<and> d_dst d' = mk_addr 10 0"
proof -
  have w: "wf_nbp example_brrq" "wf_name (lit ''Lab'')"
    by (simp_all add: example_brrq_def lookup_request_def wf_nbp_def wf_nbp_tuple_def wf_name_def latin1_def lit_def of_char_def)
  have n: "(10, TPort 0) \<in> set (nets_in_zone (lit ''Lab'') example_tables)"
    by (simp add: nets_in_zone_def starts_def starts_where_def example_tables_eval List.map_filter_simps
          zl_complete_def best_for_start_def pick_def usable_def)
  have z: "lit ''Lab'' \<noteq> []" "lit ''Lab'' \<noteq> lit ''*''" by (simp_all add: lit_def)
  have "direct_port [example_port_b] (TPort 0) 10 = None" "example_holder \<in> set [example_holder]"
    "has_zone example_holder (lit ''Lab'')" "port_addr example_holder = Some (mk_addr 10 7)"
    by (simp_all add: direct_port_def example_port_b_def example_holder_def has_zone_def port_addr_def)
  note r = lookup_reaches_zone [OF _ _ w(1) _ w(2) z n this, where lo' = "local_new []" and arrived_on = None
      and c = example_holder and now = 9 and T' = example_tables]
  from r [of "\<lparr>nb_addr = mk_addr 30 131, nb_socket = 128, nb_enumerator = 0,
      nb_object = lit ''='', nb_typ = lit ''='', nb_zone = lit ''Lab''\<rparr>" "[]" example_port_b "local_new []" example_ddp] z
  show ?thesis by (fastforce simp: example_brrq_def lookup_request_def wanted_zone_def)
qed

end
