(* ===== verification/Config.thy ===== *)
theory Config
  imports Wire_AURP
begin

text \<open>
  \<open>src/src/config.rs\<close>: the router's configuration, the specs of the command line, their merge with the
  file and the checks on the result.  The TOML reader and the argument parser are third-party: what
  they deliver, \<open>FileConfig\<close> and \<open>RouterArgs\<close>, are records here.  An error keeps the values its
  message prints.
\<close>

section \<open>Strings\<close>

text \<open>What the code uses of \<open>str\<close>: splitting, trimming and reading numbers.\<close>

definition split_once :: "rchar \<Rightarrow> rstring \<Rightarrow> (rstring \<times> rstring) option" where
  "split_once c s = (case position ((=) c) s of None \<Rightarrow> None | Some i \<Rightarrow> Some (take i s, drop (Suc i) s))"

fun split_on :: "rchar \<Rightarrow> rstring \<Rightarrow> rstring list" where
  "split_on c [] = [[]]"
| "split_on c (x # xs) =
     (if x = c then [] # split_on c xs
      else case split_on c xs of
             w # ws \<Rightarrow> (x # w) # ws
           | [] \<Rightarrow> [[x]])"

text \<open>\<open>char::is_whitespace\<close>, the Unicode property White_Space.\<close>

definition is_whitespace :: "rchar \<Rightarrow> bool" where
  "is_whitespace c \<longleftrightarrow> (9 \<le> c \<and> c \<le> 13) \<or> c = 32 \<or> c = 0x85 \<or> c = 0xA0 \<or> c = 0x1680
     \<or> (0x2000 \<le> c \<and> c \<le> 0x200A) \<or> c = 0x2028 \<or> c = 0x2029 \<or> c = 0x202F \<or> c = 0x205F \<or> c = 0x3000"

definition trim :: "rstring \<Rightarrow> rstring" where
  "trim s = rev (dropWhile is_whitespace (rev (dropWhile is_whitespace s)))"

definition digit_val :: "rchar \<Rightarrow> nat option" where
  "digit_val c = (if 48 \<le> c \<and> c \<le> 57 then Some (unat (c - 48)) else None)"

text \<open>The digits of a number at most \<open>bound\<close>, most significant first, after the value read so far.\<close>

fun read_digits :: "nat \<Rightarrow> nat \<Rightarrow> rstring \<Rightarrow> nat option" where
  "read_digits bound acc [] = Some acc"
| "read_digits bound acc (c # cs) =
     (case digit_val c of
        None \<Rightarrow> None
      | Some d \<Rightarrow> if acc * 10 + d \<le> bound then read_digits bound (acc * 10 + d) cs else None)"

text \<open>\<open>str::parse::<u16>\<close>: a leading plus sign is accepted, an empty number is not.\<close>

definition parse_u16 :: "rstring \<Rightarrow> u16 option" where
  "parse_u16 s =
     (let ds = (case s of [] \<Rightarrow> [] | c # cs \<Rightarrow> if c = 43 then cs else s)
      in if ds = [] then None else map_option word_of_nat (read_digits 65535 0 ds))"

text \<open>\<open>u16::to_string\<close>.\<close>

fun decimal :: "nat \<Rightarrow> rstring" where
  "decimal n = (if n < 10 then [] else decimal (n div 10)) @ [48 + word_of_nat (n mod 10)]"

declare decimal.simps [simp del]

text \<open>\<open>str::parse::<Ipv4Addr>\<close>: four numbers of one to three digits, without leading zeros.\<close>

definition parse_octet :: "rstring \<Rightarrow> u8 option" where
  "parse_octet s =
     (if s = [] \<or> length s > 3 \<or> (length s > 1 \<and> hd s = 48) then None
      else map_option word_of_nat (read_digits 255 0 s))"

definition parse_ipv4 :: "rstring \<Rightarrow> ipv4 option" where
  "parse_ipv4 s =
     (case map parse_octet (split_on 46 s) of
        [Some a, Some b, Some c, Some d] \<Rightarrow> Some (ipv4_new a b c d)
      | _ \<Rightarrow> None)"

section \<open>The configuration\<close>

definition MAX_NET :: u16 where "MAX_NET = 0xfefe"
definition AURP_PORT :: u16 where "AURP_PORT = 387"

record ether_port =
  ep_interface :: rstring
  ep_net :: "u16 \<times> u16"
  ep_zones :: "rstring list"

record ltoudp_port =
  lp_interface :: "ipv4 option"
  lp_net :: u16
  lp_zones :: "rstring list"

record tashtalk_port =
  tp_device :: rstring
  tp_net :: u16
  tp_zones :: "rstring list"

record config =
  cf_name :: rstring
  cf_public_ip :: "ipv4 option"
  cf_listen :: "ipv4 \<times> u16"
  cf_open_peering :: bool
  cf_peers :: "rstring list"
  cf_ethertalk :: "ether_port list"
  cf_ltoudp :: "ltoudp_port list"
  cf_tashtalk :: "tashtalk_port list"

definition config_default :: config where
  "config_default =
     \<lparr>cf_name = lit ''appletalk'', cf_public_ip = None, cf_listen = (ipv4_new 0 0 0 0, AURP_PORT),
      cf_open_peering = True, cf_peers = [], cf_ethertalk = [], cf_ltoudp = [], cf_tashtalk = []\<rparr>"

datatype roman_error = NotRoman | BadLength

datatype config_error =
    NotANumber rstring
  | OutsideNets rstring
  | StartsAbove rstring
  | NotOneNet rstring
  | BadZone rstring roman_error
  | BadSpec rstring
  | NotAnIp rstring rstring
  | BadName rstring roman_error
  | NoPorts
  | TwoPortsUse rstring
  | PortOutside rstring "u16 \<times> u16"
  | NetsOverlap "u16 \<times> u16" rstring "u16 \<times> u16" rstring
  | NoZones rstring
  | PortZone rstring rstring roman_error

section \<open>Port specs\<close>

definition parse_net_num :: "rstring \<Rightarrow> config_error + u16" where
  "parse_net_num t = (case parse_u16 (trim t) of Some n \<Rightarrow> Inr n | None \<Rightarrow> Inl (NotANumber t))"

definition parse_net :: "rstring \<Rightarrow> config_error + u16 \<times> u16" where
  "parse_net s =
     (let (a, b) = (case split_once 45 s of Some ab \<Rightarrow> ab | None \<Rightarrow> (s, s)) in
      case parse_net_num a of
        Inl e \<Rightarrow> Inl e
      | Inr start \<Rightarrow>
          (case parse_net_num b of
             Inl e \<Rightarrow> Inl e
           | Inr stop \<Rightarrow>
               if start = 0 \<or> stop > MAX_NET then Inl (OutsideNets s)
               else if start > stop then Inl (StartsAbove s)
               else Inr (start, stop)))"

definition one_net :: "rstring \<Rightarrow> config_error + u16" where
  "one_net s =
     (case parse_net s of
        Inl e \<Rightarrow> Inl e
      | Inr (start, stop) \<Rightarrow> if start \<noteq> stop then Inl (NotOneNet s) else Inr start)"

definition roman :: "rstring \<Rightarrow> roman_error option" where
  "roman name =
     (if \<exists>c \<in> set name. c > 0xff then Some NotRoman
      else if 1 \<le> length name \<and> length name \<le> 32 then None else Some BadLength)"

text \<open>The first name the check refuses.\<close>

fun bad_name :: "rstring list \<Rightarrow> (rstring \<times> roman_error) option" where
  "bad_name [] = None"
| "bad_name (z # zs) = (case roman z of Some e \<Rightarrow> Some (z, e) | None \<Rightarrow> bad_name zs)"

definition spec_zones :: "rstring \<Rightarrow> config_error + rstring list" where
  "spec_zones s =
     (let zones = map trim (split_on 44 s)
      in case bad_name zones of Some (z, e) \<Rightarrow> Inl (BadZone z e) | None \<Rightarrow> Inr zones)"

definition parse_ether_spec :: "rstring \<Rightarrow> config_error + ether_port" where
  "parse_ether_spec s =
     (case split_on 58 s of
        [interface, net, zones] \<Rightarrow>
          (case parse_net net of
             Inl e \<Rightarrow> Inl e
           | Inr r \<Rightarrow>
               (case spec_zones zones of
                  Inl e \<Rightarrow> Inl e
                | Inr z \<Rightarrow> Inr \<lparr>ep_interface = interface, ep_net = r, ep_zones = z\<rparr>))
      | _ \<Rightarrow> Inl (BadSpec s))"

definition local_spec :: "('a \<Rightarrow> u16 \<Rightarrow> rstring list \<Rightarrow> 'b) \<Rightarrow> 'a \<Rightarrow> rstring \<Rightarrow> rstring \<Rightarrow> config_error + 'b" where
  "local_spec mk x net zones =
     (case one_net net of
        Inl e \<Rightarrow> Inl e
      | Inr n \<Rightarrow> (case spec_zones zones of Inl e \<Rightarrow> Inl e | Inr z \<Rightarrow> Inr (mk x n z)))"

definition parse_ltoudp_spec :: "rstring \<Rightarrow> config_error + ltoudp_port" where
  "parse_ltoudp_spec s =
     (let mk = (\<lambda>i n z. \<lparr>lp_interface = i, lp_net = n, lp_zones = z\<rparr>) in
      case split_on 58 s of
        [net, zones] \<Rightarrow> local_spec mk None net zones
      | [ip, net, zones] \<Rightarrow>
          (case parse_ipv4 ip of
             None \<Rightarrow> Inl (NotAnIp s ip)
           | Some a \<Rightarrow> local_spec mk (Some a) net zones)
      | _ \<Rightarrow> Inl (BadSpec s))"

definition parse_tashtalk_spec :: "rstring \<Rightarrow> config_error + tashtalk_port" where
  "parse_tashtalk_spec s =
     (case split_on 58 s of
        [device, net, zones] \<Rightarrow>
          local_spec (\<lambda>d n z. \<lparr>tp_device = d, tp_net = n, tp_zones = z\<rparr>) device net zones
      | _ \<Rightarrow> Inl (BadSpec s))"

section \<open>The file\<close>

datatype file_net = Num u16 | Text rstring

definition file_net_text :: "file_net \<Rightarrow> rstring" where
  "file_net_text n = (case n of Num k \<Rightarrow> decimal (unat k) | Text s \<Rightarrow> s)"

definition file_net_range :: "file_net \<Rightarrow> config_error + u16 \<times> u16" where
  "file_net_range n = parse_net (file_net_text n)"

definition file_net_one :: "file_net \<Rightarrow> config_error + u16" where
  "file_net_one n = one_net (file_net_text n)"

record file_router =
  fr_name :: "rstring option"
  fr_public_ip :: "ipv4 option"
  fr_listen :: "(ipv4 \<times> u16) option"
  fr_open_peering :: "bool option"
  fr_peers :: "rstring list"

record file_ether =
  fe_interface :: rstring
  fe_net :: file_net
  fe_zones :: "rstring list"

record file_local =
  fl_interface :: "ipv4 option"
  fl_net :: file_net
  fl_zones :: "rstring list"

record file_tash =
  ft_device :: rstring
  ft_net :: file_net
  ft_zones :: "rstring list"

record file_config =
  fc_router :: file_router
  fc_ethertalk :: "file_ether list"
  fc_ltoudp :: "file_local list"
  fc_tashtalk :: "file_tash list"

text \<open>\<open>collect\<close> into a \<open>Result\<close>: the first error, else every value.\<close>

fun collect_results :: "('a \<Rightarrow> 'e + 'b) \<Rightarrow> 'a list \<Rightarrow> 'e + 'b list" where
  "collect_results f [] = Inr []"
| "collect_results f (x # xs) =
     (case f x of
        Inl e \<Rightarrow> Inl e
      | Inr y \<Rightarrow> (case collect_results f xs of Inl e \<Rightarrow> Inl e | Inr ys \<Rightarrow> Inr (y # ys)))"

definition file_ether_port :: "file_ether \<Rightarrow> config_error + ether_port" where
  "file_ether_port p =
     (case file_net_range (fe_net p) of
        Inl e \<Rightarrow> Inl e
      | Inr r \<Rightarrow> Inr \<lparr>ep_interface = fe_interface p, ep_net = r, ep_zones = fe_zones p\<rparr>)"

definition file_ltoudp_port :: "file_local \<Rightarrow> config_error + ltoudp_port" where
  "file_ltoudp_port p =
     (case file_net_one (fl_net p) of
        Inl e \<Rightarrow> Inl e
      | Inr n \<Rightarrow> Inr \<lparr>lp_interface = fl_interface p, lp_net = n, lp_zones = fl_zones p\<rparr>)"

definition file_tashtalk_port :: "file_tash \<Rightarrow> config_error + tashtalk_port" where
  "file_tashtalk_port p =
     (case file_net_one (ft_net p) of
        Inl e \<Rightarrow> Inl e
      | Inr n \<Rightarrow> Inr \<lparr>tp_device = ft_device p, tp_net = n, tp_zones = ft_zones p\<rparr>)"

definition unwrap_or :: "'a option \<Rightarrow> 'a \<Rightarrow> 'a" where
  "unwrap_or x d = (case x of Some y \<Rightarrow> y | None \<Rightarrow> d)"

definition of_file :: "file_config \<Rightarrow> config_error + config" where
  "of_file f =
     (let r = fc_router f; d = config_default in
      case collect_results file_ether_port (fc_ethertalk f) of
        Inl e \<Rightarrow> Inl e
      | Inr es \<Rightarrow>
          (case collect_results file_ltoudp_port (fc_ltoudp f) of
             Inl e \<Rightarrow> Inl e
           | Inr ls \<Rightarrow>
               (case collect_results file_tashtalk_port (fc_tashtalk f) of
                  Inl e \<Rightarrow> Inl e
                | Inr ts \<Rightarrow>
                    Inr \<lparr>cf_name = unwrap_or (fr_name r) (cf_name d), cf_public_ip = fr_public_ip r,
                         cf_listen = unwrap_or (fr_listen r) (cf_listen d),
                         cf_open_peering = unwrap_or (fr_open_peering r) (cf_open_peering d),
                         cf_peers = fr_peers r, cf_ethertalk = es, cf_ltoudp = ls, cf_tashtalk = ts\<rparr>)))"

section \<open>The command line\<close>

text \<open>\<open>RouterArgs\<close> of \<open>src/src/cli.rs\<close>, less the path of the file.\<close>

record router_args =
  ra_name :: "rstring option"
  ra_public_ip :: "ipv4 option"
  ra_listen :: "(ipv4 \<times> u16) option"
  ra_no_open_peering :: bool
  ra_peer :: "rstring list"
  ra_add_peer :: "rstring list"
  ra_no_peers :: bool
  ra_ethertalk :: "rstring list"
  ra_add_ethertalk :: "rstring list"
  ra_no_ethertalk :: bool
  ra_ltoudp :: "rstring list"
  ra_add_ltoudp :: "rstring list"
  ra_no_ltoudp :: bool
  ra_tashtalk :: "rstring list"
  ra_add_tashtalk :: "rstring list"
  ra_no_tashtalk :: bool

definition merge_list ::
    "'a list \<Rightarrow> rstring list \<Rightarrow> rstring list \<Rightarrow> bool \<Rightarrow> (rstring \<Rightarrow> config_error + 'a) \<Rightarrow> config_error + 'a list" where
  "merge_list file replace add none parse =
     (if replace \<noteq> [] then collect_results parse replace
      else if none then Inr []
      else case collect_results parse add of Inl e \<Rightarrow> Inl e | Inr xs \<Rightarrow> Inr (file @ xs))"

definition merge_config :: "config option \<Rightarrow> router_args \<Rightarrow> config_error + config" where
  "merge_config file args =
     (let c = unwrap_or file config_default;
          c = (case ra_name args of Some n \<Rightarrow> c\<lparr>cf_name := n\<rparr> | None \<Rightarrow> c);
          c = (case ra_public_ip args of Some ip \<Rightarrow> c\<lparr>cf_public_ip := Some ip\<rparr> | None \<Rightarrow> c);
          c = (case ra_listen args of Some l \<Rightarrow> c\<lparr>cf_listen := l\<rparr> | None \<Rightarrow> c);
          c = (if ra_no_open_peering args then c\<lparr>cf_open_peering := False\<rparr> else c)
      in case merge_list (cf_peers c) (ra_peer args) (ra_add_peer args) (ra_no_peers args) Inr of
           Inl e \<Rightarrow> Inl e
         | Inr ps \<Rightarrow>
      (case merge_list (cf_ethertalk c) (ra_ethertalk args) (ra_add_ethertalk args) (ra_no_ethertalk args) parse_ether_spec of
           Inl e \<Rightarrow> Inl e
         | Inr es \<Rightarrow>
      (case merge_list (cf_ltoudp c) (ra_ltoudp args) (ra_add_ltoudp args) (ra_no_ltoudp args) parse_ltoudp_spec of
           Inl e \<Rightarrow> Inl e
         | Inr ls \<Rightarrow>
      (case merge_list (cf_tashtalk c) (ra_tashtalk args) (ra_add_tashtalk args) (ra_no_tashtalk args) parse_tashtalk_spec of
           Inl e \<Rightarrow> Inl e
         | Inr ts \<Rightarrow> Inr (c\<lparr>cf_peers := ps, cf_ethertalk := es, cf_ltoudp := ls, cf_tashtalk := ts\<rparr>)))))"

section \<open>Validation\<close>

definition ip_text :: "ipv4 \<Rightarrow> rstring" where
  "ip_text ip =
     (case map (\<lambda>b. decimal (unat b)) (octets ip) of
        [a, b, c, d] \<Rightarrow> a @ [46] @ b @ [46] @ c @ [46] @ d
      | _ \<Rightarrow> [])"

definition port_rows :: "config \<Rightarrow> (rstring \<times> (u16 \<times> u16) \<times> rstring list) list" where
  "port_rows c =
     map (\<lambda>p. (ep_interface p, ep_net p, ep_zones p)) (cf_ethertalk c)
     @ map (\<lambda>p. ((case lp_interface p of None \<Rightarrow> lit ''the default interface'' | Some ip \<Rightarrow> ip_text ip),
                 (lp_net p, lp_net p), lp_zones p)) (cf_ltoudp c)
     @ map (\<lambda>p. (tp_device p, (tp_net p, tp_net p), tp_zones p)) (cf_tashtalk c)"

definition check_row ::
    "(rstring \<times> (u16 \<times> u16) \<times> rstring list) list \<Rightarrow> rstring \<times> (u16 \<times> u16) \<times> rstring list \<Rightarrow> config_error option" where
  "check_row earlier row =
     (case row of (name, net, zones) \<Rightarrow>
        if \<exists>(n, _, _) \<in> set earlier. n = name then Some (TwoPortsUse name)
        else if fst net = 0 \<or> snd net > MAX_NET \<or> fst net > snd net then Some (PortOutside name net)
        else case find (\<lambda>(_, r, _). fst r \<le> snd net \<and> fst net \<le> snd r) earlier of
          Some (other, r, _) \<Rightarrow> Some (NetsOverlap r other net name)
        | None \<Rightarrow>
            if zones = [] then Some (NoZones name)
            else case bad_name zones of Some (z, e) \<Rightarrow> Some (PortZone name z e) | None \<Rightarrow> None)"

fun check_rows ::
    "(rstring \<times> (u16 \<times> u16) \<times> rstring list) list \<Rightarrow> (rstring \<times> (u16 \<times> u16) \<times> rstring list) list \<Rightarrow> config_error option" where
  "check_rows earlier [] = None"
| "check_rows earlier (row # rows) =
     (case check_row earlier row of Some e \<Rightarrow> Some e | None \<Rightarrow> check_rows (earlier @ [row]) rows)"

definition validate :: "config \<Rightarrow> config_error option" where
  "validate c =
     (case roman (cf_name c) of
        Some e \<Rightarrow> Some (BadName (cf_name c) e)
      | None \<Rightarrow> if port_rows c = [] then Some NoPorts else check_rows [] (port_rows c))"

text \<open>\<open>load\<close>, given the file as read, if there is one.\<close>

definition load_config :: "file_config option \<Rightarrow> router_args \<Rightarrow> config_error + config" where
  "load_config file args =
     (case (case file of None \<Rightarrow> Inr None | Some f \<Rightarrow> (case of_file f of Inl e \<Rightarrow> Inl e | Inr c \<Rightarrow> Inr (Some c))) of
        Inl e \<Rightarrow> Inl e
      | Inr file \<Rightarrow>
          (case merge_config file args of
             Inl e \<Rightarrow> Inl e
           | Inr c \<Rightarrow> (case validate c of Some e \<Rightarrow> Inl e | None \<Rightarrow> Inr c)))"

section \<open>Peer lists\<close>

text \<open>\<open>str::lines\<close>: a final newline ends the last line, and a return before a newline is dropped.\<close>

definition strip_cr :: "rstring \<Rightarrow> rstring" where
  "strip_cr l = (if l \<noteq> [] \<and> hd (rev l) = 13 then butlast l else l)"

definition lines_of :: "rstring \<Rightarrow> rstring list" where
  "lines_of s =
     (let ls = split_on 10 s
      in map strip_cr (butlast ls) @ (if hd (rev ls) = [] then [] else [hd (rev ls)]))"

definition ascii_alnum :: "rchar \<Rightarrow> bool" where
  "ascii_alnum c \<longleftrightarrow> (48 \<le> c \<and> c \<le> 57) \<or> (65 \<le> c \<and> c \<le> 90) \<or> (97 \<le> c \<and> c \<le> 122)"

definition is_label :: "rstring \<Rightarrow> bool" where
  "is_label l \<longleftrightarrow> 1 \<le> utf8_len l \<and> utf8_len l \<le> 63 \<and> hd l \<noteq> 45 \<and> hd (rev l) \<noteq> 45
     \<and> (\<forall>c \<in> set l. ascii_alnum c \<or> c = 45)"

definition is_host :: "rstring \<Rightarrow> bool" where
  "is_host s \<longleftrightarrow> parse_ipv4 s \<noteq> None \<or> (utf8_len s \<le> 253 \<and> (\<forall>l \<in> set (split_on 46 s). is_label l))"

text \<open>The hosts and the numbers of the bad lines, counted from the number of the first.\<close>

fun peer_lines :: "nat \<Rightarrow> rstring list \<Rightarrow> rstring list \<times> nat list" where
  "peer_lines i [] = ([], [])"
| "peer_lines i (line # rest) =
     (let l = trim line; (out, bad) = peer_lines (i + 1) rest in
      if l = [] \<or> hd l = 35 then (out, bad)
      else if is_host l then (l # out, bad)
      else (out, i # bad))"

definition parse_peer_list :: "rstring \<Rightarrow> nat list + rstring list" where
  "parse_peer_list text =
     (case peer_lines 1 (lines_of text) of (out, bad) \<Rightarrow> if bad \<noteq> [] then Inl bad else Inr out)"

text \<open>\<open>merge_peers\<close> on the strings of the document's array.\<close>

fun add_hosts :: "rstring list \<Rightarrow> rstring list \<Rightarrow> nat \<Rightarrow> nat \<Rightarrow> rstring list \<Rightarrow> rstring list \<times> nat \<times> nat" where
  "add_hosts arr seen added present [] = (arr, added, present)"
| "add_hosts arr seen added present (h # hs) =
     (let key = map to_ascii_lowercase h in
      if key \<in> set seen then add_hosts arr seen added (present + 1) hs
      else add_hosts (arr @ [h]) (key # seen) (added + 1) present hs)"

definition merge_peers :: "rstring list \<Rightarrow> rstring list \<Rightarrow> rstring list \<times> nat \<times> nat" where
  "merge_peers arr new = add_hosts arr (map (map to_ascii_lowercase) arr) 0 0 new"

end
