(* ===== verification/Config_Properties.thy ===== *)
theory Config_Properties
  imports Config Routing_Invariants
begin

text \<open>
  What a configuration that passes its checks guarantees, and that specs and numbers survive being written
  and read.
\<close>

section \<open>Numbers\<close>

lemma digit_val_digit: "n < 10 \<Longrightarrow> digit_val (48 + word_of_nat n) = Some n"
proof -
  assume n: "n < 10"
  have "unat (word_of_nat n :: u32) = n" using n by (simp add: unsigned_of_nat take_bit_eq_mod)
  then have u: "unat (48 + word_of_nat n :: u32) = 48 + n"
    using n by (subst unat_add_lem [THEN iffD1]) simp_all
  have "(48 :: u32) + word_of_nat n - 48 = word_of_nat n" by simp
  with u n \<open>unat (word_of_nat n :: u32) = n\<close> show ?thesis
    by (simp add: digit_val_def word_le_nat_alt del: unsigned_of_nat)
qed

lemma read_digits_append:
  "read_digits b acc (xs @ ys) = Option.bind (read_digits b acc xs) (\<lambda>a. read_digits b a ys)"
  by (induction xs arbitrary: acc) (simp_all split: option.split)

lemma read_digits_decimal: "n \<le> b \<Longrightarrow> read_digits b 0 (decimal n) = Some n"
proof (induction n rule: decimal.induct)
  case (1 n)
  have n: "n = n div 10 * 10 + n mod 10" by simp
  have "read_digits b 0 (if n < 10 then [] else decimal (n div 10)) = Some (n div 10)"
    using 1 by (cases "n < 10") (simp_all add: div_le_dividend order_trans [of "n div 10" n b])
  with 1(2) n digit_val_digit [of "n mod 10"] show ?case
    by (subst decimal.simps) (simp add: read_digits_append)
qed

lemma decimal_chars: "c \<in> set (decimal n) \<Longrightarrow> 48 \<le> c \<and> c \<le> 57"
proof (induction n rule: decimal.induct)
  case (1 n)
  have "unat (48 + word_of_nat (n mod 10) :: u32) = 48 + n mod 10"
  proof -
    have "unat (word_of_nat (n mod 10) :: u32) = n mod 10" by (simp add: unsigned_of_nat take_bit_eq_mod)
    then show ?thesis by (subst unat_add_lem [THEN iffD1]) simp_all
  qed
  moreover have "n mod 10 \<le> 9" using mod_less_divisor [of 10 n] by linarith
  ultimately have last: "(48 :: u32) \<le> 48 + word_of_nat (n mod 10) \<and> (48 :: u32) + word_of_nat (n mod 10) \<le> 57"
    by (simp add: word_le_nat_alt del: unsigned_of_nat)
  have "c \<in> set (if n < 10 then [] else decimal (n div 10)) \<or> c = 48 + word_of_nat (n mod 10)"
    using 1(2) by (subst (asm) decimal.simps) auto
  with last 1(1) show ?case by (auto split: if_splits)
qed

lemma decimal_nonempty: "decimal n \<noteq> []"
  by (subst decimal.simps) simp

lemma not_space_digit: "48 \<le> c \<Longrightarrow> c \<le> 57 \<Longrightarrow> \<not> is_whitespace c"
  unfolding is_whitespace_def word_le_nat_alt by auto

lemma trim_solid: "(\<And>c. c \<in> set s \<Longrightarrow> \<not> is_whitespace c) \<Longrightarrow> trim s = s"
proof -
  assume s: "\<And>c. c \<in> set s \<Longrightarrow> \<not> is_whitespace c"
  have d: "dropWhile is_whitespace xs = xs" if "\<And>c. c \<in> set xs \<Longrightarrow> \<not> is_whitespace c" for xs
    using that by (cases xs) auto
  have "dropWhile is_whitespace s = s" "dropWhile is_whitespace (rev s) = rev s" by (rule d; simp add: s)+
  then show ?thesis by (simp add: trim_def)
qed

lemma trim_decimal: "trim (decimal n) = decimal n"
  by (rule trim_solid) (use decimal_chars not_space_digit in blast)

lemma parse_u16_decimal: "parse_u16 (decimal (unat n)) = Some n"
proof -
  obtain c cs where d: "decimal (unat n) = c # cs" using decimal_nonempty by (cases "decimal (unat n)") auto
  have "c \<noteq> 43" using decimal_chars [of c "unat n"] d by (auto simp: word_le_nat_alt)
  moreover have "unat n \<le> 65535" using unat_u16_less [of n] by simp
  ultimately show ?thesis using d read_digits_decimal [of "unat n" 65535] by (simp add: parse_u16_def)
qed

section \<open>Networks\<close>

lemma split_once_absent: "c \<notin> set s \<Longrightarrow> split_once c s = None"
proof -
  assume "c \<notin> set s"
  then have "position ((=) c) s = None" by (auto simp: position_None)
  then show ?thesis by (simp add: split_once_def)
qed

lemma split_once_here: "c \<notin> set s \<Longrightarrow> split_once c (s @ c # t) = Some (s, t)"
proof -
  assume c: "c \<notin> set s"
  have "position ((=) c) (s @ c # t) = Some (length s)"
    using c by (induction s) auto
  then show ?thesis by (simp add: split_once_def)
qed

lemma dash_decimal: "45 \<notin> set (decimal n)"
  using decimal_chars [of 45 n] by (auto simp: word_le_nat_alt)

definition net_ok :: "u16 \<times> u16 \<Rightarrow> bool" where
  "net_ok r \<longleftrightarrow> 1 \<le> fst r \<and> fst r \<le> snd r \<and> snd r \<le> 0xfefe"

lemma nonzero_one: "(n :: u16) \<noteq> 0 \<longleftrightarrow> 1 \<le> n"
  by (simp add: word_le_nat_alt unat_eq_zero Suc_le_eq unat_gt_0)

lemma parse_net_sound: "parse_net s = Inr r \<Longrightarrow> net_ok r"
  by (auto simp: parse_net_def net_ok_def MAX_NET_def nonzero_one not_less case_prod_beta Let_def
        split: sum.splits if_splits)

lemma parse_net_range:
  "net_ok (a, b) \<Longrightarrow> parse_net (decimal (unat a) @ 45 # decimal (unat b)) = Inr (a, b)"
  using nonzero_one [of a]
  by (simp add: parse_net_def split_once_here [OF dash_decimal] parse_net_num_def trim_decimal parse_u16_decimal
        net_ok_def MAX_NET_def not_less)

lemma parse_net_one: "net_ok (a, a) \<Longrightarrow> parse_net (decimal (unat a)) = Inr (a, a)"
  using nonzero_one [of a]
  by (simp add: parse_net_def split_once_absent [OF dash_decimal] parse_net_num_def trim_decimal parse_u16_decimal
        net_ok_def MAX_NET_def not_less)

section \<open>Names\<close>

definition name_ok :: "rstring \<Rightarrow> bool" where
  "name_ok s \<longleftrightarrow> s \<noteq> [] \<and> wf_name s"

lemma latin1_iff: "latin1 s \<longleftrightarrow> \<not> (\<exists>c \<in> set s. c > 0xff)"
proof -
  have "(c < 256) = (\<not> 255 < c)" for c :: u32
    by (simp add: word_less_nat_alt) linarith
  then show ?thesis by (auto simp: latin1_def)
qed

lemma roman_None_iff: "roman s = None \<longleftrightarrow> name_ok s"
  by (auto simp: roman_def name_ok_def wf_name_def latin1_iff Suc_le_eq)

lemma bad_name_None_iff: "bad_name zs = None \<longleftrightarrow> (\<forall>z \<in> set zs. name_ok z)"
  by (induction zs) (auto simp: roman_None_iff [symmetric] split: option.split)

section \<open>Validation\<close>

type_synonym row = "rstring \<times> (u16 \<times> u16) \<times> rstring list"

definition row_ok :: "row \<Rightarrow> bool" where
  "row_ok row \<longleftrightarrow> (case row of (_, net, zones) \<Rightarrow> net_ok net \<and> zones \<noteq> [] \<and> (\<forall>z \<in> set zones. name_ok z))"

definition rows_apart :: "row \<Rightarrow> row \<Rightarrow> bool" where
  "rows_apart a b \<longleftrightarrow> fst a \<noteq> fst b \<and> \<not> overlaps (fst (snd a)) (fst (snd b))"

lemma check_row_None_iff:
  "check_row earlier row = None \<longleftrightarrow> row_ok row \<and> (\<forall>e \<in> set earlier. rows_apart e row)"
proof -
  obtain name net zones where row: "row = (name, net, zones)" by (cases row) auto
  have net: "(fst net = 0 \<or> snd net > MAX_NET \<or> fst net > snd net) \<longleftrightarrow> \<not> net_ok net"
    using nonzero_one [of "fst net"] by (auto simp: net_ok_def MAX_NET_def not_less)
  have apart: "(\<forall>e \<in> set earlier. rows_apart e row) \<longleftrightarrow> \<not> (\<exists>(n, _, _) \<in> set earlier. n = name)
      \<and> find (\<lambda>(_, r, _). fst r \<le> snd net \<and> fst net \<le> snd r) earlier = None"
    by (auto simp: rows_apart_def row overlaps_def find_None_iff) blast
  show ?thesis
    unfolding check_row_def row prod.case net apart [unfolded row]
    by (auto simp: row_ok_def bad_name_None_iff [symmetric] split: option.split)
qed

lemma check_rows_None_iff:
  "check_rows earlier rows = None \<longleftrightarrow>
   (\<forall>row \<in> set rows. row_ok row \<and> (\<forall>e \<in> set earlier. rows_apart e row)) \<and> sorted_wrt rows_apart rows"
proof (induction rows arbitrary: earlier)
  case (Cons row rows)
  show ?case
    using check_row_None_iff [of earlier row] Cons.IH [of "earlier @ [row]"]
    by (auto split: option.split)
qed simp

text \<open>
  C35: The checks accept a configuration exactly when it makes sense: it has a port, its name and every zone
  name is 1 to 32 characters of one byte each, every port has a zone and a range within 1 to 65278 the
  right way round, no two ports use one interface and no two ranges share a network.
\<close>

theorem validate_exact:
  "validate c = None \<longleftrightarrow>
   name_ok (cf_name c) \<and> port_rows c \<noteq> []
   \<and> (\<forall>(name, (lo, hi), zones) \<in> set (port_rows c).
        1 \<le> lo \<and> lo \<le> hi \<and> hi \<le> 65278 \<and> zones \<noteq> [] \<and> (\<forall>z \<in> set zones. name_ok z))
   \<and> (\<forall>i j. i < j \<longrightarrow> j < length (port_rows c) \<longrightarrow>
        fst (port_rows c ! i) \<noteq> fst (port_rows c ! j)
        \<and> (snd (fst (snd (port_rows c ! i))) < fst (fst (snd (port_rows c ! j)))
           \<or> snd (fst (snd (port_rows c ! j))) < fst (fst (snd (port_rows c ! i)))))"
proof -
  have apart: "rows_apart a b \<longleftrightarrow> fst a \<noteq> fst b
      \<and> (snd (fst (snd a)) < fst (fst (snd b)) \<or> snd (fst (snd b)) < fst (fst (snd a)))" for a b
    by (auto simp: rows_apart_def overlaps_def not_le)
  have "validate c = None \<longleftrightarrow> name_ok (cf_name c) \<and> port_rows c \<noteq> [] \<and> check_rows [] (port_rows c) = None"
    by (auto simp: validate_def roman_None_iff [symmetric] split: option.split)
  then show ?thesis
    unfolding check_rows_None_iff sorted_wrt_iff_nth_less apart
    by (auto simp: row_ok_def net_ok_def)
qed

definition example_config :: config where
  "example_config = config_default\<lparr>
     cf_name := lit ''r1'', cf_peers := [lit ''a.example.net''],
     cf_ethertalk := [\<lparr>ep_interface = lit ''eth0'', ep_net = (6800, 6805), ep_zones = [lit ''Club'', lit ''Lab'']\<rparr>],
     cf_ltoudp := [\<lparr>lp_interface = None, lp_net = 6810, lp_zones = [lit ''Emulators'']\<rparr>]\<rparr>"

lemma example_rows:
  "port_rows example_config =
     [(lit ''eth0'', (6800, 6805), [lit ''Club'', lit ''Lab'']),
      (lit ''the default interface'', (6810, 6810), [lit ''Emulators''])]"
  by (simp add: port_rows_def example_config_def config_default_def)

lemmas name_eval = name_ok_def wf_name_def latin1_def lit_def of_char_def

lemma pairs_below_two: "(\<forall>i j. i < j \<longrightarrow> j < (2 :: nat) \<longrightarrow> P i j) \<longleftrightarrow> P 0 1"
proof -
  have "i = 0 \<and> j = 1" if "i < j" "j < (2 :: nat)" for i j using that by linarith
  then show ?thesis by (metis one_less_numeral_iff semiring_norm(76) zero_less_one)
qed

theorem validate_exact_witness: "validate example_config = None"
proof -
  have two: "length (port_rows example_config) = 2" by (simp add: example_rows)
  have "name_ok (cf_name example_config)" by (simp add: example_config_def name_eval)
  moreover have "fst (port_rows example_config ! 0) \<noteq> fst (port_rows example_config ! 1)"
    by (simp add: example_rows lit_def)
  ultimately show ?thesis
    unfolding validate_exact two pairs_below_two
    by (simp add: example_rows name_eval)
qed

section \<open>Specs\<close>

lemma split_on_nonempty: "split_on c s \<noteq> []"
  by (induction s) (auto split: list.split)

lemma split_on_absent: "c \<notin> set s \<Longrightarrow> split_on c s = [s]"
  by (induction s) auto

lemma split_on_here: "c \<notin> set s \<Longrightarrow> split_on c (s @ c # t) = s # split_on c t"
  by (induction s) auto

fun joined :: "rchar \<Rightarrow> rstring list \<Rightarrow> rstring" where
  "joined c [] = []"
| "joined c [s] = s"
| "joined c (s # t # ts) = s @ c # joined c (t # ts)"

lemma split_joined: "ss \<noteq> [] \<Longrightarrow> (\<And>s. s \<in> set ss \<Longrightarrow> c \<notin> set s) \<Longrightarrow> split_on c (joined c ss) = ss"
  by (induction c ss rule: joined.induct) (simp_all add: split_on_absent split_on_here)

lemma joined_chars: "x \<in> set (joined c ss) \<Longrightarrow> x = c \<or> (\<exists>s \<in> set ss. x \<in> set s)"
  by (induction c ss rule: joined.induct) auto

definition net_text :: "u16 \<times> u16 \<Rightarrow> rstring" where
  "net_text r = (if fst r = snd r then decimal (unat (fst r)) else decimal (unat (fst r)) @ 45 # decimal (unat (snd r)))"

lemma parse_net_text: "net_ok r \<Longrightarrow> parse_net (net_text r) = Inr r"
  by (cases r) (auto simp: net_text_def parse_net_range parse_net_one)

lemma net_text_no_colon: "58 \<notin> set (net_text r)"
  using decimal_chars [of 58] by (auto simp: net_text_def word_le_nat_alt)

text \<open>A zone name a spec can carry: no separator in it and no blank at either end.\<close>

definition spec_zone :: "rstring \<Rightarrow> bool" where
  "spec_zone z \<longleftrightarrow> name_ok z \<and> 58 \<notin> set z \<and> 44 \<notin> set z \<and> \<not> is_whitespace (hd z) \<and> \<not> is_whitespace (last z)"

lemma trim_spec_zone: "spec_zone z \<Longrightarrow> trim z = z"
proof -
  assume z: "spec_zone z"
  then have "z \<noteq> []" by (simp add: spec_zone_def name_ok_def)
  with z have "dropWhile is_whitespace z = z" by (cases z) (auto simp: spec_zone_def)
  moreover have "dropWhile is_whitespace (rev z) = rev z"
    using z \<open>z \<noteq> []\<close> by (cases z rule: rev_cases) (auto simp: spec_zone_def)
  ultimately show ?thesis by (simp add: trim_def)
qed

lemma spec_zones_joined:
  assumes "zs \<noteq> []" "\<forall>z \<in> set zs. spec_zone z" shows "spec_zones (joined 44 zs) = Inr zs"
proof -
  have "split_on 44 (joined 44 zs) = zs" using assms by (intro split_joined) (auto simp: spec_zone_def)
  moreover have "map trim zs = zs" using assms(2) trim_spec_zone by (intro map_idI) auto
  moreover have "bad_name zs = None" using assms(2) by (auto simp: bad_name_None_iff spec_zone_def)
  ultimately show ?thesis by (simp add: spec_zones_def)
qed

text \<open>
  A port written as a command-line spec is read back as it was: an interface without a colon, any legal
  range, and any zones whose names hold no colon or comma and do not begin or end with a blank.
\<close>

theorem spec_round_trip:
  assumes "58 \<notin> set (ep_interface p)" "net_ok (ep_net p)" "ep_zones p \<noteq> []" "\<forall>z \<in> set (ep_zones p). spec_zone z"
  shows "parse_ether_spec (ep_interface p @ 58 # net_text (ep_net p) @ 58 # joined 44 (ep_zones p)) = Inr p"
proof -
  have "58 \<notin> set (joined 44 (ep_zones p))"
    using joined_chars [of 58 44 "ep_zones p"] assms(4) by (auto simp: spec_zone_def)
  then have "split_on 58 (ep_interface p @ 58 # net_text (ep_net p) @ 58 # joined 44 (ep_zones p))
      = [ep_interface p, net_text (ep_net p), joined 44 (ep_zones p)]"
    using assms(1) by (simp add: split_on_here split_on_absent net_text_no_colon)
  then show ?thesis
    by (simp add: parse_ether_spec_def parse_net_text [OF assms(2)] spec_zones_joined [OF assms(3,4)])
qed

theorem spec_round_trip_witness:
  "parse_ether_spec (lit ''eth0'' @ 58 # net_text (6800, 6805) @ 58 # joined 44 [lit ''A'', lit ''B C''])
   = Inr \<lparr>ep_interface = lit ''eth0'', ep_net = (6800, 6805), ep_zones = [lit ''A'', lit ''B C'']\<rparr>"
  using spec_round_trip [of "\<lparr>ep_interface = lit ''eth0'', ep_net = (6800, 6805), ep_zones = [lit ''A'', lit ''B C'']\<rparr>"]
  by (simp add: net_ok_def spec_zone_def name_eval is_whitespace_def)

section \<open>The peer list\<close>

lemma add_hosts_spec:
  assumes "set seen = map to_ascii_lowercase ` set arr" "add_hosts arr seen added present hs = (out, a, b)"
  shows "\<exists>new. out = arr @ new \<and> a = added + length new \<and> b + length new = present + length hs
    \<and> set new \<subseteq> set hs
    \<and> (\<forall>h \<in> set hs. \<exists>o' \<in> set out. eq_ignore_ascii_case o' h)
    \<and> (sorted_wrt (\<lambda>x y. \<not> eq_ignore_ascii_case x y) arr \<longrightarrow> sorted_wrt (\<lambda>x y. \<not> eq_ignore_ascii_case x y) out)"
  using assms
proof (induction hs arbitrary: arr seen added present)
  case (Cons h hs)
  show ?case
  proof (cases "map to_ascii_lowercase h \<in> set seen")
    case True
    then obtain o' where "o' \<in> set arr" "eq_ignore_ascii_case o' h"
      using Cons.prems(1) by (auto simp: eq_ignore_ascii_case_def)
    have "add_hosts arr seen added (present + 1) hs = (out, a, b)"
      using True Cons.prems(2) by (simp add: Let_def)
    from Cons.IH [OF Cons.prems(1) this] obtain new where new: "out = arr @ new" "a = added + length new"
      "b + length new = present + 1 + length hs" "set new \<subseteq> set hs"
      "\<forall>h \<in> set hs. \<exists>o' \<in> set out. eq_ignore_ascii_case o' h"
      "sorted_wrt (\<lambda>x y. \<not> eq_ignore_ascii_case x y) arr \<longrightarrow> sorted_wrt (\<lambda>x y. \<not> eq_ignore_ascii_case x y) out"
      by auto
    show ?thesis
    proof (intro exI [of _ new] conjI)
      show "\<forall>h' \<in> set (h # hs). \<exists>o' \<in> set out. eq_ignore_ascii_case o' h'"
        using new(1,5) \<open>o' \<in> set arr\<close> \<open>eq_ignore_ascii_case o' h\<close> by auto
    qed (use new in auto)
  next
    case False
    then have no: "\<And>x. x \<in> set arr \<Longrightarrow> \<not> eq_ignore_ascii_case x h"
      using Cons.prems(1) unfolding eq_ignore_ascii_case_def by (metis image_eqI)
    have "add_hosts (arr @ [h]) (map to_ascii_lowercase h # seen) (added + 1) present hs = (out, a, b)"
      using False Cons.prems(2) by (simp add: Let_def)
    from Cons.IH [OF _ this] Cons.prems(1) obtain new where new: "out = (arr @ [h]) @ new" "a = added + 1 + length new"
      "b + length new = present + length hs" "set new \<subseteq> set hs"
      "\<forall>h \<in> set hs. \<exists>o' \<in> set out. eq_ignore_ascii_case o' h"
      "sorted_wrt (\<lambda>x y. \<not> eq_ignore_ascii_case x y) (arr @ [h]) \<longrightarrow> sorted_wrt (\<lambda>x y. \<not> eq_ignore_ascii_case x y) out"
      by auto
    show ?thesis
    proof (intro exI [of _ "h # new"] conjI impI)
      show "\<forall>h' \<in> set (h # hs). \<exists>o' \<in> set out. eq_ignore_ascii_case o' h'"
        using new(1,5) by (auto simp: eq_ignore_ascii_case_def)
      assume "sorted_wrt (\<lambda>x y. \<not> eq_ignore_ascii_case x y) arr"
      then show "sorted_wrt (\<lambda>x y. \<not> eq_ignore_ascii_case x y) out"
        using no new(6) by (simp add: sorted_wrt_append)
    qed (use new(1-4) in auto)
  qed
qed simp

text \<open>
  Importing peers adds each missing host once and nothing else: the list as it was comes first, in order,
  every host of the import is in the result in some case, nothing that was free of duplicates gains
  one, and the two counts add up to the hosts imported.
\<close>

theorem merge_peers_exact:
  assumes "merge_peers arr hosts = (out, added, present)"
  shows "\<exists>new. out = arr @ new \<and> added = length new \<and> added + present = length hosts \<and> set new \<subseteq> set hosts
    \<and> (\<forall>h \<in> set hosts. \<exists>o' \<in> set out. eq_ignore_ascii_case o' h)
    \<and> (sorted_wrt (\<lambda>x y. \<not> eq_ignore_ascii_case x y) arr \<longrightarrow> sorted_wrt (\<lambda>x y. \<not> eq_ignore_ascii_case x y) out)"
  using add_hosts_spec [of "map (map to_ascii_lowercase) arr" arr 0 0 hosts out added present] assms
  by (auto simp: merge_peers_def)

theorem merge_peers_exact_witness:
  "fst (merge_peers [lit ''a.net''] [lit ''A.NET'', lit ''b.net'']) = [lit ''a.net'', lit ''b.net'']"
proof -
  have m: "merge_peers [lit ''a.net''] [lit ''A.NET'', lit ''b.net''] = ([lit ''a.net'', lit ''b.net''], 1, 1)"
    by (simp add: merge_peers_def lit_def of_char_def to_ascii_lowercase_def)
  from merge_peers_exact [OF m] m show ?thesis by simp
qed

end
