(* ===== verification/Config_Files.thy ===== *)
theory Config_Files
  imports Config_Properties
begin

text \<open>
  The files of \<open>src/src/config.rs\<close>: which configuration is read, and \<open>import_peers\<close>, which merges a peer
  list into one.  The file system is a map from paths to texts; importing goes through a history of file
  systems, one for every moment at which it may be interrupted.  What TOML reads and writes, what a URL
  yields and which calls fail are parameters.  The lemmas say that an interrupted import leaves the
  configuration whole, and that a finished one has added exactly what was missing.
\<close>

type_synonym path = rstring
type_synonym files = "path \<rightharpoonup> rstring"

datatype file_error =
    NotFound path
  | BadFile path rstring
  | BadFields path config_error
  | BadConfig config_error
  | BadList rstring "nat list"
  | BadToml path rstring
  | NoFetch rstring rstring
  | Io rstring

section \<open>Finding and loading\<close>

definition DEFAULTS :: "path list" where
  "DEFAULTS = [lit ''appletalk.toml'', lit ''/etc/appletalk/appletalk.toml'']"

definition default_config :: "files \<Rightarrow> path option" where
  "default_config fs = find (\<lambda>p. fs p \<noteq> None) DEFAULTS"

definition find_config :: "files \<Rightarrow> path option \<Rightarrow> file_error + path option" where
  "find_config fs explicit =
     (case explicit of
        None \<Rightarrow> Inr (default_config fs)
      | Some p \<Rightarrow> if fs p = None then Inl (NotFound p) else Inr (Some p))"

text \<open>
  \<open>parse_file\<close>, with the TOML reader \<open>de\<close>, down to the fields of a file; the fields must make a configuration.
  \<open>fault\<close> says which paths cannot be read.
\<close>

definition parse_config :: "(rstring \<Rightarrow> rstring + file_config) \<Rightarrow> path \<Rightarrow> rstring \<Rightarrow> file_error + file_config" where
  "parse_config de p text = 
     (case de text of
        Inl msg \<Rightarrow> Inl (BadFile p msg)
      | Inr f \<Rightarrow> (case of_file f of Inl e \<Rightarrow> Inl (BadFields p e) | Inr _ \<Rightarrow> Inr f))"

definition load_from ::
    "(rstring \<Rightarrow> rstring + file_config) \<Rightarrow> (path \<Rightarrow> rstring option) \<Rightarrow> files \<Rightarrow> path option \<Rightarrow> router_args
     \<Rightarrow> file_error + config" where
  "load_from de fault fs explicit args =
     (case find_config fs explicit of
        Inl e \<Rightarrow> Inl e
      | Inr found \<Rightarrow>
          (case (case found of
                   None \<Rightarrow> Inr None
                 | Some p \<Rightarrow>
                     (case fault p of
                        Some e \<Rightarrow> Inl (Io e)
                      | None \<Rightarrow> (case parse_config de p (the (fs p)) of Inl e \<Rightarrow> Inl e | Inr f \<Rightarrow> Inr (Some f)))) of
             Inl e \<Rightarrow> Inl e
           | Inr file \<Rightarrow> (case load_config file args of Inl e \<Rightarrow> Inl (BadConfig e) | Inr c \<Rightarrow> Inr c)))"

section \<open>The temporary file\<close>

text \<open>
  \<open>Path::with_extension\<close>: the last dot of the file name, unless it comes first, starts the extension.  A path
  without a file name stays as it is.
\<close>

definition file_name :: "path \<Rightarrow> rstring" where
  "file_name p = rev (takeWhile (\<lambda>c. c \<noteq> 47) (rev p))"

definition parent :: "path \<Rightarrow> rstring" where
  "parent p = rev (dropWhile (\<lambda>c. c \<noteq> 47) (rev p))"

definition named :: "path \<Rightarrow> bool" where
  "named p \<longleftrightarrow> file_name p \<noteq> [] \<and> file_name p \<noteq> [46] \<and> file_name p \<noteq> [46, 46]"

definition file_stem :: "rstring \<Rightarrow> rstring" where
  "file_stem name =
     (case dropWhile (\<lambda>c. c \<noteq> 46) (rev name) of
        [] \<Rightarrow> name
      | _ # r \<Rightarrow> if r = [] then name else rev r)"

definition tmp_path :: "path \<Rightarrow> path" where
  "tmp_path p = (if named p then parent p @ file_stem (file_name p) @ lit ''.toml.tmp'' else p)"

lemma parent_name: "parent p @ file_name p = p"
  by (simp add: parent_def file_name_def flip: rev_append)

lemma tmp_path_other:
  assumes "named p" shows "tmp_path p \<noteq> p"
proof
  define s where "s = file_stem (file_name p)"
  assume "tmp_path p = p"
  then have name: "file_name p = s @ lit ''.toml.tmp''"
    using assms parent_name [of p] unfolding tmp_path_def s_def by (metis append_same_eq append.assoc same_append_eq)
  have "file_stem (s @ lit ''.toml.tmp'') = s @ [46, 116, 111, 109, 108]"
    by (simp add: file_stem_def lit_def of_char_def)
  with name s_def show False by simp
qed

section \<open>Importing peers\<close>

text \<open>What TOML documents do: the strings of \<open>router.peers\<close>, and a document with more of them.\<close>

record 'd toml =
  tm_de :: "rstring \<Rightarrow> rstring + file_config"
  tm_parse :: "rstring \<Rightarrow> rstring + 'd"
  tm_peers :: "'d \<Rightarrow> rstring list"
  tm_push :: "'d \<Rightarrow> rstring list \<Rightarrow> 'd"
  tm_text :: "'d \<Rightarrow> rstring"

text \<open>Which calls fail: a read, the write after so many characters, the rename; and what a URL yields.\<close>

record faults =
  fl_read :: "path \<Rightarrow> rstring option"
  fl_write :: "(nat \<times> rstring) option"
  fl_rename :: "rstring option"
  fl_fetch :: "rstring \<Rightarrow> rstring + rstring"

definition is_url :: "rstring \<Rightarrow> bool" where
  "is_url s \<longleftrightarrow> take 7 s = lit ''http://'' \<or> take 8 s = lit ''https://''"

definition read_file :: "faults \<Rightarrow> files \<Rightarrow> path \<Rightarrow> file_error + rstring" where
  "read_file ft fs p =
     (case fl_read ft p of
        Some e \<Rightarrow> Inl (Io e)
      | None \<Rightarrow> (case fs p of Some t \<Rightarrow> Inr t | None \<Rightarrow> Inl (NotFound p)))"

definition read_list :: "faults \<Rightarrow> files \<Rightarrow> rstring \<Rightarrow> file_error + rstring list" where
  "read_list ft fs list =
     (case (if is_url list then (case fl_fetch ft list of Inl e \<Rightarrow> Inl (NoFetch list e) | Inr t \<Rightarrow> Inr t)
            else read_file ft fs list) of
        Inl e \<Rightarrow> Inl e
      | Inr text \<Rightarrow> (case parse_peer_list text of Inl bad \<Rightarrow> Inl (BadList list bad) | Inr hosts \<Rightarrow> Inr hosts))"

definition read_doc :: "'d toml \<Rightarrow> faults \<Rightarrow> files \<Rightarrow> path \<Rightarrow> file_error + 'd" where
  "read_doc tm ft fs p =
     (case (case read_file ft fs p of Inl (NotFound _) \<Rightarrow> Inr [] | r \<Rightarrow> r) of
        Inl e \<Rightarrow> Inl e
      | Inr text \<Rightarrow>
          (case parse_config (tm_de tm) p text of
             Inl e \<Rightarrow> Inl e
           | Inr _ \<Rightarrow> (case tm_parse tm text of Inl msg \<Rightarrow> Inl (BadToml p msg) | Inr doc \<Rightarrow> Inr doc)))"

text \<open>\<open>fs::write\<close> empties the file and fills it; every length on the way is a moment of its own.\<close>

definition write_file :: "faults \<Rightarrow> files \<Rightarrow> path \<Rightarrow> rstring \<Rightarrow> files list \<times> rstring option" where
  "write_file ft fs p text =
     (let upto = (\<lambda>n. map (\<lambda>k. fs(p \<mapsto> take k text)) [0..<Suc n]) in
      case fl_write ft of
        Some (k, e) \<Rightarrow> (upto (min k (length text)), Some e)
      | None \<Rightarrow> (upto (length text), None))"

definition rename_file :: "faults \<Rightarrow> files \<Rightarrow> path \<Rightarrow> path \<Rightarrow> files \<times> rstring option" where
  "rename_file ft fs a b =
     (case fl_rename ft of
        Some e \<Rightarrow> (fs, Some e)
      | None \<Rightarrow> (if a = b then fs else (fs(b := fs a))(a := None), None))"

definition import_path :: "files \<Rightarrow> path option \<Rightarrow> path" where
  "import_path fs config =
     (case config of
        Some p \<Rightarrow> p
      | None \<Rightarrow> (case default_config fs of Some p \<Rightarrow> p | None \<Rightarrow> hd DEFAULTS))"

text \<open>The file systems the import goes through after the first, and what it returns.\<close>

definition import_peers ::
    "'d toml \<Rightarrow> faults \<Rightarrow> files \<Rightarrow> path option \<Rightarrow> rstring \<Rightarrow> files list \<times> (file_error + nat \<times> nat)" where
  "import_peers tm ft fs config list =
     (let p = import_path fs config in
      case read_list ft fs list of
        Inl e \<Rightarrow> ([], Inl e)
      | Inr hosts \<Rightarrow>
          (case read_doc tm ft fs p of
             Inl e \<Rightarrow> ([], Inl e)
           | Inr doc \<Rightarrow>
               let old = tm_peers tm doc; (all, added, present) = merge_peers old hosts in
               if added = 0 then ([], Inr (added, present))
               else
                 let text = tm_text tm (tm_push tm doc (drop (length old) all)); tmp = tmp_path p in
                 (case write_file ft fs tmp text of
                    (written, Some e) \<Rightarrow> (written, Inl (Io e))
                  | (written, None) \<Rightarrow>
                      (case rename_file ft (fs(tmp \<mapsto> text)) tmp p of
                         (renamed, Some e) \<Rightarrow> (written @ [renamed], Inl (Io e))
                       | (renamed, None) \<Rightarrow> (written @ [renamed], Inr (added, present))))))"

section \<open>Properties\<close>

lemma write_keeps:
  assumes "write_file ft fs tmp text = (ws, e)" "g \<in> set ws" "q \<noteq> tmp" shows "g q = fs q"
  using assms by (auto simp: write_file_def Let_def simp del: upt_Suc split: option.splits)

text \<open>The hosts of a list that a document does not have yet.\<close>

definition missing :: "rstring list \<Rightarrow> rstring list \<Rightarrow> rstring list" where
  "missing old hosts = drop (length old) (fst (merge_peers old hosts))"

lemma missing_exact:
  assumes "merge_peers old hosts = (all, added, present)"
  shows "all = old @ missing old hosts" "added = length (missing old hosts)" "added + present = length hosts"
    "\<forall>h \<in> set hosts. \<exists>x \<in> set (old @ missing old hosts). eq_ignore_ascii_case x h"
proof -
  obtain new where n: "all = old @ new" "added = length new" "present + length new = length hosts"
    "\<forall>h \<in> set hosts. \<exists>x \<in> set all. eq_ignore_ascii_case x h"
    using add_hosts_spec [of "map (map to_ascii_lowercase) old" old 0 0 hosts all added present] assms
    by (auto simp: merge_peers_def)
  moreover from n(1) have "new = missing old hosts" by (simp add: missing_def assms)
  ultimately show "all = old @ missing old hosts" "added = length (missing old hosts)" "added + present = length hosts"
    "\<forall>h \<in> set hosts. \<exists>x \<in> set (old @ missing old hosts). eq_ignore_ascii_case x h" by auto
qed

text \<open>The ways an import can go.\<close>

lemma import_cases:
  assumes "import_peers tm ft fs config list = (history, res)" "p = import_path fs config"
  obtains (early) e where "history = []" "res = Inl e"
  | (uptodate) hosts doc present where "history = []" "res = Inr (0, present)" "read_list ft fs list = Inr hosts"
      "read_doc tm ft fs p = Inr doc" "merge_peers (tm_peers tm doc) hosts = (tm_peers tm doc, 0, present)"
  | (unwritten) ws e out where "write_file ft fs (tmp_path p) out = (ws, Some e)" "history = ws" "res = Inl (Io e)"
  | (stuck) ws e out where "write_file ft fs (tmp_path p) out = (ws, None)" "history = ws @ [fs(tmp_path p \<mapsto> out)]"
      "res = Inl (Io e)"
  | (finished) hosts doc added present ws out where "read_list ft fs list = Inr hosts" "read_doc tm ft fs p = Inr doc"
      "merge_peers (tm_peers tm doc) hosts = (tm_peers tm doc @ missing (tm_peers tm doc) hosts, added, present)"
      "0 < added" "res = Inr (added, present)" "out = tm_text tm (tm_push tm doc (missing (tm_peers tm doc) hosts))"
      "write_file ft fs (tmp_path p) out = (ws, None)"
      "history = ws @ [fst (rename_file ft (fs(tmp_path p \<mapsto> out)) (tmp_path p) p)]"
      "fl_rename ft = None"
proof (cases "\<exists>hosts doc. read_list ft fs list = Inr hosts \<and> read_doc tm ft fs p = Inr doc")
  case False
  then have "\<exists>e. history = [] \<and> res = Inl e"
    using assms by (auto simp: import_peers_def Let_def split: sum.splits)
  with early show thesis by blast
next
  case True
  then obtain hosts doc where r: "read_list ft fs list = Inr hosts" "read_doc tm ft fs p = Inr doc" by blast
  obtain all added present where m: "merge_peers (tm_peers tm doc) hosts = (all, added, present)" by (cases "merge_peers (tm_peers tm doc) hosts") auto
  note all = missing_exact(1,2) [OF m]
  define out where "out = tm_text tm (tm_push tm doc (missing (tm_peers tm doc) hosts))"
  obtain ws we where w: "write_file ft fs (tmp_path p) out = (ws, we)" by fastforce
  have run: "import_peers tm ft fs config list =
    (if added = 0 then ([], Inr (added, present))
     else case we of Some e \<Rightarrow> (ws, Inl (Io e))
       | None \<Rightarrow> (case rename_file ft (fs(tmp_path p \<mapsto> out)) (tmp_path p) p of
           (renamed, Some e) \<Rightarrow> (ws @ [renamed], Inl (Io e))
         | (renamed, None) \<Rightarrow> (ws @ [renamed], Inr (added, present))))"
    using r m w by (simp add: import_peers_def assms(2) all(1) out_def Let_def split: option.split)
  show thesis
  proof (cases "added = 0")
    case True
    with all run assms(1) r m uptodate show thesis by simp
  next
    case False
    show thesis
    proof (cases we)
      case (Some e)
      with False run assms(1) w unwritten show thesis by simp
    next
      case None
      show thesis
      proof (cases "fl_rename ft")
        case (Some e)
        with None False run assms(1) w stuck show thesis by (simp add: rename_file_def)
      next
        case rn: None
        with None False run assms(1) w r m all out_def finished show thesis by (simp add: rename_file_def)
      qed
    qed
  qed
qed

text \<open>
  C36: An import that is interrupted anywhere, or fails, leaves the configuration file as it was or complete: never
  a part of the new text, never no file where there was one; and it touches no file but that one and the
  temporary one beside it.
\<close>

theorem import_whole:
  assumes "import_peers tm ft fs config list = (history, res)" "g \<in> set history" "named (import_path fs config)"
  shows "(\<forall>q. q \<noteq> import_path fs config \<and> q \<noteq> tmp_path (import_path fs config) \<longrightarrow> g q = fs q)
    \<and> (g (import_path fs config) = fs (import_path fs config)
       \<or> (\<exists>hosts doc. read_list ft fs list = Inr hosts \<and> read_doc tm ft fs (import_path fs config) = Inr doc
            \<and> g (import_path fs config) = Some (tm_text tm (tm_push tm doc (missing (tm_peers tm doc) hosts)))))"
proof -
  let ?p = "import_path fs config"
  have other: "?p \<noteq> tmp_path ?p" using tmp_path_other [OF assms(3)] by simp
  from assms(1) refl show ?thesis
  proof (cases rule: import_cases)
    case (unwritten ws e out)
    with assms(2) write_keeps [OF unwritten(1)] other show ?thesis by auto
  next
    case (stuck ws e out)
    with assms(2) write_keeps [OF stuck(1)] other show ?thesis by auto
  next
    case (finished hosts doc added present ws out)
    show ?thesis
    proof (cases "g \<in> set ws")
      case True
      with write_keeps [OF finished(7)] other show ?thesis by auto
    next
      case False
      with finished assms(2) other show ?thesis by (auto simp: rename_file_def)
    qed
  qed (use assms(2) in simp_all)
qed


section \<open>An example\<close>

text \<open>
  A small format that meets what is asked of TOML: every peer is preceded by its length, counted in ones up to
  a zero; and a disk on which everything works, with one peer in the configuration and a list of two.
\<close>

definition pack :: "rstring list \<Rightarrow> rstring" where
  "pack ls = concat (map (\<lambda>l. replicate (length l) 49 @ 48 # l) ls)"

function unpack :: "rstring \<Rightarrow> rstring list" where
  "unpack s =
     (if s = [] then []
      else let n = length (takeWhile (\<lambda>c. c = 49) s); rest = drop (Suc n) s in take n rest # unpack (drop n rest))"
  by pat_completeness auto
termination by (relation "measure length") (auto simp: Let_def)

declare unpack.simps [simp del]

lemma unpack_one: "unpack (replicate (length l) 49 @ 48 # l @ s) = l # unpack s"
proof -
  have "takeWhile (\<lambda>c. c = 49) (replicate (length l) 49 @ 48 # l @ s) = replicate (length l) (49 :: rchar)"
    by (simp add: takeWhile_append)
  then show ?thesis by (subst unpack.simps) (simp add: Let_def)
qed

lemma unpack_pack: "unpack (pack ls) = ls"
  by (induction ls) (simp_all add: pack_def unpack.simps [of "[]"] unpack_one)

definition empty_file :: file_config where
  "empty_file =
     \<lparr>fc_router = \<lparr>fr_name = None, fr_public_ip = None, fr_listen = None, fr_open_peering = None, fr_peers = []\<rparr>,
      fc_ethertalk = [], fc_ltoudp = [], fc_tashtalk = []\<rparr>"

definition small_toml :: "rstring list toml" where
  "small_toml = \<lparr>tm_de = (\<lambda>_. Inr empty_file), tm_parse = (\<lambda>s. Inr (unpack s)), tm_peers = id, tm_push = (@), tm_text = pack\<rparr>"

definition no_faults :: faults where
  "no_faults = \<lparr>fl_read = (\<lambda>_. None), fl_write = None, fl_rename = None, fl_fetch = (\<lambda>_. Inl [])\<rparr>"

definition a_disk :: files where
  "a_disk = [lit ''c.toml'' \<mapsto> pack [lit ''a''], lit ''new'' \<mapsto> [65, 10, 98, 10]]"

lemma a_disk_list: "read_list no_faults a_disk (lit ''new'') = Inr [[65], [98]]"
  by (simp add: read_list_def is_url_def read_file_def no_faults_def a_disk_def lit_def of_char_def parse_peer_list_def
      lines_of_def strip_cr_def trim_def is_whitespace_def is_host_def is_label_def utf8_len_def char_utf8_len_def ascii_alnum_def)

lemma a_disk_doc: "read_doc small_toml no_faults a_disk (lit ''c.toml'') = Inr [lit ''a'']"
  by (simp add: read_doc_def read_file_def parse_config_def no_faults_def a_disk_def small_toml_def unpack_pack of_file_def empty_file_def
      lit_def of_char_def)

lemma a_disk_import:
  "\<exists>history. import_peers small_toml no_faults a_disk (Some (lit ''c.toml'')) (lit ''new'') = (history, Inr (1, 1))
     \<and> history \<noteq> []"
  using a_disk_list a_disk_doc
  by (simp add: import_peers_def import_path_def small_toml_def merge_peers_def lit_def of_char_def to_ascii_lowercase_def
      no_faults_def write_file_def rename_file_def Let_def del: upt_Suc)

lemma a_disk_named: "named (import_path a_disk (Some (lit ''c.toml'')))"
  by (simp add: named_def import_path_def file_name_def lit_def of_char_def)

theorem import_whole_witness:
  "\<exists>history g. import_peers small_toml no_faults a_disk (Some (lit ''c.toml'')) (lit ''new'') = (history, Inr (1, 1))
     \<and> g \<in> set history \<and> (\<exists>out. g (lit ''c.toml'') = Some out)"
proof -
  obtain history where h: "import_peers small_toml no_faults a_disk (Some (lit ''c.toml'')) (lit ''new'') = (history, Inr (1, 1))"
    "hd history \<in> set history" using a_disk_import by auto
  from import_whole [OF h a_disk_named] have "\<exists>out. hd history (lit ''c.toml'') = Some out"
    by (auto simp: import_path_def a_disk_def)
  with h show ?thesis by blast
qed


end
