(* ===== verification/Router.thy ===== *)
theory Router
  imports Config Aurp_Peers Local_Services
begin

text \<open>
  \<open>src/src/router/mod.rs\<close>: the router's state, one step for every input of the run loop, and the order
  in which a datagram is renumbered, served and forwarded.  The seed of a node ID and the order of a
  hash map are the parameters of theory Ports; opening the links and the loop's waiting are I/O.
\<close>

section \<open>State and inputs\<close>

definition MAX_HOPS :: u8 where "MAX_HOPS = 15"

record router =
  r_ports :: "port list"
  r_tables :: tables
  r_local :: local
  r_peers :: peers

datatype router_in =
    InEther port_id packet
  | InLlap port_id llap
  | InAurp ipv4 bytes
  | InTick
  | InDump
  | InPing
  | InPingReport

definition port_specs :: "config \<Rightarrow> ((u16 \<times> u16) \<times> rstring list) list" where
  "port_specs c =
     map (\<lambda>p. (ep_net p, ep_zones p)) (cf_ethertalk c)
     @ map (\<lambda>p. ((lp_net p, lp_net p), lp_zones p)) (cf_ltoudp c)
     @ map (\<lambda>p. ((tp_net p, tp_net p), tp_zones p)) (cf_tashtalk c)"

fun add_ports ::
    "seeder \<Rightarrow> instant \<Rightarrow> nat \<Rightarrow> ((rstring \<times> kind) \<times> (u16 \<times> u16) \<times> rstring list) list \<Rightarrow> tables \<Rightarrow> port list \<times> tables" where
  "add_ports seed now i [] T = ([], T)"
| "add_ports seed now i (((name, kind), rng, zones) # rest) T =
     (let p = port_new seed (word_of_nat i) name kind rng zones now;
          T = add_port (p_id p) rng (port_extended p) zones now T;
          (ps, T) = add_ports seed now (i + 1) rest T
      in (p # ps, T))"

definition router_new :: "seeder \<Rightarrow> u32 \<Rightarrow> config \<Rightarrow> (rstring \<times> kind) list \<Rightarrow> instant \<Rightarrow> router" where
  "router_new seed nanos cfg port_kinds now =
     (let (ports, T) = add_ports seed now 0 (zip port_kinds (port_specs cfg)) tables_new;
          me = (case cf_public_ip cfg of None \<Rightarrow> DiNull | Some ip \<Rightarrow> DiIp ip)
      in \<lparr>r_ports = ports, r_tables = T, r_local = local_new (cf_name cfg),
          r_peers = peers_new nanos me (cf_open_peering cfg) (cf_peers cfg) now\<rparr>)"

definition port_index :: "port_id \<Rightarrow> router \<Rightarrow> nat option" where
  "port_index i r = position (\<lambda>p. p_id p = i) (r_ports r)"

definition owner :: "u16 \<Rightarrow> router \<Rightarrow> nat option" where
  "owner net r = position (\<lambda>p. fst (p_range p) \<le> net \<and> net \<le> snd (p_range p)) (r_ports r)"

section \<open>Forwarding\<close>

text \<open>Crossing this router costs a hop, with the two exceptions of the code.\<close>

fun hop_free :: "origin \<Rightarrow> target \<Rightarrow> bool" where
  "hop_free OLocal _ \<longleftrightarrow> True"
| "hop_free (OPeer _) (TPort _) \<longleftrightarrow> True"
| "hop_free _ _ \<longleftrightarrow> False"

definition final_dest :: "u8 \<Rightarrow> u8 \<Rightarrow> addr \<Rightarrow> dest" where
  "final_dest distance node nxt =
     (if distance = 0 then (if node = 255 then DBroadcast else DNode node) else DNode (a_node nxt))"

type_synonym entries = "amt \<Rightarrow> (addr \<times> macaddr) list"

definition forward :: "entries \<Rightarrow> origin \<Rightarrow> ddp \<Rightarrow> router \<Rightarrow> action list" where
  "forward entries origin d r =
     (if d_hops d \<ge> MAX_HOPS then []
      else case best (r_tables r) (a_net (d_dst d)) of
        None \<Rightarrow> []
      | Some route \<Rightarrow>
          let tgt = rt_target route in
          if origin_is origin tgt then []
          else
            let d = (if hop_free origin tgt then d else d\<lparr>d_hops := d_hops d + 1\<rparr>) in
            case tgt of
              TPeer ip \<Rightarrow> [peers_forward ip (ddp_encode d) (r_peers r)]
            | TPort i \<Rightarrow>
                (case port_index i r of
                   None \<Rightarrow> []
                 | Some k \<Rightarrow>
                     let dest = final_dest (rt_distance route) (a_node (d_dst d)) (rt_next route)
                     in the_list (port_emit entries (r_ports r ! k) dest d)))"

definition router_emit :: "entries \<Rightarrow> emit \<Rightarrow> router \<Rightarrow> action list" where
  "router_emit entries e r =
     (case e of
        EmitOn i dest d \<Rightarrow>
          (case port_index i r of
             Some k \<Rightarrow> the_list (port_emit entries (r_ports r ! k) dest d)
           | None \<Rightarrow> [])
      | EmitRoute d \<Rightarrow> forward entries OLocal d r)"

section \<open>Route changes\<close>

definition describe :: "tables \<Rightarrow> route_change \<Rightarrow> log_line" where
  "describe T c =
     LogRoute (rc_range c) (rc_old c) (rc_new c)
       (if rc_new c = None then []
        else case zones_of T (fst (rc_range c)) of Some z \<Rightarrow> zl_names z | None \<Rightarrow> [])"

definition changed :: "route_change list \<Rightarrow> router \<Rightarrow> router \<times> action list" where
  "changed chs r =
     (if chs = [] then (r, [])
      else (r\<lparr>r_peers := route_changed chs (r_tables r) (r_peers r)\<rparr>,
            map (\<lambda>c. ALog (describe (r_tables r) c)) chs))"

section \<open>A datagram arrives\<close>

definition arriving :: "origin \<Rightarrow> router \<Rightarrow> port option" where
  "arriving origin r =
     (case origin of OPort i \<Rightarrow> map_option ((!) (r_ports r)) (port_index i r) | _ \<Rightarrow> None)"

text \<open>Network 0 means this cable.\<close>

definition renumbered :: "port option \<Rightarrow> ddp \<Rightarrow> ddp" where
  "renumbered here d =
     (case here of
        None \<Rightarrow> d
      | Some p \<Rightarrow>
          let net = fst (p_range p);
              d = (if a_net (d_dst d) = 0 then d\<lparr>d_dst := (d_dst d)\<lparr>a_net := net\<rparr>\<rparr> else d)
          in if a_net (d_src d) = 0 then d\<lparr>d_src := (d_src d)\<lparr>a_net := net\<rparr>\<rparr> else d)"

definition serve :: "entries \<Rightarrow> port option \<Rightarrow> port \<Rightarrow> ddp \<Rightarrow> ddp_body \<Rightarrow> instant \<Rightarrow> router \<Rightarrow> router \<times> action list" where
  "serve entries here q d body now r =
     (let (T, emits, chs) = handle (r_local r) here q (r_ports r) d body now (r_tables r);
          (r, acts) = changed chs (r\<lparr>r_tables := T\<rparr>)
      in (r, acts @ concat (map (\<lambda>e. router_emit entries e r) emits)))"

definition for_us :: "port \<Rightarrow> u8 \<Rightarrow> bool" where
  "for_us q node \<longleftrightarrow> node = 0 \<or> node = 255 \<or> Some node = p_node q"

definition arrived :: "entries \<Rightarrow> origin \<Rightarrow> ddp \<Rightarrow> ddp_body \<Rightarrow> instant \<Rightarrow> router \<Rightarrow> router \<times> action list" where
  "arrived entries origin d body now r =
     (if unat (d_length d) \<noteq> 13 + length (d_data d) then (r, [])
      else
        let here = arriving origin r; d = renumbered here d in
        case owner (a_net (d_dst d)) r of
          None \<Rightarrow> (r, forward entries origin d r)
        | Some k \<Rightarrow>
            let q = r_ports r ! k;
                node = a_node (d_dst d);
                (r, out) = (if for_us q node then serve entries here q d body now r else (r, []))
            in if node = 255 \<or> \<not> for_us q node
               then (r, out @ forward entries origin d r)
               else (r, out))"

section \<open>One step\<close>

fun tick_ports :: "instant \<Rightarrow> port list \<Rightarrow> port list \<times> action list" where
  "tick_ports now [] = ([], [])"
| "tick_ports now (p # ps) =
     (let (p, a) = port_tick now p; (ps, as) = tick_ports now ps in (p # ps, a @ as))"

definition router_tick :: "entries \<Rightarrow> instant \<Rightarrow> router \<Rightarrow> router \<times> action list" where
  "router_tick entries now r =
     (let (ps, a1) = tick_ports now (r_ports r);
          r = r\<lparr>r_ports := ps\<rparr>;
          (T, chs) = age now (r_tables r);
          (r, a2) = changed chs (r\<lparr>r_tables := T\<rparr>);
          (lo, emits) = local_tick (r_ports r) (r_tables r) now (r_local r);
          r = r\<lparr>r_local := lo\<rparr>;
          a3 = concat (map (\<lambda>e. router_emit entries e r) emits);
          (peers, T, a4, chs) = peers_tick (r_tables r) now (r_peers r);
          (r, a5) = changed chs (r\<lparr>r_peers := peers, r_tables := T\<rparr>)
      in (r, a1 @ a2 @ a3 @ a4 @ a5))"

definition router_step :: "seeder \<Rightarrow> entries \<Rightarrow> router_in \<Rightarrow> instant \<Rightarrow> router \<Rightarrow> router \<times> action list" where
  "router_step seed entries input now r =
     (case input of
        InEther i pk \<Rightarrow>
          (case port_index i r of
             None \<Rightarrow> (r, [])
           | Some k \<Rightarrow>
               let (inb, out, p) = inbound_ether seed pk now (r_ports r ! k);
                   r = r\<lparr>r_ports := (r_ports r)[k := p]\<rparr>
               in (case (inb, pk_body pk) of
                     (InDdp d, BDdp _ body) \<Rightarrow>
                       (let (r, more) = arrived entries (OPort i) d body now r in (r, out @ more))
                   | _ \<Rightarrow> (r, out)))
      | InLlap i l \<Rightarrow>
          (case port_index i r of
             None \<Rightarrow> (r, [])
           | Some k \<Rightarrow>
               let (inb, out, p) = inbound_llap seed l now (r_ports r ! k);
                   r = r\<lparr>r_ports := (r_ports r)[k := p]\<rparr>
               in (case inb of
                     InDdp d \<Rightarrow>
                       (let (r, more) = arrived entries (OPort i) d (decode_ddp_body d) now r in (r, out @ more))
                   | _ \<Rightarrow> (r, out)))
      | InAurp from bs \<Rightarrow>
          let (peers, T, out, chs, dat) = packet from bs (r_tables r) now (r_peers r);
              (r, a2) = changed chs (r\<lparr>r_peers := peers, r_tables := T\<rparr>)
          in (case Option.bind dat ddp_parse of
                Some d \<Rightarrow>
                  (let (r, more) = arrived entries (OPeer from) d (decode_ddp_body d) now r
                   in (r, out @ a2 @ more))
              | None \<Rightarrow> (r, out @ a2))
      | InTick \<Rightarrow> router_tick entries now r
      | InPing \<Rightarrow> (let (ps, acts) = ping now (r_peers r) in (r\<lparr>r_peers := ps\<rparr>, acts))
      | InPingReport \<Rightarrow> (let (ps, rows) = ping_report (r_peers r) in (r\<lparr>r_peers := ps\<rparr>, [ALog LogPingReport]))
      | InDump \<Rightarrow> (r, [ALog LogDump]))"

text \<open>The run loop's other operations on the router: names resolved and the way down.\<close>

definition router_resolved :: "rstring \<Rightarrow> ipv4 \<Rightarrow> instant \<Rightarrow> router \<Rightarrow> router" where
  "router_resolved name addr now r = r\<lparr>r_peers := resolved name addr now (r_peers r)\<rparr>"

definition router_shutdown :: "instant \<Rightarrow> router \<Rightarrow> router \<times> action list" where
  "router_shutdown now r = (let (ps, acts) = shutdown now (r_peers r) in (r\<lparr>r_peers := ps\<rparr>, acts))"

end
