(* ===== verification/Router_Invariants.thy ===== *)
theory Router_Invariants
  imports Router Service_Properties Aurp_Properties
begin

text \<open>
  What holds of a running router whatever arrives.  Every input moves the tables by steps of the routing
  table alone, and no step, a tuple with its range the wrong way round included, can touch the route
  to a network of our own.  The steps carry no hypothesis on what was heard.
\<close>

section \<open>Steps of the tables\<close>

inductive table_move :: "tables \<Rightarrow> tables \<Rightarrow> bool" where
  learn: "table_move T (fst (learn t tgt nxt now T))"
| age: "table_move T (fst (age now T))"
| remove_target: "table_move T (fst (remove_target (TPeer ip) T))"
| remove: "table_move T (fst (remove_route (TPeer ip) start T))"
| set_distance: "1 \<le> d \<Longrightarrow> d \<le> 15 \<Longrightarrow> table_move T (fst (set_distance (TPeer ip) start d now T))"
| add_zones: "table_move T (fst (add_zones start names expected T))"

abbreviation table_moves :: "tables \<Rightarrow> tables \<Rightarrow> bool" where
  "table_moves \<equiv> table_move\<^sup>*\<^sup>*"

lemmas moves_trans = rtranclp_trans [of table_move]
lemmas move_one = r_into_rtranclp [of table_move]

lemma learn_tuples_moves: "table_moves T (fst (learn_tuples i sender now ts T))"
proof (induction ts arbitrary: T)
  case (Cons t ts)
  have "table_moves T (fst (learn t (TPort i) sender now T))" by (rule move_one [OF table_move.learn])
  from moves_trans [OF this Cons.IH] show ?case by (simp add: case_prod_beta Let_def)
qed simp

lemma store_zones_moves: "table_moves T (fst (store_zones e gs T))"
proof (induction gs arbitrary: T)
  case (Cons g gs)
  obtain net names where g: "g = (net, names)" by fastforce
  have "table_moves T (fst (add_zones net names e T))" by (rule move_one [OF table_move.add_zones])
  from moves_trans [OF this Cons.IH] show ?case by (simp add: g case_prod_beta Let_def)
qed simp

lemma handle_moves: "table_moves T (fst (handle lo arrived_on q ports d body now T))"
proof (cases rule: handle_cases [where d = d and arrived_on = arrived_on and q = q and body = body and lo = lo
      and ports = ports and now = now and T = T])
  case rtmp
  then show ?thesis by (simp add: learn_tuples_moves)
next
  case zip
  then show ?thesis by (simp add: learn_zones_def store_zones_moves)
qed simp

lemma next_hop_distance: "(d :: u8) < 15 \<Longrightarrow> 1 \<le> d + 1 \<and> d + 1 \<le> 15"
  using hop_more [of d] by (simp add: word_le_nat_alt unat_gt_0 Suc_le_eq)

lemma apply_event_moves: "table_moves T (fst (apply_event p e T now))"
proof -
  have d: "1 \<le> nt_distance (ev_tuple e) + 1 \<and> nt_distance (ev_tuple e) + 1 \<le> 15"
    if "\<not> nt_distance (ev_tuple e) \<ge> 15"
    using next_hop_distance [of "nt_distance (ev_tuple e)"] that by simp
  show ?thesis
    using d by (auto simp: apply_event_def Let_def intro!: move_one table_move.intros)
qed

lemma apply_events_moves: "table_moves T (fst (apply_events p es T now))"
proof (induction es arbitrary: T)
  case (Cons e es)
  from moves_trans [OF apply_event_moves Cons.IH] show ?case by (simp add: case_prod_beta Let_def)
qed simp

lemma learn_all_moves: "table_moves T (fst (learn_all p ts T now))"
proof (induction ts arbitrary: T)
  case (Cons t ts)
  have "table_moves T (fst (if nt_distance t < 15 then learn t (TPeer (pe_addr p)) NO_NEXT now T else (T, [])))"
    by (simp add: move_one table_move.learn)
  from moves_trans [OF this Cons.IH] show ?case by (simp add: case_prod_beta Let_def)
qed simp

lemma zi_store_moves: "table_moves T (fst (zi_store ext zones nets T))"
proof (induction nets arbitrary: T)
  case (Cons net nets)
  have "table_moves T (fst (add_zones net (zi_names zones net) (map_option unat ext) T))"
    by (rule move_one [OF table_move.add_zones])
  from moves_trans [OF this Cons.IH] Cons.IH show ?case by (simp add: case_prod_beta Let_def)
qed simp

lemma routing_moves: "table_moves T (ef_tables (routing conn seq cmd T now p))"
proof (cases cmd)
  case (RiRsp fin ts)
  then show ?thesis
    by (simp add: routing_def on_ri_rsp_def sequence_ahead_def learn_all_moves case_prod_beta Let_def split: seq.split)
next
  case (RiUpd es)
  then show ?thesis
    by (simp add: routing_def on_ri_upd_def sequence_ahead_def apply_events_moves case_prod_beta Let_def split: seq.split)
next
  case (ZiRsp ext zones)
  then show ?thesis by (simp add: routing_def zi_rsp_def zi_store_moves case_prod_beta Let_def)
next
  case (Rd code)
  then show ?thesis by (simp add: routing_def case_prod_beta Let_def move_one table_move.remove_target)
qed (simp_all add: routing_def case_prod_beta Let_def)

lemma receiver_timers_moves: "table_moves T (ef_tables (receiver_timers T now p))"
  by (cases rule: receiver_timers_consider [where p = p and now = now and T = T])
     (simp_all add: move_one table_move.remove_target)

lemma tick_peer_moves: "table_moves T (fst (snd (tick_peer scan zi T now p)))"
  using receiver_timers_moves [of T now "if scan then fst (reconnect now p) else p"]
  by (cases scan) (simp_all add: tick_peer_def case_prod_beta Let_def)

lemma tick_loop_moves: "table_moves T (fst (snd (tick_loop scan zi now m T)))"
proof (induction m arbitrary: T)
  case (Cons kp m)
  obtain k p where kp: "kp = (k, p)" by fastforce
  from moves_trans [OF tick_peer_moves Cons.IH] show ?case by (simp add: kp case_prod_beta Let_def)
qed simp

lemma peers_tick_moves: "table_moves T (fst (snd (peers_tick T now ps)))"
  using tick_loop_moves by (simp add: peers_tick_def case_prod_beta Let_def)

lemma peer_packet_moves: "table_moves T (fst (snd (peer_packet from pkt T now ps)))"
  using routing_moves by (auto simp: peer_packet_def case_prod_beta Let_def split: option.split aurp.split)

lemma packet_moves: "table_moves T (fst (snd (packet from bs T now ps)))"
  using peer_packet_moves by (simp add: packet_def case_prod_beta Let_def split: option.split)

section \<open>Networks of our own\<close>

text \<open>The route of a port, named by the port's ID and range, which never change.\<close>

type_synonym port_key = "port_id \<times> u16 \<times> u16"

definition port_key :: "port \<Rightarrow> port_key" where
  "port_key p = (p_id p, p_range p)"

definition home :: "port_key \<Rightarrow> route \<Rightarrow> bool" where
  "home k r \<longleftrightarrow> rt_target r = TPort (fst k) \<and> rt_range r = snd k \<and> rt_distance r = 0 \<and> rt_state r = Good"

definition homes_ok :: "port_key set \<Rightarrow> tables \<Rightarrow> bool" where
  "homes_ok K T \<longleftrightarrow> (\<forall>k \<in> K. \<exists>r \<in> set (tb_routes T). home k r)
     \<and> (\<forall>r \<in> set (tb_routes T). (\<exists>k \<in> K. home k r) \<or> (1 \<le> rt_distance r \<and> rt_distance r \<le> 15))"

lemma home_direct: "home k r \<Longrightarrow> direct r"
  by (simp add: home_def direct_def)

lemma homes_ok_step:
  assumes "homes_ok K T"
    and keep: "\<And>k r. r \<in> set (tb_routes T) \<Longrightarrow> k \<in> K \<Longrightarrow> home k r \<Longrightarrow> r \<in> set (tb_routes T')"
    and far: "\<And>q. q \<in> set (tb_routes T') \<Longrightarrow> q \<in> set (tb_routes T) \<or> (1 \<le> rt_distance q \<and> rt_distance q \<le> 15)"
  shows "homes_ok K T'"
  using assms(1) far unfolding homes_ok_def by (meson keep)

lemma member_update: "r \<in> set xs \<Longrightarrow> r \<noteq> xs ! i \<Longrightarrow> r \<in> set (xs[i := y])"
  by (metis in_set_conv_nth length_list_update nth_list_update_neq)

lemma homes_learn:
  assumes ok: "homes_ok K T" shows "homes_ok K (fst (learn t tgt nxt now T))"
proof (cases "learn_ignored t T")
  case True
  with ok show ?thesis by (simp add: learn_update)
next
  case False
  then have rs: "tb_routes (fst (learn t tgt nxt now T)) = learn_routes t tgt nxt now (tb_routes T)"
    by (simp add: learn_update)
  have hop: "1 \<le> nt_distance t + 1 \<and> nt_distance t + 1 \<le> 15" if "\<not> nt_distance t \<ge> 15"
    using next_hop_distance that by (simp add: not_le)
  show ?thesis
  proof (cases "position (same_path t tgt nxt) (tb_routes T)")
    case None
    show ?thesis
      by (rule homes_ok_step [OF ok])
         (use hop in \<open>auto simp: rs learn_routes_None [OF None] new_route_def split: if_splits\<close>)
  next
    case (Some i)
    let ?x = "tb_routes T ! i"
    have i: "i < length (tb_routes T)" and x: "rt_range ?x = nt_range t"
      using position_lt [OF Some] position_holds [OF Some] by (simp_all add: same_path_def)
    have mem: "?x \<in> set (tb_routes T)" using i by simp
    have nd: "\<not> direct ?x" using False mem x by (auto simp: learn_ignored_def)
    have xd: "1 \<le> rt_distance ?x" "rt_distance ?x \<le> 15"
      using ok mem nd home_direct unfolding homes_ok_def by blast+
    show ?thesis
    proof (rule homes_ok_step [OF ok])
      fix k r assume r: "r \<in> set (tb_routes T)" "home k r"
      then have "r \<noteq> ?x" using nd home_direct by blast
      with r(1) set_remove_at [OF i] show "r \<in> set (tb_routes (fst (learn t tgt nxt now T)))"
        by (auto simp: rs learn_routes_Some [OF Some] intro: member_update)
    next
      fix q assume q: "q \<in> set (tb_routes (fst (learn t tgt nxt now T)))"
      show "q \<in> set (tb_routes T) \<or> (1 \<le> rt_distance q \<and> rt_distance q \<le> 15)"
      proof (cases "nt_distance t \<ge> 15 \<and> nt_distance t \<noteq> 31")
        case True
        have "q \<in> set (remove_at i (tb_routes T))" using True q by (simp only: rs learn_routes_Some [OF Some] if_True simp_thms)
        from subsetD [OF set_remove_at_subset this] show ?thesis by simp
      next
        case False
        then have "q \<in> set ((tb_routes T)[i := refreshed t now ?x])"
          using q by (simp only: rs learn_routes_Some [OF Some] if_False simp_thms)
        then have "q \<in> set (tb_routes T) \<or> q = refreshed t now ?x" using set_update_subset_insert by fast
        with False hop xd show ?thesis by (auto simp: refreshed_def)
      qed
    qed
  qed
qed

lemma homes_age: "homes_ok K T \<Longrightarrow> homes_ok K (fst (age now T))"
proof (rule homes_ok_step, assumption)
  fix k r assume "r \<in> set (tb_routes T)" "home k r"
  moreover from this have "age_route now r = Some r" by (simp add: age_route_def home_direct)
  ultimately show "r \<in> set (tb_routes (fst (age now T)))" by (force simp: age_update set_map_filter)
next
  fix q assume ok: "homes_ok K T" and "q \<in> set (tb_routes (fst (age now T)))"
  then obtain r where r: "r \<in> set (tb_routes T)" "age_route now r = Some q"
    by (auto simp: age_update set_map_filter)
  then have "q = r \<or> (\<not> direct r \<and> rt_distance q = rt_distance r)"
    by (auto simp: age_route_def split: if_splits)
  moreover have "\<not> direct r \<Longrightarrow> 1 \<le> rt_distance r \<and> rt_distance r \<le> 15"
    using ok r(1) home_direct unfolding homes_ok_def by blast
  ultimately show "q \<in> set (tb_routes T) \<or> (1 \<le> rt_distance q \<and> rt_distance q \<le> 15)" using r(1) by auto
qed

lemma homes_move: "table_move T T' \<Longrightarrow> homes_ok K T \<Longrightarrow> homes_ok K T'"
proof (induction rule: table_move.induct)
  case (remove_target T ip)
  then show ?case by (rule homes_ok_step) (auto simp: remove_target_update home_def)
next
  case (remove T ip start)
  then show ?case by (rule homes_ok_step) (auto simp: remove_route_update home_def)
next
  case (set_distance d T ip start now)
  from set_distance.prems show ?case
    by (rule homes_ok_step) (use set_distance.hyps in \<open>force simp: set_distance_update home_def\<close>)+
next
  case (add_zones T start names expected)
  then show ?case by (simp add: homes_ok_def)
qed (simp_all add: homes_learn homes_age)

lemma homes_moves: "table_moves T T' \<Longrightarrow> homes_ok K T \<Longrightarrow> homes_ok K T'"
  by (induction rule: rtranclp_induct) (auto intro: homes_move)

text \<open>The route a network of our own takes, whatever else the tables hold.\<close>

lemma home_best:
  assumes "homes_ok K T" "k \<in> K" "fst (snd k) \<le> net" "net \<le> snd (snd k)"
  shows "\<exists>r k'. best T net = Some r \<and> k' \<in> K \<and> home k' r \<and> fst (snd k') \<le> net \<and> net \<le> snd (snd k')"
proof -
  obtain h where h: "h \<in> set (tb_routes T)" "home k h" using assms(1,2) by (auto simp: homes_ok_def)
  then have c: "contains h net" "usable (rt_state h)" "rt_distance h = 0"
    using assms(3,4) by (simp_all add: home_def contains_def usable_def)
  obtain r where r: "best T net = Some r"
    using h(1) c(1,2) pick_None_iff [of T "\<lambda>r. contains r net"] by (auto simp: best_def)
  then have p: "pick T (\<lambda>r. contains r net) = Some r" by (simp add: best_def)
  have "rt_distance r \<le> 0" using pick_least(1) [OF p h(1) c(2,1)] c(3) by simp
  moreover have "r \<in> set (tb_routes T)" "contains r net" using pick_props [OF p] by simp_all
  ultimately obtain k' where "k' \<in> K" "home k' r" "contains r net"
    using assms(1) by (auto simp: homes_ok_def)
  moreover from this have "fst (snd k') \<le> net" "net \<le> snd (snd k')" by (simp_all add: home_def contains_def)
  ultimately show ?thesis using r by blast
qed

section \<open>The configured ports\<close>

definition disjoint_ranges :: "port list \<Rightarrow> bool" where
  "disjoint_ranges ps \<longleftrightarrow> sorted_wrt (\<lambda>p q. \<not> overlaps (p_range p) (p_range q)) ps"

definition ports_ok :: "port list \<Rightarrow> bool" where
  "ports_ok ps \<longleftrightarrow> distinct (map p_id ps) \<and> disjoint_ranges ps
     \<and> (\<forall>p \<in> set ps. range_ok (p_range p) \<and> p_zones p \<noteq> [] \<and> (\<forall>z \<in> set (p_zones p). wf_name z) \<and> port_ok p)"

definition router_ok :: "router \<Rightarrow> bool" where
  "router_ok r \<longleftrightarrow> ports_ok (r_ports r) \<and> homes_ok (port_key ` set (r_ports r)) (r_tables r) \<and> peers_ok (r_peers r)"

text \<open>What never changes in a port.\<close>

definition same_port :: "port \<Rightarrow> port \<Rightarrow> bool" where
  "same_port p q \<longleftrightarrow> p_id q = p_id p \<and> p_range q = p_range p \<and> p_zones q = p_zones p
     \<and> p_kind q = p_kind p \<and> p_name q = p_name p \<and> (port_ok p \<longrightarrow> port_ok q)
     \<and> (\<forall>n. p_node p = Some n \<longrightarrow> p_node q = Some n)"

lemma same_port_step: "same_port p (port_step seed e p)"
proof -
  have "p_id (port_step seed e p) = p_id p \<and> p_range (port_step seed e p) = p_range p
      \<and> p_zones (port_step seed e p) = p_zones p \<and> p_kind (port_step seed e p) = p_kind p
      \<and> p_name (port_step seed e p) = p_name p"
    by (cases e) (auto simp: port_tick_def claimed_def restart_def inbound_ether_def inbound_llap_def Let_def
          split: kind.split prod.split body.split aarp_action.split)
  then show ?thesis by (simp add: same_port_def port_step_ok port_step_keeps)
qed

lemma same_port_refl: "same_port p p"
  by (simp add: same_port_def)

lemma ports_ok_same:
  assumes "list_all2 same_port ps qs" "ports_ok ps"
  shows "ports_ok qs" "port_key ` set qs = port_key ` set ps"
proof -
  have len: "length qs = length ps" and nth: "\<And>i. i < length ps \<Longrightarrow> same_port (ps ! i) (qs ! i)"
    using assms(1) by (auto simp: list_all2_conv_all_nth)
  have ids: "map p_id qs = map p_id ps" "map port_key qs = map port_key ps" "map p_range qs = map p_range ps"
    using nth len by (auto simp: same_port_def port_key_def intro!: nth_equalityI)
  show "port_key ` set qs = port_key ` set ps" using ids(2) by (metis set_map)
  have "disjoint_ranges qs"
    using assms(2) nth len unfolding ports_ok_def disjoint_ranges_def sorted_wrt_iff_nth_less
    by (auto simp: same_port_def)
  moreover have "range_ok (p_range q) \<and> p_zones q \<noteq> [] \<and> (\<forall>z \<in> set (p_zones q). wf_name z) \<and> port_ok q"
    if q: "q \<in> set qs" for q
  proof -
    obtain i where i: "i < length ps" "q = qs ! i" using q len by (auto simp: in_set_conv_nth)
    have "range_ok (p_range (ps ! i)) \<and> p_zones (ps ! i) \<noteq> [] \<and> (\<forall>z \<in> set (p_zones (ps ! i)). wf_name z)
        \<and> port_ok (ps ! i)"
      using assms(2) nth_mem [OF i(1)] unfolding ports_ok_def by blast
    with nth [OF i(1)] i(2) show ?thesis by (simp add: same_port_def)
  qed
  ultimately show "ports_ok qs" using assms(2) ids(1) by (simp add: ports_ok_def)
qed

lemma same_ports_update:
  "i < length ps \<Longrightarrow> same_port (ps ! i) q \<Longrightarrow> list_all2 same_port ps (ps[i := q])"
  by (auto simp: list_all2_conv_all_nth nth_list_update same_port_refl)

lemma same_ports_tick: "list_all2 same_port ps (fst (tick_ports now ps))"
proof (induction ps)
  case (Cons p ps)
  have "same_port p (fst (port_tick now p))" using same_port_step [of p seed "PTick now" for seed] by simp
  with Cons show ?case by (simp add: case_prod_beta Let_def)
qed simp

section \<open>A router that runs\<close>

definition evolves :: "router \<Rightarrow> router \<Rightarrow> bool" where
  "evolves r r' \<longleftrightarrow> list_all2 same_port (r_ports r) (r_ports r') \<and> table_moves (r_tables r) (r_tables r')
     \<and> peers_step\<^sup>*\<^sup>* (r_peers r) (r_peers r')"

lemma same_ports_refl [simp]: "list_all2 same_port ps ps"
  by (simp add: list_all2_same same_port_refl)

lemma evolves_refl [simp]: "evolves r r"
  by (simp add: evolves_def)

lemma same_ports_trans: "list_all2 same_port ps qs \<Longrightarrow> list_all2 same_port qs rs \<Longrightarrow> list_all2 same_port ps rs"
  by (rule list_all2_trans [of same_port same_port same_port]) (auto simp: same_port_def)

lemma evolves_trans [trans]: "evolves r s \<Longrightarrow> evolves s t \<Longrightarrow> evolves r t"
  unfolding evolves_def by (meson same_ports_trans rtranclp_trans)

lemma evolves_parts:
  "list_all2 same_port (r_ports r) ps \<Longrightarrow> evolves r (r\<lparr>r_ports := ps\<rparr>)"
  "table_moves (r_tables r) T \<Longrightarrow> evolves r (r\<lparr>r_tables := T\<rparr>)"
  "evolves r (r\<lparr>r_local := lo\<rparr>)"
  "peers_step (r_peers r) qs \<Longrightarrow> evolves r (r\<lparr>r_peers := qs\<rparr>)"
  "peers_step (r_peers r) qs \<Longrightarrow> table_moves (r_tables r) T \<Longrightarrow> evolves r (r\<lparr>r_peers := qs, r_tables := T\<rparr>)"
  by (simp_all add: evolves_def r_into_rtranclp)

lemma changed_evolves: "evolves r (fst (changed chs r))"
  by (simp add: changed_def evolves_parts(4) peers_step.changed)

lemma serve_evolves: "evolves r (fst (serve entries here q d body now r))"
proof -
  let ?h = "handle (r_local r) here q (r_ports r) d body now (r_tables r)"
  have "evolves r (r\<lparr>r_tables := fst ?h\<rparr>)" by (rule evolves_parts(2)) (rule handle_moves)
  from evolves_trans [OF this changed_evolves] show ?thesis by (simp add: serve_def case_prod_beta Let_def)
qed

lemma arrived_evolves: "evolves r (fst (arrived entries origin d body now r))"
  using serve_evolves by (simp add: arrived_def case_prod_beta Let_def split: option.split)

lemma port_index_lt: "port_index i r = Some k \<Longrightarrow> k < length (r_ports r) \<and> p_id (r_ports r ! k) = i"
  using position_lt position_holds by (fastforce simp: port_index_def)

lemma router_tick_evolves: "evolves r (fst (router_tick entries now r))"
proof -
  define r1 where "r1 = r\<lparr>r_ports := fst (tick_ports now (r_ports r))\<rparr>"
  define r2 where "r2 = fst (changed (snd (age now (r_tables r1))) (r1\<lparr>r_tables := fst (age now (r_tables r1))\<rparr>))"
  define r3 where "r3 = r2\<lparr>r_local := fst (local_tick (r_ports r2) (r_tables r2) now (r_local r2))\<rparr>"
  define pt where "pt = peers_tick (r_tables r3) now (r_peers r3)"
  define r4 where "r4 = r3\<lparr>r_peers := fst pt, r_tables := fst (snd pt)\<rparr>"
  have "evolves r r1" unfolding r1_def by (rule evolves_parts(1)) (rule same_ports_tick)
  also have "evolves r1 (r1\<lparr>r_tables := fst (age now (r_tables r1))\<rparr>)"
    by (rule evolves_parts(2)) (rule move_one [OF table_move.age])
  also have "evolves (r1\<lparr>r_tables := fst (age now (r_tables r1))\<rparr>) r2"
    unfolding r2_def by (rule changed_evolves)
  also have "evolves r2 r3" unfolding r3_def by (rule evolves_parts(3))
  also have "evolves r3 r4"
    unfolding r4_def pt_def by (rule evolves_parts(5)) (simp_all add: peers_step.tick peers_tick_moves)
  also have "evolves r4 (fst (changed (snd (snd (snd pt))) r4))" by (rule changed_evolves)
  finally show ?thesis
    by (simp add: router_tick_def r1_def r2_def r3_def r4_def pt_def case_prod_beta Let_def)
qed

lemma router_step_evolves: "evolves r (fst (router_step seed entries input now r))"
proof (cases input)
  case (InEther i pk)
  show ?thesis
  proof (cases "port_index i r")
    case (Some k)
    let ?e = "inbound_ether seed pk now (r_ports r ! k)"
    have "evolves r (r\<lparr>r_ports := (r_ports r)[k := snd (snd ?e)]\<rparr>)" (is "evolves r ?r")
      using same_port_step [of "r_ports r ! k" seed "PEther pk now"] port_index_lt [OF Some]
      by (intro evolves_parts(1) same_ports_update) simp_all
    with evolves_trans [OF this arrived_evolves] Some show ?thesis
      by (auto simp: InEther router_step_def case_prod_beta Let_def split: port_in.split body.split)
  qed (simp add: InEther router_step_def)
next
  case (InLlap i l)
  show ?thesis
  proof (cases "port_index i r")
    case (Some k)
    let ?e = "inbound_llap seed l now (r_ports r ! k)"
    have "evolves r (r\<lparr>r_ports := (r_ports r)[k := snd (snd ?e)]\<rparr>)" (is "evolves r ?r")
      using same_port_step [of "r_ports r ! k" seed "PLlap l now"] port_index_lt [OF Some]
      by (intro evolves_parts(1) same_ports_update) simp_all
    with evolves_trans [OF this arrived_evolves] Some show ?thesis
      by (auto simp: InLlap router_step_def case_prod_beta Let_def split: port_in.split)
  qed (simp add: InLlap router_step_def)
next
  case (InAurp src bs)
  let ?p = "packet src bs (r_tables r) now (r_peers r)"
  have "evolves r (r\<lparr>r_peers := fst ?p, r_tables := fst (snd ?p)\<rparr>)"
    by (rule evolves_parts(5)) (simp_all add: peers_step.packet packet_moves)
  note c = evolves_trans [OF this changed_evolves]
  show ?thesis
    using c evolves_trans [OF c arrived_evolves]
    by (simp add: InAurp router_step_def case_prod_beta Let_def split: option.split)
next
  case InTick
  then show ?thesis by (simp add: router_step_def router_tick_evolves)
next
  case InPing
  then show ?thesis
    using evolves_parts(4) [OF peers_step.ping] by (simp add: router_step_def case_prod_beta Let_def)
next
  case InPingReport
  then show ?thesis
    using evolves_parts(4) [OF peers_step.report] by (simp add: router_step_def case_prod_beta Let_def)
next
  case InDump
  then show ?thesis by (simp add: router_step_def)
qed

lemma evolves_ok: "evolves r r' \<Longrightarrow> router_ok r \<Longrightarrow> router_ok r'"
proof -
  assume e: "evolves r r'" and ok: "router_ok r"
  have p: "ports_ok (r_ports r')" "port_key ` set (r_ports r') = port_key ` set (r_ports r)"
    using e ok ports_ok_same unfolding evolves_def router_ok_def by blast+
  moreover have "homes_ok (port_key ` set (r_ports r')) (r_tables r')"
    using e ok homes_moves unfolding p(2) evolves_def router_ok_def by blast
  moreover have "peers_ok (r_peers r')"
  proof -
    have "peers_step\<^sup>*\<^sup>* (r_peers r) (r_peers r')" "peers_ok (r_peers r)"
      using e ok by (simp_all add: evolves_def router_ok_def)
    then show ?thesis by (induction rule: rtranclp_induct) (auto intro: peers_step_ok)
  qed
  ultimately show ?thesis by (simp add: router_ok_def)
qed

end
