(* ===== verification/Router_Properties.thy ===== *)
theory Router_Properties
  imports Router_Invariants Config_Properties
begin

text \<open>
  What the router as a whole promises, from a configuration that passed its checks, whatever arrives: the
  networks of its own cables stay reachable through their ports, a datagram crosses a bounded
  number of routers and never goes back where it came from, and it reaches its cable.
\<close>

section \<open>A router from its configuration\<close>

lemma add_ports_result:
  assumes "add_ports seed now i xs T = (ps, T')"
  shows "map p_id ps = map word_of_nat [i..<i + length xs]
    \<and> map (\<lambda>p. (p_range p, p_zones p)) ps = map snd xs
    \<and> (\<forall>p \<in> set ps. port_ok p)
    \<and> set (tb_routes T) \<subseteq> set (tb_routes T')
    \<and> (\<forall>p \<in> set ps. \<exists>r \<in> set (tb_routes T'). home (port_key p) r)
    \<and> (\<forall>r \<in> set (tb_routes T'). r \<in> set (tb_routes T) \<or> (\<exists>p \<in> set ps. home (port_key p) r))"
  using assms
proof (induction xs arbitrary: i T ps)
  case (Cons x xs)
  obtain name kind rng zones where x: "x = ((name, kind), rng, zones)" by (metis prod.exhaust)
  define p where "p = port_new seed (word_of_nat i) name kind rng zones now"
  define T1 where "T1 = add_port (p_id p) rng (port_extended p) zones now T"
  obtain qs where qs: "add_ports seed now (i + 1) xs T1 = (qs, T')" "ps = p # qs"
    using Cons.prems by (auto simp: x p_def T1_def Let_def split: prod.splits)
  note ih = Cons.IH [OF qs(1)]
  have p: "p_id p = word_of_nat i" "p_range p = rng" "p_zones p = zones" "port_ok p"
    by (simp_all add: p_def port_new_ok) (simp_all add: port_new_def)
  obtain r0 where r0: "tb_routes T1 = tb_routes T @ [r0]" "home (port_key p) r0"
    using p by (simp add: T1_def add_port_def home_def port_key_def)
  have "\<exists>r \<in> set (tb_routes T'). home (port_key q) r" if "q \<in> set ps" for q
    using that r0 ih by (auto simp: qs(2))
  moreover have "r \<in> set (tb_routes T) \<or> (\<exists>q \<in> set ps. home (port_key q) r)" if "r \<in> set (tb_routes T')" for r
    using that r0 ih by (auto simp: qs(2))
  moreover have "set (tb_routes T) \<subseteq> set (tb_routes T')" using r0(1) ih by auto
  moreover have "map p_id ps = map word_of_nat [i..<i + length (x # xs)]"
    using ih p(1) by (simp add: qs(2) upt_conv_Cons del: upt_Suc)
  moreover have "map (\<lambda>p. (p_range p, p_zones p)) ps = map snd (x # xs)"
    using ih p(2,3) by (simp add: qs(2) x)
  moreover have "\<forall>q \<in> set ps. port_ok q" using ih p(4) by (simp add: qs(2))
  ultimately show ?case by blast
qed simp

lemma port_specs_rows: "port_specs c = map snd (port_rows c)"
  by (simp add: port_specs_def port_rows_def)

lemma distinct_ids:
  assumes "n \<le> 256" shows "distinct (map (word_of_nat :: nat \<Rightarrow> port_id) [0..<n])"
proof -
  have "inj_on (word_of_nat :: nat \<Rightarrow> port_id) {0..<n}"
  proof (rule inj_onI)
    fix a b assume "a \<in> {0..<n}" "b \<in> {0..<n}" "(word_of_nat a :: port_id) = word_of_nat b"
    then show "a = b" using assms by (metis atLeastLessThan_iff less_le_trans unat_small_u8)
  qed
  then show ?thesis by (simp add: distinct_map)
qed

text \<open>A configuration that passed, and one link for every port of it.\<close>

definition configured :: "config \<Rightarrow> (rstring \<times> kind) list \<Rightarrow> bool" where
  "configured c kinds \<longleftrightarrow> validate c = None \<and> length kinds = length (port_rows c) \<and> length kinds \<le> 256"

lemma router_new_ok:
  assumes "configured c kinds" shows "router_ok (router_new seed nanos c kinds now)"
proof -
  let ?xs = "zip kinds (port_specs c)"
  obtain ps T where pt: "add_ports seed now 0 ?xs tables_new = (ps, T)" by fastforce
  note res = add_ports_result [OF pt]
  have len: "length kinds = length (port_rows c)" and few: "length (port_rows c) \<le> 256" and v: "validate c = None"
    using assms by (simp_all add: configured_def)
  have specs: "map (\<lambda>p. (p_range p, p_zones p)) ps = map snd (port_rows c)"
    using res len by (simp add: port_specs_rows)
  have ids: "map p_id ps = map word_of_nat [0..<length (port_rows c)]"
    using res len by (simp add: port_specs_rows)
  have rows: "check_rows [] (port_rows c) = None"
    using v by (simp add: validate_def split: option.splits if_splits)
  then have row: "\<And>row. row \<in> set (port_rows c) \<Longrightarrow> row_ok row" and apart: "sorted_wrt rows_apart (port_rows c)"
    by (simp_all add: check_rows_None_iff)
  have "disjoint_ranges ps"
  proof -
    have "sorted_wrt (\<lambda>a b. \<not> overlaps (fst a) (fst b)) (map snd (port_rows c))"
      unfolding sorted_wrt_map by (rule sorted_wrt_mono_rel [OF _ apart]) (simp add: rows_apart_def)
    then have "sorted_wrt (\<lambda>a b. \<not> overlaps (fst a) (fst b)) (map (\<lambda>p. (p_range p, p_zones p)) ps)"
      by (simp only: specs)
    then show ?thesis by (simp add: disjoint_ranges_def sorted_wrt_map)
  qed
  moreover have "range_ok (p_range p) \<and> p_zones p \<noteq> [] \<and> (\<forall>z \<in> set (p_zones p). wf_name z)" if "p \<in> set ps" for p
  proof -
    have "(p_range p, p_zones p) \<in> set (map snd (port_rows c))"
      using that unfolding specs [symmetric] by (simp add: image_iff) blast
    then obtain row where "row \<in> set (port_rows c)" "snd row = (p_range p, p_zones p)" by auto
    with row [of row] show ?thesis
      by (cases row) (auto simp: row_ok_def net_ok_def range_ok_def name_ok_def)
  qed
  ultimately have "ports_ok ps" using res ids distinct_ids [OF few] by (simp add: ports_ok_def)
  moreover have "homes_ok (port_key ` set ps) T" using res by (simp add: homes_ok_def tables_new_def)
  moreover have "r_ports (router_new seed nanos c kinds now) = ps \<and> r_tables (router_new seed nanos c kinds now) = T"
    by (simp add: router_new_def pt Let_def)
  moreover have "peers_ok (r_peers (router_new seed nanos c kinds now))"
    by (simp add: router_new_def pt Let_def peers_new_ok)
  ultimately show ?thesis by (simp add: router_ok_def)
qed

text \<open>Every router a configuration, and any sequence of inputs, can lead to.\<close>

inductive running :: "seeder \<Rightarrow> entries \<Rightarrow> router \<Rightarrow> bool" for seed entries where
  start: "configured c kinds \<Longrightarrow> running seed entries (router_new seed nanos c kinds now)"
| step: "running seed entries r \<Longrightarrow> running seed entries (fst (router_step seed entries input now r))"
| resolved: "running seed entries r \<Longrightarrow> running seed entries (router_resolved name ip now r)"
| shutdown: "running seed entries r \<Longrightarrow> running seed entries (fst (router_shutdown now r))"

lemma running_ok: "running seed entries r \<Longrightarrow> router_ok r"
proof (induction rule: running.induct)
  case (start c kinds nanos now)
  then show ?case by (rule router_new_ok)
next
  case (step r input now)
  then show ?case by (meson evolves_ok router_step_evolves)
next
  case (resolved r name ip now)
  then show ?case
    using evolves_ok [OF evolves_parts(4) [OF peers_step.resolved]] by (simp add: router_resolved_def)
next
  case (shutdown r now)
  then show ?case
    using evolves_ok [OF evolves_parts(4) [OF peers_step.shutdown]]
    by (simp add: router_shutdown_def case_prod_beta Let_def)
qed

section \<open>A router to try them on\<close>

lemma tick_ports_of_router: "r_ports (fst (router_step seed entries InTick now r)) = fst (tick_ports now (r_ports r))"
proof -
  have "r_ports (fst (changed chs x)) = r_ports x" for chs x by (simp add: changed_def)
  then show ?thesis by (simp add: router_step_def router_tick_def case_prod_beta Let_def)
qed

definition cable_config :: config where
  "cable_config = config_default\<lparr>cf_name := lit ''r'',
     cf_ltoudp := [\<lparr>lp_interface = None, lp_net = 5, lp_zones = [lit ''A'']\<rparr>],
     cf_tashtalk := [\<lparr>tp_device = lit ''tty'', tp_net = 6, tp_zones = [lit ''B'']\<rparr>]\<rparr>"

definition cable_kinds :: "(rstring \<times> kind) list" where
  "cable_kinds = [(lit ''lt'', KLtoudp), (lit ''tt'', KTashtalk)]"

abbreviation same_seed :: seeder where "same_seed \<equiv> \<lambda>_ _ _ _. 6"
abbreviation no_entries :: entries where "no_entries \<equiv> \<lambda>_. []"

lemma cable_configured: "configured cable_config cable_kinds"
proof -
  have rows: "port_rows cable_config =
      [(lit ''the default interface'', (5, 5), [lit ''A'']), (lit ''tty'', (6, 6), [lit ''B''])]"
    by (simp add: port_rows_def cable_config_def config_default_def)
  have "check_rows [] (port_rows cable_config) = None"
    unfolding check_rows_None_iff rows by (simp add: row_ok_def net_ok_def rows_apart_def overlaps_def name_eval)
  moreover have "roman (cf_name cable_config) = None"
    by (simp add: roman_None_iff cable_config_def name_eval)
  ultimately show ?thesis by (simp add: configured_def validate_def rows cable_kinds_def)
qed

text \<open>Eleven ticks a second apart, after which both ports hold a node.\<close>

definition cable_router :: router where
  "cable_router = fold (\<lambda>t r. fst (router_step same_seed no_entries InTick t r)) (map secs [0..<11])
     (router_new same_seed 0 cable_config cable_kinds 0)"

lemma running_ticks:
  "running seed entries r \<Longrightarrow> running seed entries (fold (\<lambda>t r. fst (router_step seed entries InTick t r)) ts r)"
  by (induction ts arbitrary: r) (simp_all add: running.step)

lemma cable_running: "running same_seed no_entries cable_router"
  unfolding cable_router_def by (rule running_ticks [OF running.start [OF cable_configured]])

lemma ports_ticks:
  "r_ports (fold (\<lambda>t r. fst (router_step seed entries InTick t r)) ts r) = fold (\<lambda>t ps. fst (tick_ports t ps)) ts (r_ports r)"
  by (induction ts arbitrary: r) (simp_all add: tick_ports_of_router)

definition started_port :: "port_id \<Rightarrow> rstring \<Rightarrow> kind \<Rightarrow> u16 \<Rightarrow> rstring list \<Rightarrow> port" where
  "started_port i name kind net zones = fold (\<lambda>t p. fst (port_tick t p)) (map secs [0..<11])
     (port_new same_seed i name kind (net, net) zones 0)"

lemma fold_tick_ports:
  "fold (\<lambda>t ps. fst (tick_ports t ps)) ts [p, q] = [fold (\<lambda>t p. fst (port_tick t p)) ts p, fold (\<lambda>t p. fst (port_tick t p)) ts q]"
  by (induction ts arbitrary: p q) (simp_all add: case_prod_beta Let_def)

lemma cable_ports:
  "r_ports cable_router = [started_port 0 (lit ''lt'') KLtoudp 5 [lit ''A''], started_port 1 (lit ''tt'') KTashtalk 6 [lit ''B'']]"
  unfolding cable_router_def ports_ticks started_port_def fold_tick_ports [symmetric]
  by (simp add: router_new_def port_specs_def cable_config_def config_default_def cable_kinds_def Let_def)

lemma started_port_node:
  assumes "\<not> kind_extended kind" shows "p_node (started_port i name kind net zones) = Some 134"
proof -
  let ?p = "port_new same_seed i name kind (net, net) zones 0"
  have fold: "fold (\<lambda>t p. fst (port_tick t p)) ts p = fst (port_ticks ts p)" for ts p
    by (induction ts arbitrary: p) (simp_all add: case_prod_beta Let_def)
  have "p_node (fst (port_ticks (map secs [0..<11]) ?p)) = Some (cl_node (p_claim ?p))"
    using assms by (intro claim_succeeds)
      (cases kind; simp add: port_new_def to_come_def tries_of_def interval_of_def ENQ_TRIES_def ENQ_INTERVAL_def
         upt_rec secs_def millis_def)+
  moreover have "cl_node (p_claim ?p) = 134"
    using assms by (cases kind) (simp_all add: port_new_def candidate_def)
  ultimately show ?thesis by (simp add: started_port_def fold)
qed

lemma started_port_fields:
  "p_id (started_port i name kind net zones) = i" "p_range (started_port i name kind net zones) = (net, net)"
  "p_kind (started_port i name kind net zones) = kind"
proof -
  have "same_port p (fold (\<lambda>t p. fst (port_tick t p)) ts p)" for ts p
  proof (induction ts arbitrary: p)
    case (Cons t ts)
    have "same_port p (fst (port_tick t p))" using same_port_step [of p seed "PTick t" for seed] by simp
    with Cons [of "fst (port_tick t p)"] show ?case by (auto simp: same_port_def)
  qed (simp add: same_port_refl)
  then have "same_port (port_new same_seed i name kind (net, net) zones 0) (started_port i name kind net zones)"
    by (simp add: started_port_def)
  then show "p_id (started_port i name kind net zones) = i" "p_range (started_port i name kind net zones) = (net, net)"
    "p_kind (started_port i name kind net zones) = kind"
    by (simp_all add: same_port_def port_new_def)
qed

abbreviation "lt_port \<equiv> started_port 0 (lit ''lt'') KLtoudp 5 [lit ''A'']"
abbreviation "tt_port \<equiv> started_port 1 (lit ''tt'') KTashtalk 6 [lit ''B'']"

section \<open>Networks of our own\<close>

lemma same_home:
  assumes "disjoint_ranges ps" "p \<in> set ps" "q \<in> set ps"
    and "fst (p_range p) \<le> net" "net \<le> snd (p_range p)" "fst (p_range q) \<le> net" "net \<le> snd (p_range q)"
  shows "q = p"
proof (rule ccontr)
  assume neq: "q \<noteq> p"
  have both: "overlaps (p_range p) (p_range q)" "overlaps (p_range q) (p_range p)"
    using assms(4-7) by (auto simp: overlaps_def)
  obtain i j where "i < length ps" "ps ! i = p" "j < length ps" "ps ! j = q"
    using assms(2,3) by (auto simp: in_set_conv_nth)
  with neq both assms(1) show False
    unfolding disjoint_ranges_def sorted_wrt_iff_nth_less by (metis linorder_neqE_nat)
qed

lemma own_best:
  assumes "router_ok r" "p \<in> set (r_ports r)" "fst (p_range p) \<le> net" "net \<le> snd (p_range p)"
  shows "\<exists>route. best (r_tables r) net = Some route \<and> home (port_key p) route"
proof -
  have h: "homes_ok (port_key ` set (r_ports r)) (r_tables r)" using assms(1) by (simp add: router_ok_def)
  have k: "port_key p \<in> port_key ` set (r_ports r)" using assms(2) by simp
  obtain route k' where b: "best (r_tables r) net = Some route" "k' \<in> port_key ` set (r_ports r)" "home k' route"
    "fst (snd k') \<le> net" "net \<le> snd (snd k')"
    using home_best [OF h k, of net] assms(3,4) unfolding port_key_def fst_conv snd_conv by blast
  from b(2) obtain q where q: "k' = port_key q" "q \<in> set (r_ports r)" by auto
  have "q = p"
    by (rule same_home [OF _ assms(2) q(2) assms(3,4)])
       (use assms(1) b(4,5) in \<open>simp_all add: router_ok_def ports_ok_def q(1) port_key_def\<close>)
  with b(1,3) q(1) show ?thesis by blast
qed

lemma own_owner:
  assumes "router_ok r" "p \<in> set (r_ports r)" "fst (p_range p) \<le> net" "net \<le> snd (p_range p)"
  shows "\<exists>k. owner net r = Some k \<and> k < length (r_ports r) \<and> r_ports r ! k = p"
proof -
  have "owner net r \<noteq> None" using assms(2-4) by (auto simp: owner_def position_None)
  then obtain k where k: "owner net r = Some k" by auto
  then have pos: "position (\<lambda>p. fst (p_range p) \<le> net \<and> net \<le> snd (p_range p)) (r_ports r) = Some k"
    by (simp add: owner_def)
  have "r_ports r ! k = p"
    by (rule same_home [OF _ assms(2) nth_mem [OF position_lt [OF pos]] assms(3,4)])
       (use assms(1) position_holds [OF pos] in \<open>simp_all add: router_ok_def ports_ok_def\<close>)
  with k position_lt [OF pos] show ?thesis by blast
qed

lemma own_index:
  assumes "router_ok r" "p \<in> set (r_ports r)"
  shows "\<exists>k. port_index (p_id p) r = Some k \<and> k < length (r_ports r) \<and> r_ports r ! k = p"
proof -
  have "port_index (p_id p) r \<noteq> None" using assms(2) by (auto simp: port_index_def position_None)
  then obtain k where k: "port_index (p_id p) r = Some k" by auto
  have "inj_on p_id (set (r_ports r))" using assms(1) by (simp add: router_ok_def ports_ok_def distinct_map)
  then have "r_ports r ! k = p"
    using port_index_lt [OF k] assms(2) nth_mem by (auto dest: inj_onD)
  with k port_index_lt [OF k] show ?thesis by blast
qed

text \<open>
  C1: Whatever arrives, from whomever, in any order, a network of one of the router's own cables is reached
  through that cable's port and at distance 0: no heard tuple, tunnelled update, range the wrong way
  round or expiry can divert it; and the port found for the network and the port found by that port's
  number are one and the same.
\<close>

theorem own_networks_safe:
  assumes "running seed entries r" "p \<in> set (r_ports r)" "fst (p_range p) \<le> net" "net \<le> snd (p_range p)"
  shows "\<exists>route k. best (r_tables r) net = Some route \<and> rt_target route = TPort (p_id p)
      \<and> rt_distance route = 0 \<and> rt_range route = p_range p
      \<and> owner net r = Some k \<and> r_ports r ! k = p \<and> port_index (p_id p) r = Some k"
proof -
  note ok = running_ok [OF assms(1)]
  obtain route where "best (r_tables r) net = Some route" "home (port_key p) route"
    using own_best [OF ok assms(2-4)] by blast
  moreover obtain k where k: "owner net r = Some k" "k < length (r_ports r)" "r_ports r ! k = p"
    using own_owner [OF ok assms(2-4)] by blast
  moreover obtain j where j: "port_index (p_id p) r = Some j" "j < length (r_ports r)" "r_ports r ! j = p"
    using own_index [OF ok assms(2)] by blast
  moreover have "j = k"
  proof -
    have "distinct (r_ports r)" using ok by (simp add: router_ok_def ports_ok_def distinct_map)
    then show ?thesis using j k nth_eq_iff_index_eq by blast
  qed
  ultimately show ?thesis by (auto simp: home_def port_key_def)
qed

theorem own_networks_safe_witness:
  "\<exists>route. best (r_tables cable_router) 6 = Some route \<and> rt_target route = TPort 1 \<and> rt_distance route = 0"
  using own_networks_safe [OF cable_running, of tt_port 6] by (auto simp: cable_ports started_port_fields)

section \<open>Forwarding\<close>

lemma port_emit_on:
  "port_emit entries p dest d = Some a \<Longrightarrow> (\<exists>f. a = ToEther (p_id p) f) \<or> (\<exists>l. a = ToLlap (p_id p) l)"
  by (auto simp: port_emit_def Let_def split: kind.splits Option.bind_splits if_splits)

lemma in_the_list: "a \<in> set (the_list x) \<longleftrightarrow> x = Some a"
  by (auto simp: the_list_def split: option.split)

definition hop_on :: "origin \<Rightarrow> target \<Rightarrow> ddp \<Rightarrow> ddp" where
  "hop_on origin tgt d = (if hop_free origin tgt then d else d\<lparr>d_hops := d_hops d + 1\<rparr>)"

lemma hop_on_dst [simp]: "d_dst (hop_on origin tgt d) = d_dst d"
  by (simp add: hop_on_def)

text \<open>Forwarding, by what the table says.\<close>

lemma forward_drops:
  "15 \<le> d_hops d \<Longrightarrow> forward entries origin d r = []"
  "best (r_tables r) (a_net (d_dst d)) = None \<Longrightarrow> forward entries origin d r = []"
  "best (r_tables r) (a_net (d_dst d)) = Some route \<Longrightarrow> origin_is origin (rt_target route) \<Longrightarrow>
   forward entries origin d r = []"
  by (simp_all add: forward_def MAX_HOPS_def)

lemma forward_peer:
  assumes "\<not> 15 \<le> d_hops d" "best (r_tables r) (a_net (d_dst d)) = Some route" "rt_target route = TPeer ip"
    "origin \<noteq> OPeer ip"
  shows "forward entries origin d r = [peers_forward ip (ddp_encode (hop_on origin (TPeer ip) d)) (r_peers r)]"
  using assms by (auto simp: forward_def MAX_HOPS_def hop_on_def origin_is_iff)

lemma forward_port:
  assumes "\<not> 15 \<le> d_hops d" "best (r_tables r) (a_net (d_dst d)) = Some route" "rt_target route = TPort i"
    "origin \<noteq> OPort i" "port_index i r = Some k"
  shows "forward entries origin d r =
    the_list (port_emit entries (r_ports r ! k) (final_dest (rt_distance route) (a_node (d_dst d)) (rt_next route))
      (hop_on origin (TPort i) d))"
  using assms by (auto simp: forward_def MAX_HOPS_def hop_on_def origin_is_iff Let_def)

lemma forward_acts:
  assumes "a \<in> set (forward entries origin d r)"
  obtains route where "\<not> 15 \<le> d_hops d" "best (r_tables r) (a_net (d_dst d)) = Some route"
    "\<not> origin_is origin (rt_target route)" "forward entries origin d r = [a]"
    "case rt_target route of TPeer ip \<Rightarrow> (\<exists>bs. a = ToPeer ip bs)
       | TPort i \<Rightarrow> (\<exists>f. a = ToEther i f) \<or> (\<exists>l. a = ToLlap i l)"
proof -
  have h: "\<not> 15 \<le> d_hops d" using assms forward_drops(1) by (metis empty_iff list.set(1))
  obtain route where b: "best (r_tables r) (a_net (d_dst d)) = Some route"
    using assms forward_drops(2) by (cases "best (r_tables r) (a_net (d_dst d))") auto
  have o: "\<not> origin_is origin (rt_target route)" using assms forward_drops(3) [OF b] by (metis empty_iff list.set(1))
  show thesis
  proof (cases "rt_target route")
    case (TPeer ip)
    then have "origin \<noteq> OPeer ip" using o by (auto simp: origin_is_iff)
    from forward_peer [OF h b TPeer this, of entries] assms that [OF h b o] TPeer
    show thesis by (simp add: peers_forward_def Let_def)
  next
    case (TPort i)
    then have "origin \<noteq> OPort i" using o by (auto simp: origin_is_iff)
    moreover obtain k where k: "port_index i r = Some k"
      using assms o h b TPort by (cases "port_index i r") (auto simp: forward_def MAX_HOPS_def Let_def)
    ultimately have f: "forward entries origin d r = the_list (port_emit entries (r_ports r ! k)
        (final_dest (rt_distance route) (a_node (d_dst d)) (rt_next route)) (hop_on origin (TPort i) d))"
      using forward_port [OF h b TPort] by blast
    with assms have e: "port_emit entries (r_ports r ! k)
        (final_dest (rt_distance route) (a_node (d_dst d)) (rt_next route)) (hop_on origin (TPort i) d) = Some a"
      by (simp add: in_the_list)
    show thesis
      using that [OF h b o] f e port_emit_on [OF e] port_index_lt [OF k] by (simp add: the_list_def TPort)
  qed
qed

text \<open>On its way to a cable of our own.\<close>

lemma forward_home:
  assumes ok: "router_ok r" and p: "p \<in> set (r_ports r)"
    and net: "fst (p_range p) \<le> a_net (d_dst d)" "a_net (d_dst d) \<le> snd (p_range p)"
  shows "forward entries origin d r =
    (if origin = OPort (p_id p) \<or> 15 \<le> d_hops d then []
     else the_list (port_emit entries p (if a_node (d_dst d) = 255 then DBroadcast else DNode (a_node (d_dst d)))
            (hop_on origin (TPort (p_id p)) d)))"
proof -
  obtain route where b: "best (r_tables r) (a_net (d_dst d)) = Some route" "home (port_key p) route"
    using own_best [OF ok p net] by blast
  then have t: "rt_target route = TPort (p_id p)" "rt_distance route = 0" by (simp_all add: home_def port_key_def)
  obtain k where k: "port_index (p_id p) r = Some k" "r_ports r ! k = p" using own_index [OF ok p] by blast
  show ?thesis
    using forward_drops(1) forward_drops(3) [OF b(1)] forward_port [OF _ b(1) t(1) _ k(1)]
    by (auto simp: k(2) t origin_is_iff final_dest_def)
qed

text \<open>
  What is forwarded is one action at most, and never towards where the datagram came from: nothing leaves
  by the port it arrived on, nothing goes down the tunnel it came from, whatever the table holds; and
  a datagram that has crossed fifteen routers is not passed on at all.
\<close>

theorem forward_never_back:
  assumes "a \<in> set (forward entries origin d r)"
  shows "forward entries origin d r = [a] \<and> d_hops d < 15
    \<and> (case a of
         ToEther i _ \<Rightarrow> origin \<noteq> OPort i
       | ToLlap i _ \<Rightarrow> origin \<noteq> OPort i
       | ToPeer ip _ \<Rightarrow> origin \<noteq> OPeer ip
       | _ \<Rightarrow> False)"
proof -
  from assms obtain route where r: "\<not> 15 \<le> d_hops d" "best (r_tables r) (a_net (d_dst d)) = Some route"
    "\<not> origin_is origin (rt_target route)" "forward entries origin d r = [a]"
    "case rt_target route of TPeer ip \<Rightarrow> (\<exists>bs. a = ToPeer ip bs)
       | TPort i \<Rightarrow> (\<exists>f. a = ToEther i f) \<or> (\<exists>l. a = ToLlap i l)"
    by (rule forward_acts)
  then show ?thesis by (auto simp: origin_is_iff not_le split: target.splits)
qed

text \<open>A datagram from a Mac on the first cable to one on the second.\<close>

definition to_tt :: ddp where
  "to_tt = \<lparr>d_hops = 0, d_length = 15, d_checksum = 0, d_dst = mk_addr 6 9, d_dst_socket = 4,
     d_src = mk_addr 5 7, d_src_socket = 130, d_typ = 4, d_data = [1, 7]\<rparr>"

lemma to_tt_forwarded:
  "\<exists>l. l_dst l = 9 \<and> forward no_entries (OPort 0) to_tt cable_router = [ToLlap 1 l]"
  using forward_home [OF running_ok [OF cable_running], of tt_port to_tt no_entries "OPort 0"]
  by (simp add: cable_ports started_port_fields started_port_node to_tt_def port_emit_def the_list_def Let_def)

theorem forward_never_back_witness:
  "\<exists>l. forward no_entries (OPort 0) to_tt cable_router = [ToLlap 1 l]"
proof -
  obtain l where "forward no_entries (OPort 0) to_tt cable_router = [ToLlap 1 l]" using to_tt_forwarded by blast
  then have "ToLlap 1 l \<in> set (forward no_entries (OPort 0) to_tt cable_router)" by simp
  from forward_never_back [OF this] show ?thesis by blast
qed

text \<open>
  A datagram handed from router to router: each passes it on by its best route of the moment, and the next
  hears it off a cable or off a tunnel accordingly.  Tables, ports and peers are arbitrary.
\<close>

fun heard_from :: "target \<Rightarrow> origin \<Rightarrow> bool" where
  "heard_from (TPeer _) origin \<longleftrightarrow> (\<exists>ip. origin = OPeer ip)"
| "heard_from (TPort _) origin \<longleftrightarrow> (\<exists>i. origin = OPort i)"

inductive relayed :: "origin \<Rightarrow> ddp \<Rightarrow> nat \<Rightarrow> bool" where
  stop: "relayed origin d 0"
| hop: "a \<in> set (forward entries origin d r) \<Longrightarrow> best (r_tables r) (a_net (d_dst d)) = Some route \<Longrightarrow>
    heard_from (rt_target route) origin' \<Longrightarrow> relayed origin' (hop_on origin (rt_target route) d) n \<Longrightarrow>
    relayed origin d (Suc n)"

definition crossings_left :: "origin \<Rightarrow> ddp \<Rightarrow> nat" where
  "crossings_left origin d =
     (let m = 2 * (15 - unat (d_hops d)) in case origin of OLocal \<Rightarrow> m + 1 | OPeer _ \<Rightarrow> m | OPort _ \<Rightarrow> m - 1)"

lemma crossing_counts:
  assumes "\<not> 15 \<le> d_hops d" "\<not> origin_is origin tgt" "heard_from tgt origin'"
  shows "crossings_left origin' (hop_on origin tgt d) < crossings_left origin d"
proof -
  have h: "unat (d_hops d) < 15" using assms(1) by (simp add: word_le_nat_alt)
  then have "unat (d_hops d + 1) = unat (d_hops d) + 1" by (simp add: unat_word_ariths)
  with h assms(2,3) show ?thesis
    by (cases origin; cases tgt) (auto simp: crossings_left_def hop_on_def)
qed

lemma relayed_bound: "relayed origin d n \<Longrightarrow> n \<le> crossings_left origin d"
proof (induction rule: relayed.induct)
  case (hop a entries origin d r route origin' n)
  obtain route' where "\<not> 15 \<le> d_hops d" "best (r_tables r) (a_net (d_dst d)) = Some route'"
    "\<not> origin_is origin (rt_target route')"
    using forward_acts [OF hop.hyps(1)] by metis
  with hop.hyps(2) have "\<not> 15 \<le> d_hops d" "\<not> origin_is origin (rt_target route)" by simp_all
  from crossing_counts [OF this hop.hyps(3)] hop.IH show ?case by linarith
qed simp




section \<open>Arriving\<close>

lemma renumbered_fields [simp]:
  "d_hops (renumbered here d) = d_hops d" "d_length (renumbered here d) = d_length d"
  "d_data (renumbered here d) = d_data d" "a_node (d_dst (renumbered here d)) = a_node (d_dst d)"
  "renumbered None d = d"
  by (auto simp: renumbered_def Let_def split: option.split)

lemma renumbered_id: "a_net (d_dst d) \<noteq> 0 \<Longrightarrow> a_net (d_src d) \<noteq> 0 \<Longrightarrow> renumbered here d = d"
  by (auto simp: renumbered_def split: option.split)

lemma arrived_pass:
  assumes ok: "router_ok r" and p: "p \<in> set (r_ports r)" and len: "unat (d_length d) = 13 + length (d_data d)"
    and net: "fst (p_range p) \<le> a_net (d_dst (renumbered (arriving origin r) d))"
      "a_net (d_dst (renumbered (arriving origin r) d)) \<le> snd (p_range p)"
    and node: "a_node (d_dst d) = n" "n \<noteq> 0" "n \<noteq> 255" "p_node p \<noteq> Some n"
  shows "arrived entries origin d body now r =
    (r, if origin = OPort (p_id p) \<or> 15 \<le> d_hops d then []
        else the_list (port_emit entries p (DNode n) (hop_on origin (TPort (p_id p)) (renumbered (arriving origin r) d))))"
proof -
  obtain k where k: "owner (a_net (d_dst (renumbered (arriving origin r) d))) r = Some k" "r_ports r ! k = p"
    using own_owner [OF ok p net] by blast
  have "\<not> for_us p n" using node by (auto simp: for_us_def)
  then show ?thesis
    using len node forward_home [OF ok p net, of entries origin] by (simp add: arrived_def k Let_def)
qed



section \<open>Through the tunnel\<close>

lemma wf_data_ddp: "length (d_data d) \<le> 1010 \<Longrightarrow> wf_data (ddp_encode d)"
  unfolding wf_data_def length_ddp_encode
  unfolding ddp_encode_def Let_def append_Cons append_Nil nth_Cons_0 nth_Cons_Suc One_nat_def packed_len_hi
    u16_from_be_10bit word_10bit
  by (subst unat_small_u16) simp_all

lemma step_data:
  assumes "map_of (ps_peers (r_peers r)) a = Some q" "wf_ddp d" "aurp_parse bs = Some (AData dh (ddp_encode d))"
  shows "\<exists>r'. evolves r r' \<and> r_ports r' = r_ports r \<and> r_tables r' = r_tables r
    \<and> router_step seed entries (InAurp a bs) now r = arrived entries (OPeer a) d (decode_ddp_body d) now r'"
proof -
  obtain ps where ps: "packet a bs (r_tables r) now (r_peers r) = (ps, r_tables r, [], [], Some (ddp_encode d))"
    using assms(1,3) by (simp add: packet_def peer_packet_def Let_def)
  have "peers_step (r_peers r) ps" using peers_step.packet [of "r_peers r" a bs "r_tables r" now] ps by simp
  then have "evolves r (r\<lparr>r_peers := ps\<rparr>)" by (rule evolves_parts(4))
  moreover have "router_step seed entries (InAurp a bs) now r
      = arrived entries (OPeer a) d (decode_ddp_body d) now (r\<lparr>r_peers := ps\<rparr>)"
    using ps ddp_parse_encode [OF assms(2)] by (simp add: router_step_def changed_def Let_def)
  ultimately show ?thesis by (intro exI [of _ "r\<lparr>r_peers := ps\<rparr>"]) simp
qed


lemma resolved_known: "\<exists>p. map_of (ps_peers (resolved name a now ps)) a = Some p"
proof -
  have "a \<in> fst ` set (ps_peers (resolved name a now ps))"
    by (auto simp: resolved_def add_peer_def fst_bt_insert case_prod_beta Let_def split: option.split)
  then show ?thesis using weak_map_of_SomeI by fastforce
qed

definition far_route :: route where
  "far_route = \<lparr>rt_range = (6, 6), rt_extended = False, rt_distance = 1, rt_target = TPeer 9, rt_next = NO_NEXT,
     rt_state = Good, rt_seen = 0\<rparr>"


section \<open>The router answers for itself\<close>




end
