(* ===== verification/Router_Run.thy ===== *)
theory Router_Run
  imports Router Capture
begin

text \<open>
  The run loop of \<open>src/src/router/mod.rs\<close>: opening the configured links, the choice of a domain
  identifier, one turn of the loop for whatever the queue and the signals delivered, and the wire each
  action goes out on.  What the network interfaces, the resolver and the clock answer is a parameter.
\<close>

section \<open>Links\<close>

datatype link = LkEther | LkLtoudp | LkTashtalk

type_synonym links = "port_id \<rightharpoonup> link"
type_synonym opened = "(rstring \<times> kind) \<times> link \<times> ipv4 option"

text \<open>A link that will not open ends the program; \<open>nic\<close>, \<open>sock\<close> and \<open>uart\<close> say which do.\<close>

definition open_ether :: "(rstring \<Rightarrow> (rstring \<times> macaddr \<times> ipv4 option) option) \<Rightarrow> ether_port \<Rightarrow> opened option" where
  "open_ether nic p = map_option (\<lambda>(name, hw, ip). ((name, KEther hw), LkEther, ip)) (nic (ep_interface p))"

definition open_ltoudp :: "(ipv4 option \<Rightarrow> bool) \<Rightarrow> ltoudp_port \<Rightarrow> opened option" where
  "open_ltoudp sock p =
     then_some (sock (lp_interface p))
       ((case lp_interface p of None \<Rightarrow> lit ''ltoudp'' | Some i \<Rightarrow> ip_text i, KLtoudp), LkLtoudp, None)"

definition open_tashtalk :: "(rstring \<Rightarrow> bool) \<Rightarrow> tashtalk_port \<Rightarrow> opened option" where
  "open_tashtalk uart p = then_some (uart (tp_device p)) ((tp_device p, KTashtalk), LkTashtalk, None)"

fun link_map :: "nat \<Rightarrow> link list \<Rightarrow> links \<Rightarrow> links" where
  "link_map i [] m = m"
| "link_map i (k # ks) m = link_map (i + 1) ks (m(word_of_nat i \<mapsto> k))"

fun first_ip :: "opened list \<Rightarrow> ipv4 option" where
  "first_ip [] = None"
| "first_ip ((_, _, Some ip) # _) = Some ip"
| "first_ip ((_, _, None) # xs) = first_ip xs"

definition open_ports ::
    "(rstring \<Rightarrow> (rstring \<times> macaddr \<times> ipv4 option) option) \<Rightarrow> (ipv4 option \<Rightarrow> bool) \<Rightarrow> (rstring \<Rightarrow> bool)
     \<Rightarrow> config \<Rightarrow> (links \<times> (rstring \<times> kind) list \<times> ipv4 option) option" where
  "open_ports nic sock uart c =
     map_option (\<lambda>os. (link_map 0 (map (fst \<circ> snd) os) Map.empty, map fst os, first_ip os))
       (those (map (open_ether nic) (cf_ethertalk c) @ map (open_ltoudp sock) (cf_ltoudp c)
               @ map (open_tashtalk uart) (cf_tashtalk c)))"

text \<open>\<open>bound\<close>: the address of the AURP socket, when it is bound to an IPv4 address.\<close>

definition domain_identifier :: "config \<Rightarrow> ipv4 option \<Rightarrow> ipv4 option \<Rightarrow> ipv4 option" where
  "domain_identifier c bound nic_ip =
     (let specified = (\<lambda>a. case a of Some ip \<Rightarrow> if ip = 0 then None else Some ip | None \<Rightarrow> None);
          bound = specified bound
      in specified (case cf_public_ip c of
           Some ip \<Rightarrow> Some ip
         | None \<Rightarrow> (case bound of Some ip \<Rightarrow> Some ip | None \<Rightarrow> nic_ip)))"

section \<open>Actions on their wires\<close>

datatype wired =
    OnEther port_id frame
  | OnLtoudp port_id llap
  | OnTashtalk port_id llap
  | NodeBits port_id "u8 option"
  | OnUdp ipv4 u16 bytes
  | Printed log_line
  | WrongLink port_id

definition execute :: "links \<Rightarrow> action \<Rightarrow> wired" where
  "execute links a =
     (case a of
        ToEther i f \<Rightarrow> (case links i of Some LkEther \<Rightarrow> OnEther i f | _ \<Rightarrow> WrongLink i)
      | ToLlap i l \<Rightarrow>
          (case links i of Some LkLtoudp \<Rightarrow> OnLtoudp i l | Some LkTashtalk \<Rightarrow> OnTashtalk i l | _ \<Rightarrow> WrongLink i)
      | ToPeer ip bs \<Rightarrow> OnUdp ip AURP_PORT bs
      | SetNode i n \<Rightarrow> (case links i of Some LkTashtalk \<Rightarrow> NodeBits i n | _ \<Rightarrow> WrongLink i)
      | ALog l \<Rightarrow> Printed l)"

section \<open>One turn of the loop\<close>

definition SHUTDOWN_GRACE :: duration where "SHUTDOWN_GRACE = secs 2"

datatype received = RxGot event | RxTimeout | RxClosed

text \<open>The flags the signal handlers set; \<open>sg_again\<close> is what the second look at the stop flag finds.\<close>

record signals =
  sg_dump :: bool
  sg_ping :: bool
  sg_stop :: bool
  sg_again :: bool

record run_state =
  rs_router :: router
  rs_next_scan :: instant
  rs_deadline :: "instant option"
  rs_ping_report :: "instant option"

definition run_start ::
    "seeder \<Rightarrow> u32 \<Rightarrow> config \<Rightarrow> (rstring \<times> kind) list \<Rightarrow> ipv4 option \<Rightarrow> instant \<Rightarrow> run_state" where
  "run_start seed nanos c kinds di now =
     \<lparr>rs_router = router_new seed nanos (c\<lparr>cf_public_ip := di\<rparr>) kinds now, rs_next_scan = now,
      rs_deadline = None, rs_ping_report = None\<rparr>"

definition loop_input :: "received \<Rightarrow> router_in" where
  "loop_input rx =
     (case rx of
        RxGot (EPacket _ i pk) \<Rightarrow> InEther i pk
      | RxGot (ELlap i l) \<Rightarrow> InLlap i l
      | RxGot (EAurp src bs) \<Rightarrow> InAurp (fst src) bs
      | _ \<Rightarrow> InTick)"

definition resolve :: "(rstring \<Rightarrow> ipv4 option) \<Rightarrow> rstring list \<Rightarrow> instant \<Rightarrow> router \<Rightarrow> router" where
  "resolve dns names now r =
     fold (\<lambda>name r. case dns name of Some ip \<Rightarrow> router_resolved name ip now r | None \<Rightarrow> r) names r"

definition passed :: "instant option \<Rightarrow> instant \<Rightarrow> bool" where
  "passed d now \<longleftrightarrow> (case d of Some t \<Rightarrow> t \<le> now | None \<Rightarrow> False)"

text \<open>The router and the actions of a turn; and, last, whether the loop ends with it.\<close>

definition turn ::
    "seeder \<Rightarrow> entries \<Rightarrow> (rstring \<Rightarrow> ipv4 option) \<Rightarrow> rstring list \<Rightarrow> received \<Rightarrow> signals \<Rightarrow> instant \<Rightarrow> run_state
     \<Rightarrow> run_state \<times> action list \<times> bool" where
  "turn seed entries dns names rx sg now s =
     (if rx = RxClosed then (s, [], True)
      else
        let step = (\<lambda>i r. router_step seed entries i now r);
            (r, a1) = step (loop_input rx) (rs_router s);
            scan = (rs_next_scan s \<le> now);
            next_scan = (if scan then now + RECONNECT_SCAN else rs_next_scan s);
            r = (if scan then resolve dns names now r else r);
            (r, a2) = (if sg_dump sg then step InDump r else (r, []));
            (r, a3) = (if sg_ping sg then step InPing r else (r, []));
            rep = (if sg_ping sg then Some (now + PING_GRACE) else rs_ping_report s);
            (r, a4) = (if passed rep now then step InPingReport r else (r, []));
            rep = (if passed rep now then None else rep);
            first = (rs_deadline s = None);
            stop = (first \<and> sg_stop sg);
            (r, a5) = (if stop then router_shutdown now r else (r, []));
            deadline = (if stop then Some (now + SHUTDOWN_GRACE) else rs_deadline s);
            over = (deadline \<noteq> None \<and> (passed deadline now \<or> sg_again sg))
        in (\<lparr>rs_router = r, rs_next_scan = next_scan, rs_deadline = deadline, rs_ping_report = rep\<rparr>,
            a1 @ a2 @ a3 @ a4 @ a5, over))"

fun run_loop ::
    "seeder \<Rightarrow> entries \<Rightarrow> (rstring \<Rightarrow> ipv4 option) \<Rightarrow> rstring list \<Rightarrow> (received \<times> signals \<times> instant) list \<Rightarrow> run_state
     \<Rightarrow> run_state \<times> action list" where
  "run_loop seed entries dns names [] s = (s, [])"
| "run_loop seed entries dns names ((rx, sg, now) # rest) s =
     (let (s, a, over) = turn seed entries dns names rx sg now s
      in if over then (s, a)
         else (let (s, b) = run_loop seed entries dns names rest s in (s, a @ b)))"

text \<open>\<open>run\<close>: what was put on the wires, for the turns the queue, the signals and the clock gave.\<close>

definition run ::
    "(rstring \<Rightarrow> (rstring \<times> macaddr \<times> ipv4 option) option) \<Rightarrow> (ipv4 option \<Rightarrow> bool) \<Rightarrow> (rstring \<Rightarrow> bool) \<Rightarrow> ipv4 option
     \<Rightarrow> seeder \<Rightarrow> entries \<Rightarrow> u32 \<Rightarrow> (rstring \<Rightarrow> ipv4 option) \<Rightarrow> instant \<Rightarrow> (received \<times> signals \<times> instant) list \<Rightarrow> config
     \<Rightarrow> wired list option" where
  "run nic sock uart bound seed entries nanos dns start turns c =
     (case open_ports nic sock uart c of
        None \<Rightarrow> None
      | Some (links, kinds, nic_ip) \<Rightarrow>
          let s = run_start seed nanos c kinds (domain_identifier c bound nic_ip) start;
              (s, acts) = run_loop seed entries dns (cf_peers c) turns s
          in Some (map (execute links) acts))"

end
