(* ===== verification/Run_Properties.thy ===== *)
theory Run_Properties
  imports Router_Run Router_Properties
begin

text \<open>
  What the run loop makes of the router: every action goes out on a link that can carry it, and what the
  loop's one clock tick means for the timers.
\<close>

section \<open>Actions and the ports they name\<close>

text \<open>An action that needs no port, and one that a port's link can carry.\<close>

definition tunnel_act :: "action \<Rightarrow> bool" where
  "tunnel_act a \<longleftrightarrow> (case a of ToPeer _ _ \<Rightarrow> True | ALog _ \<Rightarrow> True | _ \<Rightarrow> False)"

definition carries :: "port_id \<times> kind \<Rightarrow> action \<Rightarrow> bool" where
  "carries k a \<longleftrightarrow>
     (case a of
        ToEther i _ \<Rightarrow> fst k = i \<and> kind_extended (snd k)
      | ToLlap i _ \<Rightarrow> fst k = i \<and> \<not> kind_extended (snd k)
      | SetNode i _ \<Rightarrow> fst k = i \<and> snd k = KTashtalk
      | _ \<Rightarrow> False)"

definition signature :: "port list \<Rightarrow> (port_id \<times> kind) list" where
  "signature ps = map (\<lambda>p. (p_id p, p_kind p)) ps"

definition act_ok :: "port list \<Rightarrow> action \<Rightarrow> bool" where
  "act_ok ps a \<longleftrightarrow> tunnel_act a \<or> (\<exists>k \<in> set (signature ps). carries k a)"

abbreviation acts_ok :: "port list \<Rightarrow> action list \<Rightarrow> bool" where
  "acts_ok ps acts \<equiv> \<forall>a \<in> set acts. act_ok ps a"

lemma act_ok_simps [simp]:
  "act_ok ps (ToPeer ip bs)" "act_ok ps (ALog l)"
  by (simp_all add: act_ok_def tunnel_act_def)

lemma act_ok_mono: "act_ok ps a \<Longrightarrow> set ps \<subseteq> set qs \<Longrightarrow> act_ok qs a"
  by (auto simp: act_ok_def signature_def)

lemma same_signature: "list_all2 same_port ps qs \<Longrightarrow> signature qs = signature ps"
  by (induction rule: list_all2_induct) (simp_all add: signature_def same_port_def)

lemma acts_ok_same: "list_all2 same_port ps qs \<Longrightarrow> acts_ok qs acts \<longleftrightarrow> acts_ok ps acts"
  using same_signature by (simp add: act_ok_def)

lemmas port_act_defs = act_ok_def carries_def tunnel_act_def signature_def

lemma tick_act_ok: "acts_ok [p] (snd (port_tick now p))"
  by (auto simp: port_tick_def claimed_def port_act_defs Let_def split: prod.split kind.split)

lemma inbound_ether_act_ok: "acts_ok [p] (fst (snd (inbound_ether seed pk now p)))"
  by (auto simp: inbound_ether_def port_act_defs Let_def split: kind.split body.split aarp_action.split)

lemma inbound_llap_act_ok: "\<not> kind_extended (p_kind p) \<Longrightarrow> acts_ok [p] (fst (snd (inbound_llap seed l now p)))"
  by (auto simp: inbound_llap_def port_act_defs Let_def)

lemma port_emit_act_ok: "port_emit entries p dest d = Some a \<Longrightarrow> act_ok [p] a"
  by (auto simp: port_emit_def port_act_defs Let_def split: kind.splits Option.bind_splits if_splits)

lemma tick_ports_act_ok: "acts_ok ps (snd (tick_ports now ps))"
proof (induction ps)
  case (Cons p ps)
  have "acts_ok (p # ps) (snd (port_tick now p))" using tick_act_ok act_ok_mono [of "[p]"] by auto
  moreover have "acts_ok (p # ps) (snd (tick_ports now ps))" using Cons act_ok_mono [of ps _ "p # ps"] by auto
  ultimately show ?case by (auto simp: case_prod_beta Let_def)
qed simp

section \<open>The tunnels' actions\<close>

abbreviation tunnel_acts :: "action list \<Rightarrow> bool" where
  "tunnel_acts acts \<equiv> \<forall>a \<in> set acts. tunnel_act a"

lemma tunnel_act_simps [simp]:
  "tunnel_act (ToPeer ip bs)" "tunnel_act (ALog l)" "tunnel_act (peer_send p c s cmd)" "tunnel_act (open_rsp p c e)"
  by (simp_all add: tunnel_act_def peer_send_def open_rsp_def)

lemma tunnel_act_ok: "tunnel_act a \<Longrightarrow> act_ok ps a"
  by (simp add: act_ok_def)

lemma peer_tunnel_acts:
  "tunnel_acts (snd (send_sequenced cmd nets now p))" "tunnel_acts (snd (send_page now p))"
  "tunnel_acts (snd (peer_open now p))" "tunnel_acts (report p was why)" "tunnel_acts (zi_rerequest T p)"
  "tunnel_acts (snd (reconnect now p))"
  by (auto simp: send_sequenced_def send_page_def peer_open_def report_def zi_rerequest_def reconnect_def Let_def
       case_prod_beta split: list.split option.split)

lemma open_req_tunnel: "tunnel_acts (snd (open_req conn version options now p))"
  using peer_tunnel_acts by (auto simp: open_req_def Let_def case_prod_beta)

lemma ri_ack_tunnel: "tunnel_acts (snd (ri_ack seq szi T now p))"
  using peer_tunnel_acts(2) by (auto simp: ri_ack_def Let_def case_prod_beta split: option.split sender.split)

lemma acting_acts [simp]: "ef_acts (acting T x) = snd x" "ef_acts (quiet p T) = []"
  by (simp_all add: acting_def quiet_def case_prod_beta)

lemma routing_tunnel: "tunnel_acts (ef_acts (routing conn seq cmd T now p))"
proof (cases cmd)
  case (RiRsp fin ts)
  then show ?thesis
    by (auto simp: routing_def on_ri_rsp_def sequence_ahead_def Let_def case_prod_beta split: seq.split)
next
  case (RiUpd es)
  then show ?thesis
    by (auto simp: routing_def on_ri_upd_def sequence_ahead_def Let_def case_prod_beta split: seq.split)
qed (use open_req_tunnel ri_ack_tunnel peer_tunnel_acts in \<open>auto simp: routing_def Let_def case_prod_beta\<close>)

lemma receiver_timers_tunnel: "tunnel_acts (ef_acts (receiver_timers T now p))"
  using peer_tunnel_acts(1) by (auto simp: receiver_timers_def Let_def case_prod_beta)

lemma sender_timers_tunnel: "tunnel_acts (fst (snd (sender_timers now p)))"
  using peer_tunnel_acts(1) by (auto simp: sender_timers_def Let_def case_prod_beta split: option.split)

lemma tick_peer_tunnel: "tunnel_acts (fst (snd (snd (tick_peer scan zi T now p))))"
  using peer_tunnel_acts receiver_timers_tunnel sender_timers_tunnel
  by (auto simp: tick_peer_def Let_def case_prod_beta)

lemma tick_loop_tunnel: "tunnel_acts (fst (snd (snd (tick_loop scan zi now m T))))"
proof (induction m arbitrary: T)
  case (Cons kp m)
  obtain k p where "kp = (k, p)" by fastforce
  with Cons tick_peer_tunnel show ?case by (auto simp: Let_def case_prod_beta)
qed simp

lemma peers_tick_tunnel: "tunnel_acts (fst (snd (snd (peers_tick T now ps))))"
  using tick_loop_tunnel by (simp add: peers_tick_def Let_def case_prod_beta)

lemma peer_packet_tunnel: "tunnel_acts (fst (snd (snd (peer_packet src pkt T now ps))))"
  using routing_tunnel peer_tunnel_acts(4)
  by (auto simp: peer_packet_def Let_def case_prod_beta split: option.split aurp.split)

lemma packet_tunnel: "tunnel_acts (fst (snd (snd (packet src bs T now ps))))"
  using peer_packet_tunnel by (auto simp: packet_def Let_def case_prod_beta split: option.split)

lemma forward_tunnel [simp]: "tunnel_act (peers_forward ip bs ps)"
  by (simp add: peers_forward_def)

lemma each_peer_tunnel: "(\<And>p. tunnel_acts (snd (f p))) \<Longrightarrow> tunnel_acts (snd (each_peer f m))"
proof (induction m)
  case (Cons kp m)
  obtain k p where "kp = (k, p)" by fastforce
  with Cons show ?case by (auto simp: Let_def case_prod_beta)
qed simp

lemma shutdown_tunnel: "tunnel_acts (snd (shutdown now ps))"
proof -
  have "tunnel_acts (snd (shutdown_peer now p))" for p
    using peer_tunnel_acts(1) by (auto simp: shutdown_peer_def Let_def case_prod_beta)
  from each_peer_tunnel [OF this] show ?thesis by (auto simp: shutdown_def Let_def case_prod_beta)
qed

lemma ping_tunnel: "tunnel_acts (snd (ping now ps))"
proof -
  have "tunnel_acts (snd (ping_peer now p))" for p by (auto simp: ping_peer_def Let_def)
  from each_peer_tunnel [OF this] show ?thesis by (auto simp: ping_def Let_def case_prod_beta)
qed

section \<open>The router's actions\<close>

lemma emitted_ok:
  "port_index i r = Some k \<Longrightarrow> port_emit entries (r_ports r ! k) dest d = Some a \<Longrightarrow> act_ok (r_ports r) a"
  using act_ok_mono [OF port_emit_act_ok] port_index_lt [of i r k] by fastforce

lemma forward_act_ok: "acts_ok (r_ports r) (forward entries origin d r)"
proof
  fix a assume a: "a \<in> set (forward entries origin d r)"
  from a obtain route where r: "\<not> 15 \<le> d_hops d" "best (r_tables r) (a_net (d_dst d)) = Some route"
    "\<not> origin_is origin (rt_target route)" "forward entries origin d r = [a]"
    "case rt_target route of TPeer ip \<Rightarrow> (\<exists>bs. a = ToPeer ip bs)
       | TPort i \<Rightarrow> (\<exists>f. a = ToEther i f) \<or> (\<exists>l. a = ToLlap i l)"
    by (rule forward_acts)
  show "act_ok (r_ports r) a"
  proof (cases "rt_target route")
    case (TPort i)
    then have o: "origin \<noteq> OPort i" using r(3) by (auto simp: origin_is_iff)
    have "port_index i r \<noteq> None"
    proof
      assume "port_index i r = None"
      with r(1-4) TPort show False by (auto simp: forward_def MAX_HOPS_def Let_def)
    qed
    then obtain k where k: "port_index i r = Some k" by auto
    from forward_port [OF r(1,2) TPort o k, of entries] a
    have "port_emit entries (r_ports r ! k) (final_dest (rt_distance route) (a_node (d_dst d)) (rt_next route))
        (hop_on origin (TPort i) d) = Some a"
      by (simp add: in_the_list)
    then show ?thesis by (rule emitted_ok [OF k])
  qed (use r(5) in auto)
qed

lemma router_emit_act_ok: "acts_ok (r_ports r) (router_emit entries e r)"
proof (cases e)
  case (EmitOn i dest d)
  then show ?thesis
    by (cases "port_index i r") (auto simp: router_emit_def in_the_list dest: emitted_ok)
qed (simp add: router_emit_def forward_act_ok)

lemma changed_act_ok: "acts_ok ps (snd (changed chs r))"
  by (simp add: changed_def)

lemma changed_ports [simp]: "r_ports (fst (changed chs r)) = r_ports r"
  by (simp add: changed_def)

lemma emits_act_ok: "r_ports r = ps \<Longrightarrow> acts_ok ps (concat (map (\<lambda>e. router_emit entries e r) es))"
  using router_emit_act_ok by auto

lemma serve_ports [simp]: "r_ports (fst (serve entries here q d body now r)) = r_ports r"
  by (simp add: serve_def Let_def case_prod_beta)

lemma serve_act_ok: "acts_ok (r_ports r) (snd (serve entries here q d body now r))"
proof -
  let ?h = "handle (r_local r) here q (r_ports r) d body now (r_tables r)"
  let ?c = "changed (snd (snd ?h)) (r\<lparr>r_tables := fst ?h\<rparr>)"
  have "acts_ok (r_ports r) (snd ?c @ concat (map (\<lambda>e. router_emit entries e (fst ?c)) (fst (snd ?h))))"
    using changed_act_ok [where ps = "r_ports r"] emits_act_ok [where r = "fst ?c" and entries = entries] by auto
  then show ?thesis by (simp add: serve_def Let_def case_prod_beta)
qed

lemma arrived_ports [simp]: "r_ports (fst (arrived entries origin d body now r)) = r_ports r"
  by (simp add: arrived_def Let_def case_prod_beta split: option.split)

lemma arrived_act_ok: "acts_ok (r_ports r) (snd (arrived entries origin d body now r))"
proof (cases "owner (a_net (d_dst (renumbered (arriving origin r) d))) r")
  case None
  then show ?thesis using forward_act_ok by (auto simp: arrived_def Let_def)
next
  case (Some k)
  have "acts_ok (r_ports r) (forward entries origin d' (fst (serve entries here q d'' body now r)))" for d' here q d''
    using forward_act_ok [where r = "fst (serve entries here q d'' body now r)"] by simp
  with Some serve_act_ok forward_act_ok show ?thesis by (auto simp: arrived_def Let_def case_prod_beta)
qed

lemma router_tick_act_ok: "acts_ok (r_ports r) (snd (router_tick entries now r))"
proof -
  define r1 where "r1 = r\<lparr>r_ports := fst (tick_ports now (r_ports r))\<rparr>"
  define c2 where "c2 = changed (snd (age now (r_tables r1))) (r1\<lparr>r_tables := fst (age now (r_tables r1))\<rparr>)"
  define lt where "lt = local_tick (r_ports (fst c2)) (r_tables (fst c2)) now (r_local (fst c2))"
  define r3 where "r3 = (fst c2)\<lparr>r_local := fst lt\<rparr>"
  define pt where "pt = peers_tick (r_tables r3) now (r_peers r3)"
  define c4 where "c4 = changed (snd (snd (snd pt))) (r3\<lparr>r_peers := fst pt, r_tables := fst (snd pt)\<rparr>)"
  have "acts_ok (r_ports r3) (concat (map (\<lambda>e. router_emit entries e r3) (snd lt)))"
    by (rule emits_act_ok [OF refl])
  moreover have "list_all2 same_port (r_ports r) (r_ports r3)"
    by (simp add: r3_def c2_def r1_def same_ports_tick)
  ultimately have "acts_ok (r_ports r) (concat (map (\<lambda>e. router_emit entries e r3) (snd lt)))"
    using acts_ok_same by blast
  moreover have "acts_ok (r_ports r) (fst (snd (snd pt)))"
    using peers_tick_tunnel tunnel_act_ok unfolding pt_def by blast
  ultimately have "acts_ok (r_ports r) (snd (tick_ports now (r_ports r)) @ snd c2
      @ concat (map (\<lambda>e. router_emit entries e r3) (snd lt)) @ fst (snd (snd pt)) @ snd c4)"
    using tick_ports_act_ok changed_act_ok unfolding c2_def c4_def by auto
  then show ?thesis
    by (simp add: router_tick_def r1_def c2_def lt_def r3_def pt_def c4_def case_prod_beta Let_def)
qed

text \<open>A reader thread posts what its own link carries, under its own port.\<close>

definition heard_on :: "port list \<Rightarrow> router_in \<Rightarrow> bool" where
  "heard_on ps i \<longleftrightarrow> (case i of InLlap k _ \<Rightarrow> \<exists>s \<in> set (signature ps). fst s = k \<and> \<not> kind_extended (snd s) | _ \<Rightarrow> True)"

lemma router_step_act_ok:
  assumes "heard_on (r_ports r) input" "distinct (map p_id (r_ports r))"
  shows "acts_ok (r_ports r) (snd (router_step seed entries input now r))"
proof (cases input)
  case (InEther i pk)
  show ?thesis
  proof (cases "port_index i r")
    case (Some k)
    let ?p = "r_ports r ! k" and ?e = "inbound_ether seed pk now (r_ports r ! k)"
    let ?r = "r\<lparr>r_ports := (r_ports r)[k := snd (snd ?e)]\<rparr>"
    note k = port_index_lt [OF Some]
    have "same_port ?p (snd (snd ?e))" using same_port_step [of ?p seed "PEther pk now"] by simp
    with k have same: "list_all2 same_port (r_ports r) (r_ports ?r)" by (simp add: same_ports_update)
    have "acts_ok (r_ports r) (fst (snd ?e))"
      using inbound_ether_act_ok act_ok_mono [of "[?p]" _ "r_ports r"] k by auto
    moreover have "acts_ok (r_ports r) (snd (arrived entries origin d body now ?r))" for origin d body
      using arrived_act_ok [where r = ?r] acts_ok_same [OF same] by blast
    ultimately show ?thesis
      using Some by (auto simp: InEther router_step_def case_prod_beta Let_def split: port_in.split body.split)
  qed (simp add: InEther router_step_def)
next
  case (InLlap i l)
  show ?thesis
  proof (cases "port_index i r")
    case (Some k)
    let ?p = "r_ports r ! k" and ?e = "inbound_llap seed l now (r_ports r ! k)"
    let ?r = "r\<lparr>r_ports := (r_ports r)[k := snd (snd ?e)]\<rparr>"
    note k = port_index_lt [OF Some]
    obtain q where q: "q \<in> set (r_ports r)" "p_id q = i" "\<not> kind_extended (p_kind q)"
      using assms(1) by (auto simp: InLlap heard_on_def signature_def)
    have "?p = q" using assms(2) k q(1,2) by (auto simp: distinct_map dest: inj_onD)
    with q have ext: "\<not> kind_extended (p_kind ?p)" by simp
    have "same_port ?p (snd (snd ?e))" using same_port_step [of ?p seed "PLlap l now"] by simp
    with k have same: "list_all2 same_port (r_ports r) (r_ports ?r)" by (simp add: same_ports_update)
    have "acts_ok (r_ports r) (fst (snd ?e))"
      using inbound_llap_act_ok [OF ext] act_ok_mono [of "[?p]" _ "r_ports r"] k by auto
    moreover have "acts_ok (r_ports r) (snd (arrived entries origin d body now ?r))" for origin d body
      using arrived_act_ok [where r = ?r] acts_ok_same [OF same] by blast
    ultimately show ?thesis
      using Some by (auto simp: InLlap router_step_def case_prod_beta Let_def split: port_in.split)
  qed (simp add: InLlap router_step_def)
next
  case (InAurp src bs)
  let ?p = "packet src bs (r_tables r) now (r_peers r)"
  let ?c = "changed (fst (snd (snd (snd ?p)))) (r\<lparr>r_peers := fst ?p, r_tables := fst (snd ?p)\<rparr>)"
  have "acts_ok (r_ports r) (fst (snd (snd ?p)))" using packet_tunnel tunnel_act_ok by blast
  moreover have "acts_ok (r_ports r) (snd ?c)" by (rule changed_act_ok)
  moreover have "acts_ok (r_ports r) (snd (arrived entries origin d body now (fst ?c)))" for origin d body
    using arrived_act_ok [where r = "fst ?c"] by simp
  ultimately show ?thesis
    by (auto simp: InAurp router_step_def case_prod_beta Let_def split: option.split)
next
  case InTick
  then show ?thesis by (simp add: router_step_def router_tick_act_ok)
next
  case InPing
  then show ?thesis using ping_tunnel tunnel_act_ok by (auto simp: router_step_def case_prod_beta Let_def)
next
  case InPingReport
  then show ?thesis by (simp add: router_step_def case_prod_beta Let_def)
next
  case InDump
  then show ?thesis by (simp add: router_step_def)
qed

section \<open>Turns of the loop\<close>

lemma resolve_running: "running seed entries r \<Longrightarrow> running seed entries (resolve dns names now r)"
  by (induction names arbitrary: r) (auto simp: resolve_def split: option.split intro: running.resolved)

lemma router_resolved_ports [simp]: "r_ports (router_resolved name ip now r) = r_ports r"
  by (simp add: router_resolved_def)

lemma resolve_ports [simp]: "r_ports (resolve dns names now r) = r_ports r"
  by (induction names arbitrary: r) (auto simp: resolve_def split: option.split)

lemma shutdown_ports [simp]: "r_ports (fst (router_shutdown now r)) = r_ports r"
  by (simp add: router_shutdown_def case_prod_beta Let_def)

lemma running_distinct: "running seed entries r \<Longrightarrow> distinct (map p_id (r_ports r))"
  using running_ok by (auto simp: router_ok_def ports_ok_def)

lemma step_signature: "signature (r_ports (fst (router_step seed entries i now r))) = signature (r_ports r)"
  using router_step_evolves [of r seed entries i now] same_signature unfolding evolves_def by blast

text \<open>What every part of a turn keeps.\<close>

definition turning :: "seeder \<Rightarrow> entries \<Rightarrow> port list \<Rightarrow> router \<Rightarrow> bool" where
  "turning seed entries ps r \<longleftrightarrow> running seed entries r \<and> signature (r_ports r) = signature ps"

lemma act_ok_signature: "signature ps = signature qs \<Longrightarrow> act_ok ps a \<longleftrightarrow> act_ok qs a"
  by (simp add: act_ok_def)

lemma step_turning:
  assumes "turning seed entries ps r" "heard_on ps i"
  shows "turning seed entries ps (fst (router_step seed entries i now r))"
    "acts_ok ps (snd (router_step seed entries i now r))"
proof -
  have sig: "signature (r_ports r) = signature ps" and run: "running seed entries r"
    using assms(1) by (simp_all add: turning_def)
  show "turning seed entries ps (fst (router_step seed entries i now r))"
    using run sig by (simp add: turning_def step_signature running.step)
  have "heard_on (r_ports r) i" using assms(2) unfolding heard_on_def sig .
  from router_step_act_ok [OF this running_distinct [OF run]]
  show "acts_ok ps (snd (router_step seed entries i now r))" using act_ok_signature [OF sig] by blast
qed

lemma quiet_inputs [simp]: "heard_on ps InDump" "heard_on ps InPing" "heard_on ps InPingReport" "heard_on ps InTick"
  by (simp_all add: heard_on_def)

lemma maybe_step:
  assumes "turning seed entries ps r" "heard_on ps i"
  shows "turning seed entries ps (fst (if b then router_step seed entries i now r else (r, [])))"
    "acts_ok ps (snd (if b then router_step seed entries i now r else (r, [])))"
  using assms step_turning by auto

lemma turn_turning:
  assumes "turning seed entries ps (rs_router s)" "heard_on ps (loop_input rx)"
  shows "turning seed entries ps (rs_router (fst (turn seed entries dns names rx sg now s)))
    \<and> acts_ok ps (fst (snd (turn seed entries dns names rx sg now s)))"
proof (cases "rx = RxClosed")
  case True
  then show ?thesis using assms(1) by (simp add: turn_def)
next
  case False
  define x1 where "x1 = router_step seed entries (loop_input rx) now (rs_router s)"
  define r1 where "r1 = (if rs_next_scan s \<le> now then resolve dns names now (fst x1) else fst x1)"
  define x2 where "x2 = (if sg_dump sg then router_step seed entries InDump now r1 else (r1, []))"
  define x3 where "x3 = (if sg_ping sg then router_step seed entries InPing now (fst x2) else (fst x2, []))"
  define rep where "rep = (if sg_ping sg then Some (now + PING_GRACE) else rs_ping_report s)"
  define x4 where "x4 = (if passed rep now then router_step seed entries InPingReport now (fst x3) else (fst x3, []))"
  define stop where "stop \<longleftrightarrow> rs_deadline s = None \<and> sg_stop sg"
  define x5 where "x5 = (if stop then router_shutdown now (fst x4) else (fst x4, []))"
  have 1: "turning seed entries ps (fst x1)" "acts_ok ps (snd x1)" using step_turning [OF assms] by (simp_all add: x1_def)
  then have r1: "turning seed entries ps r1" by (simp add: r1_def turning_def resolve_running)
  have 2: "turning seed entries ps (fst x2)" "acts_ok ps (snd x2)"
    unfolding x2_def by (intro maybe_step [OF r1] quiet_inputs)+
  have 3: "turning seed entries ps (fst x3)" "acts_ok ps (snd x3)"
    unfolding x3_def by (intro maybe_step [OF 2(1)] quiet_inputs)+
  have 4: "turning seed entries ps (fst x4)" "acts_ok ps (snd x4)"
    unfolding x4_def by (intro maybe_step [OF 3(1)] quiet_inputs)+
  have "tunnel_acts (snd (router_shutdown now (fst x4)))"
    using shutdown_tunnel by (simp add: router_shutdown_def Let_def case_prod_beta)
  then have 5: "turning seed entries ps (fst x5)" "acts_ok ps (snd x5)"
    using 4(1) tunnel_act_ok by (auto simp: x5_def turning_def intro: running.shutdown)
  have "rs_router (fst (turn seed entries dns names rx sg now s)) = fst x5"
    "fst (snd (turn seed entries dns names rx sg now s)) = snd x1 @ snd x2 @ snd x3 @ snd x4 @ snd x5"
    using False by (simp_all add: turn_def x1_def r1_def x2_def x3_def rep_def x4_def stop_def x5_def Let_def case_prod_beta)
  with 1 2 3 4 5 show ?thesis by auto
qed

lemma run_loop_turning:
  assumes "turning seed entries ps (rs_router s)" "\<forall>(rx, _) \<in> set xs. heard_on ps (loop_input rx)"
  shows "acts_ok ps (snd (run_loop seed entries dns names xs s))"
  using assms
proof (induction xs arbitrary: s)
  case (Cons x xs)
  obtain rx sg now where x: "x = (rx, sg, now)" by (metis prod.exhaust)
  let ?t = "turn seed entries dns names rx sg now s"
  have h: "heard_on ps (loop_input rx)" using Cons.prems(2) by (simp add: x)
  note t = turn_turning [OF Cons.prems(1) h, of dns names sg now]
  have "acts_ok ps (snd (run_loop seed entries dns names xs (fst ?t)))"
    using Cons.IH [OF conjunct1 [OF t]] Cons.prems(2) by simp
  with conjunct2 [OF t] show ?case by (auto simp: x Let_def case_prod_beta)
qed simp

section \<open>The links of a configuration\<close>

fun link_of :: "kind \<Rightarrow> link" where
  "link_of (KEther _) = LkEther"
| "link_of KLtoudp = LkLtoudp"
| "link_of KTashtalk = LkTashtalk"

definition links_match :: "links \<Rightarrow> port list \<Rightarrow> bool" where
  "links_match links ps \<longleftrightarrow> distinct (map fst (signature ps))
     \<and> links = map_of (map (\<lambda>(i, k). (i, link_of k)) (signature ps))"

lemma link_map_zip:
  "distinct (map (word_of_nat :: nat \<Rightarrow> port_id) [i..<i + length ks]) \<Longrightarrow>
   link_map i ks m = m ++ map_of (zip (map word_of_nat [i..<i + length ks]) ks)"
proof (induction ks arbitrary: i m)
  case (Cons k ks)
  have up: "[i..<i + length (k # ks)] = i # [i + 1..<i + 1 + length ks]"
    by (simp add: upt_conv_Cons del: upt_Suc)
  have d: "(word_of_nat i :: port_id) \<notin> set (map word_of_nat [i + 1..<i + 1 + length ks])"
    "distinct (map (word_of_nat :: nat \<Rightarrow> port_id) [i + 1..<i + 1 + length ks])"
    using Cons.prems unfolding up by (simp_all del: upt_Suc)
  let ?rest = "map_of (zip (map (word_of_nat :: nat \<Rightarrow> port_id) [i + 1..<i + 1 + length ks]) ks)"
  have "word_of_nat i \<notin> dom ?rest" using d(1) by (simp add: dom_map_of_zip del: upt_Suc)
  from map_add_upd_left [OF this]
  have "m(word_of_nat i \<mapsto> k) ++ ?rest = m ++ ?rest(word_of_nat i \<mapsto> k)"
    unfolding map_add_upd .
  with Cons.IH [OF d(2), of "m(word_of_nat i \<mapsto> k)"] show ?case
    unfolding up link_map.simps list.map zip_Cons_Cons map_of.simps fst_conv snd_conv by (simp only: )
qed simp

lemma add_ports_kinds:
  "map p_kind (fst (add_ports seed now i xs T)) = map (snd \<circ> fst) xs"
proof (induction xs arbitrary: i T)
  case (Cons x xs)
  obtain name kind rng zones where "x = ((name, kind), rng, zones)" by (metis prod.exhaust)
  with Cons show ?case by (simp add: Let_def case_prod_beta port_new_def)
qed simp

lemma open_ports_kinds:
  assumes "open_ports nic sock uart c = Some (links, kinds, ip)"
  shows "links = link_map 0 (map (link_of \<circ> snd) kinds) Map.empty \<and> length kinds = length (port_rows c)"
proof -
  obtain os where os: "those (map (open_ether nic) (cf_ethertalk c) @ map (open_ltoudp sock) (cf_ltoudp c)
      @ map (open_tashtalk uart) (cf_tashtalk c)) = Some os"
    "links = link_map 0 (map (fst \<circ> snd) os) Map.empty" "kinds = map fst os"
    using assms by (auto simp: open_ports_def)
  have those: "those xs = Some ys \<Longrightarrow> map Some ys = xs" for xs :: "'a option list" and ys
    by (induction xs arbitrary: ys) (auto split: option.splits)
  have one: "fst (snd oo) = link_of (snd (fst oo))"
    if "Some oo \<in> set (map (open_ether nic) (cf_ethertalk c) @ map (open_ltoudp sock) (cf_ltoudp c)
      @ map (open_tashtalk uart) (cf_tashtalk c))" for oo
    using that by (auto simp: open_ether_def open_ltoudp_def open_tashtalk_def then_some_def map_option_case
        split: if_splits option.splits)
  have "fst (snd oo) = link_of (snd (fst oo))" if "oo \<in> set os" for oo
    using one [of oo] that unfolding those [OF os(1), symmetric] by simp
  then have "map (fst \<circ> snd) os = map (link_of \<circ> snd) kinds" by (simp add: os(3))
  moreover have "length kinds = length (port_rows c)"
    using arg_cong [OF those [OF os(1)], of length] by (simp add: os(3) port_rows_def)
  ultimately show ?thesis using os(2) by simp
qed

lemma links_of_start:
  assumes "open_ports nic sock uart c = Some (links, kinds, ip)" "length kinds \<le> 256" and that: "port_rows c' = port_rows c"
  shows "links_match links (r_ports (router_new seed nanos c' kinds now))"
proof -
  have l: "links = link_map 0 (map (link_of \<circ> snd) kinds) Map.empty" and n: "length kinds = length (port_rows c)"
    using open_ports_kinds [OF assms(1)] by simp_all
  let ?ps = "r_ports (router_new seed nanos c' kinds now)" and ?ids = "map (word_of_nat :: nat \<Rightarrow> port_id) [0..<length kinds]"
  have ps: "?ps = fst (add_ports seed now 0 (zip kinds (port_specs c')) tables_new)"
    by (simp add: router_new_def Let_def case_prod_beta)
  obtain T where "add_ports seed now 0 (zip kinds (port_specs c')) tables_new = (?ps, T)" unfolding ps by (metis prod.collapse)
  from conjunct1 [OF add_ports_result [OF this]] have ids: "map p_id ?ps = ?ids"
    by (simp add: port_specs_rows that n)
  have "map (snd \<circ> fst) (zip kinds (port_specs c')) = map snd kinds"
    using n that by (metis (no_types, lifting) length_map list.map_comp map_fst_zip port_specs_rows)
  then have ks: "map p_kind ?ps = map snd kinds" using add_ports_kinds by (simp add: ps)
  have "signature ?ps = zip (map p_id ?ps) (map p_kind ?ps)"
    by (simp add: signature_def zip_map_map zip_same_conv_map)
  then have sig: "signature ?ps = zip ?ids (map snd kinds)" unfolding ids ks .
  have d: "distinct ?ids" using assms(2) by (rule distinct_ids)
  have "links = map_of (zip ?ids (map (link_of \<circ> snd) kinds))"
    using link_map_zip [of 0 "map (link_of \<circ> snd) kinds" Map.empty] d by (simp add: l)
  also have "zip ?ids (map (link_of \<circ> snd) kinds) = map (\<lambda>(i, k). (i, link_of k)) (zip ?ids (map snd kinds))"
    by (simp add: zip_map2 [symmetric] case_prod_beta map_zip_map2 comp_def)
  finally show ?thesis using d by (simp add: links_match_def sig)
qed

lemma act_ok_carried:
  assumes "links_match links ps" "act_ok ps a" shows "execute links a \<noteq> WrongLink i"
proof -
  have d: "distinct (map fst (map (\<lambda>(i, k). (i, link_of k)) (signature ps)))"
    using assms(1) by (simp add: links_match_def comp_def case_prod_beta)
  have k: "links j = Some (link_of kd)" if "(j, kd) \<in> set (signature ps)" for j kd
    using map_of_is_SomeI [OF d, of j "link_of kd"] that assms(1) by (force simp: links_match_def)
  have kinds: "kind_extended kd \<longleftrightarrow> link_of kd = LkEther" for kd by (cases kd) simp_all
  show ?thesis
    using assms(2) k kinds
    by (cases a) (auto simp: act_ok_def carries_def tunnel_act_def execute_def split: option.split link.split)
qed

text \<open>
  C30: Nothing the router decides on is ever lost on a link of the wrong kind.  For a configuration that passes
  its checks and whose links open, and whatever the readers deliver, in any order, with any
  signals at any times, every Ethernet frame goes to an Ethernet link, every LLAP frame to an
  LToUDP or TashTalk link and every node bitmap to a TashTalk link.
\<close>

theorem no_wrong_link:
  assumes "open_ports nic sock uart c = Some (links, kinds, ip)" "validate c = None" "length kinds \<le> 256"
    and "\<forall>(rx, _) \<in> set turns. case rx of RxGot (ELlap i _) \<Rightarrow> links i \<in> {Some LkLtoudp, Some LkTashtalk} | _ \<Rightarrow> True"
    and "run nic sock uart bound seed entries nanos dns start turns c = Some out"
  shows "WrongLink i \<notin> set out"
proof -
  let ?c = "c\<lparr>cf_public_ip := domain_identifier c bound ip\<rparr>"
  let ?s = "run_start seed nanos c kinds (domain_identifier c bound ip) start"
  let ?ps = "r_ports (rs_router ?s)"
  have rows: "port_rows ?c = port_rows c" by (simp add: port_rows_def)
  then have "validate ?c = None" using assms(2) by (simp add: validate_def split: option.splits if_splits)
  then have "configured ?c kinds"
    using open_ports_kinds [OF assms(1)] assms(3) rows by (simp add: configured_def)
  then have t: "turning seed entries ?ps (rs_router ?s)"
    by (simp add: turning_def run_start_def running.start)
  have m: "links_match links ?ps"
    using links_of_start [OF assms(1,3) rows] by (simp add: run_start_def)
  have on: "\<exists>s \<in> set (signature ?ps). fst s = k \<and> \<not> kind_extended (snd s)"
    if local: "links k \<in> {Some LkLtoudp, Some LkTashtalk}" for k
  proof -
    obtain l where "links k = Some l" "l \<noteq> LkEther" using local by auto
    then have "(k, l) \<in> set (map (\<lambda>(i, k). (i, link_of k)) (signature ?ps))"
      using m map_of_SomeD unfolding links_match_def by metis
    then obtain kd where "(k, kd) \<in> set (signature ?ps)" "l = link_of kd" by auto
    with \<open>l \<noteq> LkEther\<close> show ?thesis by (cases kd) force+
  qed
  have "\<forall>(rx, _) \<in> set turns. heard_on ?ps (loop_input rx)"
  proof (clarify)
    fix rx sg now assume "(rx, sg, now) \<in> set turns"
    with assms(4) have "case rx of RxGot (ELlap i _) \<Rightarrow> links i \<in> {Some LkLtoudp, Some LkTashtalk} | _ \<Rightarrow> True" by blast
    then show "heard_on ?ps (loop_input rx)"
      using on by (auto simp: heard_on_def loop_input_def split: received.splits event.splits)
  qed
  from run_loop_turning [OF t this] have a: "acts_ok ?ps (snd (run_loop seed entries dns (cf_peers c) turns ?s))" .
  have "out = map (execute links) (snd (run_loop seed entries dns (cf_peers c) turns ?s))"
    using assms(5) by (simp add: run_def assms(1) Let_def case_prod_beta)
  with a act_ok_carried [OF m] show ?thesis by (metis (no_types, lifting) imageE set_map)
qed

definition no_signals :: signals where
  "no_signals = \<lparr>sg_dump = False, sg_ping = False, sg_stop = False, sg_again = False\<rparr>"

lemma cable_opens:
  "\<exists>links. open_ports (\<lambda>_. None) (\<lambda>_. True) (\<lambda>_. True) cable_config
     = Some (links, [(lit ''ltoudp'', KLtoudp), (lit ''tty'', KTashtalk)], None)"
  by (simp add: open_ports_def cable_config_def config_default_def open_ltoudp_def open_tashtalk_def then_some_def)

theorem no_wrong_link_witness:
  "\<exists>out. run (\<lambda>_. None) (\<lambda>_. True) (\<lambda>_. True) None same_seed no_entries 0 (\<lambda>_. None) 0 [(RxTimeout, no_signals, 0)] cable_config = Some out
     \<and> WrongLink 1 \<notin> set out"
proof -
  obtain links where o: "open_ports (\<lambda>_. None) (\<lambda>_. True) (\<lambda>_. True) cable_config
     = Some (links, [(lit ''ltoudp'', KLtoudp), (lit ''tty'', KTashtalk)], None)" using cable_opens by blast
  then obtain out where out: "run (\<lambda>_. None) (\<lambda>_. True) (\<lambda>_. True) None same_seed no_entries 0 (\<lambda>_. None) 0
      [(RxTimeout, no_signals, 0)] cable_config = Some out"
    by (simp add: run_def Let_def case_prod_beta)
  have v: "validate cable_config = None" using cable_configured by (simp add: configured_def)
  from no_wrong_link [OF o v _ _ out, of 1] out show ?thesis by simp
qed

section \<open>The timers\<close>

text \<open>Only a tick runs a timer, and a turn that received a frame is not one.\<close>

definition frame_received :: "received \<Rightarrow> bool" where
  "frame_received rx \<longleftrightarrow>
     (case rx of RxGot (EPacket _ _ _) \<Rightarrow> True | RxGot (ELlap _ _) \<Rightarrow> True | RxGot (EAurp _ _) \<Rightarrow> True | _ \<Rightarrow> False)"

text \<open>What the timers keep: when the last beacon and query went out, and the nodes claimed.\<close>

definition clocks :: "router \<Rightarrow> local \<times> u8 option list" where
  "clocks r = (r_local r, map p_node (r_ports r))"

lemma changed_clocks [simp]: "clocks (fst (changed chs r)) = clocks r"
  by (simp add: clocks_def changed_def)

lemma arrived_clocks [simp]: "clocks (fst (arrived entries origin d body now r)) = clocks r"
proof -
  have "clocks (fst (serve entries here q d body now r)) = clocks r" for here q d
    by (simp add: serve_def Let_def case_prod_beta) (simp add: clocks_def)
  then show ?thesis by (simp add: arrived_def Let_def case_prod_beta split: option.split)
qed

lemma inbound_keeps_node:
  "p_node (snd (snd (inbound_ether seed pk now p))) = p_node p"
  "p_node (snd (snd (inbound_llap seed l now p))) = p_node p"
  by (auto simp: inbound_ether_def inbound_llap_def restart_def Let_def split: kind.split body.split aarp_action.split prod.split)

lemma port_clocks:
  assumes "port_index i r = Some k" "p_node q = p_node (r_ports r ! k)"
  shows "clocks (r\<lparr>r_ports := (r_ports r)[k := q]\<rparr>) = clocks r"
  using port_index_lt [OF assms(1)] assms(2) by (simp add: clocks_def map_update list_update_same_conv)

lemma router_step_clocks: "i \<noteq> InTick \<Longrightarrow> clocks (fst (router_step seed entries i now r)) = clocks r"
proof (cases i)
  case (InEther j pk)
  then show ?thesis
    using port_clocks [of j r _ "snd (snd (inbound_ether seed pk now (r_ports r ! k)))" for k] inbound_keeps_node(1)
    by (cases "port_index j r") (auto simp: router_step_def Let_def case_prod_beta split: port_in.split body.split)
next
  case (InLlap j l)
  then show ?thesis
    using port_clocks [of j r _ "snd (snd (inbound_llap seed l now (r_ports r ! k)))" for k] inbound_keeps_node(2)
    by (cases "port_index j r") (auto simp: router_step_def Let_def case_prod_beta split: port_in.split)
next
  case (InAurp src bs)
  have "clocks (r\<lparr>r_peers := ps, r_tables := T\<rparr>) = clocks r" for ps T by (simp add: clocks_def)
  then show ?thesis by (auto simp: InAurp router_step_def Let_def case_prod_beta split: option.split)
qed (simp_all add: router_step_def Let_def case_prod_beta clocks_def)

lemma resolve_clocks [simp]: "clocks (resolve dns names now r) = clocks r"
  by (induction names arbitrary: r) (auto simp: resolve_def router_resolved_def clocks_def split: option.split)

lemma turn_clocks:
  assumes "frame_received rx"
  shows "clocks (rs_router (fst (turn seed entries dns names rx sg now s))) = clocks (rs_router s)"
proof -
  have "loop_input rx \<noteq> InTick" "rx \<noteq> RxClosed"
    using assms by (auto simp: frame_received_def loop_input_def split: received.splits event.splits)
  moreover have "clocks (fst (router_shutdown now r)) = clocks r" for r
    by (simp add: router_shutdown_def clocks_def Let_def case_prod_beta)
  ultimately show ?thesis
    using router_step_clocks by (simp add: turn_def Let_def case_prod_beta)
qed

text \<open>
  The timers wait for silence.  A turn of the loop that received a frame runs no timer, however much time
  has passed: over any run of turns that each received one, no beacon and no zone query is sent or
  counted as sent, and no port completes its claim.  Only a quarter of a second without a frame, or
  an error, lets a timer run.
\<close>

theorem traffic_starves_timers:
  assumes "\<forall>(rx, _) \<in> set turns. frame_received rx"
  shows "r_local (rs_router (fst (run_loop seed entries dns names turns s))) = r_local (rs_router s)
    \<and> map p_node (r_ports (rs_router (fst (run_loop seed entries dns names turns s)))) = map p_node (r_ports (rs_router s))"
proof -
  have "clocks (rs_router (fst (run_loop seed entries dns names turns s))) = clocks (rs_router s)"
    using assms
  proof (induction turns arbitrary: s)
    case (Cons x xs)
    obtain rx sg now where x: "x = (rx, sg, now)" by (metis prod.exhaust)
    have f: "frame_received rx" using Cons.prems by (simp add: x)
    show ?case
      using Cons turn_clocks [OF f] by (simp add: x Let_def case_prod_beta)
  qed simp
  then show ?thesis by (simp add: clocks_def)
qed

text \<open>An hour of frames a fifth of a second apart, and nobody has heard from the router.\<close>

definition an_hour_of_frames :: "(received \<times> signals \<times> instant) list" where
  "an_hour_of_frames = map (\<lambda>k. (RxGot (EAurp (8, 387) []), no_signals, millis (200 * k))) [0..<18000]"

theorem traffic_starves_timers_witness:
  "lo_last_beacon (r_local (rs_router (fst (run_loop same_seed no_entries (\<lambda>_. None) []
     an_hour_of_frames (run_start same_seed 0 cable_config cable_kinds None 0))))) = None"
proof -
  have busy: "\<forall>(rx, _) \<in> set an_hour_of_frames. frame_received rx"
    by (auto simp: an_hour_of_frames_def frame_received_def)
  have fresh: "lo_last_beacon (r_local (rs_router (run_start same_seed 0 cable_config cable_kinds None 0))) = None"
    by (simp add: run_start_def router_new_def local_new_def Let_def case_prod_beta)
  from traffic_starves_timers [OF busy, of same_seed no_entries "\<lambda>_. None" "[]"
      "run_start same_seed 0 cable_config cable_kinds None 0"] fresh
  show ?thesis by simp
qed

end
