(* ===== verification/Node_Run.thy ===== *)
theory Node_Run
  imports Node_Client Capture "HOL-Library.List_Lexorder" "HOL-Library.Product_Lexorder"
begin

text \<open>
  \<open>Node\<close> of \<open>src/src/node.rs\<close>: the startup that claims an address, and the questions asked from it.  The
  state is \<open>Node\<close>'s own fields together with what surrounds it: the clock, the events still to come
  out of the channel with the instant each gets there, and the frames handed to the NIC.  \<open>host\<close> holds
  what does not change: our MAC, what the NIC says to each frame, the wall clock's nanoseconds, the
  iteration order of the session's hash map and whether the readers have hung up.  Time passes only
  while the node waits; handling an event takes none.
\<close>

section \<open>State\<close>

datatype io_error = AddrInUse | InvalidInput | TimedOut | NicError rstring

record host =
  ho_mac :: macaddr
  ho_nic :: "instant \<Rightarrow> frame \<Rightarrow> rstring option"  \<comment> \<open>the error of a send, if any\<close>
  ho_nanos :: "instant \<Rightarrow> u32"
  ho_ord :: "open_txns \<Rightarrow> open_txns"
  ho_hung :: bool  \<comment> \<open>no reader is left once the queue is empty\<close>

record node =
  nd_addr :: addr
  nd_zone :: "rstring option"
  nd_router :: "addr option"
  nd_amt :: amt
  nd_open :: open_txns
  nd_probing :: bool
  nd_next_id :: u16
  nd_pending :: "nbp_tuple list"
  nd_messages :: "message list"

record running = node +
  ru_now :: instant
  ru_inbox :: "(instant \<times> event) list"
  ru_sent :: "(instant \<times> frame) list"

definition ADDRESS_TRIES :: nat where "ADDRESS_TRIES = 5"
definition REQUESTED_ZONE :: rstring where "REQUESTED_ZONE = []"
definition NETINFO_TRIES :: nat where "NETINFO_TRIES = 3"
definition NETINFO_INTERVAL :: duration where "NETINFO_INTERVAL = secs 1"
definition LOOKUP_TRIES :: nat where "LOOKUP_TRIES = 3"
definition LOOKUP_INTERVAL :: duration where "LOOKUP_INTERVAL = secs 1"
definition PING_INTERVAL :: duration where "PING_INTERVAL = secs 1"
definition ZONE_TRIES :: nat where "ZONE_TRIES = 3"
definition ZONE_INTERVAL :: duration where "ZONE_INTERVAL = secs 2"
definition MAX_MESSAGES :: nat where "MAX_MESSAGES = 64"

text \<open>The node that \<open>claim\<close> starts from.\<close>

definition node_start :: "instant \<Rightarrow> (instant \<times> event) list \<Rightarrow> running" where
  "node_start now inbox =
     \<lparr>nd_addr = mk_addr 0 0, nd_zone = None, nd_router = None, nd_amt = Map.empty, nd_open = [],
      nd_probing = False, nd_next_id = 1, nd_pending = [], nd_messages = [],
      ru_now = now, ru_inbox = inbox, ru_sent = []\<rparr>"

section \<open>Sending\<close>

definition tx_send :: "host \<Rightarrow> frame \<Rightarrow> running \<Rightarrow> running \<times> (io_error + unit)" where
  "tx_send h f s =
     (case ho_nic h (ru_now s) f of
        Some err \<Rightarrow> (s, Inl (NicError err))
      | None \<Rightarrow> (s\<lparr>ru_sent := ru_sent s @ [(ru_now s, f)]\<rparr>, Inr ()))"

definition send_from ::
    "host \<Rightarrow> u8 \<Rightarrow> addr \<Rightarrow> u8 \<Rightarrow> u8 \<Rightarrow> bytes \<Rightarrow> running \<Rightarrow> running \<times> (io_error + unit)" where
  "send_from h src_socket dst dst_socket typ dat s =
     (let d = datagram (nd_addr s) src_socket dst dst_socket typ dat
      in tx_send h (node_frame (ho_mac h) (mac_for (nd_amt s) dst) DDP (ddp_encode d)) s)"

definition send_ddp ::
    "host \<Rightarrow> addr \<Rightarrow> u8 \<Rightarrow> u8 \<Rightarrow> bytes \<Rightarrow> running \<Rightarrow> running \<times> (io_error + unit)" where
  "send_ddp h dst dst_socket typ dat s = send_from h OUR_SOCKET dst dst_socket typ dat s"

definition next_id :: "running \<Rightarrow> running \<times> u16" where
  "next_id s = (s\<lparr>nd_next_id := nd_next_id s + 1\<rparr>, nd_next_id s + 1)"

definition mac_tail :: "macaddr \<Rightarrow> u64" where
  "mac_tail m =
     (case m of Mac _ _ _ d e f \<Rightarrow> push_bit 16 (ucast d) OR push_bit 8 (ucast e) OR ucast f)"

definition node_seed :: "host \<Rightarrow> u32 \<Rightarrow> running \<Rightarrow> u64" where
  "node_seed h attempt s =
     (ucast (ho_nanos h (ru_now s)) XOR push_bit 8 (mac_tail (ho_mac h)))
       XOR push_bit 32 (ucast attempt)"

section \<open>Waiting\<close>

text \<open>What every packet does before the caller of \<open>wait\<close> sees it.\<close>

definition stow :: "message list \<Rightarrow> message list \<Rightarrow> message list" where
  "stow old new =
     (let ms = old @ new in if length ms > MAX_MESSAGES then drop (length ms - MAX_MESSAGES) ms else ms)"

definition answer_aarp :: "host \<Rightarrow> packet \<Rightarrow> running \<Rightarrow> running" where
  "answer_aarp h p s =
     (case (aarp_action p (nd_addr s) (ho_mac h) (nd_probing s), pk_body p) of
        (AnswerTo m, BAarp a) \<Rightarrow>
          fst (tx_send h (node_frame (ho_mac h) m AARP
                 (aarp_encode (aarp_response (nd_addr s) (ho_mac h) (aa_src a) m))) s)
      | _ \<Rightarrow> s)"

definition on_packet :: "host \<Rightarrow> instant \<Rightarrow> packet \<Rightarrow> running \<Rightarrow> running" where
  "on_packet h at p s =
     (let s = s\<lparr>nd_amt := glean (nd_amt s) p\<rparr>;
          (opn, ms) = session_push (ho_ord h) at p (nd_open s);
          s = s\<lparr>nd_open := opn, nd_messages := stow (nd_messages s) ms\<rparr>
      in answer_aarp h p s)"

definition on_event :: "host \<Rightarrow> event \<Rightarrow> running \<Rightarrow> running" where
  "on_event h ev s =
     (case ev of
        EPacket at _ p \<Rightarrow> on_packet h at p s
      | EDropped _ \<Rightarrow> s\<lparr>nd_open := txns_flush (nd_open s)\<rparr>
      | _ \<Rightarrow> s)"

text \<open>
  The loop of \<open>wait\<close>, over the events still to come: \<open>recv_timeout\<close> takes one that is there by the
  deadline, and a deadline already past is not waited for at all.
\<close>

fun wait_loop ::
    "host \<Rightarrow> instant \<Rightarrow> (running \<Rightarrow> packet \<Rightarrow> running \<times> 'a option) \<Rightarrow> (instant \<times> event) list \<Rightarrow> running
     \<Rightarrow> running \<times> 'a option" where
  "wait_loop h deadline f [] s =
     (if deadline < ru_now s \<or> ho_hung h then (s\<lparr>ru_inbox := []\<rparr>, None)
      else (s\<lparr>ru_inbox := [], ru_now := deadline\<rparr>, None))"
| "wait_loop h deadline f ((t, ev) # evs) s =
     (if deadline < ru_now s then (s\<lparr>ru_inbox := (t, ev) # evs\<rparr>, None)
      else if deadline < t then (s\<lparr>ru_inbox := (t, ev) # evs, ru_now := deadline\<rparr>, None)
      else
        let s = on_event h ev (s\<lparr>ru_now := max (ru_now s) t\<rparr>) in
        case ev of
          EPacket _ _ p \<Rightarrow>
            (case f s p of
               (s, Some v) \<Rightarrow> (s\<lparr>ru_inbox := evs\<rparr>, Some v)
             | (s, None) \<Rightarrow> wait_loop h deadline f evs s)
        | _ \<Rightarrow> wait_loop h deadline f evs s)"

definition wait ::
    "host \<Rightarrow> instant \<Rightarrow> (running \<Rightarrow> packet \<Rightarrow> running \<times> 'a option) \<Rightarrow> running \<Rightarrow> running \<times> 'a option" where
  "wait h deadline f s = wait_loop h deadline f (ru_inbox s) s"

section \<open>Claiming an address\<close>

datatype want = Discover | OnNet u16 | Exactly addr

definition objection :: "addr \<Rightarrow> macaddr \<Rightarrow> running \<Rightarrow> packet \<Rightarrow> running \<times> unit option" where
  "objection a m s p = (s, then_some (aarp_action p a m True = Conflict) ())"

definition probe_frame :: "host \<Rightarrow> addr \<Rightarrow> frame" where
  "probe_frame h a = node_frame (ho_mac h) BROADCAST_MAC AARP (aarp_encode (probe a (ho_mac h)))"

fun probe_loop :: "host \<Rightarrow> addr \<Rightarrow> nat \<Rightarrow> running \<Rightarrow> running \<times> (io_error + unit)" where
  "probe_loop h a 0 s = (s, Inr ())"
| "probe_loop h a (Suc n) s =
     (case tx_send h (probe_frame h a) s of
        (s, Inl err) \<Rightarrow> (s, Inl err)
      | (s, Inr _) \<Rightarrow>
          (case wait h (ru_now s + PROBE_INTERVAL) (objection a (ho_mac h)) s of
             (s, Some _) \<Rightarrow> (s, Inl AddrInUse)
           | (s, None) \<Rightarrow> probe_loop h a n s))"

definition claim_one :: "host \<Rightarrow> addr \<Rightarrow> running \<Rightarrow> running \<times> (io_error + unit)" where
  "claim_one h a s =
     (case probe_loop h a (unat PROBE_TRIES) (s\<lparr>nd_probing := True\<rparr>) of
        (s, r) \<Rightarrow> (s\<lparr>nd_probing := False\<rparr>, r))"

text \<open>\<open>claim_any\<close> and \<open>claim_in_range\<close> differ in how a seed becomes an address.\<close>

fun claim_tries ::
    "host \<Rightarrow> (u64 \<Rightarrow> addr) \<Rightarrow> nat list \<Rightarrow> running \<Rightarrow> running \<times> (io_error + addr)" where
  "claim_tries h pick [] s = (s, Inl AddrInUse)"
| "claim_tries h pick (attempt # attempts) s =
     (let a = pick (node_seed h (word_of_nat attempt) s) in
      case claim_one h a s of
        (s, Inr _) \<Rightarrow> (s, Inr a)
      | (s, Inl _) \<Rightarrow> claim_tries h pick attempts s)"

definition claim_any :: "host \<Rightarrow> running \<Rightarrow> running \<times> (io_error + addr)" where
  "claim_any h s = claim_tries h pick_address [0..<ADDRESS_TRIES] s"

definition address_in :: "u16 \<times> u16 \<Rightarrow> u64 \<Rightarrow> addr" where
  "address_in rng seed =
     (let span = ucast (snd rng - fst rng) + 1 :: u64
      in mk_addr (fst rng + ucast (seed mod span)) (a_node (pick_address seed)))"

definition claim_in_range :: "host \<Rightarrow> u16 \<times> u16 \<Rightarrow> running \<Rightarrow> running \<times> (io_error + addr)" where
  "claim_in_range h rng s = claim_tries h (address_in rng) [0..<ADDRESS_TRIES] s"

definition verdict_on :: "addr \<Rightarrow> running \<Rightarrow> packet \<Rightarrow> running \<times> (net_info \<times> rstring \<times> addr) option" where
  "verdict_on provisional s p = (s, netinfo_verdict p provisional REQUESTED_ZONE)"

fun info_tries ::
    "host \<Rightarrow> addr \<Rightarrow> nat \<Rightarrow> running \<Rightarrow> running \<times> (net_info \<times> rstring \<times> addr) option" where
  "info_tries h provisional 0 s = (s, None)"
| "info_tries h provisional (Suc n) s =
     (case send_from h 6 (mk_addr 0 255) 6 DDP_ZIP (zip_encode (ZipGetNetInfo REQUESTED_ZONE)) s of
        (s, Inl _) \<Rightarrow> (s, None)
      | (s, Inr _) \<Rightarrow>
          (case wait h (ru_now s + NETINFO_INTERVAL) (verdict_on provisional) s of
             (s, Some got) \<Rightarrow> (s, Some got)
           | (s, None) \<Rightarrow> info_tries h provisional n s))"

definition get_net_info :: "host \<Rightarrow> running \<Rightarrow> running \<times> (net_info \<times> rstring \<times> addr) option" where
  "get_net_info h s = info_tries h (nd_addr s) NETINFO_TRIES s"

definition first_claim :: "host \<Rightarrow> want \<Rightarrow> running \<Rightarrow> running \<times> (io_error + addr)" where
  "first_claim h want s =
     (case want of
        Exactly a \<Rightarrow>
          if a_node a = 254 \<or> a_node a = 255 then (s, Inl InvalidInput)
          else (case claim_one h a s of
                  (s, Inl err) \<Rightarrow> (s, Inl err)
                | (s, Inr _) \<Rightarrow> (s, Inr a))
      | OnNet net \<Rightarrow> claim_in_range h (net, net) s
      | Discover \<Rightarrow> claim_any h s)"

text \<open>What the router's answer changes, once the provisional address is ours.\<close>

definition settle_in :: "host \<Rightarrow> want \<Rightarrow> running \<Rightarrow> running \<times> (io_error + unit)" where
  "settle_in h want s =
     (case get_net_info h s of
        (s, None) \<Rightarrow> (s, Inr ())
      | (s, Some (verdict, zone, router)) \<Rightarrow>
          let s = s\<lparr>nd_router := Some router, nd_zone := Some zone\<rparr> in
          case verdict of
            Keep \<Rightarrow> (s, Inr ())
          | Repick rng \<Rightarrow>
              if want \<noteq> Discover then (s, Inr ())
              else (case claim_in_range h rng s of
                      (s, Inl err) \<Rightarrow> (s, Inl err)
                    | (s, Inr a) \<Rightarrow> (s\<lparr>nd_addr := a\<rparr>, Inr ())))"

definition node_claim ::
    "host \<Rightarrow> want \<Rightarrow> instant \<Rightarrow> (instant \<times> event) list \<Rightarrow> running \<times> (io_error + unit)" where
  "node_claim h want now inbox =
     (case first_claim h want (node_start now inbox) of
        (s, Inl err) \<Rightarrow> (s, Inl err)
      | (s, Inr a) \<Rightarrow> settle_in h want (s\<lparr>nd_addr := a\<rparr>))"

definition zone_or_star :: "running \<Rightarrow> rstring" where
  "zone_or_star s = (case nd_zone s of Some z \<Rightarrow> z | None \<Rightarrow> [42])"

section \<open>Lookups\<close>

definition take_tuples :: "u8 \<Rightarrow> running \<Rightarrow> packet \<Rightarrow> running \<times> unit option" where
  "take_tuples nid s p =
     (let tuples = lookup_replies p nid
      in if tuples = [] then (s, None) else (s\<lparr>nd_pending := merge (nd_pending s) tuples\<rparr>, Some ()))"

text \<open>\<open>wait\<close> consumes what it returns on, so the loop around it ends.\<close>

lemma wait_some_shorter:
  "wait_loop h dl f evs s = (s', Some v) \<Longrightarrow> length (ru_inbox s') < length evs"
proof (induction evs arbitrary: s)
  case (Cons x evs)
  obtain t ev where x: "x = (t, ev)" by (cases x)
  from Cons.prems show ?case
    by (auto simp: x Let_def split: event.splits prod.splits option.splits if_splits
        dest!: Cons.IH intro: less_SucI)
qed (auto split: if_splits)

function gather :: "host \<Rightarrow> instant \<Rightarrow> u8 \<Rightarrow> running \<Rightarrow> running" where
  "gather h deadline nid s =
     (case wait h deadline (take_tuples nid) s of
        (s, None) \<Rightarrow> s
      | (s, Some _) \<Rightarrow> gather h deadline nid s)"
  by pat_completeness auto
termination
  by (relation "measure (\<lambda>(_, _, _, s). length (ru_inbox s))")
     (auto simp: wait_def dest: wait_some_shorter [OF sym])

declare gather.simps [simp del]

definition lookup_frame_data ::
    "running \<Rightarrow> u8 \<Rightarrow> rstring \<Rightarrow> rstring \<Rightarrow> rstring \<Rightarrow> addr \<times> bytes" where
  "lookup_frame_data s nid obj typ zone =
     (let (func, dst) = (case nd_router s of Some r \<Rightarrow> (BrRq, r) | None \<Rightarrow> (LkUp, mk_addr 0 255))
      in (dst, nbp_encode (lookup_request func nid (nd_addr s) OUR_SOCKET obj typ zone)))"

fun lookup_tries ::
    "host \<Rightarrow> u8 \<Rightarrow> addr \<Rightarrow> bytes \<Rightarrow> nat \<Rightarrow> nbp_tuple list \<Rightarrow> running \<Rightarrow> running \<times> (io_error + nbp_tuple list)" where
  "lookup_tries h nid dst body 0 found s = (s, Inr found)"
| "lookup_tries h nid dst body (Suc n) found s =
     (case send_ddp h dst 2 DDP_NBP body s of
        (s, Inl err) \<Rightarrow> (s, Inl err)
      | (s, Inr _) \<Rightarrow>
          let s = gather h (ru_now s + LOOKUP_INTERVAL) nid s
          in lookup_tries h nid dst body n (merge found (nd_pending s)) (s\<lparr>nd_pending := []\<rparr>))"

definition node_lookup ::
    "host \<Rightarrow> rstring \<Rightarrow> rstring \<Rightarrow> rstring \<Rightarrow> running \<Rightarrow> running \<times> (io_error + nbp_tuple list)" where
  "node_lookup h obj typ zone s =
     (let (s, n) = next_id s; nid = ucast n :: u8;
          (dst, body) = lookup_frame_data s nid obj typ zone
      in case lookup_tries h nid dst body LOOKUP_TRIES [] s of
           (s, Inl err) \<Rightarrow> (s, Inl err)
         | (s, Inr found) \<Rightarrow> (s, Inr (sort_key (\<lambda>t. (nb_object t, nb_typ t)) found)))"

section \<open>Ping\<close>

text \<open>What is printed of one echo: who answered and how long it took, or the timeout.\<close>

datatype pinged = Answered addr u32 duration | Timeout u32

definition echo_of :: "u32 \<Rightarrow> u32 \<Rightarrow> running \<Rightarrow> packet \<Rightarrow> running \<times> (addr \<times> u32) option" where
  "echo_of magic seq s p =
     (s, case echo_match p magic of Some (a, n) \<Rightarrow> then_some (n = seq) (a, n) | None \<Rightarrow> None)"

definition ping_one ::
    "host \<Rightarrow> addr \<Rightarrow> u32 \<Rightarrow> u32 \<Rightarrow> running \<Rightarrow> running \<times> (io_error + pinged)" where
  "ping_one h tgt magic seq s =
     (let body = aep_encode \<lparr>ae_func = EchoRequest, ae_data = echo_data magic seq\<rparr>; sent = ru_now s in
      case send_ddp h tgt 4 DDP_AEP body s of
        (s, Inl err) \<Rightarrow> (s, Inl err)
      | (s, Inr _) \<Rightarrow>
          let (s, got) = wait h (sent + PING_INTERVAL) (echo_of magic seq) s;
              out = (case got of Some (a, _) \<Rightarrow> Answered a seq (since (ru_now s) sent) | None \<Rightarrow> Timeout seq);
              s = (if ru_now s \<le> sent + PING_INTERVAL
                   then fst (wait h (ru_now s + since (sent + PING_INTERVAL) (ru_now s))
                               (\<lambda>s _. (s, None :: unit option)) s)
                   else s)
          in (s, Inr out))"

fun ping_loop ::
    "host \<Rightarrow> addr \<Rightarrow> u32 \<Rightarrow> nat list \<Rightarrow> running \<Rightarrow> running \<times> (io_error + pinged list)" where
  "ping_loop h tgt magic [] s = (s, Inr [])"
| "ping_loop h tgt magic (seq # seqs) s =
     (case ping_one h tgt magic (word_of_nat seq) s of
        (s, Inl err) \<Rightarrow> (s, Inl err)
      | (s, Inr out) \<Rightarrow>
          (case ping_loop h tgt magic seqs s of
             (s, Inl err) \<Rightarrow> (s, Inl err)
           | (s, Inr outs) \<Rightarrow> (s, Inr (out # outs))))"

fun rtts :: "pinged list \<Rightarrow> duration list" where
  "rtts [] = []"
| "rtts (Answered _ _ d # ps) = d # rtts ps"
| "rtts (Timeout _ # ps) = rtts ps"

text \<open>The lines of a ping, and whether anything answered.\<close>

definition node_ping ::
    "host \<Rightarrow> addr \<Rightarrow> u16 \<Rightarrow> running \<Rightarrow> running \<times> (io_error + pinged list \<times> bool)" where
  "node_ping h tgt cnt s =
     (case ping_loop h tgt (ucast (node_seed h 0 s)) [0..<unat cnt] s of
        (s, Inl err) \<Rightarrow> (s, Inl err)
      | (s, Inr outs) \<Rightarrow> (s, Inr (outs, rtts outs \<noteq> [])))"

text \<open>The figures of its last line: sent, received, lost, and the round trips.\<close>

definition ping_statistics :: "u16 \<Rightarrow> pinged list \<Rightarrow> nat \<times> nat \<times> nat \<times> (duration \<times> duration \<times> duration) option" where
  "ping_statistics cnt outs =
     (let ds = rtts outs
      in (unat cnt, length ds, unat cnt - length ds,
          if ds = [] then None else Some (Min (set ds), sum_list ds div length ds, Max (set ds))))"

section \<open>The zone list\<close>

fun first_reply :: "message list \<Rightarrow> zip_atp option" where
  "first_reply [] = None"
| "first_reply (MZip (ZReply fin zones) # ms) = Some (ZReply fin zones)"
| "first_reply (_ # ms) = first_reply ms"

definition take_page :: "addr \<Rightarrow> u16 \<Rightarrow> running \<Rightarrow> packet \<Rightarrow> running \<times> zip_atp option" where
  "take_page router tid s p =
     (if \<not> zone_reply_matches p router tid then (s, None)
      else (s\<lparr>nd_messages := []\<rparr>, first_reply (nd_messages s)))"

fun page_tries ::
    "host \<Rightarrow> addr \<Rightarrow> u16 \<Rightarrow> bytes \<Rightarrow> nat \<Rightarrow> running \<Rightarrow> running \<times> (io_error + zip_atp)" where
  "page_tries h router tid body 0 s = (s, Inl TimedOut)"
| "page_tries h router tid body (Suc n) s =
     (case send_ddp h router 6 DDP_ATP body s of
        (s, Inl err) \<Rightarrow> (s, Inl err)
      | (s, Inr _) \<Rightarrow>
          (case wait h (ru_now s + ZONE_INTERVAL) (take_page router tid) s of
             (s, Some reply) \<Rightarrow> (s, Inr reply)
           | (s, None) \<Rightarrow> page_tries h router tid body n s))"

fun page_loop ::
    "host \<Rightarrow> addr \<Rightarrow> nat \<Rightarrow> u16 \<Rightarrow> rstring list \<Rightarrow> running \<Rightarrow> running \<times> (io_error + rstring list)" where
  "page_loop h router 0 start zones s = (s, Inr zones)"
| "page_loop h router (Suc pages) start zones s =
     (let (s, tid) = next_id s in
      case page_tries h router tid (atp_encode (zone_list_request tid start)) ZONE_TRIES s of
        (s, Inl err) \<Rightarrow> (s, Inl err)
      | (s, Inr reply) \<Rightarrow>
          let zones = push_new zones (page_names reply) in
          case next_start start reply of
            Some nxt \<Rightarrow> page_loop h router pages nxt zones s
          | None \<Rightarrow> (s, Inr zones))"

definition node_zones :: "host \<Rightarrow> running \<Rightarrow> running \<times> (io_error + rstring list)" where
  "node_zones h s =
     (case nd_router s of
        None \<Rightarrow> (s, Inr [])
      | Some router \<Rightarrow> page_loop h router MAX_ZONE_PAGES 1 [] s)"

end
