(* ===== verification/Node_Talk.thy ===== *)
theory Node_Talk
  imports Node_Run "HOL-Library.Sublist"
begin

text \<open>
  What a wait amounts to: the events that arrive by the deadline are heard one after the other, up to
  the first packet that answers the caller, and nothing but AARP answers is sent on the way.  With it,
  the claim of an address: it succeeds exactly when nobody objects for the two seconds it takes.
\<close>

section \<open>What arrives by a deadline\<close>

type_synonym arrivals = "(instant \<times> event) list"

definition arrived :: "instant \<Rightarrow> arrivals \<Rightarrow> arrivals" where
  "arrived dl evs = takeWhile (\<lambda>(t, _). t \<le> dl) evs"

definition later :: "instant \<Rightarrow> arrivals \<Rightarrow> arrivals" where
  "later dl evs = dropWhile (\<lambda>(t, _). t \<le> dl) evs"

fun packets :: "arrivals \<Rightarrow> packet list" where
  "packets [] = []"
| "packets ((_, EPacket _ _ p) # evs) = p # packets evs"
| "packets (_ # evs) = packets evs"

text \<open>The packets heard by a deadline.\<close>

definition heard_by :: "instant \<Rightarrow> arrivals \<Rightarrow> packet list" where
  "heard_by dl evs = packets (arrived dl evs)"

lemma packets_append [simp]: "packets (xs @ ys) = packets xs @ packets ys"
  by (induction xs rule: packets.induct) auto

lemma arrived_later: "arrived dl evs @ later dl evs = evs"
  by (simp add: arrived_def later_def)

lemma arrived_two:
  "dl \<le> dl' \<Longrightarrow> arrived dl' evs = arrived dl evs @ arrived dl' (later dl evs)"
proof (induction evs)
  case (Cons x evs)
  then show ?case
    by (cases "fst x \<le> dl"; cases "fst x \<le> dl'") (simp_all add: arrived_def later_def case_prod_beta)
qed (simp add: arrived_def later_def)

lemma later_two: "dl \<le> dl' \<Longrightarrow> later dl' (later dl evs) = later dl' evs"
proof (induction evs)
  case (Cons x evs)
  then show ?case by (cases "fst x \<le> dl") (simp_all add: later_def case_prod_beta)
qed (simp add: later_def)

lemma heard_two:
  "dl \<le> dl' \<Longrightarrow> heard_by dl' evs = heard_by dl evs @ heard_by dl' (later dl evs)"
  unfolding heard_by_def by (subst arrived_two) simp_all

lemma arrived_le: "(t, ev) \<in> set (arrived dl evs) \<Longrightarrow> t \<le> dl"
  by (auto simp: arrived_def dest: set_takeWhileD)

section \<open>Listening\<close>

definition hear :: "host \<Rightarrow> instant \<times> event \<Rightarrow> running \<Rightarrow> running" where
  "hear h x s = on_event h (snd x) (s\<lparr>ru_now := max (ru_now s) (fst x)\<rparr>)"

definition listen :: "host \<Rightarrow> arrivals \<Rightarrow> running \<Rightarrow> running" where
  "listen h evs s = fold (hear h) evs s"

lemma listen_simps [simp]:
  "listen h [] s = s" "listen h (x # evs) s = listen h evs (hear h x s)"
  "listen h (xs @ ys) s = listen h ys (listen h xs s)"
  by (simp_all add: listen_def)

text \<open>What listening leaves alone.\<close>

definition settled :: "running \<Rightarrow> addr \<times> rstring option \<times> addr option \<times> u16 \<times> nbp_tuple list \<times> bool" where
  "settled s = (nd_addr s, nd_zone s, nd_router s, nd_next_id s, nd_pending s, nd_probing s)"

lemma settled_eq:
  "settled s' = settled s \<longleftrightarrow> nd_addr s' = nd_addr s \<and> nd_zone s' = nd_zone s \<and> nd_router s' = nd_router s
     \<and> nd_next_id s' = nd_next_id s \<and> nd_pending s' = nd_pending s \<and> nd_probing s' = nd_probing s"
  by (simp add: settled_def)

text \<open>The AARP answers of an address, the only thing a waiting node says.\<close>

definition aarp_answer :: "host \<Rightarrow> addr \<Rightarrow> frame \<Rightarrow> bool" where
  "aarp_answer h a f \<longleftrightarrow>
     (\<exists>to m. f = node_frame (ho_mac h) m AARP (aarp_encode (aarp_response a (ho_mac h) to m)))"

definition said :: "host \<Rightarrow> running \<Rightarrow> running \<Rightarrow> bool" where
  "said h s s' \<longleftrightarrow> (\<exists>out. ru_sent s' = ru_sent s @ out \<and> (nd_probing s \<longrightarrow> out = [])
     \<and> (\<forall>(_, f) \<in> set out. aarp_answer h (nd_addr s) f))"

lemma said_refl: "ru_sent s' = ru_sent s \<Longrightarrow> said h s s'"
  by (auto simp: said_def)

lemma said_trans:
  "said h s s' \<Longrightarrow> said h s' s'' \<Longrightarrow> settled s' = settled s \<Longrightarrow> said h s s''"
  unfolding said_def settled_eq by fastforce

lemma answer_aarp_facts:
  "settled (answer_aarp h p s) = settled s" "ru_now (answer_aarp h p s) = ru_now s"
  "said h s (answer_aarp h p s)" "ru_inbox (answer_aarp h p s) = ru_inbox s"
  using probing_silent [of p "nd_addr s" "ho_mac h"]
  by (auto simp: answer_aarp_def settled_def said_def aarp_answer_def tx_send_def
      split: aarp_action.splits body.splits option.splits)

lemma on_packet_facts:
  "settled (on_packet h at p s) = settled s" "ru_now (on_packet h at p s) = ru_now s"
  "said h s (on_packet h at p s)"
proof -
  obtain opn ms where o: "session_push (ho_ord h) at p (nd_open s) = (opn, ms)" by fastforce
  let ?s = "s\<lparr>nd_amt := glean (nd_amt s) p, nd_open := opn, nd_messages := stow (nd_messages s) ms\<rparr>"
  have e: "on_packet h at p s = answer_aarp h p ?s" by (simp add: on_packet_def o Let_def)
  have "settled ?s = settled s" by (simp add: settled_def)
  then show "settled (on_packet h at p s) = settled s" by (simp add: e answer_aarp_facts)
  show "ru_now (on_packet h at p s) = ru_now s" by (simp add: e answer_aarp_facts)
  show "said h s (on_packet h at p s)" using answer_aarp_facts(3) [of h ?s p] by (simp add: e said_def)
qed

lemma on_event_facts:
  "settled (on_event h ev s) = settled s" "ru_now (on_event h ev s) = ru_now s" "said h s (on_event h ev s)"
  by (cases ev; simp add: on_event_def on_packet_facts said_refl; simp add: settled_def)+

lemma hear_facts:
  "settled (hear h x s) = settled s" "ru_now (hear h x s) = max (ru_now s) (fst x)" "said h s (hear h x s)"
proof -
  let ?s = "s\<lparr>ru_now := max (ru_now s) (fst x)\<rparr>"
  have "settled ?s = settled s" by (simp add: settled_def)
  then show "settled (hear h x s) = settled s" by (simp add: hear_def on_event_facts)
  show "ru_now (hear h x s) = max (ru_now s) (fst x)" by (simp add: hear_def on_event_facts)
  show "said h s (hear h x s)" using on_event_facts(3) [of h ?s "snd x"] by (simp add: hear_def said_def)
qed

lemma listen_facts:
  "settled (listen h evs s) = settled s \<and> said h s (listen h evs s) \<and> ru_now s \<le> ru_now (listen h evs s)"
proof (induction evs arbitrary: s)
  case (Cons x evs)
  from Cons.IH [of "hear h x s"] show ?case
    using hear_facts [where h = h and x = x and s = s] said_trans [of h s "hear h x s"] by simp
qed (simp add: said_refl)

lemma listen_now: "ru_now s \<le> dl \<Longrightarrow> \<forall>(t, _) \<in> set evs. t \<le> dl \<Longrightarrow> ru_now (listen h evs s) \<le> dl"
  by (induction evs arbitrary: s) (auto simp: hear_facts)

section \<open>A wait\<close>

lemma wait_loop_step:
  "ru_now s \<le> dl \<Longrightarrow> t \<le> dl \<Longrightarrow> wait_loop h dl f ((t, ev) # evs) s =
     (case ev of
        EPacket _ _ p \<Rightarrow>
          (case f (hear h (t, ev) s) p of
             (s, Some v) \<Rightarrow> (s\<lparr>ru_inbox := evs\<rparr>, Some v)
           | (s, None) \<Rightarrow> wait_loop h dl f evs s)
      | _ \<Rightarrow> wait_loop h dl f evs (hear h (t, ev) s))"
  by (cases ev) (simp_all add: hear_def Let_def)

text \<open>A caller that says nothing of the packets in between.\<close>

definition unmoved :: "(running \<Rightarrow> packet \<Rightarrow> running \<times> 'a option) \<Rightarrow> packet \<Rightarrow> bool" where
  "unmoved f p \<longleftrightarrow> (\<forall>s. f s p = (s, None))"

lemma wait_step:
  "deadline \<ge> ru_now s \<Longrightarrow> t \<le> deadline \<Longrightarrow> \<forall>p \<in> set (packets [(t, ev)]). unmoved f p \<Longrightarrow>
   wait_loop h deadline f ((t, ev) # evs) s = wait_loop h deadline f evs (hear h (t, ev) s)"
  by (cases ev) (simp_all add: wait_loop_step unmoved_def del: wait_loop.simps)

lemma wait_skip:
  assumes "ru_now s \<le> dl" "\<forall>(t, _) \<in> set xs. t \<le> dl" "\<forall>p \<in> set (packets xs). unmoved f p"
  shows "wait_loop h dl f (xs @ ys) s = wait_loop h dl f ys (listen h xs s)"
  using assms
proof (induction xs arbitrary: s)
  case (Cons x xs)
  obtain t ev where x: "x = (t, ev)" by (cases x)
  have p: "packets (x # xs) = packets [x] @ packets xs" using packets_append [of "[x]" xs] by simp
  have s: "wait_loop h dl f ((t, ev) # (xs @ ys)) s = wait_loop h dl f (xs @ ys) (hear h (t, ev) s)"
    using Cons.prems unfolding p by (intro wait_step) (auto simp: x)
  have "wait_loop h dl f (xs @ ys) (hear h x s) = wait_loop h dl f ys (listen h xs (hear h x s))"
    using Cons.prems unfolding p by (intro Cons.IH) (auto simp: x hear_facts)
  with s show ?case by (simp add: x)
qed simp

lemma later_Cons: "later dl evs = (t, ev) # rest \<Longrightarrow> dl < t"
  using hd_dropWhile [of "\<lambda>(t, _). t \<le> dl" evs] by (auto simp: later_def)

text \<open>What every wait keeps: a relation that hearing, the caller and the clock keep.\<close>

lemma wait_loop_rel:
  assumes refl: "\<And>s. R s s" and trans: "\<And>s s' s''. R s s' \<Longrightarrow> R s' s'' \<Longrightarrow> R s s''"
    and hear: "\<And>s x. R s (hear h x s)" and f: "\<And>s p. R s (fst (f s p))"
    and rest: "\<And>s evs. R s (s\<lparr>ru_inbox := evs\<rparr>)" "\<And>s t. R s (s\<lparr>ru_now := t\<rparr>)"
  shows "R s (fst (wait_loop h dl f evs s))"
proof (induction evs arbitrary: s)
  case Nil
  show ?case using trans [OF rest(1) [of s "[]"] rest(2) [of _ dl]] rest(1) [of s "[]"] by simp
next
  case (Cons x evs)
  obtain t ev where x: "x = (t, ev)" by (cases x)
  show ?case
  proof (cases "ru_now s \<le> dl \<and> t \<le> dl")
    case True
    note step = wait_loop_step [OF True [THEN conjunct1] True [THEN conjunct2]]
    show ?thesis
    proof (cases ev)
      case (EPacket at port p)
      let ?s = "hear h (t, ev) s"
      obtain s1 v where f1: "f ?s p = (s1, v)" by fastforce
      have s1: "R s s1" using trans [OF hear f [of ?s p]] by (simp add: f1)
      show ?thesis
      proof (cases v)
        case None
        then show ?thesis using trans [OF s1 Cons.IH] unfolding x step by (simp add: EPacket f1 [unfolded EPacket])
      next
        case (Some w)
        then show ?thesis using trans [OF s1 rest(1)] unfolding x step by (simp add: EPacket f1 [unfolded EPacket])
      qed
    qed (use trans [OF hear Cons.IH] in \<open>simp_all add: x step del: wait_loop.simps\<close>)
  next
    case False
    show ?thesis
    proof (cases "dl < ru_now s")
      case True
      then show ?thesis using rest(1) by (simp add: x)
    next
      case now: False
      with False show ?thesis using trans [OF rest(1) [of s "x # evs"] rest(2) [of _ dl]] by (simp add: x)
    qed
  qed
qed

text \<open>It only takes from the front of what is to come, and an answer answers one of its packets.\<close>

lemma wait_loop_suffix: "suffix (ru_inbox (fst (wait_loop h dl f evs s))) evs"
proof (induction evs arbitrary: s)
  case (Cons x evs)
  then show ?case
    by (cases x) (auto simp: Let_def suffix_Cons split: event.split prod.split option.split)
qed simp

lemma wait_loop_some:
  assumes "\<And>s p. snd (f s p) = g p" "snd (wait_loop h dl f evs s) = Some v"
  shows "\<exists>p \<in> set (packets evs). g p = Some v"
  using assms(2)
proof (induction evs arbitrary: s)
  case (Cons x evs)
  obtain t ev where x: "x = (t, ev)" by (cases x)
  have g: "f s p = (s1, v) \<Longrightarrow> g p = v" for s p s1 v using assms(1) [of s p] by simp
  have "\<exists>p \<in> set (packets (x # evs)). g p = Some v" if "\<exists>p \<in> set (packets evs). g p = Some v"
    using that by (cases ev) (auto simp: x)
  with Cons show ?case
    by (auto simp: x Let_def split: if_splits event.splits prod.splits option.splits dest!: g)
qed (auto split: if_splits)

text \<open>Nobody answers: the wait ends at its deadline, and the later events are still to come.\<close>

lemma wait_quiet:
  assumes "ru_now s \<le> dl" "\<not> ho_hung h" "\<forall>p \<in> set (heard_by dl (ru_inbox s)). unmoved f p"
  shows "wait h dl f s
    = ((listen h (arrived dl (ru_inbox s)) s)\<lparr>ru_inbox := later dl (ru_inbox s), ru_now := dl\<rparr>, None)"
proof -
  let ?evs = "ru_inbox s" let ?s = "listen h (arrived dl ?evs) s"
  have le: "\<forall>(t, _) \<in> set (arrived dl ?evs). t \<le> dl" by (auto dest: arrived_le)
  have now: "ru_now ?s \<le> dl" using assms(1) le by (rule listen_now)
  have "wait h dl f s = wait_loop h dl f (arrived dl ?evs @ later dl ?evs) s"
    by (simp add: wait_def arrived_later)
  also have "\<dots> = wait_loop h dl f (later dl ?evs) ?s"
    using assms(1,3) le by (intro wait_skip) (simp_all add: heard_by_def)
  also have "\<dots> = (?s\<lparr>ru_inbox := later dl ?evs, ru_now := dl\<rparr>, None)"
  proof (cases "later dl ?evs")
    case (Cons x rest)
    obtain t ev where x: "x = (t, ev)" by (cases x)
    with Cons have "dl < t" by (simp add: later_Cons)
    with now show ?thesis by (simp add: Cons x)
  qed (use now assms(2) in simp)
  finally show ?thesis .
qed

text \<open>Somebody answers: the wait ends there.\<close>

lemma wait_hit:
  assumes "ru_now s \<le> dl" "ru_inbox s = xs @ (t, EPacket at port p) # ys"
    and "\<forall>(t, _) \<in> set xs. t \<le> dl" "t \<le> dl" "\<forall>p \<in> set (packets xs). unmoved f p"
    and "f (listen h (xs @ [(t, EPacket at port p)]) s) p = (s', Some v)"
  shows "wait h dl f s = (s'\<lparr>ru_inbox := ys\<rparr>, Some v)"
proof -
  let ?s = "listen h xs s"
  have now: "ru_now ?s \<le> dl" using assms(1,3) by (rule listen_now)
  have "wait h dl f s = wait_loop h dl f ((t, EPacket at port p) # ys) ?s"
    using wait_skip [OF assms(1,3,5), of h "(t, EPacket at port p) # ys"] by (simp add: wait_def assms(2))
  with now assms(4,6) show ?thesis by (simp add: hear_def Let_def)
qed

text \<open>The first packet that moves the caller, if any does, in a list of arrivals.\<close>

lemma first_moved:
  assumes "\<not> (\<forall>p \<in> set (heard_by dl evs). \<not> P p)"
  obtains xs t at port p ys where "evs = xs @ (t, EPacket at port p) # ys" "t \<le> dl" "P p"
    "\<forall>(t, _) \<in> set xs. t \<le> dl" "\<forall>p \<in> set (packets xs). \<not> P p"
  using assms
proof (induction evs arbitrary: thesis)
  case (Cons x evs)
  obtain t ev where x: "x = (t, ev)" by (cases x)
  have t: "t \<le> dl" using Cons.prems(2) by (auto simp: heard_by_def arrived_def x split: if_splits)
  show ?case
  proof (cases "\<exists>at port p. ev = EPacket at port p \<and> P p")
    case True
    then obtain at port p where "ev = EPacket at port p" "P p" by blast
    with t show ?thesis by (intro Cons.prems(1) [of "[]"]) (auto simp: x)
  next
    case False
    with Cons.prems(2) t have "\<not> (\<forall>p \<in> set (heard_by dl evs). \<not> P p)"
      by (cases ev) (auto simp: heard_by_def arrived_def x)
    then obtain xs u at port p ys where *: "evs = xs @ (u, EPacket at port p) # ys" "u \<le> dl" "P p"
      "\<forall>(t, _) \<in> set xs. t \<le> dl" "\<forall>p \<in> set (packets xs). \<not> P p"
      using Cons.IH by blast
    have "\<forall>p \<in> set (packets (x # xs)). \<not> P p" using False *(5) by (cases ev) (auto simp: x)
    with * t show ?thesis by (intro Cons.prems(1) [of "x # xs"]) (auto simp: x)
  qed
qed (simp add: heard_by_def arrived_def)

section \<open>Claiming one address\<close>

text \<open>A NIC that takes every frame, readers that are there, and a hash map whose iteration visits every entry.\<close>

definition attentive :: "host \<Rightarrow> bool" where
  "attentive h \<longleftrightarrow> \<not> ho_hung h \<and> (\<forall>t f. ho_nic h t f = None) \<and> (\<forall>xs. mset (ho_ord h xs) = mset xs)"

definition objects :: "host \<Rightarrow> addr \<Rightarrow> packet \<Rightarrow> bool" where
  "objects h a p \<longleftrightarrow> aarp_action p a (ho_mac h) True = Conflict"

definition probes :: "host \<Rightarrow> addr \<Rightarrow> instant \<Rightarrow> nat \<Rightarrow> (instant \<times> frame) list" where
  "probes h a t n = map (\<lambda>i. (t + i * PROBE_INTERVAL, probe_frame h a)) [0..<n]"

lemma unmoved_objection: "unmoved (objection a (ho_mac h)) p \<longleftrightarrow> \<not> objects h a p"
  by (auto simp: unmoved_def objection_def objects_def then_some_def)

lemma probes_Suc: "probes h a t (Suc n) = (t, probe_frame h a) # probes h a (t + PROBE_INTERVAL) n"
  unfolding probes_def upt_conv_Cons [OF zero_less_Suc] by (simp add: map_Suc_upt [symmetric] algebra_simps del: upt_Suc)

lemma probe_round:
  assumes "attentive h" "nd_probing s"
  defines "dl \<equiv> ru_now s + PROBE_INTERVAL"
  shows "(\<forall>p \<in> set (heard_by dl (ru_inbox s)). \<not> objects h a p) \<Longrightarrow>
      \<exists>s'. probe_loop h a (Suc n) s = probe_loop h a n s' \<and> settled s' = settled s \<and> ru_now s' = dl
        \<and> ru_inbox s' = later dl (ru_inbox s) \<and> ru_sent s' = ru_sent s @ [(ru_now s, probe_frame h a)]"
    and "\<not> (\<forall>p \<in> set (heard_by dl (ru_inbox s)). \<not> objects h a p) \<Longrightarrow>
      \<exists>s'. probe_loop h a (Suc n) s = (s', Inl AddrInUse) \<and> settled s' = settled s
        \<and> ru_sent s' = ru_sent s @ [(ru_now s, probe_frame h a)]"
proof -
  let ?s = "s\<lparr>ru_sent := ru_sent s @ [(ru_now s, probe_frame h a)]\<rparr>"
  have tx: "tx_send h (probe_frame h a) s = (?s, Inr ())"
    using assms(1) by (simp add: tx_send_def attentive_def)
  have p: "nd_probing ?s" "settled ?s = settled s" using assms(2) by (simp_all add: settled_def)
  have silent: "ru_sent (listen h evs ?s) = ru_sent ?s" "settled (listen h evs ?s) = settled s" for evs
    using listen_facts [of h evs ?s] p by (auto simp: said_def)
  show "\<exists>s'. probe_loop h a (Suc n) s = probe_loop h a n s' \<and> settled s' = settled s \<and> ru_now s' = dl
        \<and> ru_inbox s' = later dl (ru_inbox s) \<and> ru_sent s' = ru_sent s @ [(ru_now s, probe_frame h a)]"
    if quiet: "\<forall>p \<in> set (heard_by dl (ru_inbox s)). \<not> objects h a p"
  proof -
    let ?s' = "(listen h (arrived dl (ru_inbox s)) ?s)\<lparr>ru_inbox := later dl (ru_inbox s), ru_now := dl\<rparr>"
    have "wait h dl (objection a (ho_mac h)) ?s = (?s', None)"
      using wait_quiet [of ?s dl h "objection a (ho_mac h)"] quiet assms(1)
      by (simp add: attentive_def unmoved_objection dl_def)
    moreover have "settled ?s' = settled s" using silent(2) by (simp add: settled_def)
    ultimately show ?thesis using silent(1) by (intro exI [of _ ?s']) (simp add: tx dl_def)
  qed
  show "\<exists>s'. probe_loop h a (Suc n) s = (s', Inl AddrInUse) \<and> settled s' = settled s
        \<and> ru_sent s' = ru_sent s @ [(ru_now s, probe_frame h a)]"
    if loud: "\<not> (\<forall>p \<in> set (heard_by dl (ru_inbox s)). \<not> objects h a p)"
  proof -
    obtain xs t at port p ys where e: "ru_inbox s = xs @ (t, EPacket at port p) # ys" "t \<le> dl"
      "objects h a p" "\<forall>(t, _) \<in> set xs. t \<le> dl" "\<forall>p \<in> set (packets xs). \<not> objects h a p"
      using first_moved [OF loud] by blast
    let ?t = "listen h (xs @ [(t, EPacket at port p)]) ?s"
    have "objection a (ho_mac h) ?t p = (?t, Some ())"
      using e(3) by (simp add: objection_def objects_def then_some_def)
    then have "wait h dl (objection a (ho_mac h)) ?s = (?t\<lparr>ru_inbox := ys\<rparr>, Some ())"
      using e by (intro wait_hit) (auto simp: unmoved_objection dl_def)
    moreover have "settled (?t\<lparr>ru_inbox := ys\<rparr>) = settled s"
      using silent(2) [of "xs @ [(t, EPacket at port p)]"] by (simp add: settled_def)
    moreover have "ru_sent (?t\<lparr>ru_inbox := ys\<rparr>) = ru_sent ?s"
      using silent(1) [of "xs @ [(t, EPacket at port p)]"] by simp
    ultimately show ?thesis by (intro exI [of _ "?t\<lparr>ru_inbox := ys\<rparr>"]) (simp add: tx dl_def)
  qed
qed

lemma probe_loop_exact:
  assumes "attentive h" "nd_probing s"
  shows "\<exists>s' r. probe_loop h a n s = (s', r) \<and> settled s' = settled s
    \<and> (if n = 0 \<or> (\<forall>p \<in> set (heard_by (ru_now s + n * PROBE_INTERVAL) (ru_inbox s)). \<not> objects h a p)
       then r = Inr () \<and> ru_now s' = ru_now s + n * PROBE_INTERVAL \<and> ru_sent s' = ru_sent s @ probes h a (ru_now s) n
            \<and> ru_inbox s' = (if n = 0 then ru_inbox s else later (ru_now s + n * PROBE_INTERVAL) (ru_inbox s))
       else r = Inl AddrInUse \<and> (\<exists>k \<le> n. ru_sent s' = ru_sent s @ probes h a (ru_now s) k))"
  using assms(2)
proof (induction n arbitrary: s)
  case 0
  then show ?case by (simp add: probes_def)
next
  case (Suc n)
  let ?dl = "ru_now s + PROBE_INTERVAL" let ?stop = "ru_now s + Suc n * PROBE_INTERVAL"
  have two: "heard_by ?stop (ru_inbox s) = heard_by ?dl (ru_inbox s) @ heard_by ?stop (later ?dl (ru_inbox s))"
    by (rule heard_two) simp
  show ?case
  proof (cases "\<forall>p \<in> set (heard_by ?dl (ru_inbox s)). \<not> objects h a p")
    case True
    obtain s1 where s1: "probe_loop h a (Suc n) s = probe_loop h a n s1" "settled s1 = settled s"
      "ru_now s1 = ?dl" "ru_inbox s1 = later ?dl (ru_inbox s)"
      "ru_sent s1 = ru_sent s @ [(ru_now s, probe_frame h a)]"
      using probe_round(1) [OF assms(1) Suc.prems True] by blast
    have p1: "nd_probing s1" using s1(2) Suc.prems by (simp add: settled_eq)
    have e: "ru_now s1 + n * PROBE_INTERVAL = ?stop" by (simp add: s1(3))
    have l: "later ?stop (later ?dl (ru_inbox s)) = later ?stop (ru_inbox s)" by (rule later_two) simp
    have h0: "n = 0 \<Longrightarrow> heard_by ?stop (later ?dl (ru_inbox s)) = []"
      by (cases "later ?dl (ru_inbox s)") (auto simp: heard_by_def arrived_def dest: later_Cons)
    have sent: "ru_sent s1 @ probes h a (ru_now s1) k = ru_sent s @ probes h a (ru_now s) (Suc k)" for k
      by (simp add: probes_Suc s1(3,5))
    obtain s' r where r: "probe_loop h a n s1 = (s', r)" "settled s' = settled s"
      "if n = 0 \<or> (\<forall>p \<in> set (heard_by ?stop (later ?dl (ru_inbox s))). \<not> objects h a p)
       then r = Inr () \<and> ru_now s' = ?stop \<and> ru_sent s' = ru_sent s @ probes h a (ru_now s) (Suc n)
            \<and> ru_inbox s' = (if n = 0 then later ?dl (ru_inbox s) else later ?stop (ru_inbox s))
       else r = Inl AddrInUse \<and> (\<exists>k \<le> n. ru_sent s' = ru_sent s @ probes h a (ru_now s) (Suc k))"
      using Suc.IH [OF p1] unfolding e sent s1(2,4) l by blast
    have n0: "later ?dl (ru_inbox s) = later ?stop (ru_inbox s)" if "n = 0" using that by simp
    have "(\<forall>p \<in> set (heard_by ?stop (ru_inbox s)). \<not> objects h a p)
      \<longleftrightarrow> n = 0 \<or> (\<forall>p \<in> set (heard_by ?stop (later ?dl (ru_inbox s))). \<not> objects h a p)"
      unfolding two using True h0 by auto
    then show ?thesis using r n0 unfolding s1(1) by (metis Suc_le_mono nat.distinct(1))
  next
    case False
    then have "\<not> (\<forall>p \<in> set (heard_by ?stop (ru_inbox s)). \<not> objects h a p)" unfolding two by auto
    moreover obtain s1 where "probe_loop h a (Suc n) s = (s1, Inl AddrInUse)" "settled s1 = settled s"
      "ru_sent s1 = ru_sent s @ probes h a (ru_now s) (Suc 0)"
      using probe_round(2) [OF assms(1) Suc.prems False] by (auto simp: probes_Suc probes_def)
    ultimately show ?thesis by (metis Suc_le_mono le0 nat.distinct(1))
  qed
qed

end
