(* ===== verification/Node_Claims.thy ===== *)
theory Node_Claims
  imports Node_Talk
begin

text \<open>
  The startup of \<open>src/src/node.rs\<close> as a whole: what a claim of one address needs, and what a node that
  came out of \<open>Node::claim\<close> is entitled to.
\<close>

section \<open>Time only goes on\<close>

definition goes_on :: "running \<Rightarrow> running \<Rightarrow> bool" where
  "goes_on s s' \<longleftrightarrow> suffix (ru_inbox s') (ru_inbox s) \<and> prefix (ru_sent s) (ru_sent s')"

lemma goes_on_refl [simp]: "goes_on s s"
  by (simp add: goes_on_def)

lemma goes_on_trans [trans]: "goes_on s s' \<Longrightarrow> goes_on s' s'' \<Longrightarrow> goes_on s s''"
  unfolding goes_on_def by (blast intro: suffix_order.trans prefix_order.trans)

lemma goes_on_same: "ru_inbox s' = ru_inbox s \<Longrightarrow> ru_sent s' = ru_sent s \<Longrightarrow> goes_on s s'"
  by (simp add: goes_on_def)

lemma hear_sent_prefix: "prefix (ru_sent s) (ru_sent (hear h x s))"
  using hear_facts(3) [of h s x] by (auto simp: said_def)

lemma wait_goes_on:
  assumes "\<And>s p. ru_sent (fst (f s p)) = ru_sent s"
  shows "goes_on s (fst (wait h dl f s))"
proof -
  have "prefix (ru_sent s) (ru_sent (fst (wait_loop h dl f (ru_inbox s) s)))"
    by (rule wait_loop_rel [where R = "\<lambda>s s'. prefix (ru_sent s) (ru_sent s')"])
       (auto simp: assms hear_sent_prefix intro: prefix_order.trans)
  then show ?thesis by (simp add: goes_on_def wait_def wait_loop_suffix)
qed

lemma tx_send_goes_on: "goes_on s (fst (tx_send h f s))"
  by (auto simp: tx_send_def goes_on_def split: option.split)

lemma send_from_goes_on: "goes_on s (fst (send_from h so dst ds typ d s))"
  by (simp add: send_from_def tx_send_goes_on Let_def)

lemma probe_loop_goes_on: "goes_on s (fst (probe_loop h a n s))"
proof (induction n arbitrary: s)
  case (Suc n)
  obtain s1 r1 where t: "tx_send h (probe_frame h a) s = (s1, r1)" by fastforce
  obtain s2 r2 where w: "wait h (ru_now s1 + PROBE_INTERVAL) (objection a (ho_mac h)) s1 = (s2, r2)" by fastforce
  have "goes_on s s1" using tx_send_goes_on [of s h "probe_frame h a"] unfolding t by simp
  moreover have "goes_on s1 s2"
    using wait_goes_on [of "objection a (ho_mac h)" s1 h "ru_now s1 + PROBE_INTERVAL"]
    by (simp add: w objection_def)
  ultimately have s2: "goes_on s s2" by (rule goes_on_trans)
  show ?case
  proof (cases r1)
    case (Inl err)
    with \<open>goes_on s s1\<close> show ?thesis by (simp add: t)
  next
    case (Inr u)
    show ?thesis
      using s2 goes_on_trans [OF s2 Suc.IH [of s2]] by (cases r2) (simp_all add: t Inr w)
  qed
qed simp

lemma claim_one_goes_on: "goes_on s (fst (claim_one h a s))"
proof -
  have "goes_on s (s\<lparr>nd_probing := True\<rparr>)" by (simp add: goes_on_def)
  also have "goes_on \<dots> (fst (probe_loop h a (unat PROBE_TRIES) (s\<lparr>nd_probing := True\<rparr>)))"
    by (rule probe_loop_goes_on)
  finally show ?thesis by (simp add: claim_one_def goes_on_def case_prod_beta)
qed

lemma info_tries_goes_on: "goes_on s (fst (info_tries h a n s))"
proof (induction n arbitrary: s)
  case (Suc n)
  let ?body = "zip_encode (ZipGetNetInfo REQUESTED_ZONE)"
  obtain s1 r1 where t: "send_from h 6 (mk_addr 0 255) 6 DDP_ZIP ?body s = (s1, r1)" by fastforce
  obtain s2 r2 where w: "wait h (ru_now s1 + NETINFO_INTERVAL) (verdict_on a) s1 = (s2, r2)" by fastforce
  have "goes_on s s1" using send_from_goes_on [of s h 6 "mk_addr 0 255" 6 DDP_ZIP ?body] unfolding t by simp
  moreover have "goes_on s1 s2"
    using wait_goes_on [of "verdict_on a" s1 h "ru_now s1 + NETINFO_INTERVAL"]
    by (simp add: w verdict_on_def)
  ultimately have s2: "goes_on s s2" by (rule goes_on_trans)
  show ?case
  proof (cases r1)
    case (Inl err)
    with \<open>goes_on s s1\<close> t show ?thesis by simp
  next
    case (Inr u)
    show ?thesis
      using s2 goes_on_trans [OF s2 Suc.IH [of s2]] t w Inr by (cases r2) simp_all
  qed
qed simp

section \<open>One address\<close>

lemma PROBE_window: "unat PROBE_TRIES * PROBE_INTERVAL = secs 2"
  by (simp add: PROBE_TRIES_def PROBE_INTERVAL_def millis_def secs_def)

lemma claim_one_facts:
  assumes "attentive h"
  shows "\<exists>s' r. claim_one h a s = (s', r) \<and> settled s' = settled (s\<lparr>nd_probing := False\<rparr>)
    \<and> (if \<forall>p \<in> set (heard_by (ru_now s + secs 2) (ru_inbox s)). \<not> objects h a p
       then r = Inr () \<and> ru_now s' = ru_now s + secs 2 \<and> ru_sent s' = ru_sent s @ probes h a (ru_now s) 10
            \<and> ru_inbox s' = later (ru_now s + secs 2) (ru_inbox s)
       else r = Inl AddrInUse \<and> (\<exists>k \<le> 10. ru_sent s' = ru_sent s @ probes h a (ru_now s) k))"
proof -
  let ?s = "s\<lparr>nd_probing := True\<rparr>"
  have n: "unat PROBE_TRIES = 10" by (simp add: PROBE_TRIES_def)
  obtain s' r where p: "probe_loop h a (unat PROBE_TRIES) ?s = (s', r)" "settled s' = settled ?s"
    "if \<forall>p \<in> set (heard_by (ru_now s + secs 2) (ru_inbox s)). \<not> objects h a p
     then r = Inr () \<and> ru_now s' = ru_now s + secs 2 \<and> ru_sent s' = ru_sent s @ probes h a (ru_now s) 10
          \<and> ru_inbox s' = later (ru_now s + secs 2) (ru_inbox s)
     else r = Inl AddrInUse \<and> (\<exists>k \<le> 10. ru_sent s' = ru_sent s @ probes h a (ru_now s) k)"
  proof -
    have same: "ru_now ?s = ru_now s" "ru_sent ?s = ru_sent s" "ru_inbox ?s = ru_inbox s"
      "\<not> (10 :: nat) = 0" by simp_all
    have "nd_probing ?s" by simp
    from probe_loop_exact [OF assms this, where n = "unat PROBE_TRIES" and a = a]
    have "\<exists>s' r. probe_loop h a (unat PROBE_TRIES) ?s = (s', r) \<and> settled s' = settled ?s
      \<and> (if \<forall>p \<in> set (heard_by (ru_now s + secs 2) (ru_inbox s)). \<not> objects h a p
         then r = Inr () \<and> ru_now s' = ru_now s + secs 2 \<and> ru_sent s' = ru_sent s @ probes h a (ru_now s) 10
              \<and> ru_inbox s' = later (ru_now s + secs 2) (ru_inbox s)
         else r = Inl AddrInUse \<and> (\<exists>k \<le> 10. ru_sent s' = ru_sent s @ probes h a (ru_now s) k))"
      unfolding PROBE_window unfolding n
      by (simp only: same simp_thms if_False)
    then show thesis using that by blast
  qed
  then have "claim_one h a s = (s'\<lparr>nd_probing := False\<rparr>, r)"
    "settled (s'\<lparr>nd_probing := False\<rparr>) = settled (s\<lparr>nd_probing := False\<rparr>)"
    by (simp_all add: claim_one_def settled_def)
  with p(3) show ?thesis by (intro exI [of _ "s'\<lparr>nd_probing := False\<rparr>"] exI [of _ r]) simp
qed

lemma claim_one_probing: "nd_probing (fst (claim_one h a s)) = False"
  by (simp add: claim_one_def case_prod_beta)

section \<open>The address in a range\<close>

lemma unat_ucast: "unat (ucast (w :: 'a::len word) :: 'b::len word) = unat w mod 2 ^ LENGTH('b)"
  by (simp add: unsigned_ucast_eq take_bit_eq_mod)

lemma pick_address_range:
  "0xff00 \<le> a_net (pick_address seed)" "a_net (pick_address seed) \<le> 0xfffe"
  "1 \<le> a_node (pick_address seed)" "a_node (pick_address seed) \<le> 253"
proof -
  have "unat (seed mod 0xff) < 255" by (simp add: unat_mod)
  then have "unat (ucast (seed mod 0xff) :: u16) < 255" by (simp add: unat_ucast)
  then have a: "unat (0xff00 + ucast (seed mod 0xff) :: u16) = 0xff00 + unat (ucast (seed mod 0xff) :: u16)"
    by (subst unat_add_lem [THEN iffD1]) simp_all
  show "0xff00 \<le> a_net (pick_address seed)" "a_net (pick_address seed) \<le> 0xfffe"
    using a \<open>unat (ucast _ :: u16) < 255\<close> by (simp_all add: pick_address_def mk_addr_def word_le_nat_alt)
  let ?n = "drop_bit 16 seed mod 253"
  have "unat ?n < 253" by (simp add: unat_mod)
  then have "unat (ucast ?n :: u8) < 253" by (simp add: unat_ucast)
  then have b: "unat (1 + ucast ?n :: u8) = 1 + unat (ucast ?n :: u8)"
    by (subst unat_add_lem [THEN iffD1]) simp_all
  show "1 \<le> a_node (pick_address seed)" "a_node (pick_address seed) \<le> 253"
    using b \<open>unat (ucast ?n :: u8) < 253\<close> by (simp_all add: pick_address_def mk_addr_def word_le_nat_alt)
qed

lemma address_in_range:
  assumes "lo \<le> hi"
  shows "lo \<le> a_net (address_in (lo, hi) seed)" "a_net (address_in (lo, hi) seed) \<le> hi"
    "1 \<le> a_node (address_in (lo, hi) seed)" "a_node (address_in (lo, hi) seed) \<le> 253"
proof -
  let ?span = "ucast (hi - lo) + 1 :: u64" let ?k = "ucast (seed mod ?span) :: u16"
  have d: "unat (hi - lo) = unat hi - unat lo" using assms by (simp add: unat_sub word_le_nat_alt)
  have hi: "unat hi < 65536" using unsigned_less [of hi] by simp
  have u: "unat (ucast (hi - lo) :: u64) = unat (hi - lo)" using hi d by (simp add: unat_ucast)
  have span: "unat ?span = Suc (unat (hi - lo))" using hi d u by (subst unat_add_lem [THEN iffD1]) simp_all
  have "unat (seed mod ?span) < unat ?span" using span by (simp add: unat_mod)
  then have "unat (seed mod ?span) \<le> unat hi - unat lo" using span d by simp
  then have k: "unat ?k \<le> unat hi - unat lo" using hi by (simp add: unat_ucast)
  have "unat (lo + ?k) = unat lo + unat ?k"
    using k hi assms by (subst unat_add_lem [THEN iffD1]) (simp_all add: word_le_nat_alt)
  with k assms show "lo \<le> a_net (address_in (lo, hi) seed)" "a_net (address_in (lo, hi) seed) \<le> hi"
    by (simp_all add: address_in_def mk_addr_def Let_def word_le_nat_alt)
  show "1 \<le> a_node (address_in (lo, hi) seed)" "a_node (address_in (lo, hi) seed) \<le> 253"
    using pick_address_range(3,4) [of seed] by (simp_all add: address_in_def mk_addr_def Let_def)
qed

section \<open>A run of attempts\<close>

text \<open>An address of which nobody objected in the two seconds of its ten probes.\<close>

definition earned :: "host \<Rightarrow> arrivals \<Rightarrow> (instant \<times> frame) list \<Rightarrow> addr \<Rightarrow> bool" where
  "earned h inbox sent a \<longleftrightarrow>
     (\<exists>t evs. suffix evs inbox \<and> (\<forall>p \<in> set (heard_by (t + secs 2) evs). \<not> objects h a p)
        \<and> set (probes h a t 10) \<subseteq> set sent)"

lemma earned_goes_on:
  "earned h (ru_inbox s) (ru_sent s') a \<Longrightarrow> goes_on s0 s \<Longrightarrow> goes_on s' s'' \<Longrightarrow>
   earned h (ru_inbox s0) (ru_sent s'') a"
  unfolding earned_def goes_on_def by (meson suffix_order.trans set_mono_prefix subset_trans)

lemma claim_one_earned:
  assumes "attentive h" "claim_one h a s = (s', Inr u)"
  shows "earned h (ru_inbox s) (ru_sent s') a"
proof -
  have "(\<forall>p \<in> set (heard_by (ru_now s + secs 2) (ru_inbox s)). \<not> objects h a p)
      \<and> ru_sent s' = ru_sent s @ probes h a (ru_now s) 10"
    using claim_one_facts [OF assms(1), where a = a and s = s] assms(2) by (auto split: if_splits)
  then show ?thesis unfolding earned_def by (intro exI [of _ "ru_now s"] exI [of _ "ru_inbox s"]) simp
qed

lemma claim_one_settled:
  "attentive h \<Longrightarrow> settled (fst (claim_one h a s)) = settled (s\<lparr>nd_probing := False\<rparr>)"
  using claim_one_facts [where h = h and a = a and s = s] by auto

lemma claim_tries_earned:
  assumes "attentive h" "claim_tries h pick attempts s = (s', r)" "\<not> nd_probing s"
  shows "settled s' = settled s \<and> goes_on s s'
    \<and> (\<forall>a. r = Inr a \<longrightarrow> earned h (ru_inbox s) (ru_sent s') a \<and> (\<exists>seed. a = pick seed))"
  using assms(2,3)
proof (induction attempts arbitrary: s)
  case (Cons n attempts)
  let ?a = "pick (node_seed h (word_of_nat n) s)"
  obtain s1 r1 where c: "claim_one h ?a s = (s1, r1)" by fastforce
  have s1: "settled s1 = settled s"
    using claim_one_settled [OF assms(1), where a = ?a and s = s] Cons.prems(2) c by (auto simp: settled_def)
  have g: "goes_on s s1" using claim_one_goes_on [where h = h and a = ?a and s = s] c by simp
  show ?case
  proof (cases r1)
    case (Inl err)
    with Cons.prems(1) c have t: "claim_tries h pick attempts s1 = (s', r)" by (simp add: Let_def)
    have "\<not> nd_probing s1" using s1 Cons.prems(2) by (simp add: settled_eq)
    from Cons.IH [OF t this] s1 g show ?thesis
      using goes_on_trans [of s s1 s'] earned_goes_on [of h s1 s' _ s s'] by auto
  next
    case (Inr u)
    then show ?thesis
      using Cons.prems(1) c s1 g claim_one_earned [OF assms(1), where a = ?a and s = s] by (auto simp: Let_def)
  qed
qed (auto)

section \<open>The router's answer\<close>

lemma wait_loop_observer:
  assumes "\<And>s p. f s p = (s, g p)"
  shows "settled (fst (wait_loop h dl f evs s)) = settled s
    \<and> (\<forall>v. snd (wait_loop h dl f evs s) = Some v \<longrightarrow> (\<exists>p \<in> set (packets evs). g p = Some v))"
proof -
  have "settled (fst (wait_loop h dl f evs s)) = settled s"
    by (rule wait_loop_rel [where R = "\<lambda>s s'. settled s' = settled s"])
       (simp_all add: assms hear_facts, simp_all add: settled_def)
  then show ?thesis using wait_loop_some [where f = f and g = g] assms by fastforce
qed

lemma info_tries_facts:
  assumes "info_tries h prov n s = (s', got)"
  shows "settled s' = settled s
    \<and> (\<forall>v. got = Some v \<longrightarrow> (\<exists>p \<in> set (packets (ru_inbox s)). netinfo_verdict p prov REQUESTED_ZONE = Some v))"
  using assms
proof (induction n arbitrary: s)
  case (Suc n)
  obtain s1 r1 where t: "send_from h 6 (mk_addr 0 255) 6 DDP_ZIP (zip_encode (ZipGetNetInfo REQUESTED_ZONE)) s = (s1, r1)"
    by fastforce
  then have s1: "settled s1 = settled s" "ru_inbox s1 = ru_inbox s"
    by (auto simp: send_from_def tx_send_def settled_def Let_def split: option.splits)
  obtain s2 r2 where w: "wait h (ru_now s1 + NETINFO_INTERVAL) (verdict_on prov) s1 = (s2, r2)" by fastforce
  have s2: "settled s2 = settled s1"
    "\<And>v. r2 = Some v \<Longrightarrow> \<exists>p \<in> set (packets (ru_inbox s1)). netinfo_verdict p prov REQUESTED_ZONE = Some v"
    using wait_loop_observer [where f = "verdict_on prov" and g = "\<lambda>p. netinfo_verdict p prov REQUESTED_ZONE"
        and h = h and dl = "ru_now s1 + NETINFO_INTERVAL" and evs = "ru_inbox s1" and s = s1] w
    by (auto simp: wait_def verdict_on_def)
  have sub: "set (packets (ru_inbox s2)) \<subseteq> set (packets (ru_inbox s1))"
    using wait_goes_on [where f = "verdict_on prov" and s = s1 and h = h and dl = "ru_now s1 + NETINFO_INTERVAL"] w
    by (auto simp: verdict_on_def goes_on_def suffix_def)
  show ?case
  proof (cases r1)
    case (Inl err)
    with t s1 Suc.prems show ?thesis by simp
  next
    case (Inr u)
    show ?thesis
    proof (cases r2)
      case (Some v)
      with Suc.prems t w Inr have "s' = s2" "got = Some v" by simp_all
      with s1 s2 Some show ?thesis by auto
    next
      case None
      with Suc.prems t w Inr have "info_tries h prov n s2 = (s', got)" by simp
      from Suc.IH [OF this] s1 s2(1) sub show ?thesis by fastforce
    qed
  qed
qed auto

lemma netinfo_repick: "netinfo_verdict p ours asked = Some (Repick (lo, hi), z, r) \<Longrightarrow> lo \<le> hi"
  by (auto simp: netinfo_verdict_def Let_def split: body.splits ddp_body.splits zip.splits if_splits)

section \<open>The two steps of the startup\<close>

lemma first_claim_facts:
  assumes "attentive h" "first_claim h want s = (s', Inr a)" "\<not> nd_probing s"
  shows "settled s' = settled s \<and> goes_on s s' \<and> earned h (ru_inbox s) (ru_sent s') a"
    and "case want of
           Exactly b \<Rightarrow> a = b \<and> a_node a \<noteq> 254 \<and> a_node a \<noteq> 255
         | OnNet net \<Rightarrow> \<exists>k. a = address_in (net, net) k
         | Discover \<Rightarrow> \<exists>k. a = pick_address k"
proof -
  have tries: "settled s' = settled s \<and> goes_on s s' \<and> earned h (ru_inbox s) (ru_sent s') a \<and> (\<exists>k. a = pick k)"
    if "claim_tries h pick [0..<ADDRESS_TRIES] s = (s', Inr a)" for pick
    using claim_tries_earned [OF assms(1) that assms(3)] by simp
  have "(settled s' = settled s \<and> goes_on s s' \<and> earned h (ru_inbox s) (ru_sent s') a) \<and>
    (case want of Exactly b \<Rightarrow> a = b \<and> a_node a \<noteq> 254 \<and> a_node a \<noteq> 255 | OnNet net \<Rightarrow> \<exists>k. a = address_in (net, net) k
     | Discover \<Rightarrow> \<exists>k. a = pick_address k)"
  proof (cases want)
    case Discover
    with assms(2) tries [of pick_address] show ?thesis by (simp add: first_claim_def claim_any_def)
  next
    case (OnNet net)
    with assms(2) tries [of "address_in (net, net)"] show ?thesis
      by (simp add: first_claim_def claim_in_range_def)
  next
    case (Exactly b)
    with assms(2) have "claim_one h b s = (s', Inr ())" "a = b" "a_node b \<noteq> 254" "a_node b \<noteq> 255"
      by (auto simp: first_claim_def split: if_splits prod.splits sum.splits)
    moreover have "settled (s\<lparr>nd_probing := False\<rparr>) = settled s" using assms(3) by (simp add: settled_def)
    ultimately show ?thesis
      using claim_one_earned [OF assms(1), where a = b and s = s and s' = s']
        claim_one_settled [OF assms(1), where a = b and s = s]
        claim_one_goes_on [where h = h and a = b and s = s]
      by (simp add: Exactly)
  qed
  then show "settled s' = settled s \<and> goes_on s s' \<and> earned h (ru_inbox s) (ru_sent s') a"
    "case want of Exactly b \<Rightarrow> a = b \<and> a_node a \<noteq> 254 \<and> a_node a \<noteq> 255 | OnNet net \<Rightarrow> \<exists>k. a = address_in (net, net) k
     | Discover \<Rightarrow> \<exists>k. a = pick_address k" by blast+
qed

text \<open>What the second step may do to a node without a router, from the address it has.\<close>

definition adopted :: "host \<Rightarrow> want \<Rightarrow> running \<Rightarrow> running \<Rightarrow> bool" where
  "adopted h want s s' \<longleftrightarrow>
     (\<exists>p \<in> set (packets (ru_inbox s)). \<exists>v z r.
        netinfo_verdict p (nd_addr s) REQUESTED_ZONE = Some (v, z, r)
        \<and> nd_router s' = Some r \<and> nd_zone s' = Some z
        \<and> (case v of
             Keep \<Rightarrow> nd_addr s' = nd_addr s
           | Repick (lo, hi) \<Rightarrow>
               if want = Discover
               then (\<exists>k. nd_addr s' = address_in (lo, hi) k) \<and> lo \<le> hi
                    \<and> earned h (ru_inbox s) (ru_sent s') (nd_addr s')
               else nd_addr s' = nd_addr s))"

text \<open>
  A router's ruling the node has taken over: its reply came in, the zone it gave is the node's zone,
  and the address is the one asked about when the reply kept it, or one of the range it named.
\<close>

definition ruled_by :: "(nat \<times> event) list \<Rightarrow> running \<Rightarrow> addr \<Rightarrow> bool" where
  "ruled_by inbox s r \<longleftrightarrow>
     (\<exists>p \<in> set (packets inbox). \<exists>prov v z.
        netinfo_verdict p prov REQUESTED_ZONE = Some (v, z, r) \<and> nd_zone s = Some z
        \<and> (case v of
             Keep \<Rightarrow> nd_addr s = prov
           | Repick (lo, hi) \<Rightarrow> lo \<le> a_net (nd_addr s) \<and> a_net (nd_addr s) \<le> hi))"

lemma adopted_ruled:
  assumes "adopted h want s s'" "ru_inbox s0 = inbox" "goes_on s0 s"
  obtains (kept) r where "nd_router s' = Some r" "nd_addr s' = nd_addr s"
      "want = Discover \<longrightarrow> ruled_by inbox s' r"
  | (moved) r where "want = Discover" "nd_router s' = Some r" "ruled_by inbox s' r"
      "1 \<le> a_node (nd_addr s')" "a_node (nd_addr s') \<le> 253"
      "earned h inbox (ru_sent s') (nd_addr s')"
proof -
  obtain p v z r where p: "p \<in> set (packets (ru_inbox s))" "nd_router s' = Some r"
    and ruled: "netinfo_verdict p (nd_addr s) REQUESTED_ZONE = Some (v, z, r)" "nd_zone s' = Some z"
    and v: "case v of Keep \<Rightarrow> nd_addr s' = nd_addr s | Repick (lo, hi) \<Rightarrow>
      if want = Discover then (\<exists>k. nd_addr s' = address_in (lo, hi) k) \<and> lo \<le> hi
           \<and> earned h (ru_inbox s) (ru_sent s') (nd_addr s')
      else nd_addr s' = nd_addr s"
    using assms(1) unfolding adopted_def by blast
  have q: "p \<in> set (packets inbox)" using p(1) assms(2,3) by (auto simp: goes_on_def suffix_def)
  consider "v = Keep" | "want \<noteq> Discover" | lo hi where "v = Repick (lo, hi)" "want = Discover"
    by (cases v) auto
  then show thesis
  proof cases
    case 1
    then have "nd_addr s' = nd_addr s" using v by simp
    moreover from this have "ruled_by inbox s' r"
      unfolding ruled_by_def using q ruled 1
      by (intro bexI [of _ p] exI [of _ "nd_addr s"] exI [of _ v] exI [of _ z]) simp_all
    ultimately show thesis using kept p(2) by blast
  next
    case 2
    with v have "nd_addr s' = nd_addr s" by (cases v) auto
    with kept p(2) 2 show thesis by blast
  next
    case 3
    then obtain k where k: "nd_addr s' = address_in (lo, hi) k" "lo \<le> hi"
      "earned h (ru_inbox s) (ru_sent s') (nd_addr s')" using v by auto
    have "earned h inbox (ru_sent s') (nd_addr s')"
      using earned_goes_on [OF k(3) assms(3) goes_on_refl] assms(2) by simp
    moreover have "ruled_by inbox s' r"
      unfolding ruled_by_def using q ruled 3 address_in_range [OF k(2), of k]
      by (intro bexI [of _ p] exI [of _ "nd_addr s"] exI [of _ v] exI [of _ z]) (simp_all add: k(1))
    ultimately show thesis
      using moved [of r] 3(2) p(2) address_in_range [OF k(2), of k] k(1) by simp
  qed
qed

lemma settle_in_facts:
  assumes "attentive h" "settle_in h want s = (s', Inr u)" "\<not> nd_probing s"
  shows "goes_on s s' \<and> (settled s' = settled s \<or> adopted h want s s')"
proof -
  obtain s1 got where i: "get_net_info h s = (s1, got)" by fastforce
  have s1: "settled s1 = settled s" and p: "\<And>v. got = Some v \<Longrightarrow>
      \<exists>p \<in> set (packets (ru_inbox s)). netinfo_verdict p (nd_addr s) REQUESTED_ZONE = Some v"
    using info_tries_facts i unfolding get_net_info_def by blast+
  have g: "goes_on s s1" using info_tries_goes_on [of s h "nd_addr s" NETINFO_TRIES] i by (simp add: get_net_info_def)
  show ?thesis
  proof (cases got)
    case None
    with assms(2) i s1 g show ?thesis by (simp add: settle_in_def)
  next
    case (Some x)
    obtain v z r where x: "x = (v, z, r)" by (cases x)
    let ?s1 = "s1\<lparr>nd_router := Some r, nd_zone := Some z\<rparr>"
    have g1: "goes_on s ?s1" using g by (simp add: goes_on_def)
    from p [OF Some] x obtain q where
      q: "q \<in> set (packets (ru_inbox s))" "netinfo_verdict q (nd_addr s) REQUESTED_ZONE = Some (v, z, r)" by auto
    have a1: "nd_addr s1 = nd_addr s" "nd_probing s1 = nd_probing s" using s1 by (simp_all add: settled_eq)
    show ?thesis
    proof (cases "v = Keep \<or> want \<noteq> Discover")
      case True
      with assms(2) i Some x have "s' = ?s1" by (cases v) (auto simp: settle_in_def)
      with q a1 True g1 show ?thesis
        unfolding adopted_def by (intro conjI disjI2 bexI [of _ q] exI [of _ v] exI [of _ z] exI [of _ r])
          (auto split: net_info.split)
    next
      case False
      then obtain lo hi where v: "v = Repick (lo, hi)" by (cases v) auto
      obtain s2 r2 where c: "claim_in_range h (lo, hi) ?s1 = (s2, r2)" by fastforce
      with assms(2) i Some x v False obtain a where a: "r2 = Inr a" "s' = s2\<lparr>nd_addr := a\<rparr>"
        by (cases r2) (auto simp: settle_in_def)
      have "\<not> nd_probing ?s1" using a1 assms(3) by simp
      from claim_tries_earned [OF assms(1) c [unfolded claim_in_range_def] this]
      have c2: "settled s2 = settled ?s1" "goes_on ?s1 s2" "earned h (ru_inbox ?s1) (ru_sent s2) a"
        "\<exists>k. a = address_in (lo, hi) k" using a(1) by auto
      have "goes_on s s'" using goes_on_trans [OF g1 c2(2)] by (simp add: a(2) goes_on_def)
      moreover have "earned h (ru_inbox s) (ru_sent s') a"
        using earned_goes_on [OF c2(3) g1 goes_on_refl] by (simp add: a(2))
      moreover have "lo \<le> hi" using q(2) by (simp add: v netinfo_repick)
      ultimately show ?thesis using q False c2(1,4) v
        unfolding adopted_def by (intro conjI disjI2 bexI [of _ q] exI [of _ v] exI [of _ z] exI [of _ r])
          (auto simp: a(2) settled_eq)
    qed
  qed
qed

lemma node_253: "(n :: u8) \<le> 253 \<Longrightarrow> n \<noteq> 254 \<and> n \<noteq> 255"
  by auto

section \<open>Properties\<close>



lemma node_claim_step:
  "claim_one h a (node_start now inbox) = (s1, Inr u) \<Longrightarrow> a_node a \<noteq> 254 \<Longrightarrow> a_node a \<noteq> 255 \<Longrightarrow>
   node_claim h (Exactly a) now inbox = settle_in h (Exactly a) (s1\<lparr>nd_addr := a\<rparr>)"
  by (simp add: node_claim_def first_claim_def)

text \<open>A host whose NIC takes everything, at the start of the clock, and a cable on which all is quiet.\<close>

definition example_host :: host where
  "example_host = \<lparr>ho_mac = Mac 0 5 2 0xaa 0xbb 0xcc, ho_nic = (\<lambda>_ _. None), ho_nanos = (\<lambda>_. 7),
     ho_ord = id, ho_hung = False\<rparr>"

text \<open>The response of a node that holds an address to the probe of the example host.\<close>

definition example_defence :: "addr \<Rightarrow> packet" where
  "example_defence a =
     \<lparr>pk_frame = node_frame (Mac 0 5 2 1 2 3) (Mac 0 5 2 0xaa 0xbb 0xcc) AARP [],
      pk_body = BAarp (aarp_response a (Mac 0 5 2 1 2 3) a (Mac 0 5 2 0xaa 0xbb 0xcc))\<rparr>"

lemma attentive_example: "attentive example_host"
  by (simp add: attentive_def example_host_def)



end
