(* ===== verification/Node_Questions.thy ===== *)
theory Node_Questions
  imports Node_Claims
begin

text \<open>
  The questions a claimed node asks, in \<open>src/src/node.rs\<close>: what a lookup, a ping and a zone listing
  give, in terms of the packets that arrive while each waits.
\<close>

section \<open>What was sent as DDP\<close>

definition ddp_sent :: "(instant \<times> frame) list \<Rightarrow> (instant \<times> bytes) list" where
  "ddp_sent out = map (\<lambda>(t, f). (t, f_payload f)) (filter (\<lambda>(_, f). f_proto f = DDP) out)"

lemma ddp_sent_append [simp]: "ddp_sent (xs @ ys) = ddp_sent xs @ ddp_sent ys"
  by (simp add: ddp_sent_def)

lemma said_ddp_sent: "said h s s' \<Longrightarrow> ddp_sent (ru_sent s') = ddp_sent (ru_sent s)"
  by (force simp: said_def ddp_sent_def aarp_answer_def node_frame_def DDP_def AARP_def filter_empty_conv)

lemma send_ddp_attentive:
  assumes "attentive h"
  obtains f where "send_ddp h dst ds typ d s = (s\<lparr>ru_sent := ru_sent s @ [(ru_now s, f)]\<rparr>, Inr ())"
    "ddp_sent [(ru_now s, f)] = [(ru_now s, ddp_encode (datagram (nd_addr s) OUR_SOCKET dst ds typ d))]"
  using assms
  by (simp add: send_ddp_def send_from_def tx_send_def attentive_def ddp_sent_def node_frame_def)

section \<open>Lookups\<close>

lemma merge_append: "merge into (xs @ ys) = merge (merge into xs) ys"
  by (simp add: merge_fold)

lemma merge_one: "merge into [t] = push_entity into t"
  by (simp add: merge_fold)

lemma push_entity_old: "entity t \<in> entity ` set into \<Longrightarrow> push_entity into t = into"
  by (simp add: push_entity_def)

text \<open>Merging what is merged already: the second answer of an entity makes no difference.\<close>

lemma merge_merge: "merge into (merge js ts) = merge (merge into js) ts"
proof (induction ts rule: rev_induct)
  case (snoc t ts)
  let ?x = "merge js ts"
  have rhs: "merge (merge into js) (ts @ [t]) = push_entity (merge into ?x) t"
    by (simp only: merge_append merge_one snoc)
  have lhs: "merge js (ts @ [t]) = push_entity ?x t" by (simp only: merge_append merge_one)
  show ?case
  proof (cases "entity t \<in> entity ` set ?x")
    case True
    then have "entity t \<in> entity ` set (merge into ?x)" by (simp add: merge_spec(2))
    with True show ?thesis unfolding lhs rhs by (simp add: push_entity_old)
  next
    case False
    then have "push_entity ?x t = ?x @ [t]" by (simp add: push_entity_def)
    then show ?thesis by (simp only: lhs rhs merge_append merge_one snoc)
  qed
qed simp

definition replies_to :: "u8 \<Rightarrow> packet list \<Rightarrow> nbp_tuple list" where
  "replies_to nid ps = concat (map (\<lambda>p. lookup_replies p nid) ps)"

lemma unmoved_tuples: "unmoved (take_tuples nid) p \<longleftrightarrow> lookup_replies p nid = []"
  by (auto simp: unmoved_def take_tuples_def Let_def)

lemma replies_none: "\<forall>p \<in> set ps. lookup_replies p nid = [] \<Longrightarrow> replies_to nid ps = []"
  by (simp add: replies_to_def)

lemma replies_append: "replies_to nid (xs @ ys) = replies_to nid xs @ replies_to nid ys"
  by (simp add: replies_to_def)

lemma heard_split:
  "\<forall>(t, _) \<in> set xs. t \<le> dl \<Longrightarrow> t \<le> dl \<Longrightarrow>
   heard_by dl (xs @ (t, EPacket at port p) # ys) = packets xs @ p # heard_by dl ys"
  by (induction xs rule: packets.induct) (auto simp: heard_by_def arrived_def)

lemma later_split:
  "\<forall>(t, _) \<in> set xs. t \<le> dl \<Longrightarrow> t \<le> dl \<Longrightarrow> later dl (xs @ (t, ev) # ys) = later dl ys"
  by (induction xs) (auto simp: later_def)

lemma gather_exact:
  assumes "attentive h" "ru_now s \<le> dl"
  shows "ru_now (gather h dl nid s) = dl \<and> ru_inbox (gather h dl nid s) = later dl (ru_inbox s)
    \<and> settled (gather h dl nid s)
        = settled (s\<lparr>nd_pending := merge (nd_pending s) (replies_to nid (heard_by dl (ru_inbox s)))\<rparr>)
    \<and> ddp_sent (ru_sent (gather h dl nid s)) = ddp_sent (ru_sent s)"
  using assms(2)
proof (induction "length (ru_inbox s)" arbitrary: s rule: less_induct)
  case less
  let ?evs = "ru_inbox s"
  show ?case
  proof (cases "\<forall>p \<in> set (heard_by dl ?evs). \<not> lookup_replies p nid \<noteq> []")
    case True
    let ?s = "(listen h (arrived dl ?evs) s)\<lparr>ru_inbox := later dl ?evs, ru_now := dl\<rparr>"
    have "wait h dl (take_tuples nid) s = (?s, None)"
      using assms(1) less.prems True by (intro wait_quiet) (auto simp: attentive_def unmoved_tuples)
    then have "gather h dl nid s = ?s" by (subst gather.simps) simp
    moreover have "replies_to nid (heard_by dl ?evs) = []" using True by (intro replies_none) simp
    moreover have "settled ?s = settled s" using listen_facts [of h "arrived dl ?evs" s] by (simp add: settled_def)
    moreover have "ddp_sent (ru_sent ?s) = ddp_sent (ru_sent s)"
      using listen_facts [of h "arrived dl ?evs" s] by (auto dest: said_ddp_sent)
    ultimately show ?thesis by simp
  next
    case False
    obtain xs t at port p ys where e: "?evs = xs @ (t, EPacket at port p) # ys" "t \<le> dl"
      "lookup_replies p nid \<noteq> []" "\<forall>(t, _) \<in> set xs. t \<le> dl"
      "\<forall>p \<in> set (packets xs). \<not> lookup_replies p nid \<noteq> []"
      using first_moved [OF False] by blast
    let ?l = "listen h (xs @ [(t, EPacket at port p)]) s"
    let ?s1 = "?l\<lparr>nd_pending := merge (nd_pending ?l) (lookup_replies p nid)\<rparr>"
    let ?s2 = "?s1\<lparr>ru_inbox := ys\<rparr>"
    have l: "settled ?l = settled s" "ddp_sent (ru_sent ?l) = ddp_sent (ru_sent s)"
      using listen_facts [of h "xs @ [(t, EPacket at port p)]" s] by (auto dest: said_ddp_sent)
    have now: "ru_now ?s2 \<le> dl"
      using listen_now [of s dl "xs @ [(t, EPacket at port p)]" h] less.prems e(2,4) by auto
    have "take_tuples nid ?l p = (?s1, Some ())" using e(3) by (simp add: take_tuples_def Let_def)
    then have "wait h dl (take_tuples nid) s = (?s2, Some ())"
      using e less.prems by (intro wait_hit) (auto simp: unmoved_tuples)
    then have g: "gather h dl nid s = gather h dl nid ?s2" by (subst gather.simps) simp
    have "length (ru_inbox ?s2) < length ?evs" by (simp add: e(1))
    from less.hyps [OF this now]
    have ih: "ru_now (gather h dl nid s) = dl" "ru_inbox (gather h dl nid s) = later dl ys"
      "settled (gather h dl nid s)
         = settled (?s2\<lparr>nd_pending := merge (nd_pending ?s2) (replies_to nid (heard_by dl ys))\<rparr>)"
      "ddp_sent (ru_sent (gather h dl nid s)) = ddp_sent (ru_sent ?s2)"
      unfolding g by simp_all
    have r: "replies_to nid (heard_by dl ?evs) = lookup_replies p nid @ replies_to nid (heard_by dl ys)"
      using e replies_none [of "packets xs" nid] by (simp add: heard_split) (simp add: replies_to_def)
    have "later dl ys = later dl ?evs" using e by (simp add: later_split)
    moreover have "settled (?s2\<lparr>nd_pending := merge (nd_pending ?s2) (replies_to nid (heard_by dl ys))\<rparr>)
        = settled (s\<lparr>nd_pending := merge (nd_pending s) (replies_to nid (heard_by dl ?evs))\<rparr>)"
      using l(1) unfolding r by (simp add: settled_def merge_append)
    ultimately show ?thesis using ih l(2) by simp
  qed
qed

text \<open>The datagram of a lookup, as often as it is sent.\<close>

definition asked :: "addr \<Rightarrow> addr \<Rightarrow> u8 \<Rightarrow> u8 \<Rightarrow> bytes \<Rightarrow> instant \<Rightarrow> nat \<Rightarrow> (instant \<times> bytes) list" where
  "asked ours dst ds typ body t n =
     map (\<lambda>i. (t + i * secs 1, ddp_encode (datagram ours OUR_SOCKET dst ds typ body))) [0..<n]"

lemma asked_Suc:
  "asked ours dst ds typ body t (Suc n)
   = (t, ddp_encode (datagram ours OUR_SOCKET dst ds typ body)) # asked ours dst ds typ body (t + secs 1) n"
  unfolding asked_def upt_conv_Cons [OF zero_less_Suc] by (simp add: map_Suc_upt [symmetric] algebra_simps del: upt_Suc)

lemma lookup_tries_exact:
  assumes "attentive h" "nd_pending s = []"
  shows "\<exists>s'. lookup_tries h nid dst body n found s
      = (s', Inr (merge found (if n = 0 then [] else replies_to nid (heard_by (ru_now s + n * secs 1) (ru_inbox s)))))
    \<and> settled s' = settled s \<and> ru_now s' = ru_now s + n * secs 1
    \<and> ddp_sent (ru_sent s') = ddp_sent (ru_sent s) @ asked (nd_addr s) dst 2 DDP_NBP body (ru_now s) n"
  using assms(2)
proof (induction n arbitrary: s found)
  case (Suc n)
  let ?dl = "ru_now s + secs 1" let ?stop = "ru_now s + Suc n * secs 1"
  obtain f where f: "send_ddp h dst 2 DDP_NBP body s = (s\<lparr>ru_sent := ru_sent s @ [(ru_now s, f)]\<rparr>, Inr ())"
    "ddp_sent [(ru_now s, f)] = [(ru_now s, ddp_encode (datagram (nd_addr s) OUR_SOCKET dst 2 DDP_NBP body))]"
    using send_ddp_attentive [OF assms(1)] by blast
  let ?s0 = "s\<lparr>ru_sent := ru_sent s @ [(ru_now s, f)]\<rparr>" let ?g = "gather h ?dl nid ?s0"
  let ?ts = "replies_to nid (heard_by ?dl (ru_inbox s))"
  have g: "ru_now ?g = ?dl" "ru_inbox ?g = later ?dl (ru_inbox s)" "nd_pending ?g = merge [] ?ts"
    "settled (?g\<lparr>nd_pending := []\<rparr>) = settled s" "nd_addr ?g = nd_addr s"
    "ddp_sent (ru_sent ?g) = ddp_sent (ru_sent s) @ [(ru_now s, ddp_encode (datagram (nd_addr s) OUR_SOCKET dst 2 DDP_NBP body))]"
    using gather_exact [OF assms(1), of ?s0 ?dl nid] Suc.prems f(2) by (simp_all add: settled_def)
  let ?s1 = "?g\<lparr>nd_pending := []\<rparr>"
  have step: "lookup_tries h nid dst body (Suc n) found s
      = lookup_tries h nid dst body n (merge found ?ts) ?s1"
    using g(3) merge_merge [of found "[]" ?ts] by (simp add: f(1) LOOKUP_INTERVAL_def Let_def)
  have e: "ru_now ?s1 + n * secs 1 = ?stop" using g(1) by simp
  have two: "heard_by ?stop (ru_inbox s) = heard_by ?dl (ru_inbox s) @ heard_by ?stop (later ?dl (ru_inbox s))"
    by (rule heard_two) simp
  have h0: "n = 0 \<Longrightarrow> heard_by ?stop (later ?dl (ru_inbox s)) = []"
    by (cases "later ?dl (ru_inbox s)") (auto simp: heard_by_def arrived_def dest: later_Cons)
  have m: "merge (merge found ?ts) (if n = 0 then [] else replies_to nid (heard_by ?stop (later ?dl (ru_inbox s))))
      = merge found (replies_to nid (heard_by ?stop (ru_inbox s)))"
    using h0 unfolding two by (cases "n = 0") (simp_all add: replies_append merge_append replies_none)
  have "nd_pending ?s1 = []" by simp
  from Suc.IH [OF this, of "merge found ?ts"]
  show ?case unfolding step e
    using g m by (auto simp: asked_Suc)
qed (simp add: asked_def)

section \<open>Ping\<close>

text \<open>What an echo reply says to ping \<open>seq\<close>.\<close>

definition echoed :: "u32 \<Rightarrow> u32 \<Rightarrow> packet \<Rightarrow> addr option" where
  "echoed magic seq p = (case echo_match p magic of Some (a, n) \<Rightarrow> if n = seq then Some a else None | None \<Rightarrow> None)"

lemma echo_of_echoed: "echo_of magic seq s p = (s, map_option (\<lambda>a. (a, seq)) (echoed magic seq p))"
  by (auto simp: echo_of_def echoed_def then_some_def split: option.split)

lemma unmoved_echo: "unmoved (echo_of magic seq) p \<longleftrightarrow> echoed magic seq p = None"
  by (auto simp: unmoved_def echo_of_echoed)

text \<open>The outcome of one echo among the packets heard in its second.\<close>

definition outcome_ok :: "u32 \<Rightarrow> u32 \<Rightarrow> packet list \<Rightarrow> pinged \<Rightarrow> bool" where
  "outcome_ok magic seq ps out \<longleftrightarrow>
     (case out of
        Answered a n d \<Rightarrow> n = seq \<and> d \<le> PING_INTERVAL \<and> (\<exists>p \<in> set ps. echoed magic seq p = Some a)
      | Timeout n \<Rightarrow> n = seq \<and> (\<forall>p \<in> set ps. echoed magic seq p = None))"

definition echo_request :: "u32 \<Rightarrow> u32 \<Rightarrow> bytes" where
  "echo_request magic seq = aep_encode \<lparr>ae_func = EchoRequest, ae_data = echo_data magic seq\<rparr>"

lemma idle_wait:
  assumes "attentive h" "ru_now s \<le> dl"
  shows "\<exists>s'. fst (wait h dl (\<lambda>s _. (s, None :: unit option)) s) = s' \<and> settled s' = settled s \<and> ru_now s' = dl
    \<and> ru_inbox s' = later dl (ru_inbox s) \<and> ddp_sent (ru_sent s') = ddp_sent (ru_sent s)"
proof -
  let ?s = "(listen h (arrived dl (ru_inbox s)) s)\<lparr>ru_inbox := later dl (ru_inbox s), ru_now := dl\<rparr>"
  have "wait h dl (\<lambda>s _. (s, None :: unit option)) s = (?s, None)"
    using assms by (intro wait_quiet) (simp_all add: attentive_def unmoved_def)
  then show ?thesis using listen_facts [of h "arrived dl (ru_inbox s)" s]
    by (auto simp: settled_def dest: said_ddp_sent)
qed

lemma ping_one_exact:
  assumes "attentive h"
  shows "\<exists>s' out. ping_one h tgt magic seq s = (s', Inr out)
    \<and> outcome_ok magic seq (heard_by (ru_now s + PING_INTERVAL) (ru_inbox s)) out
    \<and> settled s' = settled s \<and> ru_now s' = ru_now s + PING_INTERVAL
    \<and> ru_inbox s' = later (ru_now s + PING_INTERVAL) (ru_inbox s)
    \<and> ddp_sent (ru_sent s') = ddp_sent (ru_sent s)
        @ [(ru_now s, ddp_encode (datagram (nd_addr s) OUR_SOCKET tgt 4 DDP_AEP (echo_request magic seq)))]"
proof -
  let ?dl = "ru_now s + PING_INTERVAL" let ?evs = "ru_inbox s"
  obtain f where f: "send_ddp h tgt 4 DDP_AEP (echo_request magic seq) s
      = (s\<lparr>ru_sent := ru_sent s @ [(ru_now s, f)]\<rparr>, Inr ())"
    "ddp_sent [(ru_now s, f)]
      = [(ru_now s, ddp_encode (datagram (nd_addr s) OUR_SOCKET tgt 4 DDP_AEP (echo_request magic seq)))]"
    using send_ddp_attentive [OF assms] by blast
  let ?s = "s\<lparr>ru_sent := ru_sent s @ [(ru_now s, f)]\<rparr>"
  have "\<exists>s1 got. wait h ?dl (echo_of magic seq) ?s = (s1, got) \<and> settled s1 = settled s \<and> ru_now s1 \<le> ?dl
      \<and> later ?dl (ru_inbox s1) = later ?dl ?evs \<and> ddp_sent (ru_sent s1) = ddp_sent (ru_sent ?s)
      \<and> outcome_ok magic seq (heard_by ?dl ?evs) (case got of Some (a, _) \<Rightarrow> Answered a seq (since (ru_now s1) (ru_now s))
           | None \<Rightarrow> Timeout seq)"
  proof (cases "\<forall>p \<in> set (heard_by ?dl ?evs). \<not> echoed magic seq p \<noteq> None")
    case True
    let ?s1 = "(listen h (arrived ?dl ?evs) ?s)\<lparr>ru_inbox := later ?dl ?evs, ru_now := ?dl\<rparr>"
    have "wait h ?dl (echo_of magic seq) ?s = (?s1, None)"
      using assms True wait_quiet [of ?s ?dl h "echo_of magic seq"] by (simp add: attentive_def unmoved_echo)
    moreover have "settled ?s1 = settled s" "ddp_sent (ru_sent ?s1) = ddp_sent (ru_sent ?s)"
      using listen_facts [of h "arrived ?dl ?evs" ?s] by (auto simp: settled_def dest: said_ddp_sent)
    moreover have "later ?dl (later ?dl ?evs) = later ?dl ?evs" by (simp add: later_two)
    ultimately show ?thesis using True by (intro exI [of _ ?s1] exI [of _ None]) (simp add: outcome_ok_def)
  next
    case False
    obtain xs t at port p ys where e: "?evs = xs @ (t, EPacket at port p) # ys" "t \<le> ?dl"
      "echoed magic seq p \<noteq> None" "\<forall>(t, _) \<in> set xs. t \<le> ?dl"
      "\<forall>p \<in> set (packets xs). \<not> echoed magic seq p \<noteq> None"
      using first_moved [OF False] by blast
    then obtain a where a: "echoed magic seq p = Some a" by blast
    let ?l = "listen h (xs @ [(t, EPacket at port p)]) ?s" let ?s1 = "?l\<lparr>ru_inbox := ys\<rparr>"
    have w: "wait h ?dl (echo_of magic seq) ?s = (?s1, Some (a, seq))"
      using e by (intro wait_hit) (auto simp: unmoved_echo echo_of_echoed a)
    have "settled ?s1 = settled s" "ddp_sent (ru_sent ?s1) = ddp_sent (ru_sent ?s)"
      using listen_facts [of h "xs @ [(t, EPacket at port p)]" ?s] by (auto simp: settled_def dest: said_ddp_sent)
    moreover have now: "ru_now ?l \<le> ?dl"
      using listen_now [of ?s ?dl "xs @ [(t, EPacket at port p)]" h] e(2,4) by auto
    moreover have "later ?dl ys = later ?dl ?evs" using e by (simp add: later_split)
    moreover have "p \<in> set (heard_by ?dl ?evs)" using e by (simp add: heard_split)
    then have "outcome_ok magic seq (heard_by ?dl ?evs) (Answered a seq (since (ru_now ?s1) (ru_now s)))"
      using a now by (auto simp: outcome_ok_def since_def)
    ultimately show ?thesis by (intro exI [of _ ?s1] exI [of _ "Some (a, seq)"]) (simp add: w)
  qed
  then obtain s1 got where w: "wait h ?dl (echo_of magic seq) ?s = (s1, got)" "settled s1 = settled s"
    "ru_now s1 \<le> ?dl" "later ?dl (ru_inbox s1) = later ?dl ?evs" "ddp_sent (ru_sent s1) = ddp_sent (ru_sent ?s)"
    "outcome_ok magic seq (heard_by ?dl ?evs) (case got of Some (a, _) \<Rightarrow> Answered a seq (since (ru_now s1) (ru_now s))
       | None \<Rightarrow> Timeout seq)" by blast
  have dl: "ru_now s1 + since ?dl (ru_now s1) = ?dl" using w(3) by (simp add: since_def)
  obtain s2 where s2: "fst (wait h ?dl (\<lambda>s _. (s, None :: unit option)) s1) = s2" "settled s2 = settled s1"
    "ru_now s2 = ?dl" "ru_inbox s2 = later ?dl (ru_inbox s1)" "ddp_sent (ru_sent s2) = ddp_sent (ru_sent s1)"
    using idle_wait [OF assms w(3)] by blast
  show ?thesis
    using w s2 f(2) by (simp add: ping_one_def f(1) [unfolded echo_request_def] Let_def dl echo_request_def)
qed

text \<open>The packets of the second of echo \<open>k\<close>, the first second taking what had already queued up.\<close>

definition second_of :: "instant \<Rightarrow> arrivals \<Rightarrow> nat \<Rightarrow> packet list" where
  "second_of t evs k =
     heard_by (t + Suc k * PING_INTERVAL) (if k = 0 then evs else later (t + k * PING_INTERVAL) evs)"

lemma second_of_later: "second_of (t + PING_INTERVAL) (later (t + PING_INTERVAL) evs) k = second_of t evs (Suc k)"
proof -
  have "later (t + PING_INTERVAL + k * PING_INTERVAL) (later (t + PING_INTERVAL) evs)
      = later (t + Suc k * PING_INTERVAL) evs"
    by (subst later_two) (simp_all add: algebra_simps)
  then show ?thesis by (simp add: second_of_def algebra_simps)
qed

definition pings :: "addr \<Rightarrow> addr \<Rightarrow> u32 \<Rightarrow> instant \<Rightarrow> nat \<Rightarrow> nat \<Rightarrow> (instant \<times> bytes) list" where
  "pings ours tgt magic t m n =
     map (\<lambda>i. (t + i * PING_INTERVAL,
               ddp_encode (datagram ours OUR_SOCKET tgt 4 DDP_AEP (echo_request magic (word_of_nat (m + i))))))
       [0..<n]"

lemma pings_Suc:
  "pings ours tgt magic t m (Suc n)
   = (t, ddp_encode (datagram ours OUR_SOCKET tgt 4 DDP_AEP (echo_request magic (word_of_nat m))))
     # pings ours tgt magic (t + PING_INTERVAL) (Suc m) n"
  unfolding pings_def upt_conv_Cons [OF zero_less_Suc]
  by (simp add: map_Suc_upt [symmetric] algebra_simps del: upt_Suc)

lemma ping_loop_exact:
  assumes "attentive h"
  shows "\<exists>s' outs. ping_loop h tgt magic [m..<m + n] s = (s', Inr outs) \<and> length outs = n
    \<and> (\<forall>k < n. outcome_ok magic (word_of_nat (m + k)) (second_of (ru_now s) (ru_inbox s) k) (outs ! k))
    \<and> ru_now s' = ru_now s + n * PING_INTERVAL
    \<and> ddp_sent (ru_sent s') = ddp_sent (ru_sent s) @ pings (nd_addr s) tgt magic (ru_now s) m n"
proof (induction n arbitrary: m s)
  case (Suc n)
  obtain s1 out where o: "ping_one h tgt magic (word_of_nat m) s = (s1, Inr out)"
    "outcome_ok magic (word_of_nat m) (heard_by (ru_now s + PING_INTERVAL) (ru_inbox s)) out"
    "settled s1 = settled s" "ru_now s1 = ru_now s + PING_INTERVAL"
    "ru_inbox s1 = later (ru_now s + PING_INTERVAL) (ru_inbox s)"
    "ddp_sent (ru_sent s1) = ddp_sent (ru_sent s)
      @ [(ru_now s, ddp_encode (datagram (nd_addr s) OUR_SOCKET tgt 4 DDP_AEP (echo_request magic (word_of_nat m))))]"
    using ping_one_exact [OF assms] by blast
  obtain s2 outs where l: "ping_loop h tgt magic [Suc m..<Suc m + n] s1 = (s2, Inr outs)" "length outs = n"
    "\<forall>k < n. outcome_ok magic (word_of_nat (Suc m + k)) (second_of (ru_now s1) (ru_inbox s1) k) (outs ! k)"
    "ru_now s2 = ru_now s1 + n * PING_INTERVAL"
    "ddp_sent (ru_sent s2) = ddp_sent (ru_sent s1) @ pings (nd_addr s1) tgt magic (ru_now s1) (Suc m) n"
    using Suc.IH [of "Suc m" s1] by blast
  have e: "[m..<m + Suc n] = m # [Suc m..<Suc m + n]" by (simp add: upt_conv_Cons)
  have "ping_loop h tgt magic [m..<m + Suc n] s = (s2, Inr (out # outs))"
    unfolding e ping_loop.simps(2) o(1) using l(1) by simp
  moreover have "outcome_ok magic (word_of_nat (m + k)) (second_of (ru_now s) (ru_inbox s) k) ((out # outs) ! k)"
    if "k < Suc n" for k
  proof (cases k)
    case 0
    then show ?thesis using o(2) by (simp add: second_of_def)
  next
    case (Suc j)
    then show ?thesis using l(3) that o(4,5) second_of_later [of "ru_now s" "ru_inbox s" j, symmetric] by simp
  qed
  moreover have "nd_addr s1 = nd_addr s" using o(3) by (simp add: settled_eq)
  ultimately show ?case using l(2,4,5) o(4,6)
    by (intro exI [of _ s2] exI [of _ "out # outs"]) (simp add: pings_Suc)
qed (simp add: pings_def)

lemma rtts_nonempty: "rtts outs \<noteq> [] \<longleftrightarrow> (\<exists>a n d. Answered a n d \<in> set outs)"
  by (induction outs rule: rtts.induct) auto

section \<open>The zone list\<close>

text \<open>An ATP response of one packet, with a zone list reply in it.\<close>

definition response_of :: "packet \<Rightarrow> addr \<Rightarrow> u16 \<Rightarrow> zip_atp \<Rightarrow> bool" where
  "response_of p r tid z \<longleftrightarrow>
     (\<exists>d a fin names. pk_body p = BDdp d (BAtp a) \<and> d_src d = r \<and> d_src_socket d = ZIS
        \<and> t_func a = Resp \<and> t_tid a = tid \<and> t_bitmap a = 0 \<and> atp_eom a
        \<and> zip_atp_parse_reply (t_user_bytes a) (t_data a) = Some z \<and> z = ZReply fin names)"

lemma collect_first: "segs \<noteq> [] \<Longrightarrow> collect (segs[0 := Some x]) [0..<Suc 0] = Some x"
  by (cases segs) (simp_all add: get_at_def)

lemma session_push_response:
  assumes "open_ok opn" "response_of p r tid z"
  shows "snd (session_push ord at p opn) = [MZip z]"
proof -
  obtain d a where p: "pk_body p = BDdp d (BAtp a)" "d_src_socket d = ZIS" "t_func a = Resp" "t_bitmap a = 0"
    "atp_eom a" "zip_atp_parse_reply (t_user_bytes a) (t_data a) = Some z"
    using assms(2) by (auto simp: response_of_def)
  let ?opn = "expire ord at opn" let ?e = "entry_or_new at ?opn (key_of d a)"
  have "open_ok ?opn" using assms(1) by (rule expire_ok)
  then have "length (pt_segments ?e) = 8"
    by (auto simp: entry_or_new_def partial_new_def open_ok_def partial_ok_def split: option.split dest!: map_of_SomeD)
  then have "pt_segments ?e \<noteq> []" by auto
  then have t: "take_if_complete (add_segment a ?e) = Some (t_data a)"
    using collect_first [of "pt_segments ?e" "t_data a"] p(4,5)
    by (simp add: take_if_complete_def add_segment_def Let_def)
  have b7: "t_bitmap a \<le> 7" by (simp add: p(4))
  have ub: "pt_user_bytes (add_segment a ?e) = t_user_bytes a" by (simp add: add_segment_def p(4) Let_def)
  have k: "tk_src_socket (key_of d a) = ZIS" by (simp add: key_of_def p(2))
  show ?thesis using txns_push_segment [OF p(1,3) b7, of ord at opn] p(6)
    by (simp add: session_push_def t ub k Let_def)
qed

lemma open_ok_Nil: "open_ok []"
  by (simp add: open_ok_def)

lemma hear_open_ok:
  assumes "attentive h" "open_ok (nd_open s)"
  shows "open_ok (nd_open (hear h x s))"
proof -
  have a: "nd_open (answer_aarp h p s) = nd_open s" for p s
    by (auto simp: answer_aarp_def tx_send_def split: aarp_action.split body.split option.split)
  have "open_ok (nd_open (on_packet h at p s))" if "open_ok (nd_open s)" for at p s
    using txns_push_ok [OF that, of "ho_ord h" at p] assms(1)
    by (simp add: on_packet_def a session_push_def case_prod_beta Let_def attentive_def split: option.split)
  then show ?thesis using assms(2)
    by (cases "snd x") (simp_all add: hear_def on_event_def txns_flush_def open_ok_Nil)
qed

lemma response_matches: "response_of p r tid z \<Longrightarrow> zone_reply_matches p r' tid' \<longleftrightarrow> r = r' \<and> tid = tid'"
  by (auto simp: response_of_def zone_reply_matches_def)

lemma hear_messages:
  "nd_messages (hear h (t, EPacket at port p) s)
   = stow (nd_messages s) (snd (session_push (ho_ord h) at p (nd_open s)))"
proof -
  have "nd_messages (answer_aarp h p s) = nd_messages s" for s
    by (auto simp: answer_aarp_def tx_send_def split: aarp_action.split body.split option.split)
  then show ?thesis by (simp add: hear_def on_event_def on_packet_def case_prod_beta Let_def)
qed

lemma stow_one: "stow old [m] = drop (Suc (length old) - MAX_MESSAGES) old @ [m]"
  by (simp add: stow_def MAX_MESSAGES_def Let_def)

lemma first_reply_append:
  "first_reply (xs @ ys) = (case first_reply xs of Some z \<Rightarrow> Some z | None \<Rightarrow> first_reply ys)"
  by (induction xs rule: first_reply.induct) auto

lemma first_reply_drop: "first_reply xs = None \<Longrightarrow> first_reply (drop k xs) = None"
  using first_reply_append [of "take k xs" "drop k xs"] by (auto split: option.splits)

text \<open>A page whose answer is the next packet to arrive.\<close>

lemma page_hit:
  assumes "attentive h" "ru_inbox s = (t, EPacket at port p) # rest" "t \<le> ru_now s + ZONE_INTERVAL"
    and "response_of p r tid z" "first_reply (nd_messages s) = None" "open_ok (nd_open s)"
  shows "\<exists>s'. page_tries h r tid body (Suc n) s = (s', Inr z) \<and> settled s' = settled s
    \<and> nd_messages s' = [] \<and> open_ok (nd_open s') \<and> ru_inbox s' = rest \<and> ru_now s' = max (ru_now s) t"
proof -
  obtain f where f: "send_ddp h r 6 DDP_ATP body s = (s\<lparr>ru_sent := ru_sent s @ [(ru_now s, f)]\<rparr>, Inr ())"
    using send_ddp_attentive [OF assms(1)] by blast
  let ?s = "s\<lparr>ru_sent := ru_sent s @ [(ru_now s, f)]\<rparr>" let ?l = "listen h [(t, EPacket at port p)] ?s"
  let ?s1 = "?l\<lparr>nd_messages := []\<rparr>"
  obtain fin names where z: "z = ZReply fin names" using assms(4) by (auto simp: response_of_def)
  have "first_reply (nd_messages ?l) = Some z"
    using assms(5,6) by (simp add: hear_messages session_push_response [OF _ assms(4)] stow_one first_reply_append
        first_reply_drop z)
  then have "take_page r tid ?l p = (?s1, Some z)"
    using response_matches [OF assms(4)] by (simp add: take_page_def)
  then have "wait h (ru_now s + ZONE_INTERVAL) (take_page r tid) ?s = (?s1\<lparr>ru_inbox := rest\<rparr>, Some z)"
    using assms(2,3) wait_hit [of ?s "ru_now s + ZONE_INTERVAL" "[]" t at port p rest "take_page r tid" h ?s1 z] by simp
  then have "page_tries h r tid body (Suc n) s = (?s1\<lparr>ru_inbox := rest\<rparr>, Inr z)" by (simp add: f)
  moreover have "settled (?s1\<lparr>ru_inbox := rest\<rparr>) = settled s" "ru_now ?l = max (ru_now s) t"
    using hear_facts [where h = h and s = ?s and x = "(t, EPacket at port p)"] by (simp_all add: settled_def)
  moreover have "open_ok (nd_open ?l)"
    using hear_open_ok [OF assms(1), of ?s "(t, EPacket at port p)"] assms(6) by simp
  ultimately show ?thesis by simp
qed

text \<open>
  A router that plays along with a walk: each request is answered, within its two seconds, by a response
  with the page that \<open>ask\<close> gives; where it gives none, nothing more arrives.
\<close>

fun plays_along :: "(u16 \<Rightarrow> u16 \<Rightarrow> zip_atp option) \<Rightarrow> addr \<Rightarrow> nat \<Rightarrow> u16 \<Rightarrow> u16 \<Rightarrow> instant \<Rightarrow> arrivals \<Rightarrow> bool" where
  "plays_along ask r 0 tid start now evs \<longleftrightarrow> True"
| "plays_along ask r (Suc pages) tid start now evs \<longleftrightarrow>
     (case ask (tid + 1) start of
        None \<Rightarrow> evs = []
      | Some z \<Rightarrow>
          (case evs of
             (t, EPacket at port p) # rest \<Rightarrow>
               t \<le> now + ZONE_INTERVAL \<and> response_of p r (tid + 1) z
               \<and> (case next_start start z of
                    None \<Rightarrow> True
                  | Some nxt \<Rightarrow> plays_along ask r pages (tid + 1) nxt (max now t) rest)
           | _ \<Rightarrow> False))"

lemma page_silence:
  assumes "attentive h" "ru_inbox s = []"
  shows "\<exists>s'. page_tries h r tid body n s = (s', Inl TimedOut)"
  using assms(2)
proof (induction n arbitrary: s)
  case (Suc n)
  obtain f where f: "send_ddp h r 6 DDP_ATP body s = (s\<lparr>ru_sent := ru_sent s @ [(ru_now s, f)]\<rparr>, Inr ())"
    using send_ddp_attentive [OF assms(1)] by blast
  have "wait h (ru_now s + ZONE_INTERVAL) (take_page r tid) (s\<lparr>ru_sent := ru_sent s @ [(ru_now s, f)]\<rparr>)
      = (s\<lparr>ru_sent := ru_sent s @ [(ru_now s, f)], ru_inbox := [], ru_now := ru_now s + ZONE_INTERVAL\<rparr>, None)"
    using assms(1) Suc.prems by (simp add: wait_def attentive_def)
  then show ?case using Suc.IH by (simp add: f)
qed simp

definition result_of :: "io_error + 'a \<Rightarrow> 'a option" where
  "result_of r = (case r of Inr v \<Rightarrow> Some v | Inl _ \<Rightarrow> None)"

lemma page_loop_walk:
  assumes "attentive h" "plays_along ask r n (nd_next_id s) start (ru_now s) (ru_inbox s)"
    and "first_reply (nd_messages s) = None" "open_ok (nd_open s)"
  shows "result_of (snd (page_loop h r n start zones s)) = zone_walk ask n (nd_next_id s) start zones"
  using assms(2-4)
proof (induction n arbitrary: start zones s)
  case (Suc n)
  let ?tid = "nd_next_id s + 1" let ?s = "s\<lparr>nd_next_id := ?tid\<rparr>"
  let ?body = "atp_encode (zone_list_request ?tid start)"
  have tries: "ZONE_TRIES = Suc 2" by (simp add: ZONE_TRIES_def)
  show ?case
  proof (cases "ask ?tid start")
    case None
    with Suc.prems(1) have "ru_inbox ?s = []" by simp
    from page_silence [OF assms(1) this, of r ?tid ?body ZONE_TRIES] None show ?thesis
      by (auto simp: next_id_def result_of_def)
  next
    case (Some z)
    with Suc.prems(1) obtain t at port p rest where e: "ru_inbox s = (t, EPacket at port p) # rest"
      "t \<le> ru_now s + ZONE_INTERVAL" "response_of p r ?tid z"
      "case next_start start z of None \<Rightarrow> True
       | Some nxt \<Rightarrow> plays_along ask r n ?tid nxt (max (ru_now s) t) rest"
      by (auto split: list.splits event.splits)
    then obtain s' where s': "page_tries h r ?tid ?body ZONE_TRIES ?s = (s', Inr z)" "settled s' = settled ?s"
      "nd_messages s' = []" "ru_inbox s' = rest" "ru_now s' = max (ru_now s) t" and ok: "open_ok (nd_open s')"
      using page_hit [OF assms(1), where s = ?s and r = r and tid = ?tid and z = z and body = ?body and n = 2] Suc.prems(2,3)
      unfolding tries by auto
    have n': "nd_next_id s' = ?tid" using s'(2) by (simp add: settled_eq)
    have m': "first_reply (nd_messages s') = None" by (simp add: s'(3))
    show ?thesis
    proof (cases "next_start start z")
      case None
      with s'(1) Some show ?thesis by (simp add: next_id_def result_of_def Let_def)
    next
      case (Some nxt)
      with e(4) s'(4,5) n' have "plays_along ask r n (nd_next_id s') nxt (ru_now s') (ru_inbox s')" by simp
      from Suc.IH [OF this m' ok, where zones = "push_new zones (page_names z)"] show ?thesis
        using s'(1) \<open>ask ?tid start = Some z\<close> Some n' by (simp add: next_id_def Let_def)
    qed
  qed
qed (simp add: result_of_def)

section \<open>Properties\<close>

text \<open>
  C19: A lookup takes three seconds, in which its request goes out three times: to the router's NBP socket
  when there is a router, else as a broadcast on the cable.  It returns one tuple for each entity that
  answered under the lookup's own identifier in that time, the first heard, sorted by object and type.
\<close>

theorem lookup_exact:
  fixes obj ty zone :: rstring
  assumes "attentive h" "nd_pending s = []"
  defines "nid \<equiv> ucast (nd_next_id s + 1) :: u8"
  defines "dst \<equiv> (case nd_router s of Some r \<Rightarrow> r | None \<Rightarrow> mk_addr 0 255)"
  defines "body \<equiv> nbp_encode (lookup_request (if nd_router s = None then LkUp else BrRq) nid (nd_addr s) OUR_SOCKET obj ty zone)"
  defines "tuples \<equiv> merge [] (replies_to nid (heard_by (ru_now s + secs 3) (ru_inbox s)))"
  shows "snd (node_lookup h obj ty zone s) = Inr (sort_key (\<lambda>t. (nb_object t, nb_typ t)) tuples)
    \<and> distinct (map entity tuples)
    \<and> entity ` set tuples = entity ` set (replies_to nid (heard_by (ru_now s + secs 3) (ru_inbox s)))
    \<and> ru_now (fst (node_lookup h obj ty zone s)) = ru_now s + secs 3
    \<and> ddp_sent (ru_sent (fst (node_lookup h obj ty zone s)))
        = ddp_sent (ru_sent s) @ asked (nd_addr s) dst 2 DDP_NBP body (ru_now s) 3"
proof -
  let ?s = "s\<lparr>nd_next_id := nd_next_id s + 1\<rparr>"
  have n: "LOOKUP_TRIES = 3" "3 * secs 1 = secs 3" by (simp_all add: LOOKUP_TRIES_def secs_def)
  have d: "lookup_frame_data ?s nid obj ty zone = (dst, body)"
    by (simp add: lookup_frame_data_def dst_def body_def split: option.split)
  have p: "nd_pending ?s = []" using assms(2) by simp
  obtain s' where s': "lookup_tries h nid dst body 3 [] ?s = (s', Inr tuples)"
    "ru_now s' = ru_now s + secs 3"
    "ddp_sent (ru_sent s') = ddp_sent (ru_sent s) @ asked (nd_addr s) dst 2 DDP_NBP body (ru_now s) 3"
    using lookup_tries_exact [OF assms(1) p, where n = 3 and nid = nid and dst = dst and body = body and found = "[]"]
    unfolding n(2) tuples_def by (auto simp del: merge.simps)
  have "node_lookup h obj ty zone s = (s', Inr (sort_key (\<lambda>t. (nb_object t, nb_typ t)) tuples))"
    using s'(1) by (simp add: node_lookup_def next_id_def d n(1) nid_def [symmetric])
  moreover have "distinct (map entity tuples)"
    "entity ` set tuples = entity ` set (replies_to nid (heard_by (ru_now s + secs 3) (ru_inbox s)))"
    unfolding tuples_def by (simp_all add: merge_spec)
  ultimately show ?thesis using s'(2,3) by simp
qed

text \<open>A claimed node, and the answers it may hear.\<close>

definition example_node :: "addr option \<Rightarrow> arrivals \<Rightarrow> running" where
  "example_node router inbox = (node_start 0 inbox)\<lparr>nd_addr := mk_addr 5 9, nd_router := router\<rparr>"

definition example_datagram :: "addr \<Rightarrow> u8 \<Rightarrow> ddp_body \<Rightarrow> packet" where
  "example_datagram src socket b =
     \<lparr>pk_frame = node_frame (Mac 0 5 2 1 2 3) (Mac 0 5 2 0xaa 0xbb 0xcc) DDP [],
      pk_body = BDdp (datagram src socket (mk_addr 5 9) OUR_SOCKET (body_typ b) (body_bytes b)) b\<rparr>"

definition example_tuple :: "u8 \<Rightarrow> rstring \<Rightarrow> nbp_tuple" where
  "example_tuple node obj = \<lparr>nb_addr = mk_addr 5 node, nb_socket = 4, nb_enumerator = 0,
     nb_object = obj, nb_typ = lit ''Mac'', nb_zone = [42]\<rparr>"

theorem lookup_exact_witness:
  "snd (node_lookup example_host [61] [61] [42] (example_node None
      [(secs 1, EPacket 0 0 (example_datagram (mk_addr 5 7) 2
          (BNbp \<lparr>n_func = LkUpReply, n_id = 2, n_tuples = [example_tuple 7 (lit ''b'')]\<rparr>))),
       (secs 2, EPacket 0 0 (example_datagram (mk_addr 5 6) 2
          (BNbp \<lparr>n_func = LkUpReply, n_id = 2, n_tuples = [example_tuple 6 (lit ''a''), example_tuple 7 (lit ''b'')]\<rparr>)))]))
   = Inr [example_tuple 6 (lit ''a''), example_tuple 7 (lit ''b'')]"
  (is "snd (node_lookup _ _ _ _ ?s) = _")
proof -
  have p: "nd_pending ?s = []" by (simp add: example_node_def node_start_def)
  have "replies_to (ucast (nd_next_id ?s + 1)) (heard_by (ru_now ?s + secs 3) (ru_inbox ?s))
      = [example_tuple 7 (lit ''b''), example_tuple 6 (lit ''a''), example_tuple 7 (lit ''b'')]"
    by (simp add: replies_to_def heard_by_def arrived_def example_node_def node_start_def secs_def
        example_datagram_def lookup_replies_def)
  moreover have "merge [] [example_tuple 7 (lit ''b''), example_tuple 6 (lit ''a''), example_tuple 7 (lit ''b'')]
      = [example_tuple 7 (lit ''b''), example_tuple 6 (lit ''a'')]"
    by (simp add: entity_def example_tuple_def mk_addr_def lit_def)
  moreover have "sort_key (\<lambda>t. (nb_object t, nb_typ t)) [example_tuple 7 (lit ''b''), example_tuple 6 (lit ''a'')]
      = [example_tuple 6 (lit ''a''), example_tuple 7 (lit ''b'')]"
    by (simp add: example_tuple_def lit_def of_char_def)
  ultimately show ?thesis
    using lookup_exact [OF attentive_example p, of "[61]" "[61]" "[42]"] by (simp del: merge.simps sort_key_simps)
qed

text \<open>
  A ping sends its echoes one second apart and takes a second for each.  An echo counts as answered when
  an echo reply carrying our marker and its number arrived in its second, and only then; the ping succeeds when
  any was answered.
\<close>

theorem ping_exact:
  fixes s :: running and h :: host
  assumes "attentive h"
  defines "magic \<equiv> ucast (node_seed h 0 s) :: u32"
  shows "\<exists>outs ok. snd (node_ping h tgt cnt s) = Inr (outs, ok) \<and> length outs = unat cnt
    \<and> (\<forall>k < unat cnt. outcome_ok magic (word_of_nat k) (second_of (ru_now s) (ru_inbox s) k) (outs ! k))
    \<and> ok = (\<exists>k < unat cnt. \<exists>p \<in> set (second_of (ru_now s) (ru_inbox s) k). echoed magic (word_of_nat k) p \<noteq> None)
    \<and> ddp_sent (ru_sent (fst (node_ping h tgt cnt s)))
        = ddp_sent (ru_sent s) @ pings (nd_addr s) tgt magic (ru_now s) 0 (unat cnt)"
proof -
  obtain s' outs where l: "ping_loop h tgt magic [0..<unat cnt] s = (s', Inr outs)" "length outs = unat cnt"
    "\<forall>k < unat cnt. outcome_ok magic (word_of_nat k) (second_of (ru_now s) (ru_inbox s) k) (outs ! k)"
    "ddp_sent (ru_sent s') = ddp_sent (ru_sent s) @ pings (nd_addr s) tgt magic (ru_now s) 0 (unat cnt)"
    using ping_loop_exact [OF assms(1), where m = 0 and n = "unat cnt" and s = s and tgt = tgt and magic = magic]
    by auto
  have "(\<exists>a n d. outs ! k = Answered a n d)
      \<longleftrightarrow> (\<exists>p \<in> set (second_of (ru_now s) (ru_inbox s) k). echoed magic (word_of_nat k) p \<noteq> None)"
    if "k < unat cnt" for k
    using l(3) that by (cases "outs ! k") (fastforce simp: outcome_ok_def)+
  moreover have "rtts outs \<noteq> [] \<longleftrightarrow> (\<exists>k < unat cnt. \<exists>a n d. outs ! k = Answered a n d)"
    unfolding rtts_nonempty by (auto simp: in_set_conv_nth l(2))
  ultimately have "rtts outs \<noteq> [] \<longleftrightarrow> (\<exists>k < unat cnt.
      \<exists>p \<in> set (second_of (ru_now s) (ru_inbox s) k). echoed magic (word_of_nat k) p \<noteq> None)" by blast
  with l show ?thesis
    by (intro exI [of _ outs] exI [of _ "rtts outs \<noteq> []"]) (simp add: node_ping_def magic_def)
qed

theorem ping_exact_witness:
  "\<exists>outs. snd (node_ping example_host (mk_addr 5 7) 2 (example_node None
      [(secs 1, EPacket 0 0 (example_datagram (mk_addr 5 7) 4
          (BAep \<lparr>ae_func = EchoReply, ae_data = echo_data (ucast (node_seed example_host 0 (example_node None []))) 0\<rparr>)))]))
    = Inr (outs, True) \<and> length outs = 2"
  (is "\<exists>outs. snd (node_ping _ _ _ ?s) = _ \<and> _")
proof -
  let ?magic = "ucast (node_seed example_host 0 (example_node None [])) :: u32"
  let ?p = "example_datagram (mk_addr 5 7) 4 (BAep \<lparr>ae_func = EchoReply, ae_data = echo_data ?magic 0\<rparr>)"
  have seed: "node_seed example_host 0 ?s = node_seed example_host 0 (example_node None [])"
    by (simp add: node_seed_def example_node_def node_start_def)
  have "ru_now ?s = 0" "ru_inbox ?s = [(secs 1, EPacket 0 0 ?p)]"
    by (simp_all add: example_node_def node_start_def)
  then have "second_of (ru_now ?s) (ru_inbox ?s) 0 = [?p]"
    by (simp add: second_of_def heard_by_def arrived_def PING_INTERVAL_def)
  moreover have "echoed ?magic 0 ?p = Some (mk_addr 5 7)"
    by (simp add: echoed_def echo_match_def example_datagram_def datagram_def u32_at_data then_some_def)
  ultimately have "\<exists>k < unat (2 :: u16). \<exists>p \<in> set (second_of (ru_now ?s) (ru_inbox ?s) k).
      echoed ?magic (word_of_nat k) p \<noteq> None" by (intro exI [of _ 0]) simp
  then show ?thesis using ping_exact [OF attentive_example, of "mk_addr 5 7" 2 ?s] unfolding seed by auto
qed


text \<open>A router with one zone, and another whose reply goes to somebody else.\<close>

definition example_page :: "addr \<Rightarrow> u16 \<Rightarrow> rstring \<Rightarrow> packet" where
  "example_page router tid name =
     example_datagram router ZIS (BAtp (atp_response tid 0 True False (fst (reply_parts True [name]))
       (snd (reply_parts True [name]))))"

lemma response_of_example:
  "wf_name name \<Longrightarrow> response_of (example_page r tid name) r tid (ZReply True [name])"
proof -
  assume n: "wf_name name"
  obtain user dat where parts: "reply_parts True [name] = (user, dat)" by fastforce
  have dec: "zip_atp_parse_reply user dat = Some (ZReply True [name])"
    using zip_atp_reply_parts [of "[name]" True] n parts by simp
  then show ?thesis
    by (simp add: response_of_def example_page_def example_datagram_def datagram_def atp_response_def atp_eom_def
        parts Let_def) (rule exI, rule TrueI)
qed


text \<open>
  C21: The reply of another transaction is taken for the page.  Capture is promiscuous: when another node's zone
  list reply is heard while we wait, our own router's answer only says that a page is there, and the page
  that is taken is the first reply the session completed, the other node's.
\<close>

theorem foreign_page_taken:
  assumes "attentive h" "nd_router s = Some r" "first_reply (nd_messages s) = None" "open_ok (nd_open s)"
    and "ru_inbox s = (t1, EPacket at1 port1 p1) # (t2, EPacket at2 port2 p2) # rest"
    and "t1 \<le> ru_now s + ZONE_INTERVAL" "t2 \<le> ru_now s + ZONE_INTERVAL"
    and "response_of p1 r1 tid1 (ZReply True foreign)" "r1 \<noteq> r \<or> tid1 \<noteq> nd_next_id s + 1"
    and "response_of p2 r (nd_next_id s + 1) z"
  shows "snd (node_zones h s) = Inr (push_new [] foreign)"
proof -
  let ?tid = "nd_next_id s + 1" let ?s = "s\<lparr>nd_next_id := ?tid\<rparr>"
  let ?body = "atp_encode (zone_list_request ?tid 1)" let ?z = "ZReply True foreign"
  let ?dl = "ru_now s + ZONE_INTERVAL"
  obtain f where f: "send_ddp h r 6 DDP_ATP ?body ?s = (?s\<lparr>ru_sent := ru_sent ?s @ [(ru_now ?s, f)]\<rparr>, Inr ())"
    using send_ddp_attentive [OF assms(1)] by blast
  let ?sent = "?s\<lparr>ru_sent := ru_sent ?s @ [(ru_now ?s, f)]\<rparr>"
  let ?xs = "[(t1, EPacket at1 port1 p1)]" let ?l = "listen h (?xs @ [(t2, EPacket at2 port2 p2)]) ?sent"
  let ?s1 = "?l\<lparr>nd_messages := []\<rparr>"
  have tries: "ZONE_TRIES = Suc 2" by (simp add: ZONE_TRIES_def)
  have m: "first_reply (nd_messages ?l) = Some ?z"
    using assms(3) hear_open_ok [OF assms(1), of ?sent "(t1, EPacket at1 port1 p1)"] assms(4)
    by (simp add: hear_messages session_push_response [OF _ assms(8)] session_push_response [OF _ assms(10)] stow_one
        first_reply_append first_reply_drop MAX_MESSAGES_def)
  have un: "\<forall>p \<in> set (packets ?xs). unmoved (take_page r ?tid) p"
    using assms(9) response_matches [OF assms(8)] by (auto simp: unmoved_def take_page_def)
  have "take_page r ?tid ?l p2 = (?s1, Some ?z)"
    using response_matches [OF assms(10)] m by (simp add: take_page_def)
  then have "wait h ?dl (take_page r ?tid) ?sent = (?s1\<lparr>ru_inbox := rest\<rparr>, Some ?z)"
    using assms(5-7) un
    by (intro wait_hit [where xs = ?xs and t = t2 and at = at2 and port = port2 and p = p2]) simp_all
  with f have "page_tries h r ?tid ?body (Suc 2) ?s = (?s1\<lparr>ru_inbox := rest\<rparr>, Inr ?z)"
    unfolding page_tries.simps(2) by simp
  moreover note tries
  moreover have "next_start 1 ?z = None" by (simp add: next_start_def)
  moreover have m: "MAX_ZONE_PAGES = Suc 999" by (simp add: MAX_ZONE_PAGES_def)
  ultimately show ?thesis using assms(2)
    unfolding node_zones_def m page_loop.simps(2) by (simp add: next_id_def Let_def page_names_def)
qed

theorem foreign_page_taken_witness:
  "snd (node_zones example_host (example_node (Some (mk_addr 5 1))
     [(secs 1, EPacket 0 0 (example_page (mk_addr 8 1) 77 (lit ''Far''))),
      (secs 2, EPacket 0 0 (example_page (mk_addr 5 1) 2 (lit ''Lab'')))])) = Inr [lit ''Far'']"
  (is "snd (node_zones _ ?s) = _")
proof -
  have n: "wf_name (lit ''Lab'')" "wf_name (lit ''Far'')" by (simp_all add: wf_name_def latin1_def lit_def of_char_def)
  have "snd (node_zones example_host ?s) = Inr (push_new [] [lit ''Far''])"
    using response_of_example [OF n(2), of "mk_addr 8 1" 77] response_of_example [OF n(1), of "mk_addr 5 1" 2]
    by (intro foreign_page_taken [OF attentive_example])
       (auto simp: example_node_def node_start_def ZONE_INTERVAL_def secs_def open_ok_def mk_addr_def)
  then show ?thesis by simp
qed

end
