(* ===== verification/Monitor.thy ===== *)
theory Monitor
  imports Session Capture Config
begin

text \<open>
  The passive frontend: the output flags of \<open>src/src/cli.rs\<close> and the loop of \<open>src/src/text.rs\<close> that prints
  what the capture thread queued.  A line keeps the value whose \<open>Display\<close> it prints, which theory
  Wire_Text writes out; the timestamp and
  the hex dump are the text itself.  The lemmas say that the flags only choose what is printed.
\<close>

section \<open>The flags\<close>

datatype proto = PAarp | PRtmp | PNbp | PAtp | PAep | PZip | PAdsp | POther

record flags =
  out_hex :: bool
  out_no_link :: bool
  out_no_net :: bool
  out_only :: "proto list"
  out_hide :: "proto list"

definition flags_default :: flags where
  "flags_default =
     \<lparr>out_hex = False, out_no_link = False, out_no_net = False, out_only = [], out_hide = []\<rparr>"

definition proto_of :: "packet \<Rightarrow> proto" where
  "proto_of p =
     (case pk_body p of
        BAarp _ \<Rightarrow> PAarp
      | BDdp d _ \<Rightarrow>
          if d_typ d = 1 \<or> d_typ d = 5 then PRtmp
          else if d_typ d = 2 then PNbp
          else if d_typ d = 3 then PAtp
          else if d_typ d = 4 then PAep
          else if d_typ d = 6 then PZip
          else if d_typ d = 7 then PAdsp
          else POther
      | BUnknown \<Rightarrow> POther)"

definition output_shows :: "flags \<Rightarrow> packet \<Rightarrow> bool" where
  "output_shows fl p =
     (let proto = proto_of p
      in if out_only fl \<noteq> [] then proto \<in> set (out_only fl) else proto \<notin> set (out_hide fl))"

section \<open>Text\<close>

text \<open>A decimal or a hexadecimal number with leading zeros, at least \<open>w\<close> digits.\<close>

definition padded :: "nat \<Rightarrow> rstring \<Rightarrow> rstring" where
  "padded w s = replicate (w - length s) 48 @ s"

definition hex_digit :: "nat \<Rightarrow> rchar" where
  "hex_digit d = (if d < 10 then 48 + word_of_nat d else 87 + word_of_nat d)"

fun hexadecimal :: "nat \<Rightarrow> rstring" where
  "hexadecimal n = (if n < 16 then [] else hexadecimal (n div 16)) @ [hex_digit (n mod 16)]"

declare hexadecimal.simps [simp del]

definition timestamp :: "instant \<Rightarrow> rstring" where
  "timestamp at =
     (let s = at div secs 1
      in padded 2 (decimal (s div 3600 mod 24)) @ [58] @ padded 2 (decimal (s div 60 mod 60)) @ [58]
         @ padded 2 (decimal (s mod 60)) @ [46] @ padded 3 (decimal (at mod secs 1 div millis 1)))"

definition dump_char :: "u8 \<Rightarrow> rchar" where
  "dump_char x = (if 0x20 \<le> x \<and> x < 0x7f then ucast x else 46)"

definition dump_line :: "nat \<Rightarrow> bytes \<Rightarrow> rstring" where
  "dump_line i chunk =
     (let hex = concat (map (\<lambda>x. padded 2 (hexadecimal (unat x)) @ [32]) chunk);
          ascii = map dump_char chunk
      in [32, 32] @ padded 4 (hexadecimal (i * 16)) @ [32, 32]
         @ hex @ replicate (48 - length hex) 32 @ [124] @ ascii @ [124])"

definition hexdump :: "bytes \<Rightarrow> rstring list" where
  "hexdump b = map (\<lambda>(i, chunk). dump_line i chunk) (enumerate 0 (chunks 16 b))"

section \<open>What is printed\<close>

datatype line =
    LnFrame rstring frame
  | LnAarp aarp
  | LnDdp ddp
  | LnAtp atp
  | LnAep aep
  | LnRtmp rtmp
  | LnNbp nbp
  | LnZip zip
  | LnHex rstring
  | LnMessage message
  | LnDropped nat
  | LnRx rstring

definition dump_if :: "bool \<Rightarrow> bytes \<Rightarrow> line list" where
  "dump_if hex b = (if hex then map LnHex (hexdump b) else [])"

definition print_packet :: "instant \<Rightarrow> packet \<Rightarrow> flags \<Rightarrow> line list" where
  "print_packet at p fl =
     (if \<not> out_no_link fl then [LnFrame (timestamp at) (pk_frame p)] else [])
     @ (case pk_body p of
          BAarp a \<Rightarrow> [LnAarp a]
        | BDdp d inner \<Rightarrow>
            (if \<not> out_no_net fl then [LnDdp d] else [])
            @ (case inner of
                 BAtp a \<Rightarrow> LnAtp a # dump_if (out_hex fl) (t_data a)
               | BAep a \<Rightarrow> LnAep a # dump_if (out_hex fl) (ae_data a)
               | BRtmp r \<Rightarrow> [LnRtmp r]
               | BNbp n \<Rightarrow> [LnNbp n]
               | BZip z \<Rightarrow> [LnZip z]
               | BUnknownDdp \<Rightarrow> dump_if (out_hex fl) (d_data d))
        | BUnknown \<Rightarrow> dump_if (out_hex fl) (f_payload (pk_frame p)))"

text \<open>One event of \<open>text::run\<close>, and the run, a block of lines for each event.\<close>

definition print_event ::
    "(open_txns \<Rightarrow> open_txns) \<Rightarrow> flags \<Rightarrow> event \<Rightarrow> open_txns \<Rightarrow> open_txns \<times> line list" where
  "print_event ord fl ev opn =
     (case ev of
        EPacket at _ p \<Rightarrow>
          (let sh = output_shows fl p; (opn, ms) = session_push ord at p opn
           in (opn, (if sh then print_packet at p fl else []) @ (if sh then map LnMessage ms else [])))
      | ELlap _ _ \<Rightarrow> (opn, [])
      | EAurp _ _ \<Rightarrow> (opn, [])
      | EDropped n \<Rightarrow> (txns_flush opn, [LnDropped n])
      | EError err \<Rightarrow> (opn, [LnRx err]))"

fun text_run :: "(open_txns \<Rightarrow> open_txns) \<Rightarrow> flags \<Rightarrow> event list \<Rightarrow> open_txns \<Rightarrow> line list list" where
  "text_run ord fl [] opn = []"
| "text_run ord fl (ev # evs) opn =
     (let (opn, lns) = print_event ord fl ev opn in lns # text_run ord fl evs opn)"

section \<open>The flags only hide\<close>

text \<open>An event that the filter leaves out.\<close>

definition hidden :: "flags \<Rightarrow> event \<Rightarrow> bool" where
  "hidden fl ev \<longleftrightarrow> (case ev of EPacket _ _ p \<Rightarrow> \<not> output_shows fl p | _ \<Rightarrow> False)"

definition unfiltered :: "flags \<Rightarrow> flags" where
  "unfiltered fl = fl\<lparr>out_only := [], out_hide := []\<rparr>"

lemma print_packet_unfiltered: "print_packet at p (unfiltered fl) = print_packet at p fl"
  by (simp add: print_packet_def unfiltered_def split: body.split ddp_body.split)

lemma shows_unfiltered: "output_shows (unfiltered fl) p"
  by (simp add: output_shows_def unfiltered_def Let_def)

lemma print_event_filter:
  "print_event ord fl ev opn =
     (fst (print_event ord (unfiltered fl) ev opn),
      if hidden fl ev then [] else snd (print_event ord (unfiltered fl) ev opn))"
  by (cases ev)
     (simp_all add: print_event_def hidden_def print_packet_unfiltered shows_unfiltered case_prod_beta Let_def)

text \<open>
  Filtering never breaks a transaction.  With protocols picked out or hidden, the blocks printed are those of an
  unfiltered run with the hidden packets' blocks left empty: every message still completes where it
  did, and is printed exactly when the packet that completed it is shown.
\<close>

theorem filter_only_hides:
  "text_run ord fl evs opn
   = map2 (\<lambda>ev block. if hidden fl ev then [] else block) evs (text_run ord (unfiltered fl) evs opn)"
proof (induction evs arbitrary: opn)
  case (Cons ev evs)
  show ?case
    using Cons.IH print_event_filter [of ord fl ev opn] by (simp add: case_prod_beta Let_def)
qed simp

text \<open>With \<open>--only\<close> exactly the named protocols are shown, otherwise all but the hidden ones.\<close>

lemma output_shows_only: "out_only fl \<noteq> [] \<Longrightarrow> output_shows fl p \<longleftrightarrow> proto_of p \<in> set (out_only fl)"
  by (simp add: output_shows_def Let_def)

lemma rtmp_types: "rtmp_ddp_type r = 1 \<or> rtmp_ddp_type r = 5"
  by (cases r) (simp_all add: DDP_RTMP_DATA_def DDP_RTMP_REQ_def)

text \<open>What the protocol flags name is the packet's own DDP type, whether or not its body was understood.\<close>

lemma proto_of_body: "pk_body p = BDdp d b \<Longrightarrow> d_typ d = body_typ b \<Longrightarrow> b \<noteq> BUnknownDdp \<Longrightarrow>
   proto_of p = (case b of BAtp _ \<Rightarrow> PAtp | BRtmp _ \<Rightarrow> PRtmp | BAep _ \<Rightarrow> PAep | BNbp _ \<Rightarrow> PNbp | BZip _ \<Rightarrow> PZip
     | BUnknownDdp \<Rightarrow> POther)"
  using rtmp_types
  by (cases b) (auto simp: proto_of_def DDP_ATP_def DDP_AEP_def DDP_NBP_def DDP_ZIP_def)

end
