(* ===== verification/Commands.thy ===== *)
theory Commands
  imports Node_Questions Monitor Config_Properties
begin

text \<open>
  The active side of the command line: what \<open>src/src/main.rs\<close> does with a parsed command, the addresses
  and names it takes, and the node commands from the claim of an address to the lines they print.  What
  the argument parser delivers is the record \<open>cli\<close>.  A line keeps the value whose \<open>Display\<close> it prints.
\<close>

section \<open>Addresses and names\<close>

text \<open>\<open>str::parse::<u8>\<close>.\<close>

definition parse_u8 :: "rstring \<Rightarrow> u8 option" where
  "parse_u8 s =
     (let ds = (case s of [] \<Rightarrow> [] | c # cs \<Rightarrow> if c = 43 then cs else s)
      in if ds = [] then None else map_option word_of_nat (read_digits 255 0 ds))"

definition parse_addr :: "rstring \<Rightarrow> addr option" where
  "parse_addr s =
     do {
       (net, node) \<leftarrow> split_once 46 s;
       net \<leftarrow> parse_u16 net;
       node \<leftarrow> parse_u8 node;
       if node = 0 then None else Some (mk_addr net node) }"

definition addr_text :: "addr \<Rightarrow> rstring" where
  "addr_text a = decimal (unat (a_net a)) @ [46] @ decimal (unat (a_node a))"

datatype ping_target = AtAddr addr | Named rstring rstring "rstring option"

definition parse_target :: "rstring \<Rightarrow> ping_target option" where
  "parse_target s =
     (if 58 \<notin> set s \<and> 64 \<notin> set s then map_option AtAddr (parse_addr s)
      else
        let (name, zone) = (case split_once 64 s of Some (n, z) \<Rightarrow> (n, Some z) | None \<Rightarrow> (s, None));
            (obj, ty) = (case split_once 58 name of Some (obj, ty) \<Rightarrow> (obj, ty) | None \<Rightarrow> (name, [61]))
        in Some (Named obj ty zone))"

section \<open>The command line\<close>

datatype command =
    CmdMonitor flags
  | CmdNodes "rstring option"
  | CmdPing rstring u16
  | CmdZones
  | CmdBridge
  | CmdRouter router_args
  | CmdPeersImport rstring "rstring option"

record cli =
  ca_interface :: "rstring option"
  ca_node :: "rstring option"
  ca_net :: "u16 option"
  ca_output :: flags
  ca_command :: "command option"

definition cli_output :: "cli \<Rightarrow> flags" where
  "cli_output c = (case ca_command c of Some (CmdMonitor fl) \<Rightarrow> fl | _ \<Rightarrow> ca_output c)"

definition conflicting_output :: "cli \<Rightarrow> bool" where
  "conflicting_output c \<longleftrightarrow> ca_command c \<noteq> None \<and> ca_output c \<noteq> flags_default"

text \<open>Where \<open>main\<close> goes, once the arguments are parsed.\<close>

datatype dispatch =
    Ambiguous
  | RunRouter router_args
  | ImportPeers rstring "rstring option"
  | RunMonitor flags
  | RunNode command

definition main_dispatch :: "cli \<Rightarrow> dispatch" where
  "main_dispatch c =
     (if conflicting_output c then Ambiguous
      else case ca_command c of
             Some (CmdRouter ra) \<Rightarrow> RunRouter ra
           | Some (CmdPeersImport file config) \<Rightarrow> ImportPeers file config
           | None \<Rightarrow> RunMonitor (cli_output c)
           | Some (CmdMonitor fl) \<Rightarrow> RunMonitor (cli_output c)
           | Some cmd \<Rightarrow> RunNode cmd)"

section \<open>The node commands\<close>

datatype command_error = IoFailed io_error | BadAddress rstring | NoAnswer rstring rstring rstring | NoReply

datatype printed =
    NobodyIn rstring
  | TupleLine nbp_tuple
  | SeveralAnswered nat nbp_tuple
  | PingLine pinged
  | PingSummary "nat \<times> nat \<times> nat \<times> (duration \<times> duration \<times> duration) option"
  | NoRouterLine
  | EmptyList addr
  | ZoneLine rstring bool

definition wanted :: "rstring option \<Rightarrow> u16 option \<Rightarrow> command_error + want" where
  "wanted node_arg net_arg =
     (case (node_arg, net_arg) of
        (Some s, _) \<Rightarrow> (case parse_addr s of Some a \<Rightarrow> Inr (Exactly a) | None \<Rightarrow> Inl (BadAddress s))
      | (None, Some net) \<Rightarrow> Inr (OnNet net)
      | (None, None) \<Rightarrow> Inr Discover)"

definition nodes_command :: "host \<Rightarrow> rstring option \<Rightarrow> running \<Rightarrow> running \<times> (command_error + printed list)" where
  "nodes_command h zone s =
     (let zone = (case zone of Some z \<Rightarrow> z | None \<Rightarrow> zone_or_star s) in
      case node_lookup h [61] [61] zone s of
        (s, Inl err) \<Rightarrow> (s, Inl (IoFailed err))
      | (s, Inr found) \<Rightarrow> (s, Inr ((if found = [] then [NobodyIn zone] else []) @ map TupleLine found)))"

definition resolve_target ::
    "host \<Rightarrow> ping_target \<Rightarrow> running \<Rightarrow> running \<times> (command_error + addr \<times> printed list)" where
  "resolve_target h tgt s =
     (case tgt of
        AtAddr a \<Rightarrow> (s, Inr (a, []))
      | Named obj ty zone \<Rightarrow>
          let zone = (case zone of Some z \<Rightarrow> z | None \<Rightarrow> zone_or_star s) in
          case node_lookup h obj ty zone s of
            (s, Inl err) \<Rightarrow> (s, Inl (IoFailed err))
          | (s, Inr found) \<Rightarrow>
              (case found of
                 [] \<Rightarrow> (s, Inl (NoAnswer obj ty zone))
               | t # _ \<Rightarrow>
                   (s, Inr (nb_addr t, if length found > 1 then [SeveralAnswered (length found) t] else []))))"

text \<open>Everything printed comes with the result, since a ping that nobody answered prints before it exits.\<close>

definition ping_command ::
    "host \<Rightarrow> rstring \<Rightarrow> u16 \<Rightarrow> running \<Rightarrow> running \<times> printed list \<times> (command_error + unit)" where
  "ping_command h arg cnt s =
     (case parse_target arg of
        None \<Rightarrow> (s, [], Inl (BadAddress arg))
      | Some tgt \<Rightarrow>
          (case resolve_target h tgt s of
             (s, Inl err) \<Rightarrow> (s, [], Inl err)
           | (s, Inr (a, notes)) \<Rightarrow>
               (case node_ping h a cnt s of
                  (s, Inl err) \<Rightarrow> (s, notes, Inl (IoFailed err))
                | (s, Inr (outs, ok)) \<Rightarrow>
                    (s, notes @ map PingLine outs @ [PingSummary (ping_statistics cnt outs)],
                     if ok then Inr () else Inl NoReply))))"

definition zones_command :: "host \<Rightarrow> running \<Rightarrow> running \<times> (command_error + printed list)" where
  "zones_command h s =
     (case nd_router s of
        None \<Rightarrow> (s, Inr [NoRouterLine])
      | Some router \<Rightarrow>
          (let ours = zone_or_star s in
           case node_zones h s of
             (s, Inl err) \<Rightarrow> (s, Inl (IoFailed err))
           | (s, Inr zones) \<Rightarrow>
               (s, Inr ((if zones = [] then [EmptyList router] else [])
                        @ map (\<lambda>z. ZoneLine z (z = ours)) zones))))"

text \<open>What a node command ends in; the bridge takes the link and what the node has learned.\<close>

datatype command_end =
    Finished "printed list"
  | Failed "printed list" command_error
  | Bridging addr amt

definition finish :: "running \<times> (command_error + printed list) \<Rightarrow> running \<times> command_end" where
  "finish r = (case r of (s, Inr lns) \<Rightarrow> (s, Finished lns) | (s, Inl err) \<Rightarrow> (s, Failed [] err))"

text \<open>
  \<open>run_node\<close>.  The LToUDP socket of a bridge is opened before anything else: \<open>lt\<close> is the error of
  opening it, if any.
\<close>

definition run_node ::
    "host \<Rightarrow> rstring option \<Rightarrow> command \<Rightarrow> rstring option \<Rightarrow> u16 option \<Rightarrow> instant \<Rightarrow> arrivals
     \<Rightarrow> (running \<times> command_end) option" where
  "run_node h lt cmd node_arg net_arg now inbox =
     (let s = node_start now inbox in
      case (cmd, lt) of
        (CmdBridge, Some err) \<Rightarrow> Some (s, Failed [] (IoFailed (NicError err)))
      | _ \<Rightarrow>
          (case wanted node_arg net_arg of
             Inl err \<Rightarrow> Some (s, Failed [] err)
           | Inr want \<Rightarrow>
               (case node_claim h want now inbox of
                  (s, Inl err) \<Rightarrow> Some (s, Failed [] (IoFailed err))
                | (s, Inr _) \<Rightarrow>
                    (case cmd of
                       CmdNodes zone \<Rightarrow> Some (finish (nodes_command h zone s))
                     | CmdPing tgt cnt \<Rightarrow>
                         (case ping_command h tgt cnt s of
                            (s, lns, Inr _) \<Rightarrow> Some (s, Finished lns)
                          | (s, lns, Inl err) \<Rightarrow> Some (s, Failed lns err))
                     | CmdZones \<Rightarrow> Some (finish (zones_command h s))
                     | CmdBridge \<Rightarrow> Some (s, Bridging (nd_addr s) (nd_amt s))
                     | _ \<Rightarrow> None))))"

section \<open>What they amount to\<close>

lemma parse_u8_decimal: "parse_u8 (decimal (unat n)) = Some n"
proof -
  obtain c cs where d: "decimal (unat n) = c # cs" using decimal_nonempty by (cases "decimal (unat n)") auto
  have "c \<noteq> 43" using decimal_chars [of c "unat n"] d by (auto simp: word_le_nat_alt)
  moreover have "unat n < 256" using unsigned_less [of n] by simp
  ultimately show ?thesis using d read_digits_decimal [of "unat n" 255] \<open>unat n < 256\<close>
    by (simp add: parse_u8_def)
qed

lemma dot_decimal: "46 \<notin> set (decimal n)"
  using decimal_chars [of 46 n] by (auto simp: word_le_nat_alt)

text \<open>An address is read back from its own text; the text has none of the punctuation of a name.\<close>

lemma parse_addr_text: "parse_addr (addr_text a) = (if a_node a = 0 then None else Some a)"
  by (simp add: parse_addr_def addr_text_def split_once_here [OF dot_decimal] parse_u16_decimal parse_u8_decimal
      mk_addr_def)

lemma addr_text_chars: "c \<in> set (addr_text a) \<Longrightarrow> c = 46 \<or> 48 \<le> c \<and> c \<le> 57"
  using decimal_chars by (fastforce simp: addr_text_def)

text \<open>A target as a user writes it, and what makes it readable: no colon or at sign where one would end a part.\<close>

fun target_text :: "ping_target \<Rightarrow> rstring" where
  "target_text (AtAddr a) = addr_text a"
| "target_text (Named obj ty None) = obj @ [58] @ ty"
| "target_text (Named obj ty (Some zone)) = obj @ [58] @ ty @ [64] @ zone"

fun target_ok :: "ping_target \<Rightarrow> bool" where
  "target_ok (AtAddr a) \<longleftrightarrow> a_node a \<noteq> 0"
| "target_ok (Named obj ty zone) \<longleftrightarrow> 58 \<notin> set obj \<and> 64 \<notin> set obj \<and> 64 \<notin> set ty"

lemma target_round_trip:
  assumes "target_ok t"
  shows "parse_target (target_text t) = Some t"
proof (cases t)
  case (AtAddr a)
  have "58 \<notin> set (addr_text a)" "64 \<notin> set (addr_text a)"
    using addr_text_chars [of 58 a] addr_text_chars [of 64 a] by (auto simp: word_le_nat_alt)
  with AtAddr assms show ?thesis by (simp add: parse_target_def parse_addr_text)
next
  case (Named obj ty zone)
  with assms have no: "58 \<notin> set obj" "64 \<notin> set (obj @ 58 # ty)" by simp_all
  have colon: "split_once 58 (obj @ 58 # ty) = Some (obj, ty)" using no(1) by (rule split_once_here)
  show ?thesis
  proof (cases zone)
    case None
    then show ?thesis
      using split_once_absent [OF no(2)] colon by (simp add: Named parse_target_def)
  next
    case (Some z)
    then show ?thesis
      using split_once_here [OF no(2), of z] colon by (simp add: Named parse_target_def)
  qed
qed

text \<open>The branches \<open>main\<close> calls unreachable are.\<close>

lemma run_node_total:
  "main_dispatch c = RunNode cmd \<Longrightarrow> run_node h lt cmd node_arg net_arg now inbox \<noteq> None"
  by (auto simp: main_dispatch_def run_node_def Let_def split: if_splits option.splits command.splits sum.splits prod.splits)

end
