(* ===== verification/Wire_Text.thy ===== *)
theory Wire_Text
  imports Commands Wire_AURP
begin

text \<open>
  What \<open>Display\<close> writes for the wire types of \<open>src/src/wire\<close>, for a reassembled message of
  \<open>src/src/session.rs\<close>, and so for the lines of the monitor.  How a hardware address is written belongs to
  the pnet crate and is the parameter \<open>ms\<close>.  The lemmas say that nothing but printable ASCII comes out,
  whatever names are in the packets.
\<close>

section \<open>Formats\<close>

definition dec :: "'a::len word \<Rightarrow> rstring" where
  "dec w = decimal (unat w)"

text \<open>\<open>{:#06x}\<close> and \<open>{:#04x}\<close> count the prefix among the digits; \<open>{:02X}\<close> has capitals.\<close>

definition hex_upper :: "rstring \<Rightarrow> rstring" where
  "hex_upper s = map (\<lambda>c. if 97 \<le> c \<and> c \<le> 122 then c - 32 else c) s"

definition hex_4 :: "u16 \<Rightarrow> rstring" where "hex_4 w = lit ''0x'' @ padded 4 (hexadecimal (unat w))"
definition hex_2 :: "u8 \<Rightarrow> rstring" where "hex_2 w = lit ''0x'' @ padded 2 (hexadecimal (unat w))"

definition hex_bytes :: "bytes \<Rightarrow> rstring" where
  "hex_bytes bs = concat (map (\<lambda>b. padded 2 (hexadecimal (unat b))) bs)"

definition signed_dec :: "i16 \<Rightarrow> rstring" where
  "signed_dec w = (if sint w < 0 then 45 # decimal (nat (- sint w)) else decimal (nat (sint w)))"

text \<open>\<open>join\<close> of the standard library.\<close>

fun join :: "rstring \<Rightarrow> rstring list \<Rightarrow> rstring" where
  "join sep [] = []"
| "join sep [s] = s"
| "join sep (s # t # ss) = s @ sep @ join sep (t # ss)"

section \<open>The link layer\<close>

definition frame_text :: "(macaddr \<Rightarrow> rstring) \<Rightarrow> frame \<Rightarrow> rstring" where
  "frame_text ms f =
     ms (f_src f) @ lit '' > '' @ ms (f_dst f) @ lit ''  ''
     @ lit (if f_proto f = DDP then ''DDP'' else if f_proto f = AARP then ''AARP'' else ''?'')
     @ lit '' ('' @ hex_4 (f_proto f) @ lit '')  phase '' @ decimal (if f_snap f then 2 else 1)
     @ lit ''  '' @ decimal (length (f_payload f)) @ lit '' bytes''"

definition llap_type_name :: "llap \<Rightarrow> string" where
  "llap_type_name l =
     (let t = l_typ l in
      if t = LLAP_SHORT_DDP then ''short-DDP'' else if t = LLAP_LONG_DDP then ''long-DDP''
      else if t = LLAP_ENQ then ''lapENQ'' else if t = LLAP_ACK then ''lapACK''
      else if t = LLAP_RTS then ''lapRTS'' else if t = LLAP_CTS then ''lapCTS'' else ''?'')"

definition llap_text :: "llap \<Rightarrow> rstring" where
  "llap_text l =
     dec (l_src l) @ lit '' > '' @ dec (l_dst l) @ lit ''  '' @ lit (llap_type_name l)
     @ lit '' ($'' @ padded 2 (hex_upper (hexadecimal (unat (l_typ l)))) @ lit '')''
     @ (if l_data l \<noteq> [] then lit ''  '' @ decimal (length (l_data l)) @ lit '' bytes'' else [])"

definition op_name :: "aarp \<Rightarrow> string" where
  "op_name a = (if aa_op a = 1 then ''request'' else if aa_op a = 2 then ''response''
     else if aa_op a = 3 then ''probe'' else ''?'')"

definition aarp_text :: "(macaddr \<Rightarrow> rstring) \<Rightarrow> aarp \<Rightarrow> rstring" where
  "aarp_text ms a =
     lit (op_name a) @ lit ''  '' @ addr_text (aa_src a) @ lit '' ('' @ ms (aa_src_hw a) @ lit '') > ''
     @ addr_text (aa_dst a) @ lit '' ('' @ ms (aa_dst_hw a) @ lit '')''"

section \<open>Datagrams and what they carry\<close>

definition ddp_type_name :: "ddp \<Rightarrow> string" where
  "ddp_type_name d =
     (let t = d_typ d in
      if t = 1 then ''RTMP-data'' else if t = DDP_NBP then ''NBP'' else if t = DDP_ATP then ''ATP''
      else if t = DDP_AEP then ''AEP'' else if t = 5 then ''RTMP-req'' else if t = DDP_ZIP then ''ZIP''
      else if t = 7 then ''ADSP'' else ''?'')"

definition ddp_text :: "ddp \<Rightarrow> rstring" where
  "ddp_text d =
     (let wire = 13 + length (d_data d) in
      addr_text (d_src d) @ lit '':'' @ dec (d_src_socket d) @ lit '' > '' @ addr_text (d_dst d) @ lit '':''
      @ dec (d_dst_socket d) @ lit ''  type '' @ dec (d_typ d) @ lit '' ('' @ lit (ddp_type_name d)
      @ lit '') hops '' @ dec (d_hops d) @ lit '' len '' @ dec (d_length d)
      @ (if unat (d_length d) \<noteq> wire then lit '' (wire '' @ decimal wire @ lit '')'' else [])
      @ (if d_checksum d = 0 then lit '' cksum none'' else lit '' cksum '' @ hex_4 (d_checksum d)))"

fun func_text :: "func \<Rightarrow> string" where
  "func_text Req = ''TReq''"
| "func_text Resp = ''TResp''"
| "func_text Rel = ''TRel''"

definition atp_text :: "atp \<Rightarrow> rstring" where
  "atp_text a =
     lit (func_text (t_func a)) @ lit '' tid '' @ dec (t_tid a)
     @ (case t_func a of
          Req \<Rightarrow> lit '' bitmap '' @ hex_2 (t_bitmap a)
            @ (if atp_xo a then lit '' XO('' @ lit (atp_trel_timeout a) @ lit '')'' else [])
        | Resp \<Rightarrow> lit '' seq '' @ dec (t_bitmap a)
            @ (if atp_eom a then lit '' EOM'' else []) @ (if atp_sts a then lit '' STS'' else [])
        | Rel \<Rightarrow> [])
     @ lit '' user '' @ hex_bytes (t_user_bytes a)"

fun echo_text :: "echo \<Rightarrow> string" where
  "echo_text EchoRequest = ''request''"
| "echo_text EchoReply = ''reply''"

definition aep_text :: "aep \<Rightarrow> rstring" where
  "aep_text a = lit (echo_text (ae_func a)) @ lit '' '' @ decimal (length (ae_data a)) @ lit '' bytes''"

definition tuple_text :: "network_tuple \<Rightarrow> rstring" where
  "tuple_text t =
     dec (fst (nt_range t)) @ (if nt_extended t then lit ''-'' @ dec (snd (nt_range t)) else [])
     @ lit '' d'' @ dec (nt_distance t)"

fun rtmp_text :: "rtmp \<Rightarrow> rstring" where
  "rtmp_text (RtmpData sender rng tuples) =
     lit ''rtmp-data from '' @ addr_text sender
     @ (case rng of Some (s, e) \<Rightarrow> lit '' range '' @ dec s @ lit ''-'' @ dec e | None \<Rightarrow> [])
     @ concat (map (\<lambda>(i, t). lit (if i = 0 then '': '' else '', '') @ tuple_text t) (enumerate 0 tuples))"
| "rtmp_text RtmpRequest = lit ''rtmp-request''"
| "rtmp_text (RtmpRdr horizon) = lit (if horizon then ''rtmp-rdr split-horizon'' else ''rtmp-rdr full'')"

fun nbp_func_text :: "nbp_func \<Rightarrow> string" where
  "nbp_func_text BrRq = ''BrRq''"
| "nbp_func_text LkUp = ''LkUp''"
| "nbp_func_text LkUpReply = ''LkUp-Reply''"
| "nbp_func_text FwdReq = ''FwdReq''"

definition nbp_tuple_text :: "nbp_tuple \<Rightarrow> rstring" where
  "nbp_tuple_text t =
     printable (nb_object t) @ lit '':'' @ printable (nb_typ t) @ lit ''@'' @ printable (nb_zone t)
     @ lit '' at '' @ addr_text (nb_addr t) @ lit '':'' @ dec (nb_socket t)
     @ (if nb_enumerator t \<noteq> 0 then lit '' #'' @ dec (nb_enumerator t) else [])"

definition nbp_text :: "nbp \<Rightarrow> rstring" where
  "nbp_text n =
     lit (nbp_func_text (n_func n)) @ lit '' id '' @ dec (n_id n)
     @ concat (map (\<lambda>t. lit ''  '' @ nbp_tuple_text t) (n_tuples n))"

fun zip_text :: "(macaddr \<Rightarrow> rstring) \<Rightarrow> zip \<Rightarrow> rstring" where
  "zip_text ms (ZipQuery nets) = lit ''query nets '' @ join (lit '', '') (map dec nets)"
| "zip_text ms (ZipReply zones tot) =
     (let list = join (lit '', '') (map (\<lambda>(n, z). dec n @ lit ''='' @ printable z) zones) in
      case tot of
        Some t \<Rightarrow> lit ''ext-reply ('' @ decimal (length zones) @ lit '' of '' @ dec t @ lit '') '' @ list
      | None \<Rightarrow> lit ''reply '' @ list)"
| "zip_text ms (ZipGetNetInfo z) = lit ''get-net-info zone '' @ printable z"
| "zip_text ms (ZipNetInfoReply fl rng z multicast default_zone) =
     lit ''net-info-reply nets '' @ dec (fst rng) @ lit ''-'' @ dec (snd rng) @ lit '' zone '' @ printable z
     @ lit '' mcast '' @ (case multicast of Some m \<Rightarrow> ms m | None \<Rightarrow> lit ''none'')
     @ (if fl AND 0x80 \<noteq> 0 then lit '' zone-invalid'' else [])
     @ (if fl AND 0x40 \<noteq> 0 then lit '' use-broadcast'' else [])
     @ (if fl AND 0x20 \<noteq> 0 then lit '' one-zone'' else [])
     @ (case default_zone of Some d \<Rightarrow> lit '' default '' @ printable d | None \<Rightarrow> [])"
| "zip_text ms ZipNotify = lit ''notify''"

fun zip_atp_text :: "zip_atp \<Rightarrow> rstring" where
  "zip_atp_text GetMyZone = lit ''get-my-zone''"
| "zip_atp_text (GetZoneList start) = lit ''get-zone-list from '' @ dec start"
| "zip_atp_text (GetLocalZones start) = lit ''get-local-zones from '' @ dec start"
| "zip_atp_text (ZReply final zones) =
     lit ''zones ('' @ lit (if final then ''last'' else ''more'') @ lit '') '' @ join (lit '', '') (map printable zones)"

section \<open>AURP\<close>

fun di_text :: "di \<Rightarrow> rstring" where
  "di_text DiNull = lit ''null''"
| "di_text (DiIp a) = ip_text a"

fun cmd_text :: "cmd \<Rightarrow> rstring" where
  "cmd_text (RiReq _) = lit ''ri-req''"
| "cmd_text (RiRsp final tuples) =
     lit ''ri-rsp'' @ lit (if final then '' last'' else []) @ lit '' '' @ decimal (length tuples) @ lit '' nets''"
| "cmd_text (RiAck szi) = lit ''ri-ack'' @ lit (if szi then '' szi'' else [])"
| "cmd_text (RiUpd events) = lit ''ri-upd '' @ decimal (length events) @ lit '' events''"
| "cmd_text (Rd code) = lit ''rd '' @ signed_dec code"
| "cmd_text (ZiReq nets) = lit ''zi-req'' @ concat (map (\<lambda>n. lit '' '' @ dec n) nets)"
| "cmd_text (ZiRsp _ zones) = lit ''zi-rsp '' @ decimal (length zones) @ lit '' zones''"
| "cmd_text (GznReq zone) = lit ''gzn-req '' @ [34] @ printable zone @ [34]"
| "cmd_text (GznRsp _ _) = lit ''gzn-rsp''"
| "cmd_text (GdzlReq start) = lit ''gdzl-req '' @ dec start"
| "cmd_text (GdzlRsp _ _ _) = lit ''gdzl-rsp''"
| "cmd_text (OpenReq sui version _) =
     lit ''open-req sui '' @ padded 4 (hexadecimal (unat sui)) @ lit '' v'' @ dec version"
| "cmd_text (OpenRsp _ rate _) =
     lit (if sint rate < 0 then ''open-rsp error '' else ''open-rsp rate '') @ signed_dec rate"
| "cmd_text Tickle = lit ''tickle''"
| "cmd_text TickleAck = lit ''tickle-ack''"

fun aurp_text :: "aurp \<Rightarrow> rstring" where
  "aurp_text (AData dh ddp) =
     lit ''aurp-data '' @ di_text (dh_src dh) @ lit '' > '' @ di_text (dh_dst dh) @ lit '' ''
     @ decimal (length ddp) @ lit '' bytes''"
| "aurp_text (ARouting dh conn seq cmd) =
     lit ''aurp '' @ di_text (dh_src dh) @ lit '' > '' @ di_text (dh_dst dh) @ lit '' conn '' @ dec conn
     @ lit '' seq '' @ dec seq @ lit '' '' @ cmd_text cmd"

section \<open>The monitor's lines\<close>

fun message_text :: "message \<Rightarrow> rstring" where
  "message_text (Unclassified t) =
     lit ''transaction '' @ dec (tk_tid (tx_key t)) @ lit '' complete, '' @ decimal (length (tx_data t))
     @ lit '' bytes, user '' @ hex_bytes (tx_user_bytes t)"
| "message_text (MZip z) = lit ''ZIP '' @ zip_atp_text z"

fun line_text :: "(macaddr \<Rightarrow> rstring) \<Rightarrow> line \<Rightarrow> rstring" where
  "line_text ms (LnFrame at f) = at @ lit '' '' @ frame_text ms f"
| "line_text ms (LnAarp a) = lit ''  '' @ aarp_text ms a"
| "line_text ms (LnDdp d) = lit ''  '' @ ddp_text d"
| "line_text ms (LnAtp a) = lit ''    '' @ atp_text a"
| "line_text ms (LnAep a) = lit ''    '' @ aep_text a"
| "line_text ms (LnRtmp r) = lit ''    '' @ rtmp_text r"
| "line_text ms (LnNbp n) = lit ''    '' @ nbp_text n"
| "line_text ms (LnZip z) = lit ''    '' @ zip_text ms z"
| "line_text ms (LnHex s) = s"
| "line_text ms (LnMessage m) = lit ''  >> '' @ message_text m"
| "line_text ms (LnDropped n) = lit ''dropped '' @ decimal n @ lit '' frames (queue full)''"
| "line_text ms (LnRx e) = lit ''rx: '' @ e"

section \<open>Nothing but printable ASCII\<close>

definition clean :: "rstring \<Rightarrow> bool" where
  "clean s \<longleftrightarrow> (\<forall>c \<in> set s. 0x20 \<le> c \<and> c < 0x7f)"

named_theorems clean_simps

lemma clean_append [clean_simps]: "clean (a @ b) \<longleftrightarrow> clean a \<and> clean b"
  by (auto simp: clean_def)

lemma clean_Nil [clean_simps]: "clean []"
  by (simp add: clean_def)

lemma clean_Cons [clean_simps]: "clean (c # s) \<longleftrightarrow> (0x20 \<le> c \<and> c < 0x7f) \<and> clean s"
  by (simp add: clean_def)

lemma clean_concat [clean_simps]: "clean (concat ss) \<longleftrightarrow> (\<forall>s \<in> set ss. clean s)"
  by (auto simp: clean_def)

lemma clean_join [clean_simps]: "clean (join sep ss)" if "clean sep" "\<forall>s \<in> set ss. clean s"
  using that by (induction sep ss rule: join.induct) (simp_all add: clean_simps)

lemma clean_lit [clean_simps]: "clean (lit s) \<longleftrightarrow> list_all (\<lambda>c. 32 \<le> (of_char c :: nat) \<and> (of_char c :: nat) < 127) s"
proof -
  have "(0x20 :: u32) \<le> word_of_nat (of_char c) \<longleftrightarrow> 32 \<le> (of_char c :: nat)"
    "(word_of_nat (of_char c) :: u32) < 0x7f \<longleftrightarrow> (of_char c :: nat) < 127" for c
  proof -
    have "(of_char c :: nat) < 2 ^ 32" by (rule order.strict_trans2 [OF nat_of_char_less_256]) simp
    then have "unat (word_of_nat (of_char c) :: u32) = of_char c"
      using unsigned_of_nat [of "of_char c", where 'a = nat and 'b = 32] by (simp add: take_bit_nat_eq_self_iff)
    then show "(0x20 :: u32) \<le> word_of_nat (of_char c) \<longleftrightarrow> 32 \<le> (of_char c :: nat)"
      "(word_of_nat (of_char c) :: u32) < 0x7f \<longleftrightarrow> (of_char c :: nat) < 127"
      by (simp_all only: word_le_nat_alt word_less_nat_alt) simp_all
  qed
  then show ?thesis by (simp add: clean_def lit_def list_all_iff)
qed

lemma clean_decimal [clean_simps]: "clean (decimal n)"
proof -
  have "0x20 \<le> c \<and> c < 0x7f" if "c \<in> set (decimal n)" for c
    using decimal_chars [OF that] by (simp add: word_le_nat_alt word_less_nat_alt)
  then show ?thesis by (simp add: clean_def)
qed

lemma clean_dec [clean_simps]: "clean (dec w)"
  by (simp add: dec_def clean_decimal)

lemma hex_digit_cases: "d < 16 \<Longrightarrow> (48 \<le> hex_digit d \<and> hex_digit d \<le> 57) \<or> (97 \<le> hex_digit d \<and> hex_digit d \<le> 102)"
proof -
  assume "d < 16"
  then have "d \<in> set [0..<16]" by simp
  moreover have "list_all (\<lambda>d. (48 \<le> hex_digit d \<and> hex_digit d \<le> 57) \<or> (97 \<le> hex_digit d \<and> hex_digit d \<le> 102)) [0..<16]"
    by (simp add: upt_rec hex_digit_def)
  ultimately show ?thesis unfolding list_all_iff by blast
qed

lemma hexadecimal_chars: "c \<in> set (hexadecimal n) \<Longrightarrow> (48 \<le> c \<and> c \<le> 57) \<or> (97 \<le> c \<and> c \<le> 102)"
proof (induction n rule: hexadecimal.induct)
  case (1 n)
  have "c \<in> set (if n < 16 then [] else hexadecimal (n div 16)) \<or> c = hex_digit (n mod 16)"
    using 1(2) by (subst (asm) hexadecimal.simps) auto
  then show ?case using 1(1) hex_digit_cases [of "n mod 16"] by (auto split: if_splits)
qed

lemma clean_hexadecimal [clean_simps]: "clean (hexadecimal n)"
  using hexadecimal_chars by (fastforce simp: clean_def word_le_nat_alt word_less_nat_alt)

lemma clean_padded [clean_simps]: "clean (padded w s) \<longleftrightarrow> clean s"
  by (auto simp: padded_def clean_def)

lemma clean_printable [clean_simps]: "clean (printable s)"
  by (auto simp: printable_def clean_def)

lemma clean_hex_upper [clean_simps]: "clean (hex_upper (hexadecimal n))"
proof -
  have "0x20 \<le> c \<and> c < 0x7f" if "c \<in> set (hex_upper (hexadecimal n))" for c
  proof -
    from that obtain e where e: "e \<in> set (hexadecimal n)" "c = (if 97 \<le> e \<and> e \<le> 122 then e - 32 else e)"
      by (auto simp: hex_upper_def)
    show ?thesis
    proof (cases "97 \<le> e \<and> e \<le> 122")
      case True
      then have "32 \<le> e" "97 \<le> unat e" "unat e \<le> 122" by (auto simp: word_le_nat_alt)
      with True e(2) show ?thesis by (simp add: word_le_nat_alt word_less_nat_alt unat_sub) arith
    next
      case False
      with e hexadecimal_chars [of e n] show ?thesis by (auto simp: word_le_nat_alt word_less_nat_alt)
    qed
  qed
  then show ?thesis by (simp add: clean_def)
qed

lemma clean_formats [clean_simps]:
  "clean (hex_4 w)" "clean (hex_2 b)" "clean (hex_bytes bs)" "clean (signed_dec i)" "clean (addr_text a)" "clean (ip_text ip)"
  by (simp_all add: hex_4_def hex_2_def hex_bytes_def signed_dec_def addr_text_def ip_text_def octets_def clean_simps)

section \<open>Every line\<close>

lemma clean_frame: "clean (frame_text ms f)" if "\<And>m. clean (ms m)"
  by (simp add: frame_text_def that clean_simps)

lemma clean_llap: "clean (llap_text l)"
  by (simp add: llap_text_def llap_type_name_def Let_def clean_simps)

lemma clean_aarp: "clean (aarp_text ms a)" if "\<And>m. clean (ms m)"
  by (simp add: aarp_text_def op_name_def that clean_simps)

lemma clean_ddp: "clean (ddp_text d)"
  by (simp add: ddp_text_def ddp_type_name_def Let_def clean_simps)

lemma clean_atp: "clean (atp_text a)"
  by (cases "t_func a") (simp_all add: atp_text_def atp_trel_timeout_def Let_def clean_simps)

lemma clean_aep: "clean (aep_text a)"
  by (cases "ae_func a") (simp_all add: aep_text_def clean_simps)

lemma clean_rtmp: "clean (rtmp_text r)"
  by (cases r) (auto simp: tuple_text_def clean_simps split: option.split)

lemma clean_nbp_tuple: "clean (nbp_tuple_text t)"
  by (simp add: nbp_tuple_text_def clean_simps)

lemma clean_nbp: "clean (nbp_text n)"
  by (cases "n_func n") (auto simp: nbp_text_def clean_nbp_tuple clean_simps)

lemma clean_zip: "clean (zip_text ms z)" if "\<And>m. clean (ms m)"
  by (cases z) (auto simp: that Let_def case_prod_beta clean_simps split: option.split)

lemma clean_zip_atp: "clean (zip_atp_text z)"
  by (cases z) (auto simp: clean_simps)

lemma clean_cmd: "clean (cmd_text c)"
  by (cases c) (auto simp: clean_simps)

lemma clean_di: "clean (di_text d)"
  by (cases d) (simp_all add: clean_simps)

lemma clean_aurp: "clean (aurp_text a)"
  by (cases a) (simp_all add: clean_di clean_cmd clean_simps)

lemma clean_message: "clean (message_text m)"
  by (cases m) (simp_all add: clean_zip_atp clean_simps)

lemma clean_timestamp: "clean (timestamp at)"
  by (simp add: timestamp_def Let_def clean_simps)

lemma clean_dump_line: "clean (dump_line i chunk)"
proof -
  have "clean (map dump_char chunk)"
  proof -
    have "0x20 \<le> dump_char b \<and> dump_char b < 0x7f" for b
    proof (cases "0x20 \<le> b \<and> b < 0x7f")
      case True
      moreover have "unat (ucast b :: u32) = unat b" using unat_u8_less [of b] by (simp add: unat_ucast)
      ultimately show ?thesis by (simp add: dump_char_def word_le_nat_alt word_less_nat_alt)
    qed (auto simp: dump_char_def)
    then show ?thesis by (simp add: clean_def)
  qed
  moreover have "clean (replicate n 32)" for n by (auto simp: clean_def)
  ultimately show ?thesis by (simp add: dump_line_def Let_def clean_simps)
qed

text \<open>A line that was printed for what came off the wire: its two literal parts are clean themselves.\<close>

definition own_text :: "line \<Rightarrow> bool" where
  "own_text ln \<longleftrightarrow> (case ln of LnFrame at _ \<Rightarrow> clean at | LnHex s \<Rightarrow> clean s | LnRx _ \<Rightarrow> False | _ \<Rightarrow> True)"

lemma own_clean: "own_text ln \<Longrightarrow> (\<And>m. clean (ms m)) \<Longrightarrow> clean (line_text ms ln)"
  by (cases ln)
     (simp_all add: own_text_def clean_frame clean_aarp clean_ddp clean_atp clean_aep clean_rtmp clean_nbp
        clean_zip clean_message clean_simps)

lemma own_dump: "ln \<in> set (dump_if hex b) \<Longrightarrow> own_text ln"
  using clean_dump_line by (auto simp: dump_if_def hexdump_def own_text_def split: if_splits)

lemma own_packet: "ln \<in> set (print_packet at p fl) \<Longrightarrow> own_text ln"
  using clean_timestamp own_dump
  by (auto simp: print_packet_def own_text_def split: if_splits body.splits ddp_body.splits)

lemma own_event:
  assumes "ln \<in> set (snd (print_event ord fl ev opn))" "\<And>e. ev \<noteq> EError e" shows "own_text ln"
  using assms own_packet
  by (cases ev) (auto simp: print_event_def Let_def own_text_def split: if_splits prod.splits)

section \<open>Property\<close>

text \<open>
  C40: Nothing that a packet carries can write to the terminal: whatever names and data are on the wire, every
  line the monitor prints for it, a reassembled message included, is printable ASCII on one line.  Only the
  text of a system error is printed as it is.
\<close>

theorem monitor_prints_clean:
  assumes "\<And>m. clean (ms m)" "\<forall>ev \<in> set evs. \<forall>e. ev \<noteq> EError e"
    and "ln \<in> set (concat (text_run ord fl evs opn))"
  shows "clean (line_text ms ln)"
proof -
  have "own_text ln" using assms(2,3)
  proof (induction evs arbitrary: opn)
    case (Cons ev evs)
    then show ?case using own_event [of ln ord fl ev opn] by (auto simp: case_prod_beta Let_def)
  qed simp
  then show ?thesis using assms(1) by (rule own_clean)
qed

definition hex_mac :: "macaddr \<Rightarrow> rstring" where
  "hex_mac m = join [58] (map (\<lambda>b. padded 2 (hexadecimal (unat b))) (mac_bytes m))"

lemma clean_hex_mac: "clean (hex_mac m)"
  unfolding hex_mac_def by (rule clean_join) (auto simp: clean_simps)

text \<open>A lookup for an object whose name would clear the screen.\<close>

definition rude_packet :: packet where
  "rude_packet =
     \<lparr>pk_frame = \<lparr>f_dst = Mac 9 0 7 255 255 255, f_src = Mac 0 5 2 170 187 204, f_proto = DDP, f_snap = True, f_payload = []\<rparr>,
      pk_body = BDdp \<lparr>d_hops = 0, d_length = 13, d_checksum = 0, d_dst = mk_addr 0 255, d_dst_socket = 2,
        d_src = mk_addr 5 9, d_src_socket = 2, d_typ = 2, d_data = []\<rparr>
        (BNbp \<lparr>n_func = LkUp, n_id = 1, n_tuples = [\<lparr>nb_addr = mk_addr 5 9, nb_socket = 2, nb_enumerator = 0,
           nb_object = [27, 91, 50, 74], nb_typ = [61], nb_zone = [42]\<rparr>]\<rparr>)\<rparr>"

theorem monitor_prints_clean_witness:
  "\<exists>n. LnNbp n \<in> set (concat (text_run id flags_default [EPacket 0 0 rude_packet] []))
     \<and> nb_object (hd (n_tuples n)) = [27, 91, 50, 74] \<and> clean (line_text hex_mac (LnNbp n))"
proof -
  let ?n = "\<lparr>n_func = LkUp, n_id = 1, n_tuples = [\<lparr>nb_addr = mk_addr 5 9, nb_socket = 2, nb_enumerator = 0,
           nb_object = [27, 91, 50, 74], nb_typ = [61], nb_zone = [42]\<rparr>]\<rparr>"
  have "LnNbp ?n \<in> set (concat (text_run id flags_default [EPacket 0 0 rude_packet] []))"
    by (simp add: print_event_def output_shows_def proto_of_def print_packet_def rude_packet_def flags_default_def
        Let_def case_prod_beta)
  from monitor_prints_clean [OF clean_hex_mac _ this] this show ?thesis by (intro exI [of _ ?n]) simp
qed

end
