(* ===== verification/Router_Dump.thy ===== *)
theory Router_Dump
  imports Wire_Text Router Routing_Properties
begin

text \<open>
  What the operator is shown: \<open>Tables::dump\<close> of \<open>src/src/router/table.rs\<close>, \<open>Peers::dump\<close> and the ping
  report of \<open>src/src/router/aurp.rs\<close>, and \<open>Router::port_dump\<close> of \<open>src/src/router/mod.rs\<close>.  The lemmas say
  that the columns of the routing table line up whatever is in the cells, and what goes wrong with a
  cell that holds a line break.
\<close>

section \<open>Padding\<close>

text \<open>\<open>{:<w}\<close> of a string, and \<open>{:w}\<close> of a number; widths count characters.\<close>

definition pad_to :: "nat \<Rightarrow> rstring \<Rightarrow> rstring" where
  "pad_to w s = s @ replicate (w - length s) 32"

definition pad_num :: "nat \<Rightarrow> 'a::len word \<Rightarrow> rstring" where
  "pad_num w n = replicate (w - length (dec n)) 32 @ dec n"

definition trim_end :: "rstring \<Rightarrow> rstring" where
  "trim_end s = rev (dropWhile is_whitespace (rev s))"

section \<open>The routing table\<close>

fun state_text :: "state \<Rightarrow> string" where
  "state_text Good = ''good''"
| "state_text Suspect = ''suspect''"
| "state_text Bad = ''bad''"
| "state_text Worst = ''worst''"

fun via :: "target \<Rightarrow> rstring" where
  "via (TPort p) = lit ''port '' @ dec p"
| "via (TPeer ip) = ip_text ip"

definition zones_cell :: "tables \<Rightarrow> route \<Rightarrow> rstring" where
  "zones_cell T r =
     (case tb_zones T (rt_start r) of
        Some (_, z) \<Rightarrow>
          if zl_names z \<noteq> [] then join (lit '', '') (zl_names z)
          else (case zl_expected z of Some n \<Rightarrow> lit ''? of '' @ decimal n | None \<Rightarrow> lit ''?'')
      | None \<Rightarrow> lit ''?'')"

definition route_cells :: "tables \<Rightarrow> route \<Rightarrow> rstring list" where
  "route_cells T r =
     (let best = (tb_best T (rt_start r) = Some (route_key r) \<and> usable (rt_state r)) in
      [ lit (if best then ''*'' else '' '') @ dec (fst (rt_range r)) @ lit ''-'' @ dec (snd (rt_range r))
          @ (if rt_extended r then [] else lit '' (n)''),
        dec (rt_distance r),
        via (rt_target r),
        if a_net (rt_next r) = 0 \<and> a_node (rt_next r) = 0 then lit ''-'' else addr_text (rt_next r),
        lit (state_text (rt_state r)),
        zones_cell T r ])"

definition dump_rows :: "tables \<Rightarrow> rstring list list" where
  "dump_rows T =
     map lit [''network'', ''dist'', ''via'', ''next'', ''state'', ''zones''] # map (route_cells T) (tb_routes T)"

definition widths :: "rstring list list \<Rightarrow> nat list" where
  "widths rows = fold (\<lambda>row ws. map2 (\<lambda>w cell. max w (length cell)) ws row) rows (replicate 6 0)"

text \<open>The last cell of a row is written as it is, every other one padded to its column and two spaces.\<close>

fun row_text :: "nat list \<Rightarrow> rstring list \<Rightarrow> rstring" where
  "row_text (w # ws) (c # d # cs) = pad_to w c @ [32, 32] @ row_text ws (d # cs)"
| "row_text _ [c] = c"
| "row_text _ _ = []"

definition tables_dump :: "tables \<Rightarrow> rstring" where
  "tables_dump T =
     (let rows = dump_rows T; ws = widths rows in concat (map (\<lambda>row. row_text ws row @ [10]) rows))"

section \<open>Peers and ports\<close>

fun receiver_text :: "receiver \<Rightarrow> string" where
  "receiver_text RUnconnected = ''unconnected''"
| "receiver_text RWaitOpenRsp = ''wait open-rsp''"
| "receiver_text RWaitRiRsp = ''wait ri-rsp''"
| "receiver_text RConnected = ''connected''"
| "receiver_text RWaitTickleAck = ''wait tickle-ack''"

fun sender_text :: "sender \<Rightarrow> string" where
  "sender_text SUnconnected = ''unconnected''"
| "sender_text SConnected = ''connected''"
| "sender_text SWaitRiRspAck = ''wait ri-rsp ack''"
| "sender_text SWaitRiUpdAck = ''wait ri-upd ack''"
| "sender_text SWaitRdAck = ''wait rd ack''"

text \<open>
  The two states are written with \<open>write_str\<close>, which takes no notice of the width in the format, so
  they are not padded; an address is.
\<close>

definition peer_line :: "instant \<Rightarrow> peer \<Rightarrow> rstring" where
  "peer_line now p =
     pad_to 20 (case pe_configured p of Some name \<Rightarrow> name | None \<Rightarrow> lit ''-'') @ lit ''  ''
     @ pad_to 15 (ip_text (pe_addr p)) @ lit ''  recv '' @ lit (receiver_text (pe_receiver p))
     @ lit '' conn '' @ pad_num 5 (pe_conn_local p) @ lit '' next seq '' @ pad_num 5 (pe_seq_recv p)
     @ lit ''  send '' @ lit (sender_text (pe_sender p))
     @ lit '' conn '' @ pad_num 5 (pe_conn_remote p) @ lit '' seq '' @ pad_num 5 (pe_seq_send p)
     @ lit ''  '' @ decimal (length (pe_pending p)) @ lit '' pending  heard ''
     @ decimal (since now (pe_last_heard p) div secs 1) @ lit ''s ago''"

definition peers_dump :: "instant \<Rightarrow> peers \<Rightarrow> rstring" where
  "peers_dump now ps =
     concat (map (\<lambda>name. if \<exists>(_, p) \<in> set (ps_peers ps). pe_configured p = Some name then []
                         else pad_to 20 name @ lit ''  unresolved'' @ [10]) (ps_configured ps))
     @ concat (map (\<lambda>(_, p). peer_line now p @ [10]) (ps_peers ps))"

fun ping_text :: "ping_result \<Rightarrow> rstring" where
  "ping_text (PingMs rtt) = decimal (rtt div millis 1) @ lit '' ms''"
| "ping_text PingNoReply = lit ''no reply in '' @ decimal (PING_GRACE div secs 1) @ lit '' s''"
| "ping_text PingBlank = lit ''-''"

definition ping_line :: "rstring \<Rightarrow> rstring \<Rightarrow> rstring \<Rightarrow> rstring \<Rightarrow> rstring" where
  "ping_line name addr state res =
     pad_to 25 name @ lit ''  '' @ pad_to 15 addr @ lit ''  '' @ pad_to 15 state @ lit ''  '' @ res @ [10]"

definition ping_row_text :: "ping_row \<Rightarrow> rstring" where
  "ping_row_text row =
     (case row of (name, found) \<Rightarrow>
        let name = (case name of Some n \<Rightarrow> n | None \<Rightarrow> lit ''-'') in
        case found of
          None \<Rightarrow> ping_line name (lit ''-'') (lit ''unresolved'') (lit ''-'')
        | Some (ip, rc, res) \<Rightarrow> ping_line name (ip_text ip) (lit (receiver_text rc)) (ping_text res))"

definition ping_report_text :: "ping_row list \<Rightarrow> rstring" where
  "ping_report_text rows =
     ping_line (lit ''peer'') (lit ''address'') (lit ''state'') (lit ''ping'') @ concat (map ping_row_text rows)"

definition port_line :: "port \<Rightarrow> rstring" where
  "port_line p =
     lit ''port '' @ pad_to 2 (dec (p_id p)) @ lit '' ''
     @ pad_to 9 (lit (case p_kind p of KEther _ \<Rightarrow> ''ethertalk'' | KLtoudp \<Rightarrow> ''ltoudp'' | KTashtalk \<Rightarrow> ''tashtalk''))
     @ lit ''  '' @ pad_to 20 (p_name p) @ lit ''  '' @ dec (fst (p_range p)) @ lit ''-'' @ dec (snd (p_range p))
     @ lit ''  node '' @ pad_to 8 (case p_node p of Some n \<Rightarrow> dec n | None \<Rightarrow> lit ''claiming'')
     @ lit ''  '' @ join (lit '', '') (p_zones p) @ [10]"

text \<open>The text behind \<open>LogDump\<close>.\<close>

definition router_dump :: "instant \<Rightarrow> router \<Rightarrow> rstring" where
  "router_dump now r =
     [10] @ trim_end (tables_dump (r_tables r)) @ [10] @ trim_end (peers_dump now (r_peers r)) @ [10]
     @ trim_end (concat (map port_line (r_ports r)))"

section \<open>Columns\<close>

text \<open>Where column \<open>i\<close> begins.\<close>

definition column :: "nat list \<Rightarrow> nat \<Rightarrow> nat" where
  "column ws i = sum_list (map (\<lambda>w. w + 2) (take i ws))"

lemma column_Suc [simp]: "column (w # ws) (Suc i) = w + 2 + column ws i"
  by (simp add: column_def)

lemma column_0 [simp]: "column ws 0 = 0"
  by (simp add: column_def)

lemma row_skip:
  assumes "length c \<le> w"
  shows "drop (w + 2 + k) (row_text (w # ws) (c # d # cs)) = drop k (row_text ws (d # cs))"
proof -
  have "length (pad_to w c @ [32, 32]) = w + 2" using assms by (simp add: pad_to_def)
  then show ?thesis using drop_append [of "w + 2 + k" "pad_to w c @ [32, 32]" "row_text ws (d # cs)"] by simp
qed

lemma row_cell:
  assumes "list_all2 (\<lambda>w c. length c \<le> w) ws row" "i < length row"
  shows "take (length (row ! i)) (drop (column ws i) (row_text ws row)) = row ! i
    \<and> (Suc i < length row \<longrightarrow>
      drop (column ws i + length (row ! i)) (row_text ws row)
      = replicate (ws ! i - length (row ! i) + 2) 32 @ drop (column ws (Suc i)) (row_text ws row))"
  using assms
proof (induction ws row arbitrary: i rule: row_text.induct)
  case (1 w ws c d cs)
  then have w: "length c \<le> w" by simp
  show ?case
  proof (cases i)
    case 0
    have "drop (length c) (row_text (w # ws) (c # d # cs))
        = replicate (w - length c + 2) 32 @ row_text ws (d # cs)"
      by (simp add: pad_to_def numeral_2_eq_2 replicate_app_Cons_same)
    with 0 row_skip [OF w, of 0 ws d cs] show ?thesis
      by (simp add: pad_to_def del: row_text.simps) (simp add: pad_to_def)
  next
    case (Suc j)
    have col: "column (w # ws) (Suc j) = w + 2 + column ws j"
      "column (w # ws) (Suc (Suc j)) = w + 2 + column ws (Suc j)" by simp_all
    from 1 Suc have "take (length ((d # cs) ! j)) (drop (column ws j) (row_text ws (d # cs))) = (d # cs) ! j
      \<and> (Suc j < length (d # cs) \<longrightarrow> drop (column ws j + length ((d # cs) ! j)) (row_text ws (d # cs))
        = replicate (ws ! j - length ((d # cs) ! j) + 2) 32 @ drop (column ws (Suc j)) (row_text ws (d # cs)))"
      by simp
    then show ?thesis unfolding Suc nth_Cons_Suc col add.assoc [of "w + 2" "column ws j"] row_skip [OF w] by simp
  qed
qed simp_all

lemma widths_fold:
  assumes "\<forall>row \<in> set rows. length row = n" "length ws = n"
  shows "length (fold (\<lambda>row ws. map2 (\<lambda>w cell. max w (length cell)) ws row) rows ws) = n
    \<and> (\<forall>i < n. ws ! i \<le> fold (\<lambda>row ws. map2 (\<lambda>w cell. max w (length cell)) ws row) rows ws ! i
        \<and> (\<forall>row \<in> set rows. length (row ! i) \<le> fold (\<lambda>row ws. map2 (\<lambda>w cell. max w (length cell)) ws row) rows ws ! i))"
  using assms
proof (induction rows arbitrary: ws)
  case (Cons row rows)
  let ?ws = "map2 (\<lambda>w cell. max w (length cell)) ws row"
  have n: "length ?ws = n" using Cons.prems by simp
  have at: "?ws ! i = max (ws ! i) (length (row ! i))" if "i < n" for i using that Cons.prems by simp
  have "\<forall>row \<in> set rows. length row = n" using Cons.prems(1) by simp
  from Cons.IH [OF this n] at show ?case by auto
qed simp

lemma widths_fit:
  assumes "\<forall>row \<in> set rows. length row = 6" "row \<in> set rows"
  shows "list_all2 (\<lambda>w c. length c \<le> w) (widths rows) row"
  using widths_fold [OF assms(1), of "replicate 6 0"] assms by (simp add: widths_def list_all2_conv_all_nth)

lemma dump_rows_six: "row \<in> set (dump_rows T) \<Longrightarrow> length row = 6"
  by (auto simp: dump_rows_def route_cells_def Let_def)

section \<open>Properties\<close>

text \<open>
  The routing table is printed in columns: whatever the routes and the zone lists, every line has each of its
  six cells whole at the column's place, which is the same for all lines, and at least two spaces before the
  next.  The place of a column leaves room for the longest of its cells.
\<close>

theorem dump_in_columns:
  fixes T :: tables
  defines "ws \<equiv> widths (dump_rows T)"
  assumes "row \<in> set (dump_rows T)" "i < 6"
  shows "take (length (row ! i)) (drop (column ws i) (row_text ws row)) = row ! i
    \<and> (i < 5 \<longrightarrow> column ws i + length (row ! i) + 2 \<le> column ws (Suc i)
         \<and> take (column ws (Suc i) - (column ws i + length (row ! i)))
              (drop (column ws i + length (row ! i)) (row_text ws row))
           = replicate (column ws (Suc i) - (column ws i + length (row ! i))) 32)"
proof -
  have six: "\<forall>row \<in> set (dump_rows T). length row = 6" using dump_rows_six by blast
  note fit = widths_fit [OF six assms(2), folded ws_def]
  have len: "length row = 6" "length ws = 6" using six assms(2) list_all2_lengthD [OF fit] by auto
  have le: "length (row ! i) \<le> ws ! i" using fit assms(3) len by (auto simp: list_all2_conv_all_nth)
  have next_col: "column ws (Suc i) = column ws i + ws ! i + 2"
    using assms(3) len by (simp add: column_def take_Suc_conv_app_nth)
  then have gap: "column ws (Suc i) - (column ws i + length (row ! i)) = ws ! i - length (row ! i) + 2" using le by simp
  have take: "take n (replicate n x @ zs) = replicate n x" for n and x :: rchar and zs by simp
  from row_cell [OF fit, of i] assms(3) len le show ?thesis unfolding gap by (auto simp: next_col take simp del: replicate_Suc add_2_eq_Suc')
qed

definition one_route :: tables where
  "one_route = add_port 0 (5, 9) True [lit ''Home''] 0 tables_new"

theorem dump_in_columns_witness:
  "take 4 (drop (column (widths (dump_rows one_route)) 5)
     (row_text (widths (dump_rows one_route)) (dump_rows one_route ! 1))) = lit ''Home''"
proof -
  have r: "dump_rows one_route ! 1 \<in> set (dump_rows one_route)"
    by (simp add: dump_rows_def one_route_def add_port_def tables_new_def)
  have c: "dump_rows one_route ! 1 ! 5 = lit ''Home''"
    by (simp add: dump_rows_def one_route_def add_port_def tables_new_def route_cells_def zones_cell_def Let_def
        numeral_eq_Suc)
  have "length (lit ''Home'') = 4" by (simp add: lit_def)
  with dump_in_columns [OF r, of 5] c show ?thesis by simp
qed

section \<open>A name is not made printable here\<close>

text \<open>
  The doc comment on \<open>pstring\<close> says that \<open>printable\<close> is what a dump shows, and so it is for the monitor;
  but this dump joins the names of a zone list as they came off the wire.
\<close>

lemma row_text_last: "ws \<noteq> [] \<Longrightarrow> length ws = length row \<Longrightarrow> \<exists>pre. row_text ws row = pre @ last row"
proof (induction ws row rule: row_text.induct)
  case (1 w ws c d cs)
  then show ?case by (cases ws) fastforce+
qed auto

lemma split_on_piece: "c \<notin> set x \<Longrightarrow> x \<in> set (tl (split_on c (a @ [c] @ x @ [c] @ b)))"
proof (induction a)
  case Nil
  then show ?case by (simp add: split_on_here)
next
  case (Cons y a)
  then show ?case by (auto split: list.split dest: list.set_sel(2) [OF split_on_nonempty])
qed

definition forged_row :: rstring where
  "forged_row = lit ''*5-5  0  port 0  -  good  A''"

text \<open>A router two ports away: our own network 3, the neighbour's network 9, and the zone it gives for it.\<close>

definition told_tables :: tables where
  "told_tables =
     fst (add_zones 9 [10 # forged_row] (Some 1)
       (fst (learn \<lparr>nt_range = (9, 9), nt_extended = True, nt_distance = 0\<rparr> (TPort 0) (mk_addr 3 7) 0
         (add_port 0 (3, 3) True [lit ''Home''] 0 tables_new))))"

lemma told_tables_fields:
  "map rt_start (tb_routes told_tables) = [3, 9]"
  "tb_zones told_tables 9 = Some (9, \<lparr>zl_names = [10 # forged_row], zl_expected = Some 1\<rparr>)"
  by (simp_all add: told_tables_def table_eval add_zones_def first_with_start_def zl_default_def Let_def case_prod_beta)

lemma told_tables_reachable: "table_reachable told_tables"
proof -
  have "port_fits (3, 3) tables_new" by (simp add: port_fits_def range_ok_def tables_new_def)
  then have "table_reachable (add_port 0 (3, 3) True [lit ''Home''] 0 tables_new)"
    by (rule table_reachable.port [OF table_reachable.new])
  from table_reachable.step [OF table_reachable.step [OF this table_step.learn] table_step.add_zones]
  show ?thesis unfolding told_tables_def by (simp add: range_ok_def)
qed

text \<open>
  A neighbour writes the operator's routing table: a zone name it gives, with a line break in it, comes out of
  the dump as a line of its own that reads like a route to a network nobody knows.
\<close>

theorem zone_name_forges_line:
  "table_reachable told_tables \<and> 5 \<notin> set (map rt_start (tb_routes told_tables))
   \<and> forged_row \<in> set (split_on 10 (tables_dump told_tables)) \<and> \<not> clean (10 # forged_row)"
proof -
  obtain r s where rs: "tb_routes told_tables = [s, r]" "rt_start r = 9"
    using told_tables_fields(1) by (auto simp: map_eq_Cons_conv)
  let ?rows = "dump_rows told_tables" and ?row = "route_cells told_tables r"
  have rows: "?rows = butlast ?rows @ [?row]" by (simp add: dump_rows_def rs(1))
  have six: "\<forall>row \<in> set ?rows. length row = 6" using dump_rows_six by blast
  have "?row \<in> set ?rows" by (simp add: dump_rows_def rs(1))
  from widths_fit [OF six this] have len: "length (widths ?rows) = length ?row" by (rule list_all2_lengthD)
  have ne: "widths ?rows \<noteq> []" using len by (auto simp: route_cells_def Let_def)
  have "last ?row = 10 # forged_row"
    by (simp add: route_cells_def Let_def zones_cell_def rs(2) told_tables_fields(2))
  with row_text_last [OF ne len] obtain pre where "row_text (widths ?rows) ?row = pre @ 10 # forged_row" by auto
  then have "tables_dump told_tables
      = (concat (map (\<lambda>row. row_text (widths ?rows) row @ [10]) (butlast ?rows)) @ pre) @ [10] @ forged_row @ [10] @ []"
    unfolding tables_dump_def Let_def by (subst (2) rows) simp
  moreover have "10 \<notin> set forged_row" by (simp add: forged_row_def lit_def)
  ultimately have "forged_row \<in> set (split_on 10 (tables_dump told_tables))"
    using split_on_piece [of 10 forged_row] by (metis list.set_sel(2) split_on_nonempty)
  then show ?thesis
    using told_tables_reachable told_tables_fields(1) by (simp add: clean_def)
qed

text \<open>
  The states in a peer's line are not padded, so its columns move with them: two peers that differ in nothing
  but a receiver's state have their numbers in different places.
\<close>

lemma peer_columns_move:
  assumes "pe_receiver p = RConnected"
  shows "length (peer_line now (p\<lparr>pe_receiver := RUnconnected\<rparr>)) = length (peer_line now p) + 2"
  using assms by (simp add: peer_line_def lit_def)

end
