(* ===== verification/Bridge.thy ===== *)
theory Bridge
  imports Node Wire_LLAP
begin

text \<open>
  \<open>src/src/bridge.rs\<close>: the bridge between an EtherTalk cable and a LocalTalk link, one network with one
  space of node IDs.  \<open>bridge_step\<close> takes what arrived and the time, and returns what to send; the loop
  around it is I/O.  The iteration order of the table of questions is the parameter \<open>order\<close>.
\<close>

section \<open>Data\<close>

definition ENTRY_TTL :: duration where "ENTRY_TTL = secs 30"
definition QUERY_TIMEOUT :: duration where "QUERY_TIMEOUT = secs 2"

datatype side = SEther macaddr | SLocal

datatype link_asked = AskEther | AskLocal | AskBoth

fun same_as :: "side \<Rightarrow> side \<Rightarrow> bool" where
  "same_as (SEther _) (SEther _) \<longleftrightarrow> True"
| "same_as SLocal SLocal \<longleftrightarrow> True"
| "same_as _ _ \<longleftrightarrow> False"

fun link_to :: "side \<Rightarrow> link_asked" where
  "link_to (SEther _) = AskEther"
| "link_to SLocal = AskLocal"

datatype debt = LocalAck | EtherResponse addr macaddr | Nothing

record entry =
  en_side :: side
  en_confirmed :: instant
  en_doubted :: bool

record pending =
  pd_asked :: instant
  pd_owed :: debt
  pd_moved_to :: "side option"

text \<open>A report keeps what it prints.\<close>

datatype bridge_report = BothSides u8 | MovedTo u8 side

datatype bridge_action = BToEther frame | BToLocal llap | BReport bridge_report

datatype bridge_in = BEther packet | BLocal llap | BTick

record bridge =
  br_addr :: addr
  br_mac :: macaddr
  br_nodes :: "u8 \<rightharpoonup> entry"
  br_amt :: amt
  br_pending :: "u8 \<rightharpoonup> pending"

abbreviation br_net :: "bridge \<Rightarrow> u16" where "br_net b \<equiv> a_net (br_addr b)"
abbreviation br_node :: "bridge \<Rightarrow> u8" where "br_node b \<equiv> a_node (br_addr b)"

definition fresh :: "side \<Rightarrow> instant \<Rightarrow> entry" where
  "fresh s now = \<lparr>en_side = s, en_confirmed = now, en_doubted = False\<rparr>"

definition bridge_new :: "addr \<Rightarrow> macaddr \<Rightarrow> amt \<Rightarrow> instant \<Rightarrow> bridge" where
  "bridge_new a hw amt now =
     \<lparr>br_addr = a, br_mac = hw,
      br_nodes = (\<lambda>n. if n = a_node a \<or> n = 0 \<or> n = 255 then None
                      else map_option (\<lambda>m. fresh (SEther m) now) (amt (mk_addr (a_net a) n))),
      br_amt = (\<lambda>x. if a_net x = a_net a then None else amt x),
      br_pending = Map.empty\<rparr>"

definition live :: "u8 \<Rightarrow> bridge \<Rightarrow> side option" where
  "live n b = (case br_nodes b n of None \<Rightarrow> None | Some e \<Rightarrow> if en_doubted e then None else Some (en_side e))"

definition believe :: "u8 \<Rightarrow> entry \<Rightarrow> bridge \<Rightarrow> bridge" where
  "believe n e b = b\<lparr>br_nodes := (br_nodes b)(n \<mapsto> e)\<rparr>"

definition forget_question :: "u8 \<Rightarrow> bridge \<Rightarrow> bridge" where
  "forget_question n b = b\<lparr>br_pending := (br_pending b)(n := None)\<rparr>"

section \<open>Asking and settling\<close>

definition aarp_to :: "bridge \<Rightarrow> macaddr \<Rightarrow> aarp \<Rightarrow> bridge_action" where
  "aarp_to b dst a = BToEther (node_frame (br_mac b) dst AARP (aarp_encode a))"

definition enquiry :: "u8 \<Rightarrow> bridge_action" where
  "enquiry n = BToLocal (llap_control n n LLAP_ENQ)"

definition bridge_ask ::
    "u8 \<Rightarrow> link_asked \<Rightarrow> debt \<Rightarrow> side option \<Rightarrow> instant \<Rightarrow> bridge \<Rightarrow> bridge \<times> bridge_action list" where
  "bridge_ask n to owed moved_to now b =
     (if n = 0 \<or> n = 255 \<or> br_pending b n \<noteq> None then (b, [])
      else
        let tgt = mk_addr (br_net b) n;
            request = aarp_request (br_addr b) (br_mac b) tgt
        in (b\<lparr>br_pending := (br_pending b)(n \<mapsto> \<lparr>pd_asked = now, pd_owed = owed, pd_moved_to = moved_to\<rparr>)\<rparr>,
            case to of
              AskEther \<Rightarrow> [aarp_to b BROADCAST_MAC (if owed = LocalAck then probe tgt (br_mac b) else request)]
            | AskLocal \<Rightarrow> [enquiry n]
            | AskBoth \<Rightarrow> [aarp_to b BROADCAST_MAC request, enquiry n]))"

definition confirm :: "u8 \<Rightarrow> side \<Rightarrow> instant \<Rightarrow> bridge \<Rightarrow> bridge \<times> bridge_action list" where
  "confirm n s now b =
     (if n = 0 \<or> n = 255 \<or> n = br_node b then (b, [])
      else case br_nodes b n of
        None \<Rightarrow> (believe n (fresh s now) b, [])
      | Some e \<Rightarrow>
          if \<not> same_as (en_side e) s then
            (if en_doubted e then (b, [])
             else bridge_ask n (link_to (en_side e)) Nothing (Some s) now
                    (forget_question n
                      (believe n \<lparr>en_side = en_side e, en_confirmed = now, en_doubted = True\<rparr> b)))
          else if (case br_pending b n of Some q \<Rightarrow> pd_moved_to q \<noteq> None | None \<Rightarrow> False) then
            (forget_question n b, [BReport (BothSides n)])
          else if en_doubted e then (b, [])
          else (believe n (fresh s now) b, []))"

definition bridge_settle :: "u8 \<Rightarrow> side \<Rightarrow> bridge \<Rightarrow> bridge \<times> bridge_action list" where
  "bridge_settle n answered b =
     (case br_pending b n of
        None \<Rightarrow> (b, [])
      | Some q \<Rightarrow>
          if pd_moved_to q \<noteq> None then (b, [])
          else case pd_owed q of
            LocalAck \<Rightarrow>
              (case answered of
                 SEther _ \<Rightarrow> (forget_question n b, [BToLocal (llap_control n n LLAP_ACK)])
               | SLocal \<Rightarrow> (b, []))
          | EtherResponse to to_mac \<Rightarrow>
              if answered = SLocal then
                let b = forget_question n b in
                if br_nodes b n \<noteq> None \<and> live n b \<noteq> Some SLocal then (b, [])
                else (b, [aarp_to b to_mac (aarp_response (mk_addr (br_net b) n) (br_mac b) to to_mac)])
              else (b, [])
          | Nothing \<Rightarrow> (b, []))"

section \<open>Expiry\<close>

definition retained :: "instant \<Rightarrow> (u8 \<rightharpoonup> entry) \<Rightarrow> (u8 \<rightharpoonup> entry)" where
  "retained now nodes =
     (\<lambda>n. case nodes n of Some e \<Rightarrow> if since now (en_confirmed e) < ENTRY_TTL then Some e else None | None \<Rightarrow> None)"

definition overdue :: "instant \<Rightarrow> bridge \<Rightarrow> u8 \<Rightarrow> bool" where
  "overdue now b n \<longleftrightarrow>
     (case br_pending b n of Some q \<Rightarrow> since now (pd_asked q) \<ge> QUERY_TIMEOUT | None \<Rightarrow> False)"

fun give_up :: "instant \<Rightarrow> u8 list \<Rightarrow> bridge \<Rightarrow> bridge \<times> bridge_action list" where
  "give_up now [] b = (b, [])"
| "give_up now (n # ns) b =
     (case br_pending b n of
        None \<Rightarrow> give_up now ns b
      | Some q \<Rightarrow>
          let b = forget_question n b;
              (b, a) = (case pd_moved_to q of
                          Some s \<Rightarrow> (believe n (fresh s now) b, [BReport (MovedTo n s)])
                        | None \<Rightarrow> (b, []));
              (b, as) = give_up now ns b
          in (b, a @ as))"

type_synonym question_order = "(u8 \<rightharpoonup> pending) \<Rightarrow> u8 list"

definition bridge_expire :: "question_order \<Rightarrow> instant \<Rightarrow> bridge \<Rightarrow> bridge \<times> bridge_action list" where
  "bridge_expire order now b =
     (let b = b\<lparr>br_nodes := retained now (br_nodes b)\<rparr>
      in give_up now (filter (overdue now b) (order (br_pending b))) b)"

section \<open>From Ethernet\<close>

definition ether_aarp :: "packet \<Rightarrow> aarp \<Rightarrow> instant \<Rightarrow> bridge \<Rightarrow> bridge \<times> bridge_action list" where
  "ether_aarp p a now b =
     (case aarp_action p (br_addr b) (br_mac b) False of
        AnswerTo to \<Rightarrow> (b, [aarp_to b to (aarp_response (br_addr b) (br_mac b) (aa_src a) to)])
      | _ \<Rightarrow>
          if aa_op a = 2 then
            (if a_net (aa_src a) \<noteq> br_net b then (b\<lparr>br_amt := (br_amt b)(aa_src a \<mapsto> aa_src_hw a)\<rparr>, [])
             else
               let s = SEther (aa_src_hw a);
                   (b, out) = confirm (a_node (aa_src a)) s now b;
                   (b, more) = bridge_settle (a_node (aa_src a)) s b
               in (b, out @ more))
          else if (aa_op a = 1 \<or> aa_op a = 3) \<and> a_net (aa_dst a) = br_net b \<and> a_node (aa_dst a) \<noteq> br_node b then
            let n = a_node (aa_dst a); owed = EtherResponse (aa_src a) (aa_src_hw a) in
            (case live n b of
               Some SLocal \<Rightarrow>
                 if aa_op a = 1
                 then (b, [aarp_to b (aa_src_hw a)
                            (aarp_response (mk_addr (br_net b) n) (br_mac b) (aa_src a) (aa_src_hw a))])
                 else bridge_ask n AskLocal owed None now b
             | Some (SEther _) \<Rightarrow> (b, [])
             | None \<Rightarrow> bridge_ask n AskLocal owed None now b)
          else (b, []))"

definition contested :: "u8 \<Rightarrow> bridge \<Rightarrow> bool" where
  "contested n b \<longleftrightarrow> live n b = None \<and> br_nodes b n \<noteq> None"

definition cross :: "packet \<Rightarrow> ddp \<Rightarrow> bridge_action list" where
  "cross p d =
     (let payload = f_payload (pk_frame p); len = length payload in
      if \<not> (13 \<le> len \<and> len \<le> 600) \<or> unat (d_length d) \<noteq> len then []
      else [BToLocal \<lparr>l_dst = a_node (d_dst d), l_src = a_node (d_src d), l_typ = LLAP_LONG_DDP, l_data = payload\<rparr>])"

text \<open>The first step says who sent it: whether to stop there, with the table brought up to date.\<close>

definition ether_source :: "packet \<Rightarrow> ddp \<Rightarrow> instant \<Rightarrow> bridge \<Rightarrow> bridge \<times> bridge_action list \<times> bool" where
  "ether_source p d now b =
     (if a_net (d_src d) = br_net b then
        let (b, out) = confirm (a_node (d_src d)) (SEther (f_src (pk_frame p))) now b
        in (b, out, contested (a_node (d_src d)) b)
      else (b\<lparr>br_amt := (br_amt b)(d_src d \<mapsto> f_src (pk_frame p))\<rparr>, [], False))"

definition ether_ddp :: "packet \<Rightarrow> ddp \<Rightarrow> instant \<Rightarrow> bridge \<Rightarrow> bridge \<times> bridge_action list" where
  "ether_ddp p d now b =
     (let (b, out, stop) = ether_source p d now b; n = a_node (d_dst d) in
      if stop then (b, out)
      else if d_dst d = br_addr b then (b, out)
      else if a_net (d_dst d) \<noteq> br_net b \<and> n \<noteq> 255 then (b, out)
      else if n = 255 then (b, out @ cross p d)
      else case live n b of
        Some SLocal \<Rightarrow> (b, out @ cross p d)
      | Some (SEther _) \<Rightarrow> (b, out)
      | None \<Rightarrow>
          if br_nodes b n \<noteq> None then (b, out)
          else (let (b, q) = bridge_ask n AskBoth Nothing None now b in (b, out @ cross p d @ q)))"

definition on_ether :: "packet \<Rightarrow> instant \<Rightarrow> bridge \<Rightarrow> bridge \<times> bridge_action list" where
  "on_ether p now b =
     (if f_src (pk_frame p) = br_mac b \<or> \<not> f_snap (pk_frame p) then (b, [])
      else case pk_body p of
        BAarp a \<Rightarrow> ether_aarp p a now b
      | BDdp d _ \<Rightarrow> ether_ddp p d now b
      | BUnknown \<Rightarrow> (b, []))"

section \<open>From LocalTalk\<close>

definition lifted_local :: "llap \<Rightarrow> bridge \<Rightarrow> (addr \<times> bytes) option" where
  "lifted_local l b =
     (if l_typ l = LLAP_SHORT_DDP
      then map_option (\<lambda>d. (d_dst d, ddp_encode d)) (ddp_from_short (l_data l) (br_net b) (l_dst l) (l_src l))
      else map_option (\<lambda>d. (d_dst d, l_data l)) (ddp_parse (l_data l)))"

definition ether_dest :: "llap \<Rightarrow> addr \<Rightarrow> bridge \<Rightarrow> macaddr option" where
  "ether_dest l dst b =
     (if l_dst l = 255 \<or> a_node dst = 255 then Some BROADCAST_MAC
      else if a_net dst = br_net b then
        (case live (a_node dst) b of
           Some (SEther m) \<Rightarrow> Some m
         | Some SLocal \<Rightarrow> None
         | None \<Rightarrow> Some BROADCAST_MAC)
      else Some (mac_for (br_amt b) dst))"

definition local_ddp :: "llap \<Rightarrow> instant \<Rightarrow> bridge \<Rightarrow> bridge \<times> bridge_action list" where
  "local_ddp l now b =
     (let (b, out) = confirm (l_src l) SLocal now b in
      if contested (l_src l) b then (b, out)
      else case lifted_local l b of
        None \<Rightarrow> (b, out)
      | Some (dst, bytes) \<Rightarrow>
          (case ether_dest l dst b of
             Some m \<Rightarrow> (b, out @ [BToEther (node_frame (br_mac b) m DDP bytes)])
           | None \<Rightarrow> (b, out)))"

definition on_local :: "llap \<Rightarrow> instant \<Rightarrow> bridge \<Rightarrow> bridge \<times> bridge_action list" where
  "on_local l now b =
     (if l_typ l = LLAP_SHORT_DDP \<or> l_typ l = LLAP_LONG_DDP then local_ddp l now b
      else if l_typ l = LLAP_ENQ \<and> l_dst l = br_node b then (b, [BToLocal (llap_control (l_dst l) (l_dst l) LLAP_ACK)])
      else if l_typ l = LLAP_ENQ then bridge_ask (l_dst l) AskEther LocalAck None now b
      else if l_typ l = LLAP_ACK then
        let (b, out) = confirm (l_src l) SLocal now b; (b, more) = bridge_settle (l_src l) SLocal b in (b, out @ more)
      else (b, []))"

section \<open>One step\<close>

definition bridge_step :: "question_order \<Rightarrow> bridge_in \<Rightarrow> instant \<Rightarrow> bridge \<Rightarrow> bridge \<times> bridge_action list" where
  "bridge_step order input now b =
     (let (b, out) = bridge_expire order now b;
          (b, more) = (case input of
                         BTick \<Rightarrow> (b, [])
                       | BEther p \<Rightarrow> on_ether p now b
                       | BLocal l \<Rightarrow> on_local l now b)
      in (b, out @ more))"

end
