(* ===== verification/Bridge_Properties.thy ===== *)
theory Bridge_Properties
  imports Bridge Port_Properties
begin

text \<open>
  What the bridge promises: a table that never names an ID that is not a node's, one open question for every
  contested ID, answers given for a node only on evidence that it is where the answer says, and
  datagrams that reach the other side as they were.
\<close>

section \<open>The table and its questions\<close>

definition real_node :: "addr \<Rightarrow> u8 \<Rightarrow> bool" where
  "real_node a n \<longleftrightarrow> n \<noteq> 0 \<and> n \<noteq> 255 \<and> n \<noteq> a_node a"

text \<open>
  What is known of one ID: its entry and the question open about it.  A question that settles a contradiction
  belongs to a doubted entry as old as it is.
\<close>

definition doubts :: "entry option \<Rightarrow> pending \<Rightarrow> side \<Rightarrow> bool" where
  "doubts x q s \<longleftrightarrow>
     (case x of
        Some e \<Rightarrow> en_doubted e \<and> \<not> same_as (en_side e) s \<and> en_confirmed e = pd_asked q
      | None \<Rightarrow> False)"

definition slot_ok :: "addr \<Rightarrow> u8 \<Rightarrow> entry option \<Rightarrow> pending option \<Rightarrow> bool" where
  "slot_ok a n x y \<longleftrightarrow> (x = None \<and> y = None \<or> real_node a n)
     \<and> (case y of Some q \<Rightarrow> (case pd_moved_to q of Some s \<Rightarrow> doubts x q s | None \<Rightarrow> True) | None \<Rightarrow> True)"

definition bridge_ok :: "bridge \<Rightarrow> bool" where
  "bridge_ok b \<longleftrightarrow> (\<forall>n. slot_ok (br_addr b) n (br_nodes b n) (br_pending b n))
     \<and> (\<forall>a. br_amt b a \<noteq> None \<longrightarrow> a_net a \<noteq> br_net b)"

text \<open>The contradiction a question is there to settle.\<close>

definition moving :: "bridge \<Rightarrow> u8 \<Rightarrow> side option" where
  "moving b n = (case br_pending b n of Some q \<Rightarrow> pd_moved_to q | None \<Rightarrow> None)"

lemma kept_fields [simp]:
  "br_addr (believe n e b) = br_addr b" "br_mac (believe n e b) = br_mac b" "br_amt (believe n e b) = br_amt b"
  "br_pending (believe n e b) = br_pending b" "br_nodes (believe n e b) = (br_nodes b)(n \<mapsto> e)"
  "br_addr (forget_question n b) = br_addr b" "br_mac (forget_question n b) = br_mac b"
  "br_amt (forget_question n b) = br_amt b" "br_nodes (forget_question n b) = br_nodes b"
  "br_pending (forget_question n b) = (br_pending b)(n := None)"
  by (simp_all add: believe_def forget_question_def)

lemma fresh_fields [simp]:
  "en_side (fresh s t) = s" "en_confirmed (fresh s t) = t" "\<not> en_doubted (fresh s t)"
  by (simp_all add: fresh_def)

lemma same_as_simps [simp]: "same_as s s" "same_as (SEther m) (SEther m')"
  by (cases s) simp_all

lemma moving_kept [simp]:
  "moving (believe k e b) n = moving b n" "moving (forget_question k b) n = (if n = k then None else moving b n)"
  "moving (b\<lparr>br_nodes := m\<rparr>) n = moving b n"
  by (simp_all add: moving_def)

text \<open>An operation on one ID keeps the invariant when it keeps it there.\<close>

lemma one_slot:
  assumes "bridge_ok b" "br_addr b' = br_addr b" "br_amt b' = br_amt b"
    and "\<And>k. k \<noteq> n \<Longrightarrow> br_nodes b' k = br_nodes b k \<and> br_pending b' k = br_pending b k"
    and "slot_ok (br_addr b) n (br_nodes b' n) (br_pending b' n)"
  shows "bridge_ok b'"
  using assms unfolding bridge_ok_def by metis

lemma slot_here: "bridge_ok b \<Longrightarrow> slot_ok (br_addr b) n (br_nodes b n) (br_pending b n)"
  by (simp add: bridge_ok_def)

lemma entry_real: "bridge_ok b \<Longrightarrow> br_nodes b n = Some e \<Longrightarrow> real_node (br_addr b) n"
  using slot_here [of b n] by (simp add: slot_ok_def)

lemma question_real: "bridge_ok b \<Longrightarrow> br_pending b n = Some q \<Longrightarrow> real_node (br_addr b) n"
  using slot_here [of b n] by (simp add: slot_ok_def)

lemma moving_doubts: "bridge_ok b \<Longrightarrow> br_pending b n = Some q \<Longrightarrow> pd_moved_to q = Some s \<Longrightarrow> doubts (br_nodes b n) q s"
  using slot_here [of b n] by (simp add: slot_ok_def)

section \<open>The operations\<close>

lemma ask_cases:
  obtains (no) "n = 0 \<or> n = 255 \<or> br_pending b n \<noteq> None" "bridge_ask n to owed m now b = (b, [])"
  | (yes) out where "n \<noteq> 0" "n \<noteq> 255" "br_pending b n = None"
      "bridge_ask n to owed m now b
        = (b\<lparr>br_pending := (br_pending b)(n \<mapsto> \<lparr>pd_asked = now, pd_owed = owed, pd_moved_to = m\<rparr>)\<rparr>, out)"
  by (cases "n = 0 \<or> n = 255 \<or> br_pending b n \<noteq> None") (auto simp: bridge_ask_def Let_def)

lemma ask_fields [simp]:
  "br_addr (fst (bridge_ask n to owed m now b)) = br_addr b"
  "br_mac (fst (bridge_ask n to owed m now b)) = br_mac b"
  "br_amt (fst (bridge_ask n to owed m now b)) = br_amt b"
  "br_nodes (fst (bridge_ask n to owed m now b)) = br_nodes b"
  by (simp_all add: bridge_ask_def Let_def)

lemma ask_ok: "bridge_ok b \<Longrightarrow> n \<noteq> br_node b \<Longrightarrow> bridge_ok (fst (bridge_ask n to owed None now b))"
proof (cases rule: ask_cases [where n = n and b = b and to = to and owed = owed and m = None and now = now])
  case (yes out)
  assume ok: "bridge_ok b" and n: "n \<noteq> br_node b"
  show ?thesis
    unfolding yes(4) fst_conv
    by (rule one_slot [OF ok, where n = n]) (use yes n in \<open>simp_all add: slot_ok_def real_node_def\<close>)
qed simp

text \<open>The branches of \<open>confirm\<close>.\<close>

lemma confirm_cases:
  obtains (unreal) "\<not> real_node (br_addr b) n" "confirm n s now b = (b, [])"
  | (new) "real_node (br_addr b) n" "br_nodes b n = None" "confirm n s now b = (believe n (fresh s now) b, [])"
  | (doubt) e out where "real_node (br_addr b) n" "br_nodes b n = Some e" "\<not> same_as (en_side e) s" "\<not> en_doubted e"
      "confirm n s now b = (b\<lparr>br_nodes := (br_nodes b)(n \<mapsto> \<lparr>en_side = en_side e, en_confirmed = now, en_doubted = True\<rparr>),
         br_pending := (br_pending b)(n \<mapsto> \<lparr>pd_asked = now, pd_owed = Nothing, pd_moved_to = Some s\<rparr>)\<rparr>, out)"
      "out = (case en_side e of SEther _ \<Rightarrow> [aarp_to b BROADCAST_MAC (aarp_request (br_addr b) (br_mac b) (mk_addr (br_net b) n))]
                | SLocal \<Rightarrow> [enquiry n])"
  | (still) e where "real_node (br_addr b) n" "br_nodes b n = Some e" "\<not> same_as (en_side e) s" "en_doubted e"
      "confirm n s now b = (b, [])"
  | (both) e s' where "real_node (br_addr b) n" "br_nodes b n = Some e" "same_as (en_side e) s" "moving b n = Some s'"
      "confirm n s now b = (forget_question n b, [BReport (BothSides n)])"
  | (aging) e where "real_node (br_addr b) n" "br_nodes b n = Some e" "same_as (en_side e) s" "moving b n = None" "en_doubted e"
      "confirm n s now b = (b, [])"
  | (again) e where "real_node (br_addr b) n" "br_nodes b n = Some e" "same_as (en_side e) s" "moving b n = None"
      "\<not> en_doubted e" "confirm n s now b = (believe n (fresh s now) b, [])"
proof (cases "real_node (br_addr b) n")
  case False
  then show thesis using unreal by (auto simp: real_node_def confirm_def)
next
  case True
  then have real: "\<not> (n = 0 \<or> n = 255 \<or> n = br_node b)" by (simp add: real_node_def)
  show thesis
  proof (cases "br_nodes b n")
    case None
    with True real new show thesis by (simp add: confirm_def)
  next
    case (Some e)
    have is_moving: "(case br_pending b n of Some q \<Rightarrow> pd_moved_to q \<noteq> None | None \<Rightarrow> False) \<longleftrightarrow> moving b n \<noteq> None"
      by (simp add: moving_def split: option.split)
    have c: "confirm n s now b =
      (if \<not> same_as (en_side e) s then
         (if en_doubted e then (b, [])
          else bridge_ask n (link_to (en_side e)) Nothing (Some s) now
                 (forget_question n (believe n \<lparr>en_side = en_side e, en_confirmed = now, en_doubted = True\<rparr> b)))
       else if moving b n \<noteq> None then (forget_question n b, [BReport (BothSides n)])
       else if en_doubted e then (b, []) else (believe n (fresh s now) b, []))"
      using real Some by (simp add: confirm_def is_moving)
    show thesis
    proof (cases "same_as (en_side e) s")
      case same: True
      show thesis
        using c same True Some both again aging by (cases "moving b n"; cases "en_doubted e") simp_all
    next
      case other: False
      show thesis
      proof (cases "en_doubted e")
        case True
        with c other \<open>real_node (br_addr b) n\<close> Some still show thesis by simp
      next
        case False
        have "confirm n s now b = (b\<lparr>br_nodes := (br_nodes b)(n \<mapsto> \<lparr>en_side = en_side e, en_confirmed = now, en_doubted = True\<rparr>),
           br_pending := (br_pending b)(n \<mapsto> \<lparr>pd_asked = now, pd_owed = Nothing, pd_moved_to = Some s\<rparr>)\<rparr>,
           case en_side e of SEther _ \<Rightarrow> [aarp_to b BROADCAST_MAC (aarp_request (br_addr b) (br_mac b) (mk_addr (br_net b) n))]
             | SLocal \<Rightarrow> [enquiry n])"
          using c other False real
          by (cases "en_side e") (simp_all add: bridge_ask_def believe_def forget_question_def aarp_to_def Let_def)
        then show thesis using doubt True Some other False by blast
      qed
    qed
  qed
qed

lemma confirm_ok: "bridge_ok b \<Longrightarrow> bridge_ok (fst (confirm n s now b))"
proof (cases rule: confirm_cases [where n = n and s = s and now = now and b = b])
  case new
  assume ok: "bridge_ok b"
  show ?thesis
    unfolding new(3) fst_conv
    by (rule one_slot [OF ok, where n = n])
       (use new slot_here [OF ok, of n] in \<open>auto simp: slot_ok_def doubts_def split: option.splits\<close>)
next
  case (doubt e out)
  assume ok: "bridge_ok b"
  show ?thesis
    unfolding doubt(5) fst_conv
    by (rule one_slot [OF ok, where n = n]) (use doubt(1-4) in \<open>simp_all add: slot_ok_def doubts_def\<close>)
next
  case (both e s')
  assume ok: "bridge_ok b"
  show ?thesis
    unfolding both(5) fst_conv
    by (rule one_slot [OF ok, where n = n]) (use both(1) in \<open>simp_all add: slot_ok_def\<close>)
next
  case (again e)
  assume ok: "bridge_ok b"
  show ?thesis
    unfolding again(6) fst_conv
    by (rule one_slot [OF ok, where n = n])
       (use again(1,4) in \<open>auto simp: slot_ok_def moving_def split: option.splits\<close>)
qed simp_all

lemma confirm_fields [simp]:
  "br_addr (fst (confirm n s now b)) = br_addr b" "br_mac (fst (confirm n s now b)) = br_mac b"
  "br_amt (fst (confirm n s now b)) = br_amt b"
  by (cases rule: confirm_cases [where n = n and s = s and now = now and b = b]; simp)+

lemma settle_ok:
  assumes ok: "bridge_ok b" shows "bridge_ok (fst (bridge_settle n s b))"
proof -
  have "bridge_ok (forget_question n b)"
    by (rule one_slot [OF ok, where n = n])
       (use slot_here [OF ok, of n] in \<open>auto simp: slot_ok_def\<close>)
  with ok show ?thesis
    by (auto simp: bridge_settle_def Let_def split: option.split debt.split side.split)
qed

section \<open>Expiry\<close>

text \<open>Giving up on one question; on an ID nobody asked about it changes nothing.\<close>

definition gave_up :: "instant \<Rightarrow> u8 \<Rightarrow> bridge \<Rightarrow> bridge" where
  "gave_up now n b = (case moving b n of
     Some s \<Rightarrow> believe n (fresh s now) (forget_question n b)
   | None \<Rightarrow> forget_question n b)"

definition move_report :: "bridge \<Rightarrow> u8 \<Rightarrow> bridge_action list" where
  "move_report b n = (case moving b n of Some s \<Rightarrow> [BReport (MovedTo n s)] | None \<Rightarrow> [])"

lemma forget_nothing: "br_pending b n = None \<Longrightarrow> forget_question n b = b"
  by (simp add: forget_question_def fun_upd_idem)

lemma give_up_Cons:
  "give_up now (n # ns) b = (fst (give_up now ns (gave_up now n b)), move_report b n @ snd (give_up now ns (gave_up now n b)))"
  by (cases "br_pending b n"; cases "moving b n")
     (simp_all add: gave_up_def move_report_def moving_def forget_nothing Let_def split: prod.split)

declare give_up.simps(2) [simp del] give_up_Cons [simp]

lemma gave_up_fields [simp]:
  "br_addr (gave_up now n b) = br_addr b" "br_mac (gave_up now n b) = br_mac b" "br_amt (gave_up now n b) = br_amt b"
  "br_pending (gave_up now n b) = (br_pending b)(n := None)"
  "br_nodes (gave_up now n b) k = (if k = n \<and> moving b n \<noteq> None then Some (fresh (the (moving b n)) now) else br_nodes b k)"
  "moving (gave_up now n b) k = (if k = n then None else moving b k)"
  by (simp_all add: gave_up_def split: option.split)

lemma give_up_fields [simp]:
  "br_addr (fst (give_up now ns b)) = br_addr b" "br_mac (fst (give_up now ns b)) = br_mac b"
  "br_amt (fst (give_up now ns b)) = br_amt b"
  by (induction ns arbitrary: b) simp_all

lemma give_up_pending: "br_pending (fst (give_up now ns b)) n = (if n \<in> set ns then None else br_pending b n)"
  by (induction ns arbitrary: b) auto

lemma give_up_nodes:
  "br_nodes (fst (give_up now ns b)) n
     = (if n \<in> set ns \<and> moving b n \<noteq> None then Some (fresh (the (moving b n)) now) else br_nodes b n)"
  by (induction ns arbitrary: b) auto

lemma give_up_reports: "x \<in> set (snd (give_up now ns b)) \<longleftrightarrow> (\<exists>n s. n \<in> set ns \<and> moving b n = Some s \<and> x = BReport (MovedTo n s))"
proof (induction ns arbitrary: b)
  case (Cons k ns)
  show ?case
  proof (cases "moving b k")
    case None
    then have "moving (gave_up now k b) = moving b" by (auto simp: fun_eq_iff)
    with None show ?thesis by (auto simp: Cons.IH move_report_def)
  next
    case (Some s)
    then show ?thesis
      by (simp add: Cons.IH move_report_def) (metis option.inject)
  qed
qed simp

text \<open>The table of questions is iterated in some order that names each of them.\<close>

definition lawful_order :: "question_order \<Rightarrow> bool" where
  "lawful_order order \<longleftrightarrow> (\<forall>m. set (order m) = dom m)"

text \<open>The whole sweep, ID by ID.\<close>

definition swept :: "instant \<Rightarrow> bridge \<Rightarrow> bridge" where
  "swept now b = b\<lparr>
     br_nodes := (\<lambda>n. if overdue now b n \<and> moving b n \<noteq> None then Some (fresh (the (moving b n)) now)
                      else retained now (br_nodes b) n),
     br_pending := (\<lambda>n. if overdue now b n then None else br_pending b n)\<rparr>"

lemma bridge_eqI:
  fixes b b' :: bridge
  assumes "br_addr b = br_addr b'" "br_mac b = br_mac b'" "br_amt b = br_amt b'"
    and "\<And>n. br_nodes b n = br_nodes b' n" "\<And>n. br_pending b n = br_pending b' n"
  shows "b = b'"
proof -
  have "br_nodes b = br_nodes b'" "br_pending b = br_pending b'" using assms(4,5) by auto
  with assms(1-3) show ?thesis by simp
qed

lemma overdue_asked: "overdue now b n \<Longrightarrow> n \<in> dom (br_pending b)"
  by (auto simp: overdue_def split: option.splits)

lemma overdue_nodes [simp]: "overdue now (b\<lparr>br_nodes := m\<rparr>) = overdue now b"
  by (simp add: overdue_def fun_eq_iff)

lemma expire_swept: "lawful_order order \<Longrightarrow> fst (bridge_expire order now b) = swept now b"
  by (rule bridge_eqI)
     (auto simp: bridge_expire_def Let_def swept_def give_up_pending give_up_nodes lawful_order_def dest: overdue_asked)

lemma expire_reports:
  "lawful_order order \<Longrightarrow> x \<in> set (snd (bridge_expire order now b))
     \<longleftrightarrow> (\<exists>n s. overdue now b n \<and> moving b n = Some s \<and> x = BReport (MovedTo n s))"
  by (auto simp: bridge_expire_def Let_def give_up_reports lawful_order_def dest: overdue_asked)

lemma swept_fields [simp]:
  "br_addr (swept now b) = br_addr b" "br_mac (swept now b) = br_mac b" "br_amt (swept now b) = br_amt b"
  "br_pending (swept now b) n = (if overdue now b n then None else br_pending b n)"
  "br_nodes (swept now b) n = (if overdue now b n \<and> moving b n \<noteq> None then Some (fresh (the (moving b n)) now)
                      else retained now (br_nodes b) n)"
  by (simp_all add: swept_def)

text \<open>A contradiction is settled, one way or the other, long before its entry ages out.\<close>

lemma retained_moving:
  assumes "bridge_ok b" "moving b n = Some s" "\<not> overdue now b n"
  shows "retained now (br_nodes b) n = br_nodes b n"
proof -
  obtain q where q: "br_pending b n = Some q" "pd_moved_to q = Some s"
    using assms(2) by (auto simp: moving_def split: option.splits)
  have "since now (pd_asked q) < QUERY_TIMEOUT" using assms(3) q by (simp add: overdue_def)
  moreover have "QUERY_TIMEOUT < ENTRY_TTL" by (simp add: QUERY_TIMEOUT_def ENTRY_TTL_def secs_def)
  ultimately show ?thesis
    using moving_doubts [OF assms(1) q] by (auto simp: retained_def doubts_def split: option.splits)
qed

lemma swept_ok:
  assumes ok: "bridge_ok b" shows "bridge_ok (swept now b)"
  unfolding bridge_ok_def
proof (intro conjI allI)
  fix n
  have here: "slot_ok (br_addr b) n (br_nodes b n) (br_pending b n)" by (rule slot_here [OF ok])
  have real: "real_node (br_addr b) n" if "br_nodes b n \<noteq> None \<or> br_pending b n \<noteq> None"
    using here that by (auto simp: slot_ok_def)
  show "slot_ok (br_addr (swept now b)) n (br_nodes (swept now b) n) (br_pending (swept now b) n)"
  proof (cases "overdue now b n")
    case True
    then show ?thesis using real by (auto simp: slot_ok_def dest: overdue_asked)
  next
    case False
    show ?thesis
    proof (cases "moving b n")
      case None
      with False real show ?thesis by (auto simp: slot_ok_def moving_def retained_def split: option.splits)
    next
      case (Some s)
      with False here show ?thesis by (simp add: retained_moving [OF ok])
    qed
  qed
next
  fix a show "br_amt (swept now b) a \<noteq> None \<longrightarrow> a_net a \<noteq> br_net (swept now b)"
    using ok by (simp add: bridge_ok_def)
qed

end
