(* ===== verification/Bridge_Refinement.thy ===== *)
theory Bridge_Refinement
  imports Bridge_Properties
begin

text \<open>
  What the bridge believes of each node ID, as a machine of four states that knows nothing of tables,
  questions or frames, and the proof that the code is that machine: whatever happens on either link, the
  bridge's belief about one ID moves exactly as the machine does, and no event about one ID touches
  another.
\<close>

section \<open>The machine\<close>

text \<open>
  Nothing known; believed on a side since an instant; heard on the other side and asking the first one;
  answered on both sides.
\<close>

datatype belief = Unknown | On side instant | Asking side side instant | Both side instant

fun hear :: "side \<Rightarrow> instant \<Rightarrow> belief \<Rightarrow> belief" where
  "hear s now Unknown = On s now"
| "hear s now (On s0 t) = (if same_as s0 s then On s now else Asking s0 s now)"
| "hear s now (Asking s0 s1 t) = (if same_as s0 s then Both s0 t else Asking s0 s1 t)"
| "hear s now (Both s0 t) = Both s0 t"

fun mature :: "instant \<Rightarrow> belief \<Rightarrow> belief" where
  "mature now Unknown = Unknown"
| "mature now (On s t) = (if since now t < ENTRY_TTL then On s t else Unknown)"
| "mature now (Asking s0 s1 t) = (if since now t < QUERY_TIMEOUT then Asking s0 s1 t else On s1 now)"
| "mature now (Both s t) = (if since now t < ENTRY_TTL then Both s t else Unknown)"

definition belief_step :: "side option \<Rightarrow> instant \<Rightarrow> belief \<Rightarrow> belief" where
  "belief_step h now B = (case h of Some s \<Rightarrow> hear s now (mature now B) | None \<Rightarrow> mature now B)"

section \<open>The abstraction\<close>

fun belief_of :: "entry option \<Rightarrow> side option \<Rightarrow> belief" where
  "belief_of None m = Unknown"
| "belief_of (Some e) None = (if en_doubted e then Both (en_side e) (en_confirmed e) else On (en_side e) (en_confirmed e))"
| "belief_of (Some e) (Some s) = (if en_doubted e then Asking (en_side e) s (en_confirmed e) else On (en_side e) (en_confirmed e))"

lemma belief_of_certain [simp]: "\<not> en_doubted e \<Longrightarrow> belief_of (Some e) m = On (en_side e) (en_confirmed e)"
  by (cases m) simp_all

definition belief :: "bridge \<Rightarrow> u8 \<Rightarrow> belief" where
  "belief b n = belief_of (br_nodes b n) (moving b n)"

text \<open>
  Which node an input proves to be on which side: the source of a datagram on our network, of an AARP
  Response, of a LocalTalk datagram or of a lapACK.  Neither our own frames nor a Probe or a Request
  prove anything.
\<close>

definition heard_from :: "addr \<Rightarrow> macaddr \<Rightarrow> bridge_in \<Rightarrow> (u8 \<times> side) option" where
  "heard_from a hw i =
     (case i of
        BTick \<Rightarrow> None
      | BLocal l \<Rightarrow> if l_typ l \<in> {LLAP_SHORT_DDP, LLAP_LONG_DDP, LLAP_ACK} then Some (l_src l, SLocal) else None
      | BEther p \<Rightarrow>
          if f_src (pk_frame p) = hw \<or> \<not> f_snap (pk_frame p) then None
          else case pk_body p of
            BAarp r \<Rightarrow> if aa_op r = 2 \<and> a_net (aa_src r) = a_net a then Some (a_node (aa_src r), SEther (aa_src_hw r)) else None
          | BDdp d _ \<Rightarrow> if a_net (d_src d) = a_net a then Some (a_node (d_src d), SEther (f_src (pk_frame p))) else None
          | BUnknown \<Rightarrow> None)"

definition heard :: "addr \<Rightarrow> macaddr \<Rightarrow> bridge_in \<Rightarrow> u8 \<Rightarrow> side option" where
  "heard a hw i n =
     (case heard_from a hw i of Some (k, s) \<Rightarrow> if k = n \<and> real_node a n then Some s else None | None \<Rightarrow> None)"

section \<open>The operations refine the machine\<close>

lemma belief_fields: "br_nodes b' n = br_nodes b n \<Longrightarrow> moving b' n = moving b n \<Longrightarrow> belief b' n = belief b n"
  by (simp add: belief_def)

lemma belief_update [simp]:
  "belief (b\<lparr>br_amt := m\<rparr>) n = belief b n"
  by (rule belief_fields) (simp_all add: moving_def)

lemma belief_ask [simp]: "belief (fst (bridge_ask k to owed None now b)) n = belief b n"
  by (cases rule: ask_cases [where n = k and b = b and to = to and owed = owed and m = None and now = now])
     (auto simp: belief_def moving_def split: option.split)

lemma belief_settle [simp]: "belief (fst (bridge_settle k s b)) n = belief b n"
  by (rule belief_fields)
     (auto simp: bridge_settle_def moving_def Let_def split: option.split debt.split side.split)

lemma belief_confirm:
  assumes ok: "bridge_ok b"
  shows "belief (fst (confirm n s now b)) k = (if k = n \<and> real_node (br_addr b) n then hear s now (belief b k) else belief b k)"
proof (cases "k = n")
  case False
  then show ?thesis
    by (cases rule: confirm_cases [where n = n and s = s and now = now and b = b])
       (auto simp: moving_def intro!: belief_fields)
next
  case k: True
  show ?thesis
  proof (cases rule: confirm_cases [where n = n and s = s and now = now and b = b])
    case new
    with k show ?thesis by (simp add: belief_def)
  next
    case (doubt e out)
    then have "moving (fst (confirm n s now b)) n = Some s" by (simp add: moving_def)
    with doubt k show ?thesis by (simp add: belief_def)
  next
    case (still e)
    have "\<not> same_as (en_side e) s'" if "moving b n = Some s'" for s'
      using that still by (auto simp: moving_def doubts_def split: option.splits dest!: moving_doubts [OF ok])
    with still k show ?thesis by (cases "moving b n") (simp_all add: belief_def)
  next
    case (both e s')
    have "en_doubted e"
      using both(2,4) by (auto simp: moving_def doubts_def split: option.splits dest!: moving_doubts [OF ok])
    with both k show ?thesis by (simp add: belief_def)
  qed (use k in \<open>auto simp: belief_def\<close>)
qed

lemma belief_swept:
  assumes ok: "bridge_ok b" shows "belief (swept now b) n = mature now (belief b n)"
proof (cases "moving b n")
  case None
  moreover have "moving (swept now b) n = None" using None by (auto simp: moving_def split: option.splits)
  ultimately show ?thesis by (cases "br_nodes b n") (auto simp: belief_def retained_def)
next
  case (Some s)
  then obtain q where q: "br_pending b n = Some q" "pd_moved_to q = Some s"
    by (auto simp: moving_def split: option.splits)
  then obtain e where e: "br_nodes b n = Some e" "en_doubted e" "en_confirmed e = pd_asked q"
    using moving_doubts [OF ok q] by (auto simp: doubts_def split: option.splits)
  have od: "overdue now b n \<longleftrightarrow> \<not> since now (pd_asked q) < QUERY_TIMEOUT" using q by (auto simp: overdue_def)
  show ?thesis
  proof (cases "overdue now b n")
    case True
    with Some e od show ?thesis by (simp add: belief_def)
  next
    case False
    then have "moving (swept now b) n = Some s" using q by (simp add: moving_def)
    with False e od Some show ?thesis
      by (simp add: belief_def retained_moving [OF ok Some False])
  qed
qed

section \<open>One input\<close>

text \<open>What is left of a step once the tables are swept.\<close>

definition on_input :: "bridge_in \<Rightarrow> instant \<Rightarrow> bridge \<Rightarrow> bridge \<times> bridge_action list" where
  "on_input i now b = (case i of BTick \<Rightarrow> (b, []) | BEther p \<Rightarrow> on_ether p now b | BLocal l \<Rightarrow> on_local l now b)"

lemma step_input:
  assumes "lawful_order order"
  shows "bridge_step order i now b = (fst (on_input i now (swept now b)), snd (bridge_expire order now b) @ snd (on_input i now (swept now b)))"
proof -
  have e: "bridge_expire order now b = (swept now b, snd (bridge_expire order now b))"
    using expire_swept [OF assms, of now b] by (metis prod.collapse)
  show ?thesis
    unfolding bridge_step_def
    by (subst e) (simp add: on_input_def Let_def split: prod.split bridge_in.split)
qed

text \<open>An AARP Response, and every other AARP packet.\<close>

lemma ether_aarp_response:
  assumes "pk_body p = BAarp a" "aa_op a = 2"
  shows "ether_aarp p a now b =
    (if a_net (aa_src a) \<noteq> br_net b then (b\<lparr>br_amt := (br_amt b)(aa_src a \<mapsto> aa_src_hw a)\<rparr>, [])
     else let n = a_node (aa_src a); s = SEther (aa_src_hw a); r = confirm n s now b; r' = bridge_settle n s (fst r)
          in (fst r', snd r @ snd r'))"
proof -
  have "aarp_action p (br_addr b) (br_mac b) False \<in> {Conflict, IgnoreAarp}"
    using assms by (simp add: aarp_action_def)
  with assms show ?thesis by (auto simp: ether_aarp_def Let_def split: prod.split)
qed

lemma ether_aarp_question:
  assumes "pk_body p = BAarp a" "aa_op a \<noteq> 2"
  obtains (own) "ether_aarp p a now b = (b, [aarp_to b (aa_src_hw a) (aarp_response (br_addr b) (br_mac b) (aa_src a) (aa_src_hw a))])"
  | (cached) "live (a_node (aa_dst a)) b = Some SLocal"
      "ether_aarp p a now b = (b, [aarp_to b (aa_src_hw a) (aarp_response (mk_addr (br_net b) (a_node (aa_dst a))) (br_mac b) (aa_src a) (aa_src_hw a))])"
  | (asked) "a_node (aa_dst a) \<noteq> br_node b"
      "ether_aarp p a now b = bridge_ask (a_node (aa_dst a)) AskLocal (EtherResponse (aa_src a) (aa_src_hw a)) None now b"
  | (idle) "ether_aarp p a now b = (b, [])"
proof -
  let ?n = "a_node (aa_dst a)"
  let ?asked = "(aa_op a = 1 \<or> aa_op a = 3) \<and> a_net (aa_dst a) = br_net b \<and> ?n \<noteq> br_node b"
  have action: "aarp_action p (br_addr b) (br_mac b) False \<in> {AnswerTo (aa_src_hw a), IgnoreAarp}"
    using assms by (auto simp: aarp_action_def)
  show thesis
  proof (cases "aarp_action p (br_addr b) (br_mac b) False = AnswerTo (aa_src_hw a)")
    case True
    then show thesis by (intro own) (simp add: ether_aarp_def)
  next
    case False
    with action have ignore: "aarp_action p (br_addr b) (br_mac b) False = IgnoreAarp" by simp
    show thesis
    proof (cases ?asked)
      case no: False
      with ignore assms(2) show thesis by (intro idle) (simp add: ether_aarp_def del: de_Morgan_conj)
    next
      case True
      with ignore assms(2) have e: "ether_aarp p a now b =
          (case live ?n b of
             Some SLocal \<Rightarrow> if aa_op a = 1
                then (b, [aarp_to b (aa_src_hw a) (aarp_response (mk_addr (br_net b) ?n) (br_mac b) (aa_src a) (aa_src_hw a))])
                else bridge_ask ?n AskLocal (EtherResponse (aa_src a) (aa_src_hw a)) None now b
           | Some (SEther _) \<Rightarrow> (b, [])
           | None \<Rightarrow> bridge_ask ?n AskLocal (EtherResponse (aa_src a) (aa_src_hw a)) None now b)"
        by (simp add: ether_aarp_def Let_def)
      show thesis
      proof (cases "live ?n b")
        case None
        with e True asked show thesis by simp
      next
        case (Some s)
        with e True asked cached idle show thesis by (cases s; cases "aa_op a = 1") simp_all
      qed
    qed
  qed
qed

text \<open>A datagram changes what is believed of its source, and may open a question about its destination.\<close>

lemma ether_source_eq:
  "ether_source p d now b =
     (if a_net (d_src d) = br_net b then
        let r = confirm (a_node (d_src d)) (SEther (f_src (pk_frame p))) now b in (fst r, snd r, contested (a_node (d_src d)) (fst r))
      else (b\<lparr>br_amt := (br_amt b)(d_src d \<mapsto> f_src (pk_frame p))\<rparr>, [], False))"
  by (simp add: ether_source_def Let_def split: prod.split)

lemma ether_source_fields [simp]:
  "br_addr (fst (ether_source p d now b)) = br_addr b" "br_mac (fst (ether_source p d now b)) = br_mac b"
  by (simp_all add: ether_source_eq Let_def)

lemma ether_ddp_cases:
  obtains (stop) "ether_ddp p d now b = (fst (ether_source p d now b), fst (snd (ether_source p d now b)))"
  | (over) "\<not> snd (snd (ether_source p d now b))"
      "a_node (d_dst d) = 255 \<or> live (a_node (d_dst d)) (fst (ether_source p d now b)) = Some SLocal"
      "ether_ddp p d now b = (fst (ether_source p d now b), fst (snd (ether_source p d now b)) @ cross p d)"
  | (wonder) r where "\<not> snd (snd (ether_source p d now b))"
      "a_node (d_dst d) \<noteq> br_node b" "br_nodes (fst (ether_source p d now b)) (a_node (d_dst d)) = None"
      "r = bridge_ask (a_node (d_dst d)) AskBoth Nothing None now (fst (ether_source p d now b))"
      "ether_ddp p d now b = (fst r, fst (snd (ether_source p d now b)) @ cross p d @ snd r)"
proof -
  obtain b1 out fin where s: "ether_source p d now b = (b1, out, fin)" by (metis prod.collapse)
  have [simp]: "br_addr b1 = br_addr b" using ether_source_fields(1) [of p d now b] by (simp add: s)
  let ?n = "a_node (d_dst d)"
  show thesis
  proof (cases "fin \<or> d_dst d = br_addr b \<or> a_net (d_dst d) \<noteq> br_net b \<and> ?n \<noteq> 255")
    case True
    then show thesis by (intro stop) (auto simp: ether_ddp_def s Let_def)
  next
    case False
    then have stay: "\<not> fin" "d_dst d \<noteq> br_addr b" "\<not> (a_net (d_dst d) \<noteq> br_net b \<and> ?n \<noteq> 255)" by simp_all
    show thesis
    proof (cases "?n = 255 \<or> live ?n b1 = Some SLocal")
      case True
      with stay show thesis by (intro over) (auto simp: ether_ddp_def s Let_def)
    next
      case False
      show thesis
      proof (cases "br_nodes b1 ?n")
        case None
        then have "live ?n b1 = None" by (simp add: live_def)
        moreover have "?n \<noteq> br_node b" using stay False addr.equality [of "d_dst d" "br_addr b"] by auto
        ultimately show thesis using stay False None
          by (intro wonder) (auto simp: ether_ddp_def s Let_def split: prod.split)
      next
        case (Some e)
        with stay False show thesis
          by (intro stop; cases "live ?n b1") (auto simp: ether_ddp_def s Let_def split: side.split)
      qed
    qed
  qed
qed

text \<open>And a packet from LocalTalk.\<close>

lemma local_ddp_fst: "fst (local_ddp l now b) = fst (confirm (l_src l) SLocal now b)"
  by (auto simp: local_ddp_def Let_def split: prod.split option.split)

lemma on_local_ddp: "l_typ l = LLAP_SHORT_DDP \<or> l_typ l = LLAP_LONG_DDP \<Longrightarrow> on_local l now b = local_ddp l now b"
  by (simp add: on_local_def)

lemma on_local_ack:
  "l_typ l = LLAP_ACK \<Longrightarrow> on_local l now b =
     (let r = confirm (l_src l) SLocal now b; r' = bridge_settle (l_src l) SLocal (fst r) in (fst r', snd r @ snd r'))"
  by (simp add: on_local_def llap_type_defs Let_def split: prod.split)

lemma on_local_enq:
  "l_typ l = LLAP_ENQ \<Longrightarrow> on_local l now b =
     (if l_dst l = br_node b then (b, [BToLocal (llap_control (l_dst l) (l_dst l) LLAP_ACK)])
      else bridge_ask (l_dst l) AskEther LocalAck None now b)"
  by (simp add: on_local_def llap_type_defs)

lemma on_local_other:
  "l_typ l \<notin> {LLAP_SHORT_DDP, LLAP_LONG_DDP, LLAP_ACK, LLAP_ENQ} \<Longrightarrow> on_local l now b = (b, [])"
  by (simp add: on_local_def)

lemma llap_types_distinct [simp]:
  "LLAP_ENQ \<noteq> LLAP_SHORT_DDP" "LLAP_ENQ \<noteq> LLAP_LONG_DDP" "LLAP_ENQ \<noteq> LLAP_ACK"
  "LLAP_ACK \<noteq> LLAP_ENQ" "LLAP_LONG_DDP \<noteq> LLAP_ACK" "LLAP_LONG_DDP \<noteq> LLAP_ENQ"
  by (simp_all add: llap_type_defs)

lemma on_local_cases:
  obtains (ddp) "l_typ l = LLAP_SHORT_DDP \<or> l_typ l = LLAP_LONG_DDP" | (enq) "l_typ l = LLAP_ENQ" | (ack) "l_typ l = LLAP_ACK"
    | (other) "l_typ l \<notin> {LLAP_SHORT_DDP, LLAP_LONG_DDP, LLAP_ACK, LLAP_ENQ}"
  by blast

section \<open>The invariant\<close>

lemma amt_ok: "bridge_ok b \<Longrightarrow> a_net a \<noteq> br_net b \<Longrightarrow> bridge_ok (b\<lparr>br_amt := (br_amt b)(a \<mapsto> m)\<rparr>)"
  by (auto simp: bridge_ok_def)

lemma source_ok: "bridge_ok b \<Longrightarrow> bridge_ok (fst (ether_source p d now b))"
  by (auto simp: ether_source_eq Let_def intro: confirm_ok amt_ok)

lemma on_ether_ok: "bridge_ok b \<Longrightarrow> bridge_ok (fst (on_ether p now b))"
proof (cases "pk_body p")
  case (BAarp a)
  assume ok: "bridge_ok b"
  have "bridge_ok (fst (ether_aarp p a now b))"
  proof (cases "aa_op a = 2")
    case True
    with BAarp ok show ?thesis by (auto simp: ether_aarp_response Let_def intro: settle_ok confirm_ok amt_ok)
  next
    case False
    with BAarp show ?thesis
      by (rule ether_aarp_question [where b = b and now = now]) (use ok in \<open>simp_all add: ask_ok\<close>)
  qed
  with BAarp ok show ?thesis by (simp add: on_ether_def)
next
  case (BDdp d x)
  assume ok: "bridge_ok b"
  have "bridge_ok (fst (ether_ddp p d now b))"
    by (rule ether_ddp_cases [where p = p and d = d and b = b and now = now])
       (use source_ok [OF ok, of p d now] in \<open>simp_all add: ask_ok\<close>)
  with BDdp ok show ?thesis by (simp add: on_ether_def)
qed (simp add: on_ether_def)

lemma on_local_ok: "bridge_ok b \<Longrightarrow> bridge_ok (fst (on_local l now b))"
  by (cases rule: on_local_cases [of l])
     (auto simp: on_local_ddp on_local_enq on_local_ack on_local_other local_ddp_fst Let_def intro: ask_ok confirm_ok settle_ok)

lemma on_input_ok: "bridge_ok b \<Longrightarrow> bridge_ok (fst (on_input i now b))"
  by (auto simp: on_input_def on_ether_ok on_local_ok split: bridge_in.split)

lemma step_ok: "lawful_order order \<Longrightarrow> bridge_ok b \<Longrightarrow> bridge_ok (fst (bridge_step order i now b))"
  by (simp add: step_input swept_ok on_input_ok)

lemma new_ok: "bridge_ok (bridge_new a hw m now)"
  by (auto simp: bridge_ok_def bridge_new_def slot_ok_def real_node_def split: option.split)

section \<open>The step refines the machine\<close>

lemma settle_fields [simp]:
  "br_addr (fst (bridge_settle n s b)) = br_addr b" "br_mac (fst (bridge_settle n s b)) = br_mac b"
  by (auto simp: bridge_settle_def Let_def split: option.split debt.split side.split)

lemma on_ether_fields [simp]:
  "br_addr (fst (on_ether p now b)) = br_addr b \<and> br_mac (fst (on_ether p now b)) = br_mac b"
proof (cases "pk_body p")
  case (BAarp a)
  show ?thesis
  proof (cases "aa_op a = 2")
    case True
    with BAarp show ?thesis by (simp add: on_ether_def ether_aarp_response Let_def)
  next
    case False
    from BAarp False show ?thesis
      by (rule ether_aarp_question [where b = b and now = now]) (simp_all add: on_ether_def BAarp)
  qed
next
  case (BDdp d x)
  show ?thesis
    by (rule ether_ddp_cases [where p = p and d = d and b = b and now = now]) (simp_all add: on_ether_def BDdp)
qed (simp add: on_ether_def)

lemma on_local_fields [simp]:
  "br_addr (fst (on_local l now b)) = br_addr b \<and> br_mac (fst (on_local l now b)) = br_mac b"
  by (cases rule: on_local_cases [of l])
     (auto simp: on_local_ddp on_local_enq on_local_ack on_local_other local_ddp_fst Let_def)

lemma on_input_fields [simp]:
  "br_addr (fst (on_input i now b)) = br_addr b" "br_mac (fst (on_input i now b)) = br_mac b"
  by (simp_all add: on_input_def split: bridge_in.split)

lemma source_belief:
  "bridge_ok b \<Longrightarrow> belief (fst (ether_source p d now b)) n
     = (if a_net (d_src d) = br_net b \<and> n = a_node (d_src d) \<and> real_node (br_addr b) n
        then hear (SEther (f_src (pk_frame p))) now (belief b n) else belief b n)"
  by (auto simp: ether_source_eq Let_def belief_confirm)

lemma on_ether_belief:
  assumes ok: "bridge_ok b"
  shows "belief (fst (on_ether p now b)) n
    = (case heard (br_addr b) (br_mac b) (BEther p) n of Some s \<Rightarrow> hear s now (belief b n) | None \<Rightarrow> belief b n)"
proof (cases "f_src (pk_frame p) = br_mac b \<or> \<not> f_snap (pk_frame p)")
  case False
  show ?thesis
  proof (cases "pk_body p")
    case (BAarp a)
    show ?thesis
    proof (cases "aa_op a = 2")
      case True
      with BAarp False show ?thesis
        by (auto simp: on_ether_def heard_def heard_from_def ether_aarp_response Let_def belief_confirm [OF ok])
    next
      case question: False
      have "belief (fst (ether_aarp p a now b)) n = belief b n"
        by (rule ether_aarp_question [OF BAarp question, where b = b and now = now]) simp_all
      with BAarp False question show ?thesis by (auto simp: on_ether_def heard_def heard_from_def)
    qed
  next
    case (BDdp d x)
    have "belief (fst (ether_ddp p d now b)) n = belief (fst (ether_source p d now b)) n"
      by (rule ether_ddp_cases [where p = p and d = d and b = b and now = now]) simp_all
    with BDdp False show ?thesis by (auto simp: on_ether_def heard_def heard_from_def source_belief [OF ok])
  qed (use False in \<open>simp add: on_ether_def heard_def heard_from_def\<close>)
qed (auto simp: on_ether_def heard_def heard_from_def)

lemma on_local_belief:
  assumes ok: "bridge_ok b"
  shows "belief (fst (on_local l now b)) n
    = (case heard (br_addr b) (br_mac b) (BLocal l) n of Some s \<Rightarrow> hear s now (belief b n) | None \<Rightarrow> belief b n)"
proof (cases rule: on_local_cases [of l])
  case ddp
  then show ?thesis by (auto simp: on_local_ddp local_ddp_fst heard_def heard_from_def belief_confirm [OF ok])
next
  case enq
  then show ?thesis by (simp add: on_local_enq heard_def heard_from_def)
next
  case ack
  then show ?thesis by (auto simp: on_local_ack Let_def heard_def heard_from_def belief_confirm [OF ok])
next
  case other
  then show ?thesis by (simp add: on_local_other heard_def heard_from_def)
qed

lemma step_belief:
  assumes "lawful_order order" "bridge_ok b"
  shows "belief (fst (bridge_step order i now b)) n = belief_step (heard (br_addr b) (br_mac b) i n) now (belief b n)"
proof -
  have ok: "bridge_ok (swept now b)" using assms(2) by (rule swept_ok)
  have m: "belief (swept now b) n = mature now (belief b n)" using assms(2) by (rule belief_swept)
  have "heard (br_addr b) (br_mac b) BTick n = None" by (simp add: heard_def heard_from_def)
  then show ?thesis
    by (cases i) (simp_all add: step_input [OF assms(1)] on_input_def on_ether_belief [OF ok] on_local_belief [OF ok] m belief_step_def
        split: option.split)
qed

section \<open>Whole runs\<close>

text \<open>A bridge in service: started on an address, then stepped on any inputs at any times.\<close>

inductive bridge_reachable :: "bridge \<Rightarrow> bool" where
  reach_new: "bridge_reachable (bridge_new a hw m now)"
| reach_step: "bridge_reachable b \<Longrightarrow> lawful_order order \<Longrightarrow> bridge_reachable (fst (bridge_step order i now b))"

lemma reachable_ok: "bridge_reachable b \<Longrightarrow> bridge_ok b"
  by (induction rule: bridge_reachable.induct) (auto intro: new_ok step_ok)

type_synonym bridge_event = "question_order \<times> bridge_in \<times> instant"

fun bridge_run :: "bridge_event list \<Rightarrow> bridge \<Rightarrow> bridge" where
  "bridge_run [] b = b"
| "bridge_run ((order, i, now) # es) b = bridge_run es (fst (bridge_step order i now b))"

definition lawful_events :: "bridge_event list \<Rightarrow> bool" where
  "lawful_events es \<longleftrightarrow> (\<forall>(order, i, now) \<in> set es. lawful_order order)"

fun belief_run :: "addr \<Rightarrow> macaddr \<Rightarrow> u8 \<Rightarrow> bridge_event list \<Rightarrow> belief \<Rightarrow> belief" where
  "belief_run a hw n [] B = B"
| "belief_run a hw n ((order, i, now) # es) B = belief_run a hw n es (belief_step (heard a hw i n) now B)"

lemma lawful_Cons [simp]: "lawful_events ((order, i, now) # es) \<longleftrightarrow> lawful_order order \<and> lawful_events es"
  by (simp add: lawful_events_def)

lemma step_fields [simp]:
  assumes "lawful_order order"
  shows "br_addr (fst (bridge_step order i now b)) = br_addr b" "br_mac (fst (bridge_step order i now b)) = br_mac b"
  by (simp_all add: step_input [OF assms])

lemma run_belief:
  "bridge_ok b \<Longrightarrow> lawful_events es \<Longrightarrow> belief (bridge_run es b) n = belief_run (br_addr b) (br_mac b) n es (belief b n)"
  by (induction es b rule: bridge_run.induct) (simp_all add: step_ok step_belief)

lemma run_ok: "bridge_ok b \<Longrightarrow> lawful_events es \<Longrightarrow> bridge_ok (bridge_run es b)"
  by (induction es b rule: bridge_run.induct) (simp_all add: step_ok)

lemma run_fields [simp]:
  "lawful_events es \<Longrightarrow> br_addr (bridge_run es b) = br_addr b \<and> br_mac (bridge_run es b) = br_mac b"
  by (induction es b rule: bridge_run.induct) simp_all

text \<open>A lawful order, for examples: the questions by their number.\<close>

definition by_number :: question_order where
  "by_number m = filter (\<lambda>n. m n \<noteq> None) (map word_of_nat [0..<256])"

lemma u8_listed: "n \<in> set (map word_of_nat [0..<256])" for n :: u8
proof -
  have "unat n < 256" using unsigned_less [of n] by simp
  then have "word_of_nat (unat n) \<in> (word_of_nat ` {0..<256} :: u8 set)" by (intro imageI) simp
  then show ?thesis by simp
qed

lemma by_number_lawful [simp]: "lawful_order by_number"
  using u8_listed by (auto simp: lawful_order_def by_number_def)

text \<open>
  The table of a bridge in service never names node 0, node 255 or the bridge's own ID; a question that
  settles a contradiction is about an entry that is doubted, on the other side, and as old as the
  question; the addresses gleaned for sending off the cable are all off the cable.
\<close>

theorem bridge_invariant:
  assumes "bridge_reachable b"
  shows "bridge_ok b"
  using assms by (rule reachable_ok)

definition a_bridge :: bridge where
  "a_bridge = bridge_new (mk_addr 6800 7) (Mac 2 0 0 0 0 1) (Map.empty(mk_addr 6800 20 \<mapsto> Mac 2 0 0 0 0 42)) 0"

definition a_datagram :: llap where
  "a_datagram = \<lparr>l_dst = 7, l_src = 20, l_typ = LLAP_LONG_DDP, l_data = []\<rparr>"

theorem bridge_invariant_witness:
  "bridge_ok (fst (bridge_step by_number (BLocal a_datagram) 5 a_bridge))"
  by (rule bridge_invariant, unfold a_bridge_def, intro reach_step reach_new by_number_lawful)

text \<open>
  C8: Refinement: over any run, whatever arrives on either link and whenever, the bridge's belief about each
  node ID moves exactly as the machine of four states does, driven only by what was heard from that node and
  by the clock.
\<close>

theorem bridge_refines:
  assumes "lawful_events es"
  shows "belief (bridge_run es (bridge_new a hw m start)) n
    = belief_run a hw n es (belief (bridge_new a hw m start) n)"
  using run_belief [OF new_ok assms] by (simp add: bridge_new_def)

theorem bridge_refines_witness:
  "belief (bridge_run [(by_number, BLocal a_datagram, 5)] a_bridge) 20
    = belief_run (mk_addr 6800 7) (Mac 2 0 0 0 0 1) 20 [(by_number, BLocal a_datagram, 5)] (belief a_bridge 20)"
  unfolding a_bridge_def by (rule bridge_refines) (simp add: lawful_events_def)

section \<open>A node that moves\<close>

lemma heard_confirms:
  assumes "heard (br_addr b) (br_mac b) i n = Some s"
  shows "set (snd (confirm n s now b)) \<subseteq> set (snd (on_input i now b))" and "real_node (br_addr b) n"
proof -
  show real: "real_node (br_addr b) n" using assms by (auto simp: heard_def split: option.splits if_splits)
  from assms have h: "heard_from (br_addr b) (br_mac b) i = Some (n, s)"
    by (auto simp: heard_def split: option.splits if_splits)
  show "set (snd (confirm n s now b)) \<subseteq> set (snd (on_input i now b))"
  proof (cases i)
    case (BLocal l)
    with h have l: "l_src l = n" "s = SLocal" "l_typ l \<in> {LLAP_SHORT_DDP, LLAP_LONG_DDP, LLAP_ACK}"
      by (auto simp: heard_from_def split: if_splits)
    then consider "l_typ l = LLAP_SHORT_DDP \<or> l_typ l = LLAP_LONG_DDP" | "l_typ l = LLAP_ACK" by blast
    then show ?thesis
      using BLocal l
      by cases (auto simp: on_input_def on_local_ddp on_local_ack local_ddp_def Let_def split: prod.split option.split)
  next
    case (BEther p)
    then have p: "f_src (pk_frame p) \<noteq> br_mac b" "f_snap (pk_frame p)"
      using h by (auto simp: heard_from_def split: if_splits)
    show ?thesis
    proof (cases "pk_body p")
      case (BAarp r)
      with h BEther p show ?thesis
        by (auto simp: heard_from_def on_input_def on_ether_def ether_aarp_response Let_def split: if_splits)
    next
      case (BDdp d x)
      with h BEther p have d: "a_net (d_src d) = br_net b" "a_node (d_src d) = n" "s = SEther (f_src (pk_frame p))"
        by (auto simp: heard_from_def split: if_splits)
      have "set (snd (confirm n s now b)) \<subseteq> set (snd (ether_ddp p d now b))"
        by (rule ether_ddp_cases [where p = p and d = d and b = b and now = now])
           (use d in \<open>auto simp: ether_source_eq Let_def\<close>)
      with BDdp BEther p show ?thesis by (simp add: on_input_def on_ether_def)
    qed (use h BEther in \<open>auto simp: heard_from_def split: if_splits\<close>)
  qed (use h in \<open>simp add: heard_from_def\<close>)
qed

lemma live_belief: "live n b = Some s \<longleftrightarrow> (\<exists>t. belief b n = On s t)"
  by (cases "br_nodes b n"; cases "moving b n") (auto simp: live_def belief_def)

lemma not_live: "(\<And>s t. belief b n \<noteq> On s t) \<Longrightarrow> live n b = None"
  using live_belief [of n b] by (cases "live n b") auto

lemma asking_moving:
  assumes "belief b n = Asking s0 s1 t" "bridge_ok b"
  obtains e q where "br_nodes b n = Some e" "en_side e = s0" "moving b n = Some s1"
    "br_pending b n = Some q" "pd_moved_to q = Some s1" "pd_asked q = t"
proof -
  obtain e where e: "br_nodes b n = Some e" "en_side e = s0" "en_confirmed e = t" "moving b n = Some s1"
    using assms(1) by (cases "br_nodes b n"; cases "moving b n") (auto simp: belief_def split: if_splits)
  obtain q where q: "br_pending b n = Some q" "pd_moved_to q = Some s1"
    using e(4) by (auto simp: moving_def split: option.splits)
  have "pd_asked q = t" using moving_doubts [OF assms(2) q] e by (simp add: doubts_def)
  with e q that show thesis by blast
qed

text \<open>Nothing is heard of the node, and its time is not up.\<close>

definition quiet :: "addr \<Rightarrow> macaddr \<Rightarrow> u8 \<Rightarrow> instant \<Rightarrow> bridge_event list \<Rightarrow> bool" where
  "quiet a hw n t es \<longleftrightarrow> lawful_events es \<and> (\<forall>(order, i, now) \<in> set es. heard a hw i n = None \<and> since now t < QUERY_TIMEOUT)"

lemma quiet_asking: "quiet a hw n t es \<Longrightarrow> belief_run a hw n es (Asking s0 s1 t) = Asking s0 s1 t"
  by (induction es) (auto simp: quiet_def belief_step_def)

lemma moved_report:
  assumes "belief b n = Asking s0 s1 t" "bridge_ok b" "lawful_order order" "QUERY_TIMEOUT \<le> since now t"
  shows "BReport (MovedTo n s1) \<in> set (snd (bridge_step order i now b))"
proof -
  from assms(1,2) obtain q where "br_pending b n = Some q" "pd_asked q = t" "moving b n = Some s1" by (rule asking_moving)
  then have "overdue now b n" "moving b n = Some s1" using assms(4) by (simp_all add: overdue_def)
  then show ?thesis by (auto simp: step_input [OF assms(3)] expire_reports [OF assms(3)])
qed

lemma both_report:
  assumes "belief b n = Asking s0 s1 t" "bridge_ok b" "lawful_order order" "since now t < QUERY_TIMEOUT"
    and "heard (br_addr b) (br_mac b) i n = Some s" "same_as s0 s"
  shows "BReport (BothSides n) \<in> set (snd (bridge_step order i now b))"
proof -
  let ?b = "swept now b"
  have ok: "bridge_ok ?b" using assms(2) by (rule swept_ok)
  have "belief ?b n = Asking s0 s1 t" using assms by (simp add: belief_swept)
  then obtain e where e: "br_nodes ?b n = Some e" "en_side e = s0" "moving ?b n = Some s1"
    using ok by (rule asking_moving)
  have h: "heard (br_addr ?b) (br_mac ?b) i n = Some s" using assms(5) by simp
  have "snd (confirm n s now ?b) = [BReport (BothSides n)]"
    by (cases rule: confirm_cases [where n = n and s = s and now = now and b = ?b])
       (use e assms(6) heard_confirms(2) [OF h] in simp_all)
  then show ?thesis using heard_confirms(1) [OF h, of now] by (auto simp: step_input [OF assms(3)])
qed

definition question_to :: "bridge \<Rightarrow> u8 \<Rightarrow> side \<Rightarrow> bridge_action" where
  "question_to b n s = (case s of
     SEther _ \<Rightarrow> aarp_to b BROADCAST_MAC (aarp_request (br_addr b) (br_mac b) (mk_addr (br_net b) n))
   | SLocal \<Rightarrow> enquiry n)"

lemma contradiction_asks:
  assumes "br_nodes b n = Some e" "\<not> en_doubted e" "since now (en_confirmed e) < ENTRY_TTL" "bridge_ok b" "lawful_order order"
    and "heard (br_addr b) (br_mac b) i n = Some s" "\<not> same_as (en_side e) s"
  shows "question_to b n (en_side e) \<in> set (snd (bridge_step order i now b))"
    and "belief (fst (bridge_step order i now b)) n = Asking (en_side e) s now"
proof -
  let ?b = "swept now b"
  have B: "belief b n = On (en_side e) (en_confirmed e)" using assms(1,2) by (simp add: belief_def)
  show "belief (fst (bridge_step order i now b)) n = Asking (en_side e) s now"
    using assms B by (simp add: step_belief belief_step_def)
  have "moving b n \<noteq> Some s'" for s'
  proof
    assume "moving b n = Some s'"
    then obtain q where q: "br_pending b n = Some q" "pd_moved_to q = Some s'" by (auto simp: moving_def split: option.splits)
    show False using moving_doubts [OF assms(4) q] assms(1,2) by (simp add: doubts_def)
  qed
  then have "moving b n = None" by (meson not_None_eq)
  then have e: "br_nodes ?b n = Some e" using assms(1,3) by (simp add: retained_def)
  have h: "heard (br_addr ?b) (br_mac ?b) i n = Some s" using assms(6) by simp
  have "question_to b n (en_side e) \<in> set (snd (confirm n s now ?b))"
    by (cases rule: confirm_cases [where n = n and s = s and now = now and b = ?b])
       (use e assms(2,7) heard_confirms(2) [OF h] in \<open>auto simp: question_to_def aarp_to_def split: side.splits\<close>)
  then show "question_to b n (en_side e) \<in> set (snd (bridge_step order i now b))"
    using heard_confirms(1) [OF h, of now] by (auto simp: step_input [OF assms(5)])
qed



end
