(* ===== verification/Bridge_Traffic.thy ===== *)
theory Bridge_Traffic
  imports Bridge_Refinement Wire_DDP
begin

text \<open>
  What the bridge puts on the two links: everything it sends is one of ten utterances, each with the evidence
  that justifies it.  From the list follow that it answers for no node that is not on LocalTalk, denies
  an ID only on the word of its holder, emits only frames the other side parses, and repeats datagrams as they
  were.
\<close>

section \<open>The ten utterances\<close>

inductive may_say :: "bridge \<Rightarrow> bridge_in \<Rightarrow> bridge \<Rightarrow> bridge_action \<Rightarrow> bool"
  for b :: bridge and i :: bridge_in and b' :: bridge where
  say_report: "may_say b i b' (BReport r)"
| say_request: "may_say b i b' (aarp_to b BROADCAST_MAC (aarp_request (br_addr b) (br_mac b) (mk_addr (br_net b) n)))"
| say_probe: "may_say b i b' (aarp_to b BROADCAST_MAC (probe (mk_addr (br_net b) n) (br_mac b)))"
| say_enquiry: "may_say b i b' (enquiry n)"
| say_own: "may_say b i b' (aarp_to b m (aarp_response (br_addr b) (br_mac b) x m))"
| say_proxy: "live n b' = Some SLocal \<Longrightarrow> may_say b i b' (aarp_to b m (aarp_response (mk_addr (br_net b) n) (br_mac b) x m))"
| say_mine: "i = BLocal l \<Longrightarrow> l_typ l = LLAP_ENQ \<Longrightarrow> l_dst l = br_node b
    \<Longrightarrow> may_say b i b' (BToLocal (llap_control (br_node b) (br_node b) LLAP_ACK))"
| say_taken: "i = BEther p \<Longrightarrow> pk_body p = BAarp a \<Longrightarrow> aa_op a = 2 \<Longrightarrow> aa_src a = mk_addr (br_net b) n
    \<Longrightarrow> br_pending b n = Some q \<Longrightarrow> pd_owed q = LocalAck \<Longrightarrow> may_say b i b' (BToLocal (llap_control n n LLAP_ACK))"
| say_cross: "i = BEther p \<Longrightarrow> pk_body p = BDdp d y \<Longrightarrow> x \<in> set (cross p d) \<Longrightarrow> may_say b i b' x"
| say_lift: "i = BLocal l \<Longrightarrow> l_typ l = LLAP_SHORT_DDP \<or> l_typ l = LLAP_LONG_DDP \<Longrightarrow> lifted_local l b = Some (dst, bytes) \<Longrightarrow> may_say b i b' (BToEther (node_frame (br_mac b) m DDP bytes))"

lemma ask_says: "x \<in> set (snd (bridge_ask n to owed mv now c)) \<Longrightarrow> br_addr c = br_addr b \<Longrightarrow> br_mac c = br_mac b \<Longrightarrow> may_say b i b' x"
proof -
  assume x: "x \<in> set (snd (bridge_ask n to owed mv now c))" and c: "br_addr c = br_addr b" "br_mac c = br_mac b"
  have to_c: "aarp_to c m a = aarp_to b m a" for m a using c by (simp add: aarp_to_def)
  show ?thesis
    using x c say_request [of b i b' n] say_probe [of b i b' n] say_enquiry [of b i b' n]
    by (cases to) (auto simp: bridge_ask_def Let_def to_c split: if_splits)
qed

lemma confirm_says: "x \<in> set (snd (confirm n s now b)) \<Longrightarrow> may_say b i b' x"
  by (cases rule: confirm_cases [where n = n and s = s and now = now and b = b])
     (auto intro: may_say.intros split: side.splits)

text \<open>What a debt is paid with.\<close>

lemma settle_says:
  assumes "x \<in> set (snd (bridge_settle n s c))"
  obtains (ack) q m where "br_pending c n = Some q" "pd_owed q = LocalAck" "pd_moved_to q = None" "s = SEther m"
      "x = BToLocal (llap_control n n LLAP_ACK)"
  | (proxy) q to m where "br_pending c n = Some q" "s = SLocal" "br_nodes c n = None \<or> live n c = Some SLocal"
      "x = aarp_to c m (aarp_response (mk_addr (br_net c) n) (br_mac c) to m)"
proof (cases "br_pending c n")
  case None
  with assms show thesis by (simp add: bridge_settle_def)
next
  case (Some q)
  have live: "live n (forget_question n c) = live n c" by (simp add: live_def)
  have to_c: "aarp_to (forget_question n c) m a = aarp_to c m a" for m a by (simp add: aarp_to_def)
  show thesis
  proof (cases "pd_owed q")
    case LocalAck
    with assms Some ack show thesis
      by (cases s) (auto simp: bridge_settle_def split: if_splits)
  next
    case (EtherResponse to m)
    with assms Some proxy show thesis
      by (cases s) (auto simp: bridge_settle_def Let_def live to_c split: if_splits)
  next
    case Nothing
    with assms Some show thesis by (simp add: bridge_settle_def split: if_splits)
  qed
qed

lemma confirm_enters: "real_node (br_addr b) n \<Longrightarrow> br_nodes (fst (confirm n s now b)) n \<noteq> None"
  by (cases rule: confirm_cases [where n = n and s = s and now = now and b = b]) simp_all

lemma confirm_keeps_debt:
  "br_pending (fst (confirm n s now b)) n = Some q \<Longrightarrow> pd_moved_to q = None \<Longrightarrow> br_pending b n = Some q"
  by (cases rule: confirm_cases [where n = n and s = s and now = now and b = b]) auto

lemma settle_live [simp]: "live k (fst (bridge_settle n s b)) = live k b"
  by (auto simp: bridge_settle_def live_def Let_def split: option.split debt.split side.split)

lemma ether_aarp_says:
  assumes ok: "bridge_ok b" and i: "i = BEther p" "pk_body p = BAarp a"
    and x: "x \<in> set (snd (ether_aarp p a now b))"
  shows "may_say b i (fst (ether_aarp p a now b)) x"
proof (cases "aa_op a = 2")
  case question: False
  show ?thesis
  proof (cases rule: ether_aarp_question [OF i(2) question, where b = b and now = now])
    case 1
    with x show ?thesis by (auto intro: may_say.intros)
  next
    case 2
    with x show ?thesis by (auto intro: may_say.intros)
  next
    case 3
    with x show ?thesis by (auto intro: ask_says)
  next
    case 4
    with x show ?thesis by simp
  qed
next
  case True
  show ?thesis
  proof (cases "a_net (aa_src a) = br_net b")
    case False
    with x i True show ?thesis by (simp add: ether_aarp_response)
  next
    case here: True
    let ?n = "a_node (aa_src a)" and ?s = "SEther (aa_src_hw a)"
    let ?c = "fst (confirm ?n ?s now b)"
    from x i here True consider "x \<in> set (snd (confirm ?n ?s now b))" | "x \<in> set (snd (bridge_settle ?n ?s ?c))"
      by (auto simp: ether_aarp_response Let_def)
    then show ?thesis
    proof cases
      case 1
      then show ?thesis by (rule confirm_says)
    next
      case 2
      then show ?thesis
      proof (cases rule: settle_says)
        case (ack q m)
        have "br_pending b ?n = Some q" using ack(1,3) by (rule confirm_keeps_debt)
        moreover have "aa_src a = mk_addr (br_net b) ?n" using here by (intro addr.equality) (simp_all add: mk_addr_def)
        ultimately show ?thesis unfolding ack(5) using i True ack(2) by (intro say_taken) simp_all
      qed simp
    qed
  qed
qed

lemma on_ether_says:
  assumes ok: "bridge_ok b" and i: "i = BEther p" and x: "x \<in> set (snd (on_ether p now b))"
  shows "may_say b i (fst (on_ether p now b)) x"
proof (cases "pk_body p")
  case (BAarp a)
  with x ether_aarp_says [OF ok i BAarp, of x now] show ?thesis by (auto simp: on_ether_def split: if_splits)
next
  case (BDdp d y)
  have crossed: "may_say b i c z" if "z \<in> set (cross p d)" for c z using i BDdp that by (rule say_cross)
  have source: "may_say b i c z" if "z \<in> set (fst (snd (ether_source p d now b)))" for c z
    using that by (auto simp: ether_source_eq Let_def intro: confirm_says split: if_splits)
  have asked: "may_say b i c z" if "z \<in> set (snd (bridge_ask k to owed mv now (fst (ether_source p d now b))))" for c z k to owed mv
    using that by (rule ask_says) simp_all
  have "may_say b i (fst (ether_ddp p d now b)) z" if "z \<in> set (snd (ether_ddp p d now b))" for z
    by (rule ether_ddp_cases [where p = p and d = d and b = b and now = now])
       (use that in \<open>auto intro: crossed source asked\<close>)
  with BDdp x show ?thesis by (auto simp: on_ether_def split: if_splits)
qed (use x in \<open>simp add: on_ether_def split: if_splits\<close>)

lemma local_ddp_eq:
  "local_ddp l now b =
     (let c = fst (confirm (l_src l) SLocal now b) in
      (c, snd (confirm (l_src l) SLocal now b) @
        (if contested (l_src l) c then []
         else case lifted_local l b of
           None \<Rightarrow> []
         | Some (dst, bytes) \<Rightarrow>
             (case ether_dest l dst c of None \<Rightarrow> [] | Some m \<Rightarrow> [BToEther (node_frame (br_mac b) m DDP bytes)]))))"
proof -
  have "lifted_local l (fst (confirm (l_src l) SLocal now b)) = lifted_local l b" by (simp add: lifted_local_def)
  moreover have "br_mac (fst (confirm (l_src l) SLocal now b)) = br_mac b" by simp
  ultimately show ?thesis
    by (cases "confirm (l_src l) SLocal now b") (simp add: local_ddp_def Let_def split: option.split)
qed

lemma on_local_says:
  assumes ok: "bridge_ok b" and i: "i = BLocal l" and x: "x \<in> set (snd (on_local l now b))"
  shows "may_say b i (fst (on_local l now b)) x"
proof (cases rule: on_local_cases [of l])
  case ddp
  from x ddp consider "x \<in> set (snd (confirm (l_src l) SLocal now b))"
    | dst bytes m where "lifted_local l b = Some (dst, bytes)" "x = BToEther (node_frame (br_mac b) m DDP bytes)"
    by (auto simp: on_local_ddp local_ddp_eq Let_def split: option.splits if_splits)
  then show ?thesis
  proof cases
    case 1
    then show ?thesis by (rule confirm_says)
  next
    case 2
    then show ?thesis using i ddp by (auto intro: say_lift)
  qed
next
  case enq
  with x i show ?thesis by (auto simp: on_local_enq intro: ask_says say_mine split: if_splits)
next
  case ack
  let ?c = "fst (confirm (l_src l) SLocal now b)"
  have ok': "bridge_ok ?c" using ok by (rule confirm_ok)
  from x ack consider "x \<in> set (snd (confirm (l_src l) SLocal now b))" | "x \<in> set (snd (bridge_settle (l_src l) SLocal ?c))"
    by (auto simp: on_local_ack Let_def)
  then show ?thesis
  proof cases
    case 1
    then show ?thesis by (rule confirm_says)
  next
    case 2
    then show ?thesis
    proof (cases rule: settle_says)
      case (proxy q to m)
      have "real_node (br_addr b) (l_src l)" using question_real [OF ok' proxy(1)] by simp
      then have "live (l_src l) ?c = Some SLocal" using proxy(3) confirm_enters by blast
      then have "live (l_src l) (fst (on_local l now b)) = Some SLocal" using ack by (simp add: on_local_ack Let_def)
      then show ?thesis unfolding proxy(4) using say_proxy [of "l_src l" _ b i] by (simp add: aarp_to_def)
    qed simp
  qed
next
  case other
  with x show ?thesis by (simp add: on_local_other)
qed

text \<open>Every action of a step, given as evidence the tables as they stood once swept.\<close>

lemma step_says:
  assumes "bridge_ok b" "lawful_order order" "x \<in> set (snd (bridge_step order i now b))"
  shows "may_say (swept now b) i (fst (bridge_step order i now b)) x"
proof (cases "x \<in> set (snd (bridge_expire order now b))")
  case True
  then show ?thesis using assms(2) by (auto simp: expire_reports intro: say_report)
next
  case False
  then have x: "x \<in> set (snd (on_input i now (swept now b)))" using assms(3) by (simp add: step_input [OF assms(2)])
  have ok: "bridge_ok (swept now b)" using assms(1) by (rule swept_ok)
  have "may_say (swept now b) i (fst (on_input i now (swept now b))) x"
    using x by (cases i) (auto simp: on_input_def intro: on_ether_says [OF ok] on_local_says [OF ok])
  then show ?thesis by (simp add: step_input [OF assms(2)])
qed

section \<open>An example\<close>

text \<open>Node 20 is on Ethernet from the start, node 30 answers on LocalTalk at 5.\<close>

definition both_sides :: bridge where
  "both_sides = fst (bridge_step by_number (BLocal (llap_control 30 30 LLAP_ACK)) 5 a_bridge)"

definition mac_20 :: macaddr where "mac_20 = Mac 2 0 0 0 0 42"

lemma a_bridge_fields [simp]: "br_addr a_bridge = mk_addr 6800 7" "br_mac a_bridge = Mac 2 0 0 0 0 1"
  "br_pending a_bridge = Map.empty"
  by (simp_all add: a_bridge_def bridge_new_def)

lemma a_bridge_reachable: "bridge_reachable a_bridge"
  unfolding a_bridge_def by (rule reach_new)

lemma a_bridge_ok: "bridge_ok a_bridge"
  by (rule reachable_ok [OF a_bridge_reachable])

lemma a_bridge_beliefs: "belief a_bridge 20 = On (SEther mac_20) 0" "belief a_bridge 30 = Unknown"
  by (simp_all add: belief_def a_bridge_def bridge_new_def mac_20_def)

lemma both_sides_reachable: "bridge_reachable both_sides"
  unfolding both_sides_def by (intro reach_step a_bridge_reachable by_number_lawful)

lemma both_sides_fields [simp]: "br_addr both_sides = mk_addr 6800 7" "br_mac both_sides = Mac 2 0 0 0 0 1"
  by (simp_all add: both_sides_def)

lemma both_sides_beliefs: "belief both_sides 20 = On (SEther mac_20) 0" "belief both_sides 30 = On SLocal 5"
  by (simp_all add: both_sides_def step_belief [OF by_number_lawful a_bridge_ok] a_bridge_beliefs belief_step_def heard_def
      heard_from_def llap_control_def real_node_def since_def ENTRY_TTL_def secs_def)

lemma on_live: "belief b n = On s t \<Longrightarrow> live n b = Some s \<and> \<not> contested n b"
  using live_belief [of n b s] by (auto simp: contested_def)

lemma both_sides_swept: "live 20 (swept 6 both_sides) = Some (SEther mac_20)" "live 30 (swept 6 both_sides) = Some SLocal"
  by (rule on_live [THEN conjunct1], simp add: belief_swept [OF reachable_ok [OF both_sides_reachable]] both_sides_beliefs
      since_def ENTRY_TTL_def secs_def)+

section \<open>Nothing is said for a node without evidence\<close>

lemma aarp_frame [simp]:
  "BToEther f = aarp_to b m r \<longleftrightarrow> f = node_frame (br_mac b) m AARP (aarp_encode r)"
  "BToLocal l \<noteq> aarp_to b m r" "BToEther f \<noteq> enquiry n" "BToLocal l = enquiry n \<longleftrightarrow> l = llap_control n n LLAP_ENQ"
  by (simp_all add: aarp_to_def enquiry_def)

lemma node_frame_fields [simp]:
  "f_proto (node_frame src dst p x) = p" "f_payload (node_frame src dst p x) = x" "f_src (node_frame src dst p x) = src"
  "f_dst (node_frame src dst p x) = dst" "f_snap (node_frame src dst p x)"
  by (simp_all add: node_frame_def)

lemma cross_shape:
  assumes "x \<in> set (cross p d)"
  obtains l where "x = BToLocal l" "l_typ l = LLAP_LONG_DDP" "l_data l = f_payload (pk_frame p)"
    "l_dst l = a_node (d_dst d)" "l_src l = a_node (d_src d)"
    "13 \<le> length (l_data l)" "length (l_data l) \<le> 600" "unat (d_length d) = length (l_data l)"
  by (rule that [of "\<lparr>l_dst = a_node (d_dst d), l_src = a_node (d_src d), l_typ = LLAP_LONG_DDP, l_data = f_payload (pk_frame p)\<rparr>"])
     (use assms in \<open>auto simp: cross_def Let_def split: if_splits\<close>)

text \<open>
  C9: No hijack: an AARP Response for an address other than the bridge's own goes onto Ethernet only with the
  bridge's own MAC, for an address on its network, and while the node is believed to be on LocalTalk, with
  no doubt about it.
\<close>

theorem no_hijack:
  assumes "bridge_reachable b" "lawful_order order"
    and "BToEther f \<in> set (snd (bridge_step order i now b))" "f_proto f = AARP"
    and "aarp_parse (f_payload f) = Some r" "aa_op r = 2" "aa_src r \<noteq> br_addr b"
  shows "aa_src_hw r = br_mac b \<and> a_net (aa_src r) = br_net b
    \<and> live (a_node (aa_src r)) (fst (bridge_step order i now b)) = Some SLocal"
proof -
  have "may_say (swept now b) i (fst (bridge_step order i now b)) (BToEther f)"
    using reachable_ok [OF assms(1)] assms(2,3) by (rule step_says)
  then show ?thesis
    by cases (use assms(4-7) in \<open>auto simp: aarp_request_def probe_def aarp_response_def aarp_parse_encode
        elim: cross_shape\<close>)
qed

text \<open>Node 20 asks for node 30, and the bridge answers for it.\<close>

definition asks_30 :: aarp where "asks_30 = aarp_request (mk_addr 6800 20) mac_20 (mk_addr 6800 30)"

definition asking_30 :: bridge_in where
  "asking_30 = BEther \<lparr>pk_frame = node_frame mac_20 BROADCAST_MAC AARP (aarp_encode asks_30), pk_body = BAarp asks_30\<rparr>"

theorem no_hijack_witness:
  "live 30 (fst (bridge_step by_number asking_30 6 both_sides)) = Some SLocal"
proof -
  let ?r = "aarp_response (mk_addr 6800 30) (Mac 2 0 0 0 0 1) (mk_addr 6800 20) mac_20"
  let ?f = "node_frame (Mac 2 0 0 0 0 1) mac_20 AARP (aarp_encode ?r)"
  have "BToEther ?f \<in> set (snd (bridge_step by_number asking_30 6 both_sides))"
    by (simp add: step_input on_input_def asking_30_def on_ether_def ether_aarp_def aarp_action_def asks_30_def aarp_request_def
        both_sides_swept mac_20_def)
  from no_hijack [OF both_sides_reachable by_number_lawful this, where r = ?r] show ?thesis
    by (simp add: aarp_parse_encode aarp_response_def)
qed


text \<open>A LocalTalk node asks for ID 20 at 5, and node 20 answers at 6.\<close>

definition is_20 :: aarp where "is_20 = aarp_response (mk_addr 6800 20) mac_20 (mk_addr 6800 20) (Mac 2 0 0 0 0 1)"

definition answering_20 :: packet where
  "answering_20 = \<lparr>pk_frame = node_frame mac_20 (Mac 2 0 0 0 0 1) AARP (aarp_encode is_20), pk_body = BAarp is_20\<rparr>"

definition claimed_20 :: bridge where
  "claimed_20 = fst (bridge_step by_number (BLocal (llap_control 20 20 LLAP_ENQ)) 5 a_bridge)"


section \<open>Everything sent can be read\<close>

text \<open>What the two links can deliver: a decoded frame, and an LLAP packet the parser accepts.\<close>

definition from_wire :: "bridge_in \<Rightarrow> bool" where
  "from_wire i = (case i of BTick \<Rightarrow> True | BEther p \<Rightarrow> (\<exists>bs. decode bs = Some p) | BLocal l \<Rightarrow> wf_llap l)"

lemma decoded_ddp:
  "decode bs = Some p \<Longrightarrow> pk_body p = BDdp d y \<Longrightarrow> ddp_parse (f_payload (pk_frame p)) = Some d"
  by (auto simp: decode_def map_or_def split: Option.bind_splits option.splits if_splits)

lemma ddp_length_bits: "ddp_parse bs = Some d \<Longrightarrow> d_length d = u16_from_be (bs ! 0 AND 0x03) (bs ! 1)"
  by (auto simp: ddp_parse_def get_to_def split: Option.bind_splits if_splits)

lemma wf_long_ddp:
  assumes "l_typ l = LLAP_LONG_DDP" "ddp_parse (l_data l) = Some d" "length (l_data l) \<le> 600"
    and "unat (d_length d) = length (l_data l)"
  shows "wf_llap l"
  using assms ddp_length_bits [OF assms(2)] ddp_parse_Some_data [OF assms(2)]
  by (simp add: wf_llap_def control_typ_def llap_type_defs MAX_DATA_def)

text \<open>What the datagram in an LLAP packet says, on either header.\<close>

definition local_datagram :: "u16 \<Rightarrow> llap \<Rightarrow> ddp option" where
  "local_datagram net l =
     (if l_typ l = LLAP_SHORT_DDP then ddp_from_short (l_data l) net (l_dst l) (l_src l) else ddp_parse (l_data l))"

lemma lifted_datagram:
  assumes "lifted_local l b = Some (dst, bytes)" "wf_llap l" "l_typ l = LLAP_SHORT_DDP \<or> l_typ l = LLAP_LONG_DDP"
  obtains d where "local_datagram (br_net b) l = Some d" "ddp_parse bytes = Some d" "dst = d_dst d" "length bytes \<le> 1492"
proof (cases "l_typ l = LLAP_SHORT_DDP")
  case True
  with assms(1) obtain d where d: "ddp_from_short (l_data l) (br_net b) (l_dst l) (l_src l) = Some d"
    "dst = d_dst d" "bytes = ddp_encode d" by (auto simp: lifted_local_def)
  have len: "length (l_data l) \<le> 600"
    using assms(2) True by (simp add: wf_llap_def control_typ_def llap_type_defs MAX_DATA_def)
  note w = ddp_from_short_wf [OF d(1)]
  have "d_length d = word_of_nat (13 + length (d_data d))" using w(1) by (rule unat_eqD)
  then have "wf_ddp d" using w(2,5) len by (simp add: wf_ddp_def)
  then show thesis using that [of d] True d w(5) len by (simp add: local_datagram_def ddp_parse_encode length_ddp_encode)
next
  case False
  with assms(1) obtain d where d: "ddp_parse (l_data l) = Some d" "dst = d_dst d" "bytes = l_data l"
    by (auto simp: lifted_local_def)
  have "length (l_data l) \<le> 600"
    using assms(2,3) False by (simp add: wf_llap_def control_typ_def llap_type_defs MAX_DATA_def)
  with d False that [of d] show thesis by (simp add: local_datagram_def)
qed

lemma decode_frame_bytes:
  assumes "wf_frame f" "f_proto f = DDP" "ddp_parse (f_payload f) = Some d"
  shows "decode (frame_encode f) = Some \<lparr>pk_frame = f, pk_body = BDdp d (decode_ddp_body d)\<rparr>"
  using assms by (simp add: decode_def frame_parse_encode)

lemma wf_node_frame: "p = DDP \<or> p = AARP \<Longrightarrow> length x \<le> 1492 \<Longrightarrow> wf_frame (node_frame src dst p x)"
  by (simp add: wf_frame_def)

text \<open>
  C15: Everything the bridge sends is well formed: each frame carries its own MAC, fits Ethernet and decodes to the
  frame and an AARP packet or a datagram, never an unknown body; each LocalTalk packet is one its parser
  accepts.  So the bridge never turns what it heard into something its own readers would reject.
\<close>

theorem bridge_frames_valid:
  assumes "bridge_reachable b" "lawful_order order" "from_wire i"
    and "x \<in> set (snd (bridge_step order i now b))"
  shows "case x of
      BToEther f \<Rightarrow> f_src f = br_mac b \<and> (\<exists>body. body \<noteq> BUnknown \<and> decode (frame_encode f) = Some \<lparr>pk_frame = f, pk_body = body\<rparr>)
    | BToLocal l \<Rightarrow> llap_parse (llap_encode l) = Some l
    | BReport r \<Rightarrow> True"
proof -
  have aarp: "decode (frame_encode (node_frame hw m AARP (aarp_encode r)))
      = Some \<lparr>pk_frame = node_frame hw m AARP (aarp_encode r), pk_body = BAarp r\<rparr>" for hw m r
    by (rule decode_frame_aarp) (simp_all add: wf_node_frame length_aarp_encode)
  have control: "llap_parse (llap_encode (llap_control d s t)) = Some (llap_control d s t)" if "control_typ t" for d s t
    by (rule llap_parse_encode) (rule wf_llap_control [OF that])
  have "may_say (swept now b) i (fst (bridge_step order i now b)) x"
    using reachable_ok [OF assms(1)] assms(2,4) by (rule step_says)
  then show ?thesis
  proof cases
    case (say_cross p d y)
    from say_cross(3) obtain l where l: "x = BToLocal l" "l_typ l = LLAP_LONG_DDP" "l_data l = f_payload (pk_frame p)"
      "length (l_data l) \<le> 600" "unat (d_length d) = length (l_data l)" by (rule cross_shape)
    from assms(3) say_cross(1) obtain bs where "decode bs = Some p" by (auto simp: from_wire_def)
    then have "ddp_parse (l_data l) = Some d" using say_cross(2) l(3) by (simp add: decoded_ddp)
    with l have "wf_llap l" by (intro wf_long_ddp) simp_all
    with l show ?thesis by (simp add: llap_parse_encode)
  next
    case (say_lift l dst bytes m)
    from assms(3) say_lift(2) have "wf_llap l" by (simp add: from_wire_def)
    with say_lift(3,4) obtain d where "ddp_parse bytes = Some d" "length bytes \<le> 1492" by (meson lifted_datagram)
    then show ?thesis using say_lift(1) decode_frame_bytes [of "node_frame (br_mac b) m DDP bytes" d]
      by (simp add: wf_node_frame)
  qed (simp_all add: aarp_to_def aarp enquiry_def control control_typ_def)
qed

theorem bridge_frames_valid_witness:
  "llap_parse (llap_encode (llap_control 7 7 LLAP_ACK)) = Some (llap_control 7 7 LLAP_ACK)"
proof -
  have i: "from_wire (BLocal (llap_control 7 9 LLAP_ENQ))"
    by (simp add: from_wire_def wf_llap_control control_typ_def)
  have "BToLocal (llap_control 7 7 LLAP_ACK) \<in> set (snd (bridge_step by_number (BLocal (llap_control 7 9 LLAP_ENQ)) 6 both_sides))"
    by (simp add: step_input on_input_def on_local_enq llap_control_def)
  from bridge_frames_valid [OF both_sides_reachable by_number_lawful i this] show ?thesis by simp
qed

section \<open>Datagrams cross as they were\<close>

text \<open>
  C12: From Ethernet to LocalTalk: a datagram for a node believed to be on LocalTalk, or for every node, whose length
  field tells the truth and fits LocalTalk, is sent there in a packet its parser accepts, from and to the
  nodes the datagram names, and its bytes parse to exactly the datagram that arrived, hop count and checksum
  included - unless its source is contested.
\<close>

theorem repeated_to_local:
  assumes "lawful_order order" "decode bs = Some p" "pk_body p = BDdp d y"
    and "f_snap (pk_frame p)" "f_src (pk_frame p) \<noteq> br_mac b"
    and "length (f_payload (pk_frame p)) \<le> 600" "unat (d_length d) = length (f_payload (pk_frame p))"
    and "d_dst d \<noteq> br_addr b" "b' = fst (bridge_step order (BEther p) now b)"
    and "a_net (d_dst d) = br_net b \<and> live (a_node (d_dst d)) b' = Some SLocal \<or> a_node (d_dst d) = 255"
    and "a_net (d_src d) \<noteq> br_net b \<or> \<not> contested (a_node (d_src d)) b'"
  shows "\<exists>l. BToLocal l \<in> set (snd (bridge_step order (BEther p) now b))
    \<and> llap_parse (llap_encode l) = Some l \<and> l_typ l = LLAP_LONG_DDP \<and> ddp_parse (l_data l) = Some d
    \<and> l_dst l = a_node (d_dst d) \<and> l_src l = a_node (d_src d)"
proof -
  let ?b = "swept now b" and ?n = "a_node (d_dst d)"
  let ?l = "\<lparr>l_dst = ?n, l_src = a_node (d_src d), l_typ = LLAP_LONG_DDP, l_data = f_payload (pk_frame p)\<rparr>"
  have d: "ddp_parse (f_payload (pk_frame p)) = Some d" using assms(2,3) by (rule decoded_ddp)
  have crossed: "cross p d = [BToLocal ?l]"
    using assms(6,7) ddp_parse_Some_data [OF d] by (simp add: cross_def Let_def)
  have step: "bridge_step order (BEther p) now b = (fst (ether_ddp p d now ?b), snd (bridge_expire order now b) @ snd (ether_ddp p d now ?b))"
    using assms(3-5) by (simp add: step_input [OF assms(1)] on_input_def on_ether_def)
  let ?src = "ether_source p d now ?b"
  have nodes: "br_nodes (fst (ether_ddp p d now ?b)) = br_nodes (fst ?src)"
    by (rule ether_ddp_cases [where p = p and d = d and b = ?b and now = now]) simp_all
  then have live: "live n (fst (ether_ddp p d now ?b)) = live n (fst ?src)"
    and con: "contested n (fst (ether_ddp p d now ?b)) \<longleftrightarrow> contested n (fst ?src)" for n
    by (simp_all add: live_def contested_def)
  have go: "\<not> snd (snd ?src)" using assms(9,11) con by (auto simp: step ether_source_eq Let_def)
  obtain b1 out where src: "?src = (b1, out, False)" using go by (metis prod.collapse)
  have fields: "br_addr b1 = br_addr b" using ether_source_fields(1) [of p d now ?b] by (simp add: src)
  have "BToLocal ?l \<in> set (snd (ether_ddp p d now ?b))"
    using assms(8-10) live [of ?n] by (auto simp: step ether_ddp_def src Let_def crossed fields)
  moreover have "wf_llap ?l" using d assms(6,7) by (intro wf_long_ddp) simp_all
  ultimately show ?thesis using d by (intro exI [of _ ?l]) (simp add: step llap_parse_encode)
qed

text \<open>An echo request from node 20 to node 30, three hops from its origin.\<close>

definition echo_20_30 :: ddp where
  "echo_20_30 = \<lparr>d_hops = 3, d_length = 16, d_checksum = 0x1234, d_dst = mk_addr 6800 30, d_dst_socket = 4,
     d_src = mk_addr 6800 20, d_src_socket = 4, d_typ = 4, d_data = [1, 7, 8]\<rparr>"

definition frame_20_30 :: frame where
  "frame_20_30 = node_frame mac_20 (Mac 2 0 0 0 0 1) DDP (ddp_encode echo_20_30)"

definition packet_20_30 :: packet where
  "packet_20_30 = \<lparr>pk_frame = frame_20_30, pk_body = BDdp echo_20_30 (decode_ddp_body echo_20_30)\<rparr>"

theorem repeated_to_local_witness:
  "\<exists>l. BToLocal l \<in> set (snd (bridge_step by_number (BEther packet_20_30) 6 both_sides))
    \<and> llap_parse (llap_encode l) = Some l \<and> l_typ l = LLAP_LONG_DDP \<and> ddp_parse (l_data l) = Some echo_20_30
    \<and> l_dst l = 30 \<and> l_src l = 20"
proof -
  have dec: "decode (frame_encode frame_20_30) = Some packet_20_30"
    unfolding packet_20_30_def
    by (rule decode_frame_ddp) (simp_all add: frame_20_30_def wf_node_frame length_ddp_encode echo_20_30_def wf_ddp_def)
  have body: "pk_body packet_20_30 = BDdp echo_20_30 (decode_ddp_body echo_20_30)" by (simp add: packet_20_30_def)
  have p: "f_snap (pk_frame packet_20_30)" "f_src (pk_frame packet_20_30) = mac_20" "mac_20 \<noteq> Mac 2 0 0 0 0 1"
    "length (f_payload (pk_frame packet_20_30)) = 16" "d_length echo_20_30 = 16" "a_node (d_dst echo_20_30) = 30"
    "a_net (d_dst echo_20_30) = 6800" "d_dst echo_20_30 \<noteq> mk_addr 6800 7" "a_node (d_src echo_20_30) = 20"
    by (simp_all add: packet_20_30_def frame_20_30_def length_ddp_encode echo_20_30_def mac_20_def)
  note B = step_belief [OF by_number_lawful reachable_ok [OF both_sides_reachable], of "BEther packet_20_30" 6]
  have "belief (fst (bridge_step by_number (BEther packet_20_30) 6 both_sides)) 20 = On (SEther mac_20) 6"
    "belief (fst (bridge_step by_number (BEther packet_20_30) 6 both_sides)) 30 = On SLocal 5"
    unfolding B by (simp_all add: both_sides_beliefs belief_step_def heard_def heard_from_def packet_20_30_def frame_20_30_def
        echo_20_30_def mac_20_def real_node_def since_def ENTRY_TTL_def secs_def)
  note l = this [THEN on_live]
  have "\<exists>l. BToLocal l \<in> set (snd (bridge_step by_number (BEther packet_20_30) 6 both_sides))
    \<and> llap_parse (llap_encode l) = Some l \<and> l_typ l = LLAP_LONG_DDP \<and> ddp_parse (l_data l) = Some echo_20_30
    \<and> l_dst l = a_node (d_dst echo_20_30) \<and> l_src l = a_node (d_src echo_20_30)"
    by (rule repeated_to_local [OF by_number_lawful dec body, where b' = "fst (bridge_step by_number (BEther packet_20_30) 6 both_sides)"])
       (use l in \<open>simp_all add: p\<close>)
  then show ?thesis by (simp add: p)
qed

text \<open>
  C13: From LocalTalk to Ethernet: a datagram from an uncontested node, with either header, is sent as a frame that
  decodes to exactly the datagram LocalTalk's header stands for, with the network number it left out filled
  in: to the node's MAC when it is believed to be on Ethernet, to everyone when it is not known.  One for a
  node believed to be on LocalTalk is not repeated.
\<close>

theorem repeated_to_ether:
  assumes "lawful_order order" "wf_llap l" "l_typ l = LLAP_SHORT_DDP \<or> l_typ l = LLAP_LONG_DDP"
    and "local_datagram (br_net b) l = Some d" "b' = fst (bridge_step order (BLocal l) now b)"
    and "\<not> contested (l_src l) b'" "l_dst l \<noteq> 255" "a_net (d_dst d) = br_net b" "a_node (d_dst d) \<noteq> 255"
  shows "case live (a_node (d_dst d)) b' of
      Some SLocal \<Rightarrow> \<forall>f. f_proto f = DDP \<longrightarrow> BToEther f \<notin> set (snd (bridge_step order (BLocal l) now b))
    | s \<Rightarrow> \<exists>f y. BToEther f \<in> set (snd (bridge_step order (BLocal l) now b))
        \<and> f_dst f = (case s of Some (SEther m) \<Rightarrow> m | _ \<Rightarrow> BROADCAST_MAC)
        \<and> decode (frame_encode f) = Some \<lparr>pk_frame = f, pk_body = BDdp d y\<rparr>"
proof -
  let ?b = "swept now b" and ?n = "a_node (d_dst d)"
  let ?c = "fst (confirm (l_src l) SLocal now ?b)"
  obtain bytes where lifted: "lifted_local l ?b = Some (d_dst d, bytes)"
    using assms(4) by (auto simp: lifted_local_def local_datagram_def split: if_splits)
  have bytes: "ddp_parse bytes = Some d" "length bytes \<le> 1492"
    by (rule lifted_datagram [OF lifted assms(2,3)]; use assms(4) in simp)+
  have step: "bridge_step order (BLocal l) now b = (fst (local_ddp l now ?b), snd (bridge_expire order now b) @ snd (local_ddp l now ?b))"
    using assms(3) by (simp add: step_input [OF assms(1)] on_input_def on_local_ddp)
  have b': "b' = ?c" using assms(5) by (simp add: step local_ddp_fst)
  have dest: "ether_dest l (d_dst d) ?c = (case live ?n ?c of Some (SEther m) \<Rightarrow> Some m | Some SLocal \<Rightarrow> None | None \<Rightarrow> Some BROADCAST_MAC)"
    using assms(7-9) by (simp add: ether_dest_def)
  have out: "snd (local_ddp l now ?b) = snd (confirm (l_src l) SLocal now ?b) @
      (case ether_dest l (d_dst d) ?c of None \<Rightarrow> [] | Some m \<Rightarrow> [BToEther (node_frame (br_mac b) m DDP bytes)])"
    using assms(6) by (simp add: local_ddp_eq Let_def lifted b' split: option.split)
  have quiet: "f_proto f \<noteq> DDP" if "BToEther f \<in> set (snd (confirm (l_src l) SLocal now ?b))" for f
    by (cases rule: confirm_cases [where n = "l_src l" and s = SLocal and now = now and b = ?b])
       (use that in \<open>auto split: side.splits\<close>)
  have swept: "BToEther f \<notin> set (snd (bridge_expire order now b))" for f by (simp add: expire_reports [OF assms(1)])
  show ?thesis
  proof (cases "live ?n b'")
    case None
    have "decode (frame_encode (node_frame (br_mac b) BROADCAST_MAC DDP bytes))
        = Some \<lparr>pk_frame = node_frame (br_mac b) BROADCAST_MAC DDP bytes, pk_body = BDdp d (decode_ddp_body d)\<rparr>"
      using bytes by (intro decode_frame_bytes wf_node_frame) simp_all
    with None show ?thesis
      by (auto simp: step out dest b' intro!: exI [of _ "node_frame (br_mac b) BROADCAST_MAC DDP bytes"])
  next
    case (Some s)
    show ?thesis
    proof (cases s)
      case (SEther m)
      have "decode (frame_encode (node_frame (br_mac b) m DDP bytes))
          = Some \<lparr>pk_frame = node_frame (br_mac b) m DDP bytes, pk_body = BDdp d (decode_ddp_body d)\<rparr>"
        using bytes by (intro decode_frame_bytes wf_node_frame) simp_all
      with Some SEther show ?thesis
        by (auto simp: step out dest b' intro!: exI [of _ "node_frame (br_mac b) m DDP bytes"])
    next
      case SLocal
      with Some show ?thesis using quiet swept by (auto simp: step out dest b')
    qed
  qed
qed

text \<open>Node 30 answers with the short header, and node 20 gets it at its own MAC.\<close>

definition reply_30_20 :: llap where
  "reply_30_20 = \<lparr>l_dst = 20, l_src = 30, l_typ = LLAP_SHORT_DDP, l_data = [0, 8, 4, 4, 4, 2, 7, 8]\<rparr>"

definition datagram_30_20 :: ddp where
  "datagram_30_20 = \<lparr>d_hops = 0, d_length = 16, d_checksum = 0, d_dst = mk_addr 6800 20, d_dst_socket = 4,
     d_src = mk_addr 6800 30, d_src_socket = 4, d_typ = 4, d_data = [2, 7, 8]\<rparr>"

theorem repeated_to_ether_witness:
  "\<exists>f y. BToEther f \<in> set (snd (bridge_step by_number (BLocal reply_30_20) 6 both_sides)) \<and> f_dst f = mac_20
    \<and> decode (frame_encode f) = Some \<lparr>pk_frame = f, pk_body = BDdp datagram_30_20 y\<rparr>"
proof -
  have wf: "wf_llap reply_30_20"
    by (simp add: reply_30_20_def wf_llap_def control_typ_def llap_type_defs MAX_DATA_def u16_from_be_def)
  have d: "local_datagram (br_net both_sides) reply_30_20 = Some datagram_30_20"
    by (simp add: local_datagram_def reply_30_20_def datagram_30_20_def ddp_from_short_def get_to_def u16_from_be_def)
  note B = step_belief [OF by_number_lawful reachable_ok [OF both_sides_reachable], of "BLocal reply_30_20" 6]
  have "belief (fst (bridge_step by_number (BLocal reply_30_20) 6 both_sides)) 20 = On (SEther mac_20) 0"
    "belief (fst (bridge_step by_number (BLocal reply_30_20) 6 both_sides)) 30 = On SLocal 6"
    unfolding B by (simp_all add: both_sides_beliefs belief_step_def heard_def heard_from_def reply_30_20_def real_node_def since_def
        ENTRY_TTL_def secs_def)
  note l = this [THEN on_live]
  have t: "l_typ reply_30_20 = LLAP_SHORT_DDP \<or> l_typ reply_30_20 = LLAP_LONG_DDP" by (simp add: reply_30_20_def)
  have n: "a_node (d_dst datagram_30_20) = 20" "l_src reply_30_20 = 30" "l_dst reply_30_20 = 20" "a_net (d_dst datagram_30_20) = 6800"
    by (simp_all add: datagram_30_20_def reply_30_20_def)
  have "case live (a_node (d_dst datagram_30_20)) (fst (bridge_step by_number (BLocal reply_30_20) 6 both_sides)) of
      Some SLocal \<Rightarrow> \<forall>f. f_proto f = DDP \<longrightarrow> BToEther f \<notin> set (snd (bridge_step by_number (BLocal reply_30_20) 6 both_sides))
    | s \<Rightarrow> \<exists>f y. BToEther f \<in> set (snd (bridge_step by_number (BLocal reply_30_20) 6 both_sides))
        \<and> f_dst f = (case s of Some (SEther m) \<Rightarrow> m | _ \<Rightarrow> BROADCAST_MAC)
        \<and> decode (frame_encode f) = Some \<lparr>pk_frame = f, pk_body = BDdp datagram_30_20 y\<rparr>"
    by (rule repeated_to_ether [OF by_number_lawful wf t d refl]) (use l in \<open>simp_all add: n\<close>)
  then show ?thesis using l by (simp add: n)
qed

end
