(* ===== verification/Bridge_Loop.thy ===== *)
theory Bridge_Loop
  imports Bridge_Traffic Router_Run
begin

text \<open>
  \<open>bridge::run\<close> of \<open>src/src/bridge.rs\<close>: what the loop makes of each thing the queue delivers, and where its
  actions go.  The order of the questions, the clock, and what the links say to a frame are parameters.  The
  lemmas say that the loop is a run of the bridge, so everything proved of runs holds of it, and that
  whatever arrives its timers are served.
\<close>

section \<open>The loop\<close>

definition bridge_input :: "received \<Rightarrow> bridge_in option" where
  "bridge_input rx =
     (case rx of
        RxGot (EPacket _ _ p) \<Rightarrow> Some (BEther p)
      | RxGot (ELlap _ l) \<Rightarrow> Some (BLocal l)
      | RxGot (EAurp _ _) \<Rightarrow> None
      | RxGot (EDropped _) \<Rightarrow> Some BTick
      | RxGot (EError _) \<Rightarrow> Some BTick
      | RxTimeout \<Rightarrow> Some BTick
      | RxClosed \<Rightarrow> None)"

text \<open>What an action becomes; a frame that cannot be sent is reported, and the loop goes on.\<close>

datatype bridge_out =
    EtherSent frame
  | LocalSent llap
  | EtherFailed rstring
  | LocalFailed rstring
  | Narrated bridge_report

definition bridge_execute ::
    "(frame \<Rightarrow> rstring option) \<Rightarrow> (llap \<Rightarrow> rstring option) \<Rightarrow> bridge_action \<Rightarrow> bridge_out" where
  "bridge_execute ether local a =
     (case a of
        BToEther f \<Rightarrow> (case ether f of None \<Rightarrow> EtherSent f | Some err \<Rightarrow> EtherFailed err)
      | BToLocal l \<Rightarrow> (case local l of None \<Rightarrow> LocalSent l | Some err \<Rightarrow> LocalFailed err)
      | BReport m \<Rightarrow> Narrated m)"

fun bridge_loop :: "(question_order \<times> received \<times> instant) list \<Rightarrow> bridge \<Rightarrow> bridge \<times> bridge_action list" where
  "bridge_loop [] b = (b, [])"
| "bridge_loop ((order, rx, now) # rest) b =
     (if rx = RxClosed then (b, [])
      else
        let (b, acts) = (case bridge_input rx of None \<Rightarrow> (b, []) | Some i \<Rightarrow> bridge_step order i now b);
            (b, more) = bridge_loop rest b
        in (b, acts @ more))"

definition bridge_main ::
    "(frame \<Rightarrow> rstring option) \<Rightarrow> (llap \<Rightarrow> rstring option) \<Rightarrow> addr \<Rightarrow> macaddr \<Rightarrow> amt \<Rightarrow> instant
     \<Rightarrow> (question_order \<times> received \<times> instant) list \<Rightarrow> bridge_out list" where
  "bridge_main ether local a hw m start turns =
     map (bridge_execute ether local) (snd (bridge_loop turns (bridge_new a hw m start)))"

section \<open>The loop is a run\<close>

fun bridge_events :: "(question_order \<times> received \<times> instant) list \<Rightarrow> bridge_event list" where
  "bridge_events [] = []"
| "bridge_events ((order, rx, now) # rest) =
     (if rx = RxClosed then []
      else (case bridge_input rx of None \<Rightarrow> [] | Some i \<Rightarrow> [(order, i, now)]) @ bridge_events rest)"

lemma loop_is_run: "fst (bridge_loop turns b) = bridge_run (bridge_events turns) b"
proof (induction turns arbitrary: b)
  case (Cons t turns)
  obtain order rx now where "t = (order, rx, now)" by (cases t)
  with Cons show ?case by (simp add: Let_def case_prod_beta split: option.split)
qed simp

section \<open>The timers are served\<close>

text \<open>No question is two seconds old, and no entry has outlived its time.\<close>

definition timely :: "instant \<Rightarrow> bridge \<Rightarrow> bool" where
  "timely now b \<longleftrightarrow>
     (\<forall>n q. br_pending b n = Some q \<longrightarrow> since now (pd_asked q) < QUERY_TIMEOUT)
     \<and> (\<forall>n e. br_nodes b n = Some e \<longrightarrow> since now (en_confirmed e) < ENTRY_TTL)"

lemma now_timely [simp]: "0 < QUERY_TIMEOUT" "0 < ENTRY_TTL"
  by (simp_all add: QUERY_TIMEOUT_def ENTRY_TTL_def secs_def)

lemma timely_swept: "timely now (swept now b)"
  by (auto simp: timely_def swept_def retained_def overdue_def fresh_def split: option.splits if_splits)

lemma timely_ask: "timely now b \<Longrightarrow> timely now (fst (bridge_ask n to debt m now b))"
  by (auto simp: timely_def bridge_ask_def Let_def)

lemma timely_confirm: "timely now b \<Longrightarrow> timely now (fst (confirm n s now b))"
  by (cases rule: confirm_cases [where n = n and s = s and now = now and b = b]) (auto simp: timely_def fresh_def)

lemma timely_settle: "timely now b \<Longrightarrow> timely now (fst (bridge_settle n s b))"
  by (auto simp: timely_def bridge_settle_def Let_def split: option.split debt.split side.split)

lemma timely_amt: "timely now (b\<lparr>br_amt := m\<rparr>) \<longleftrightarrow> timely now b"
  by (simp add: timely_def)

lemma timely_ether_source: "timely now b \<Longrightarrow> timely now (fst (ether_source p d now b))"
  by (simp add: ether_source_def Let_def case_prod_beta timely_amt timely_confirm)

lemma timely_ether: "timely now b \<Longrightarrow> timely now (fst (on_ether p now b))"
  by (auto simp: on_ether_def ether_aarp_def ether_ddp_def Let_def case_prod_beta timely_amt
      intro!: timely_settle timely_ask timely_confirm timely_ether_source split: body.split aarp_action.split option.split side.split)

lemma timely_local: "timely now b \<Longrightarrow> timely now (fst (on_local l now b))"
  by (auto simp: on_local_def local_ddp_def Let_def case_prod_beta
      intro!: timely_settle timely_ask timely_confirm split: option.split)

lemma timely_step: "lawful_order order \<Longrightarrow> timely now (fst (bridge_step order i now b))"
  using timely_ether [OF timely_swept] timely_local [OF timely_swept] timely_swept
  by (cases i) (simp_all add: step_input on_input_def)

lemma loop_append:
  "bridge_loop (ts @ us) b =
     (if \<exists>t \<in> set ts. fst (snd t) = RxClosed then bridge_loop ts b
      else (let (b, acts) = bridge_loop ts b; (b, more) = bridge_loop us b in (b, acts @ more)))"
proof (induction ts arbitrary: b)
  case (Cons t ts)
  obtain order rx now where "t = (order, rx, now)" by (cases t)
  with Cons show ?case by (simp add: Let_def case_prod_beta split: option.split)
qed simp

section \<open>Property\<close>

text \<open>
  C11: No traffic keeps the bridge from its timers: after every turn of its loop, whatever the queue delivered and
  however busy it is, every open question is less than two seconds old and every entry was confirmed within
  its time.
\<close>

theorem bridge_keeps_time:
  assumes "\<forall>t \<in> set turns. fst (snd t) \<noteq> RxClosed" "lawful_order order" "bridge_input rx \<noteq> None"
  shows "timely now (fst (bridge_loop (turns @ [(order, rx, now)]) b))"
proof -
  obtain i where i: "bridge_input rx = Some i" using assms(3) by blast
  moreover have "rx \<noteq> RxClosed" using assms(3) by (auto simp: bridge_input_def)
  ultimately have "fst (bridge_loop [(order, rx, now)] c) = fst (bridge_step order i now c)" for c
    by (simp add: case_prod_beta)
  then show ?thesis using assms(1) timely_step [OF assms(2)] by (simp add: loop_append Let_def case_prod_beta del: bridge_loop.simps)
qed

text \<open>A bridge that hears nothing but a node's datagrams, a tenth of a second apart.\<close>

theorem bridge_keeps_time_witness:
  "timely (secs 5)
     (fst (bridge_loop (map (\<lambda>k. (by_number, RxGot (ELlap 0 a_datagram), k * millis 100)) [0..<50]
       @ [(by_number, RxGot (ELlap 0 a_datagram), secs 5)]) a_bridge))"
  by (rule bridge_keeps_time) (auto simp: bridge_input_def)

end
