(* ===== verification/Node_Bounds.thy ===== *)
theory Node_Bounds
  imports Node_Questions
begin

text \<open>
  What a node keeps of a promiscuous wire is bounded: at most 512 transactions being reassembled and at
  most 64 messages nobody has asked for, through the claim and every question, whatever is heard.
\<close>

definition bounded :: "running \<Rightarrow> bool" where
  "bounded s \<longleftrightarrow> open_ok (nd_open s) \<and> length (nd_open s) \<le> 512 \<and> length (nd_messages s) \<le> 64"

text \<open>It looks at the session and the messages only.\<close>

lemma bounded_same:
  "nd_open s' = nd_open s \<Longrightarrow> nd_messages s' = nd_messages s \<Longrightarrow> bounded s' = bounded s"
  by (simp add: bounded_def)

lemma bounded_update [simp]:
  "bounded (s\<lparr>nd_addr := a\<rparr>) = bounded s" "bounded (s\<lparr>nd_zone := z\<rparr>) = bounded s"
  "bounded (s\<lparr>nd_router := r\<rparr>) = bounded s" "bounded (s\<lparr>nd_amt := m\<rparr>) = bounded s"
  "bounded (s\<lparr>nd_probing := b\<rparr>) = bounded s" "bounded (s\<lparr>nd_next_id := n\<rparr>) = bounded s"
  "bounded (s\<lparr>nd_pending := ts\<rparr>) = bounded s" "bounded (s\<lparr>ru_now := t\<rparr>) = bounded s"
  "bounded (s\<lparr>ru_inbox := evs\<rparr>) = bounded s" "bounded (s\<lparr>ru_sent := out\<rparr>) = bounded s"
  by (simp_all add: bounded_def)

lemma bounded_stow: "length (stow old new) \<le> 64"
  by (auto simp: stow_def MAX_MESSAGES_def Let_def)

lemma bounded_hear:
  assumes "attentive h" "bounded s"
  shows "bounded (hear h x s)"
proof -
  have a: "bounded (answer_aarp h p s) = bounded s" for p s
    by (rule bounded_same) (auto simp: answer_aarp_def tx_send_def split: aarp_action.split body.split option.split)
  have p: "bounded (on_packet h at p s)" if "bounded s" for at p s
  proof -
    have "open_ok (fst (session_push (ho_ord h) at p (nd_open s)))
        \<and> length (fst (session_push (ho_ord h) at p (nd_open s))) \<le> 512"
      using txns_push_ok [of "nd_open s" "ho_ord h" at p] that assms(1)
      by (simp add: session_push_def case_prod_beta bounded_def attentive_def MAX_OPEN_def split: option.split)
    then show ?thesis by (simp add: on_packet_def a case_prod_beta Let_def) (simp add: bounded_def bounded_stow)
  qed
  have f: "bounded (s\<lparr>nd_open := txns_flush q\<rparr>)" if "bounded s" for s q
    using that by (simp add: bounded_def txns_flush_def open_ok_Nil)
  show ?thesis using assms(2) p f by (cases "snd x") (simp_all add: hear_def on_event_def)
qed

lemma bounded_wait:
  assumes "attentive h" "bounded s" "\<And>s p. bounded s \<Longrightarrow> bounded (fst (f s p))"
  shows "bounded (fst (wait h dl f s))"
proof -
  have "bounded s \<longrightarrow> bounded (fst (wait_loop h dl f (ru_inbox s) s))"
    by (rule wait_loop_rel [where R = "\<lambda>s s'. bounded s \<longrightarrow> bounded s'"])
       (use assms(3) bounded_hear [OF assms(1)] in auto)
  with assms(2) show ?thesis by (simp add: wait_def)
qed

lemma bounded_send:
  "bounded (fst (tx_send h f s)) = bounded s" "bounded (fst (send_from h so dst ds typ d s)) = bounded s"
  "bounded (fst (send_ddp h dst ds typ d s)) = bounded s"
  by (simp_all add: tx_send_def send_from_def send_ddp_def Let_def split: option.split)

text \<open>A step of a loop, given what each of its calls keeps.\<close>

lemma bounded_fst: "bounded (fst r) \<Longrightarrow> r = (s, v) \<Longrightarrow> bounded s"
  by simp

section \<open>The claim\<close>

lemma bounded_probe_loop: "attentive h \<Longrightarrow> bounded s \<Longrightarrow> bounded (fst (probe_loop h a n s))"
proof (induction n arbitrary: s)
  case (Suc n)
  obtain s1 r1 where t: "tx_send h (probe_frame h a) s = (s1, r1)" by fastforce
  obtain s2 r2 where w: "wait h (ru_now s1 + PROBE_INTERVAL) (objection a (ho_mac h)) s1 = (s2, r2)" by fastforce
  have s1: "bounded s1" using Suc.prems(2) bounded_send(1) [of h "probe_frame h a" s] t by simp
  have "bounded s2"
    by (rule bounded_fst [OF bounded_wait [OF Suc.prems(1) s1] w]) (simp add: objection_def)
  with s1 t w Suc.IH [OF Suc.prems(1)] show ?case by (cases r1; cases r2) simp_all
qed simp

lemma bounded_claim_one: "attentive h \<Longrightarrow> bounded s \<Longrightarrow> bounded (fst (claim_one h a s))"
  using bounded_probe_loop [of h "s\<lparr>nd_probing := True\<rparr>" a "unat PROBE_TRIES"]
  by (simp add: claim_one_def case_prod_beta)

lemma bounded_claim_tries: "attentive h \<Longrightarrow> bounded s \<Longrightarrow> bounded (fst (claim_tries h pick ns s))"
proof (induction ns arbitrary: s)
  case (Cons n ns)
  let ?a = "pick (node_seed h (word_of_nat n) s)"
  obtain s1 r1 where c: "claim_one h ?a s = (s1, r1)" by fastforce
  have "bounded s1" by (rule bounded_fst [OF bounded_claim_one [OF Cons.prems] c])
  with c Cons.IH [OF Cons.prems(1)] show ?case by (cases r1) (simp_all add: Let_def)
qed simp

lemma bounded_info_tries: "attentive h \<Longrightarrow> bounded s \<Longrightarrow> bounded (fst (info_tries h a n s))"
proof (induction n arbitrary: s)
  case (Suc n)
  obtain s1 r1 where t: "send_from h 6 (mk_addr 0 255) 6 DDP_ZIP (zip_encode (ZipGetNetInfo REQUESTED_ZONE)) s = (s1, r1)"
    by fastforce
  obtain s2 r2 where w: "wait h (ru_now s1 + NETINFO_INTERVAL) (verdict_on a) s1 = (s2, r2)" by fastforce
  have s1: "bounded s1"
    by (rule bounded_fst [OF _ t]) (use Suc.prems(2) in \<open>simp only: bounded_send\<close>)
  have "bounded s2"
    by (rule bounded_fst [OF bounded_wait [OF Suc.prems(1) s1] w]) (simp add: verdict_on_def)
  with s1 t w Suc.IH [OF Suc.prems(1)] show ?case by (cases r1; cases r2) simp_all
qed simp

lemma bounded_claim:
  assumes "attentive h"
  shows "bounded (fst (node_claim h want now inbox))"
proof -
  have start: "bounded (node_start now inbox)" by (simp add: bounded_def node_start_def open_ok_Nil)
  obtain s1 r1 where f: "first_claim h want (node_start now inbox) = (s1, r1)" by fastforce
  have s1: "bounded s1"
  proof (cases want)
    case Discover
    show ?thesis by (rule bounded_fst [OF bounded_claim_tries [OF assms start]])
      (rule f [unfolded Discover first_claim_def want.case claim_any_def])
  next
    case (OnNet net)
    show ?thesis by (rule bounded_fst [OF bounded_claim_tries [OF assms start]])
      (rule f [unfolded OnNet first_claim_def want.case claim_in_range_def])
  next
    case (Exactly a)
    obtain s2 r2 where c: "claim_one h a (node_start now inbox) = (s2, r2)" by fastforce
    have "bounded s2" by (rule bounded_fst [OF bounded_claim_one [OF assms start] c])
    then show ?thesis using f start by (cases r2) (auto simp: first_claim_def Exactly c split: if_splits)
  qed
  have settle: "bounded (fst (settle_in h want s))" if s: "bounded s" for s
  proof -
    obtain s1 got where g: "get_net_info h s = (s1, got)" by fastforce
    have s1: "bounded s1"
      by (rule bounded_fst [OF bounded_info_tries [OF assms s] g [unfolded get_net_info_def]])
    show ?thesis
    proof (cases got)
      case None
      with g s1 show ?thesis by (simp add: settle_in_def)
    next
      case (Some x)
      obtain v z r where x: "x = (v, z, r)" by (cases x)
      let ?s1 = "s1\<lparr>nd_router := Some r, nd_zone := Some z\<rparr>"
      have "bounded ?s1" using s1 by simp
      note b1 = this
      show ?thesis
      proof (cases "v = Keep \<or> want \<noteq> Discover")
        case True
        with g Some x b1 show ?thesis by (cases v) (auto simp: settle_in_def)
      next
        case False
        then obtain rng where v: "v = Repick rng" by (cases v) auto
        obtain s2 r2 where c: "claim_in_range h rng ?s1 = (s2, r2)" by fastforce
        have "bounded s2"
          by (rule bounded_fst [OF bounded_claim_tries [OF assms b1] c [unfolded claim_in_range_def]])
        then show ?thesis using g Some x v False c by (cases r2) (auto simp: settle_in_def)
      qed
    qed
  qed
  show ?thesis
  proof (cases r1)
    case (Inl err)
    with f s1 show ?thesis by (simp add: node_claim_def)
  next
    case (Inr a)
    with f s1 settle [of "s1\<lparr>nd_addr := a\<rparr>"] show ?thesis by (simp add: node_claim_def)
  qed
qed

section \<open>The questions\<close>

lemma bounded_gather: "attentive h \<Longrightarrow> bounded s \<Longrightarrow> bounded (gather h dl nid s)"
proof (induction h dl nid s rule: gather.induct)
  case (1 h dl nid s)
  obtain s1 r1 where w: "wait h dl (take_tuples nid) s = (s1, r1)" by fastforce
  have s1: "bounded s1"
    by (rule bounded_fst [OF bounded_wait [OF "1.prems"] w]) (simp add: take_tuples_def Let_def)
  show ?case
  proof (cases r1)
    case None
    with w s1 show ?thesis by (subst gather.simps) simp
  next
    case (Some u)
    have "bounded (gather h dl nid s1)"
      using "1.IH" [OF w [symmetric] Some] "1.prems"(1) s1 by blast
    with w Some show ?thesis by (subst gather.simps) simp
  qed
qed

lemma bounded_lookup_tries:
  "attentive h \<Longrightarrow> bounded s \<Longrightarrow> bounded (fst (lookup_tries h nid dst body n found s))"
proof (induction n arbitrary: s found)
  case (Suc n)
  obtain s1 r1 where t: "send_ddp h dst 2 DDP_NBP body s = (s1, r1)" by fastforce
  have s1: "bounded s1" by (rule bounded_fst [OF _ t]) (use Suc.prems(2) in \<open>simp only: bounded_send\<close>)
  then have "bounded ((gather h (ru_now s1 + LOOKUP_INTERVAL) nid s1)\<lparr>nd_pending := []\<rparr>)"
    using bounded_gather [OF Suc.prems(1)] by simp
  with s1 t Suc.IH [OF Suc.prems(1)] show ?case by (cases r1) (simp_all add: Let_def)
qed simp

lemma bounded_lookup:
  assumes "attentive h" "bounded s"
  shows "bounded (fst (node_lookup h obj ty zone s))"
proof -
  let ?s = "s\<lparr>nd_next_id := nd_next_id s + 1\<rparr>"
  obtain dst body where d: "lookup_frame_data ?s (ucast (nd_next_id s + 1)) obj ty zone = (dst, body)" by fastforce
  obtain s1 r1 where l: "lookup_tries h (ucast (nd_next_id s + 1)) dst body LOOKUP_TRIES [] ?s = (s1, r1)" by fastforce
  have "bounded ?s" using assms(2) by simp
  then have "bounded s1" by (rule bounded_fst [OF bounded_lookup_tries [OF assms(1)] l])
  then show ?thesis by (cases r1) (simp_all add: node_lookup_def next_id_def d l Let_def)
qed

lemma bounded_ping_one:
  assumes "attentive h" "bounded s"
  shows "bounded (fst (ping_one h tgt magic seq s))"
proof -
  let ?body = "aep_encode \<lparr>ae_func = EchoRequest, ae_data = echo_data magic seq\<rparr>"
  obtain s1 r1 where t: "send_ddp h tgt 4 DDP_AEP ?body s = (s1, r1)" by fastforce
  obtain s2 got where w: "wait h (ru_now s + PING_INTERVAL) (echo_of magic seq) s1 = (s2, got)" by fastforce
  have s1: "bounded s1" by (rule bounded_fst [OF _ t]) (use assms(2) in \<open>simp only: bounded_send\<close>)
  have s2: "bounded s2"
    by (rule bounded_fst [OF bounded_wait [OF assms(1) s1] w]) (simp add: echo_of_def)
  have "bounded (fst (wait h dl (\<lambda>s _. (s, None :: unit option)) s2))" for dl
    by (rule bounded_wait [OF assms(1) s2]) simp
  with s1 s2 t w show ?thesis by (cases r1) (simp_all add: ping_one_def Let_def)
qed

lemma bounded_ping_loop: "attentive h \<Longrightarrow> bounded s \<Longrightarrow> bounded (fst (ping_loop h tgt magic seqs s))"
proof (induction seqs arbitrary: s)
  case (Cons seq seqs)
  obtain s1 r1 where o: "ping_one h tgt magic (word_of_nat seq) s = (s1, r1)" by fastforce
  have s1: "bounded s1" by (rule bounded_fst [OF bounded_ping_one [OF Cons.prems] o])
  obtain s2 r2 where l: "ping_loop h tgt magic seqs s1 = (s2, r2)" by fastforce
  have "bounded s2" by (rule bounded_fst [OF Cons.IH [OF Cons.prems(1) s1] l])
  with s1 o l show ?case by (cases r1; cases r2) simp_all
qed simp

lemma bounded_page_tries: "attentive h \<Longrightarrow> bounded s \<Longrightarrow> bounded (fst (page_tries h router tid body n s))"
proof (induction n arbitrary: s)
  case (Suc n)
  obtain s1 r1 where t: "send_ddp h router 6 DDP_ATP body s = (s1, r1)" by fastforce
  obtain s2 r2 where w: "wait h (ru_now s1 + ZONE_INTERVAL) (take_page router tid) s1 = (s2, r2)" by fastforce
  have s1: "bounded s1" by (rule bounded_fst [OF _ t]) (use Suc.prems(2) in \<open>simp only: bounded_send\<close>)
  have "bounded s2"
    by (rule bounded_fst [OF bounded_wait [OF Suc.prems(1) s1] w]) (auto simp: take_page_def bounded_def)
  with s1 t w Suc.IH [OF Suc.prems(1)] show ?case by (cases r1; cases r2) simp_all
qed simp

lemma bounded_page_loop:
  "attentive h \<Longrightarrow> bounded s \<Longrightarrow> bounded (fst (page_loop h router pages start zones s))"
proof (induction pages arbitrary: start zones s)
  case (Suc pages)
  let ?tid = "nd_next_id s + 1" let ?s = "s\<lparr>nd_next_id := ?tid\<rparr>"
  obtain s1 r1 where p: "page_tries h router ?tid (atp_encode (zone_list_request ?tid start)) ZONE_TRIES ?s = (s1, r1)"
    by fastforce
  have "bounded ?s" using Suc.prems(2) by simp
  then have s1: "bounded s1" by (rule bounded_fst [OF bounded_page_tries [OF Suc.prems(1)] p])
  show ?case
  proof (cases r1)
    case (Inl err)
    with p s1 show ?thesis by (simp add: next_id_def)
  next
    case (Inr reply)
    with p s1 Suc.IH [OF Suc.prems(1) s1] show ?thesis
      by (cases "next_start start reply") (simp_all add: next_id_def Let_def)
  qed
qed simp

section \<open>Property\<close>

text \<open>
  C20: However busy the wire, a node's memory of it is bounded: from the claim on, and through every lookup,
  ping and zone listing, it holds at most 512 open transactions and 64 messages.
\<close>

theorem node_memory_bounded:
  assumes "attentive h"
  shows "bounded (fst (node_claim h want now inbox))
    \<and> (bounded s \<longrightarrow> bounded (fst (node_lookup h obj ty zone s)) \<and> bounded (fst (node_ping h tgt cnt s))
         \<and> bounded (fst (node_zones h s)))"
proof -
  have "bounded (fst (node_ping h tgt cnt s))" if "bounded s"
    using bounded_ping_loop [OF assms that, of tgt "ucast (node_seed h 0 s)" "[0..<unat cnt]"]
    by (cases "ping_loop h tgt (ucast (node_seed h 0 s)) [0..<unat cnt] s") (auto simp: node_ping_def split: sum.split)
  moreover have "bounded (fst (node_zones h s))" if "bounded s"
    using bounded_page_loop [OF assms that] that by (simp add: node_zones_def split: option.split)
  ultimately show ?thesis using bounded_claim [OF assms] bounded_lookup [OF assms] by blast
qed

theorem node_memory_bounded_witness:
  "bounded (fst (node_claim example_host Discover 0 [(5, EPacket 5 0 (example_page (mk_addr 8 1) 77 (lit ''Far'')))]))
   \<and> bounded (fst (node_zones example_host (example_node (Some (mk_addr 5 1)) [])))"
  using node_memory_bounded [OF attentive_example, where s = "example_node (Some (mk_addr 5 1)) []"]
  by (simp add: bounded_def example_node_def node_start_def open_ok_Nil)

end
