(* ===== verification/Spec2Isabelle.thy ===== *)
theory Spec2Isabelle
  imports Wire_Decode Wire_LLAP Wire_AURP Capture_Open Tashtalk Ltoudp Reader_Threads Session
    Routing_Properties Port_Properties Aurp_Dialog Service_Properties Config_Files
    Router_Properties Run_Properties Router_Dump Bridge_Loop Node_Bounds Commands Wire_Text Aurp_Properties
begin

text \<open>
  A verification library for appletalk, a user-space AppleTalk stack in Rust: a router between EtherTalk,
  LocalTalk over UDP (LToUDP), LocalTalk through a TashTalk UART, and AURP tunnels over the internet; a bridge
  between Ethernet and LToUDP; a node that claims an address and asks the network questions; and a passive
  monitor.  Every source file under \<open>src/src\<close> is modelled.  Definitions keep the names of the code where they
  can; a definition that clashes with a library name has its module in front (\<open>ddp_parse\<close> is \<open>Ddp::parse\<close>).

  HOW THE PROGRAM IS PUT TOGETHER.  Reader threads (one per link, and one for the AURP socket) read, decode and
  post events on one bounded queue.  A single loop takes them: \<open>text::run\<close> prints them, \<open>Node::wait\<close> hears them
  while a question is open, \<open>bridge::run\<close> steps the bridge with them, \<open>router::run\<close> steps the router.  The
  bridge and the router are pure state machines: a step takes an input and the time and returns actions, which
  the loop carries out.  The router is its ports (an address claim and an address table each), the routing
  and zone tables, the local services (RTMP, ZIP, NBP, echo) and the AURP peers.

  THEORIES, IN THE ORDER THEY BUILD ON ONE ANOTHER.
    Prelude, Codec, Selection: machine integers, Rust's checked slice accessors, strings as code points and
      the clock; the interfaces of a packet codec, of a prefix codec called in a loop, and of a loop that keeps
      the best item.  They are locales, which the wire types and the routing choice interpret.
    Wire_Base, Wire_Frame, Wire_LLAP, Wire_DDP, Wire_AARP, Wire_AEP, Wire_ATP, Wire_NBP, Wire_RTMP, Wire_ZIP,
    Wire_AURP, Wire_Decode (\<open>wire/*.rs\<close>): a datatype or record, a parser and an encoder for each packet, and
      round trips both ways wherever the format determines the bytes.
    Tashtalk (\<open>tashtalk.rs\<close>), Ltoudp (\<open>ltoudp.rs\<close>), Capture and Capture_Open (\<open>capture.rs\<close>), Session
      (\<open>session.rs\<close>): the escape decoder and its check sequence, the datagram rule, the queue, the choice of an
      interface, and the reassembly of ATP transactions.
    Readers, Reader_Threads: the read loops, and any number of them interleaved with the consumer.
    Router_Base, Routing_Table, Routing_Update, Routing_Choice, Routing_Shares, Routing_Invariants,
    Routing_Properties (\<open>router/table.rs\<close>): the tables as a transition system.
    Node (\<open>node.rs\<close>, its decisions), Ports, Port_Properties (\<open>router/ports.rs\<close>): claiming an address.
    Aurp_Peer, Aurp_Peers, Aurp_Queue, Aurp_Invariants, Aurp_Properties, Aurp_Dialog (\<open>router/aurp.rs\<close>): the
      two one-way connections of a tunnel, the table of peers, and two routers over a network that loses,
      repeats and reorders.
    Local_Services, Service_Pages, Service_Properties (\<open>router/local.rs\<close>): the services and how they cut lists
      into packets.
    Config, Config_Properties, Config_Files (\<open>config.rs\<close>): specs, the merge of file and command line, the
      checks, and the import of peers with every moment at which it may be interrupted.
    Router, Router_Invariants, Router_Properties, Router_Run, Run_Properties, Router_Dump (\<open>router/mod.rs\<close>):
      the step, forwarding, the run loop, and what the operator is shown.
    Bridge, Bridge_Properties, Bridge_Refinement, Bridge_Traffic, Bridge_Loop (\<open>bridge.rs\<close>): the bridge, the
      machine of four beliefs it refines, everything it can say, and its loop.
    Node_Run, Node_Talk, Node_Claims, Node_Client, Node_Questions, Node_Bounds (\<open>node.rs\<close>, the methods): the
      startup, lookup, ping and zone list over explicit time.
    Monitor, Commands, Wire_Text (\<open>text.rs\<close>, \<open>cli.rs\<close>, \<open>main.rs\<close> and every \<open>Display\<close>): what is printed.

  HOW STATE AND OPERATIONS CORRESPOND.  A struct is a record with one field for each of its fields; a method on
  \<open>&mut self\<close> takes the record last and returns it first, with the actions it appends.  An early return or \<open>?\<close> is
  a branch; an error is \<open>Inl\<close> or \<open>None\<close>.  Integers keep their width as words, so that wrap-around is the
  code's; \<open>Instant\<close> and \<open>Duration\<close> are natural numbers, and a difference of instants saturates as in Rust.  A
  \<open>BTreeMap\<close> is a sorted association list, a \<open>HashMap\<close> a map, with the order of an iteration that can be
  observed as a parameter.

  WHAT THE LEMMAS SHOW.  Codecs: parse after encode, and encode after parse, for all well-formed values, and
  that what is parsed is well-formed.  Tables: the invariant under every operation, that the best route is the
  best, that the changes reported are exact, split horizon.  Ports: a held address is legal, kept and
  defended, and a claim takes its full silence.  Tunnels: the invariant of the table, that a peer speaks for
  itself only, that an export crosses exactly once and completes, that collapsing pending events cannot be
  noticed.  Services: lists arrive whole, a lookup reaches the cables of its zone.  Router: our own networks
  stay ours whatever arrives, forwarding ends, delivery, echo, no action on a wrong link.  Bridge: refinement
  of the belief machine, no answer for a node that is not there, no false denial, datagrams unchanged, timers
  served.  Node: exactly when a claim succeeds, what a lookup and a ping return, that the zone list is the
  walk over the pages, and that memory is bounded.  Readers: no event is lost uncounted.  Files: an
  interrupted import leaves the configuration whole.  Monitor: nothing but printable ASCII is printed.

  PARAMETERS.  \<open>seed\<close>: the hash that seeds an address claim (the standard hasher is unspecified).  \<open>entries\<close>,
  \<open>order\<close>, \<open>ord\<close>: the iteration order of a hash map.  \<open>nanos\<close>: the clock that seeds connection IDs.  \<open>nic\<close>,
  \<open>sock\<close>, \<open>uart\<close>, \<open>bound\<close>, \<open>ifaces\<close>, \<open>chan\<close>: what opening a link yields.  \<open>dns\<close>: the resolver.  The record
  \<open>host\<close>: a node's hardware address, what its clock and its NIC answer, and the order of its hash map.  \<open>ms\<close>: how the pnet crate
  writes a hardware address.  The records \<open>toml\<close> and \<open>faults\<close>: reading and writing TOML, and which file
  operations fail.  The events a loop receives, with their times, are a list.

  BOUNDS AND TERMINATION.  Every definition is total.  The parsers' loops recurse on what is left of the
  buffer and stop when nothing is consumed.  A node's walk over zone pages has the code's own limit of 1000
  pages, which is enough for any list of fewer than 17000 zones, since a page holds at least 17 of them.
  Forwarding is bounded by twice the hops left of 15, since the exit from a tunnel counts none.  Loops over
  received events recurse on the list of events.

  WHAT MODELLING FOUND.  A route tuple with its range the wrong way round becomes a second entry at one of our
  own networks (inverted_range_slips_in).  The router's timers starve under a steady trickle of frames
  (traffic_starves_timers); the bridge's do not (bridge_keeps_time).  A restarted export is never heard once
  two pages were learned (restart_unheard); a refresh leaves stale events (refresh_leaves_stale); a repeated
  Open-Req desynchronises (repeated_open_desyncs, repeated_open_blocks_restart); a name that moves may stay
  with both addresses (moved_name_stays).  Another node's zone list can be taken for our page
  (foreign_page_taken).  The operator's dump prints zone names raw, so that one can forge a line
  (zone_name_forges_line), and the columns of its peers slip (peer_columns_move).

  NOT MODELLED.  The pnet, socket2, serialport, ureq, toml_edit and clap crates and the operating system: they
  are parameters above.  Starting a thread and installing a signal handler, of which only the effect on the
  queue and the flags is modelled.  What is narrated on standard error, beyond the log lines the router
  returns as actions and the reports of the bridge.  \<open>Debug\<close> output of a name in two messages, and the
  percentage a ping prints as a floating-point number.  Unit tests.
\<close>

text \<open>
  A frame built from a DDP datagram whose data is an encoded ATP, RTMP, AEP, NBP or ZIP packet is
  decoded back to exactly that frame, datagram and packet, whatever padding the frame encoder added.
\<close>

theorem decode_full_stack:
  assumes "wf_frame f" "f_proto f = DDP" "f_payload f = ddp_encode d"
    and "wf_ddp d" "d_typ d = body_typ b" "d_data d = body_bytes b" "wf_body b"
  shows "decode (frame_encode f) = Some \<lparr>pk_frame = f, pk_body = BDdp d b\<rparr>"
  using assms decode_ddp_body_encode [of b d] by (simp add: decode_frame_ddp)

theorem decode_full_stack_witness:
  "decode (frame_encode
     \<lparr>f_dst = Mac 9 0 7 255 255 255, f_src = Mac 0 5 2 170 187 204, f_proto = DDP, f_snap = True,
      f_payload = ddp_encode
        \<lparr>d_hops = 3, d_length = 16, d_checksum = 0, d_dst = mk_addr 3 42, d_dst_socket = 4,
         d_src = mk_addr 5 9, d_src_socket = 4, d_typ = 4, d_data = [1, 7, 8]\<rparr>\<rparr>) =
   Some \<lparr>pk_frame =
     \<lparr>f_dst = Mac 9 0 7 255 255 255, f_src = Mac 0 5 2 170 187 204, f_proto = DDP, f_snap = True,
      f_payload = ddp_encode
        \<lparr>d_hops = 3, d_length = 16, d_checksum = 0, d_dst = mk_addr 3 42, d_dst_socket = 4,
         d_src = mk_addr 5 9, d_src_socket = 4, d_typ = 4, d_data = [1, 7, 8]\<rparr>\<rparr>,
     pk_body = BDdp
        \<lparr>d_hops = 3, d_length = 16, d_checksum = 0, d_dst = mk_addr 3 42, d_dst_socket = 4,
         d_src = mk_addr 5 9, d_src_socket = 4, d_typ = 4, d_data = [1, 7, 8]\<rparr>
        (BAep \<lparr>ae_func = EchoRequest, ae_data = [7, 8]\<rparr>)\<rparr>"
  by (rule decode_full_stack)
     (simp_all add: wf_frame_def wf_ddp_def length_ddp_encode DDP_AEP_def aep_encode_def)

end
